(* ===== verification/Prelude.thy ===== *)
theory Prelude
  imports Main "HOL-Library.Multiset"
begin

text \<open>
  Shared vocabulary of the development: the byte and descriptor types every
  component uses, the collections of facts the component proofs draw on, and
  the generic facts about lists the models share.
\<close>

type_synonym bytes = string
type_synonym path = string
type_synonym fd = int

named_theorems cstring_simps \<open>evaluation of the C string functions\<close>
named_theorems kernel_simps \<open>effect of one kernel call on one kernel field\<close>
named_theorems inv_intros \<open>preservation of a component's invariant\<close>

section \<open>Lists\<close>

lemma length_list_update_const [simp]: "length (xs[i := x, j := y]) = length xs"
  by simp

lemma nth_update_cases:
  "i < length xs \<Longrightarrow> (xs[i := x]) ! j = (if i = j then x else xs ! j)"
  by (simp add: nth_list_update)

lemma takeWhile_id: "\<forall>c\<in>set s. P c \<Longrightarrow> takeWhile P s = s"
  by (simp add: takeWhile_eq_all_conv)

lemma takeWhile_stop: "\<forall>c\<in>set a. P c \<Longrightarrow> \<not> P d \<Longrightarrow> takeWhile P (a @ d # b) = a"
  by (induction a) auto

lemma dropWhile_stop: "\<forall>c\<in>set a. P c \<Longrightarrow> \<not> P d \<Longrightarrow> dropWhile P (a @ d # b) = d # b"
  by (induction a) auto

lemma take_append_exact: "take (length a) (a @ b) = a"
  by simp

lemma take_drop_append: "take n xs @ drop n xs @ ys = xs @ ys"
  by (metis append.assoc append_take_drop_id)

lemma concat_map_update_nil:
  assumes "i < length xs" and "f y = []"
  shows "mset (concat (map f (xs[i := y]))) + mset (f (xs ! i)) = mset (concat (map f xs))"
  using assms
proof (induction xs arbitrary: i)
  case Nil
  then show ?case by simp
next
  case (Cons x xs)
  then show ?case by (cases i) (auto simp: ac_simps)
qed

lemma mem_map_filter: "y \<in> set (List.map_filter f xs) \<longleftrightarrow> (\<exists>x\<in>set xs. f x = Some y)"
  by (induction xs) (auto simp: map_filter_simps split: option.splits)

lemma sum_update:
  fixes f :: "nat \<Rightarrow> 'a \<Rightarrow> 'b :: ab_group_add"
  assumes "i < length ts"
  shows "(\<Sum>j<length ts. f j (ts[i := t] ! j)) = (\<Sum>j<length ts. f j (ts ! j)) - f i (ts ! i) + f i t"
proof -
  have split: "(\<Sum>j<length ts. g j) = g i + (\<Sum>j\<in>{..<length ts} - {i}. g j)" for g :: "nat \<Rightarrow> 'b"
    using assms by (intro sum.remove) auto
  have "(\<Sum>j\<in>{..<length ts} - {i}. f j (ts[i := t] ! j)) = (\<Sum>j\<in>{..<length ts} - {i}. f j (ts ! j))"
    by (intro sum.cong) auto
  then show ?thesis using assms unfolding split by simp
qed

section \<open>Folding a step that may fail\<close>

fun ofold :: "('a \<Rightarrow> 's \<Rightarrow> 's option) \<Rightarrow> 'a list \<Rightarrow> 's \<Rightarrow> 's option" where
  "ofold f [] s = Some s"
| "ofold f (x # xs) s = (case f x s of None \<Rightarrow> None | Some s' \<Rightarrow> ofold f xs s')"

lemma ofold_append [simp]:
  "ofold f (xs @ ys) s = (case ofold f xs s of None \<Rightarrow> None | Some s' \<Rightarrow> ofold f ys s')"
  by (induction xs arbitrary: s) (auto split: option.splits)

lemma ofold_invariant:
  assumes "ofold f xs s = Some t" "I s"
    and "\<And>x u v. x \<in> set xs \<Longrightarrow> I u \<Longrightarrow> f x u = Some v \<Longrightarrow> I v"
  shows "I t"
  using assms
proof (induction xs arbitrary: s)
  case Nil
  then show ?case by simp
next
  case (Cons x xs)
  from Cons.prems(1) obtain u where u: "f x s = Some u" "ofold f xs u = Some t"
    by (auto split: option.splits)
  have "I u" using Cons.prems(3)[OF _ Cons.prems(2) u(1)] by simp
  then show ?case using Cons.IH[OF u(2)] Cons.prems(3) by (meson list.set_intros(2))
qed

lemma ofold_total:
  assumes "\<And>x u. x \<in> set xs \<Longrightarrow> \<exists>v. f x u = Some v"
  shows "\<exists>t. ofold f xs s = Some t"
  using assms
proof (induction xs arbitrary: s)
  case Nil
  then show ?case by simp
next
  case (Cons x xs)
  obtain v where "f x s = Some v" using Cons.prems[of x s] by auto
  moreover have "\<exists>t. ofold f xs v = Some t" using Cons.prems by (intro Cons.IH) auto
  ultimately show ?case by simp
qed

lemma ofold_fails:
  assumes "x \<in> set xs" "\<And>u. f x u = None"
  shows "ofold f xs s = None"
  using assms by (induction xs arbitrary: s) (auto split: option.splits)

lemma ofold_cong_skip:
  assumes "\<And>x u. x \<in> set xs \<Longrightarrow> \<not> P x \<Longrightarrow> f x u = Some u"
  shows "ofold f xs s = ofold f (filter P xs) s"
  using assms by (induction xs arbitrary: s) (auto split: option.splits)

section \<open>State transformers\<close>

text \<open>
  A function that returns a result and the new state keeps a predicate on the
  state when its second component does.
\<close>

definition keeps :: "('s \<Rightarrow> bool) \<Rightarrow> ('s \<Rightarrow> 's) \<Rightarrow> bool" where
  "keeps I f \<longleftrightarrow> (\<forall>s. I s \<longrightarrow> I (f s))"

lemma keepsI: "(\<And>s. I s \<Longrightarrow> I (f s)) \<Longrightarrow> keeps I f"
  by (simp add: keeps_def)

lemma keepsD: "keeps I f \<Longrightarrow> I s \<Longrightarrow> I (f s)"
  by (simp add: keeps_def)

lemma keeps_comp: "keeps I f \<Longrightarrow> keeps I g \<Longrightarrow> keeps I (\<lambda>s. g (f s))"
  by (simp add: keeps_def)

lemma keeps_fold: "(\<And>x. x \<in> set xs \<Longrightarrow> keeps I (f x)) \<Longrightarrow> keeps I (fold f xs)"
  by (induction xs) (auto simp: keeps_def)

end
