(* ===== verification/CString.thy ===== *)
theory CString
  imports Prelude
begin

text \<open>
  The part of the C string library the programs call: buffers are \<open>string\<close>
  values that may contain NUL bytes, \<open>cstr\<close> is the C string a buffer holds.
\<close>

section \<open>Strings in buffers\<close>

abbreviation NUL :: char where "NUL \<equiv> CHR 0x00"
abbreviation NL :: char where "NL \<equiv> CHR 0x0A"

definition cstr :: "bytes \<Rightarrow> string" where
  "cstr b = takeWhile (\<lambda>c. c \<noteq> NUL) b"

definition nonul :: "string \<Rightarrow> bool" where
  "nonul s \<longleftrightarrow> NUL \<notin> set s"

lemma cstr_nonul [simp, cstring_simps]: "nonul s \<Longrightarrow> cstr s = s"
  unfolding cstr_def nonul_def by (rule takeWhile_id) auto

lemma nonul_cstr [simp]: "nonul (cstr b)"
  unfolding cstr_def nonul_def by (auto dest: set_takeWhileD)

lemma nonul_append [simp]: "nonul (a @ b) \<longleftrightarrow> nonul a \<and> nonul b"
  by (auto simp: nonul_def)

lemma nonul_Nil [simp]: "nonul []"
  by (simp add: nonul_def)

lemma nonul_Cons [simp]: "nonul (c # s) \<longleftrightarrow> c \<noteq> NUL \<and> nonul s"
  by (auto simp: nonul_def)

lemma nonul_take [intro]: "nonul s \<Longrightarrow> nonul (take n s)"
  unfolding nonul_def by (auto dest: in_set_takeD)

lemma nonul_drop [intro]: "nonul s \<Longrightarrow> nonul (drop n s)"
  unfolding nonul_def by (auto dest: in_set_dropD)

text \<open>\<open>strncpy (dst, src, sizeof (dst) - 1); dst[sizeof (dst) - 1] = 0\<close>, and \<open>snprintf\<close>'s truncation.\<close>

definition strncpy0 :: "nat \<Rightarrow> string \<Rightarrow> string" where
  "strncpy0 sz s = take (sz - 1) (cstr s)"

definition snprintf_fits :: "nat \<Rightarrow> string \<Rightarrow> bool" where
  "snprintf_fits sz s \<longleftrightarrow> length s < sz"

definition snprintf :: "nat \<Rightarrow> string \<Rightarrow> string" where
  "snprintf sz s = take (sz - 1) s"

lemma snprintf_fits_id [simp]: "snprintf_fits sz s \<Longrightarrow> snprintf sz s = s"
  by (simp add: snprintf_fits_def snprintf_def)

lemma strncpy0_length: "0 < sz \<Longrightarrow> length (strncpy0 sz s) < sz"
  by (simp add: strncpy0_def)

lemma strncpy0_nonul [simp]: "nonul (strncpy0 sz s)"
  by (auto simp: strncpy0_def)

definition strncmp_eq :: "string \<Rightarrow> string \<Rightarrow> nat \<Rightarrow> bool" where
  "strncmp_eq a b n \<longleftrightarrow> take n (cstr a) = take n (cstr b)"

lemma strncmp_eq_prefix:
  "nonul p \<Longrightarrow> strncmp_eq (p @ s) p (length p)"
  by (induction p) (auto simp: strncmp_eq_def cstr_def)

section \<open>Searching for a character\<close>

fun strchr_split :: "char \<Rightarrow> string \<Rightarrow> (string \<times> string) option" where
  "strchr_split c [] = None"
| "strchr_split c (x # xs) =
     (if x = c then Some ([], xs)
      else map_option (\<lambda>(a, b). (x # a, b)) (strchr_split c xs))"

lemma strchr_split_None [simp]: "strchr_split c s = None \<longleftrightarrow> c \<notin> set s"
  by (induction s) auto

lemma strchr_split_absent [simp]: "c \<notin> set s \<Longrightarrow> strchr_split c s = None"
  by simp

lemma strchr_split_Some:
  "strchr_split c s = Some (a, b) \<longleftrightarrow> s = a @ c # b \<and> c \<notin> set a"
proof (induction s arbitrary: a)
  case Nil
  then show ?case by simp
next
  case (Cons x s)
  show ?case
  proof (cases a)
    case Nil
    then show ?thesis by (cases "strchr_split c s") auto
  next
    case (Cons y a')
    have "strchr_split c (x # s) = Some (a, b)
      \<longleftrightarrow> x \<noteq> c \<and> x = y \<and> strchr_split c s = Some (a', b)"
      using Cons by (cases "strchr_split c s") auto
    then show ?thesis using Cons Cons.IH[of a'] by auto
  qed
qed

lemma strchr_split_append [simp]:
  "c \<notin> set a \<Longrightarrow> strchr_split c (a @ c # b) = Some (a, b)"
  by (simp add: strchr_split_Some)

lemma strchr_split_shorter: "strchr_split c s = Some (a, b) \<Longrightarrow> length b < length s"
  by (auto simp: strchr_split_Some)

text \<open>\<open>strrchr (s, c)\<close>: the text before and after the last occurrence.\<close>

definition strrchr_split :: "char \<Rightarrow> string \<Rightarrow> (string \<times> string) option" where
  "strrchr_split c s =
     map_option (\<lambda>(a, b). (rev b, rev a)) (strchr_split c (rev s))"

lemma strrchr_split_None [simp]: "strrchr_split c s = None \<longleftrightarrow> c \<notin> set s"
  by (simp add: strrchr_split_def)

lemma strrchr_split_absent [simp]: "c \<notin> set s \<Longrightarrow> strrchr_split c s = None"
  by simp

lemma strrchr_split_Some:
  "strrchr_split c s = Some (a, b) \<longleftrightarrow> s = a @ c # b \<and> c \<notin> set b"
proof -
  have "strrchr_split c s = Some (a, b) \<longleftrightarrow> strchr_split c (rev s) = Some (rev b, rev a)"
    by (auto simp: strrchr_split_def)
  also have "\<dots> \<longleftrightarrow> rev s = rev b @ c # rev a \<and> c \<notin> set b"
    by (simp add: strchr_split_Some)
  also have "rev s = rev b @ c # rev a \<longleftrightarrow> s = a @ c # b"
    by (metis append_Cons append_assoc append_Nil rev.simps(2) rev_append rev_rev_ident)
  finally show ?thesis .
qed

text \<open>
  The idiom \<open>base = strrchr (p, '/'); if (base) base++; else base = p;\<close> that
  several of the programs use.
\<close>

definition path_basename :: "path \<Rightarrow> string" where
  "path_basename p = (case strrchr_split (CHR ''/'') p of Some (_, b) \<Rightarrow> b | None \<Rightarrow> p)"

lemma path_basename_no_slash: "CHR ''/'' \<notin> set (path_basename p)"
  by (auto simp: path_basename_def strrchr_split_Some split: option.splits)

lemma path_basename_append [simp]:
  "CHR ''/'' \<notin> set b \<Longrightarrow> path_basename (d @ CHR ''/'' # b) = b"
proof -
  assume "CHR ''/'' \<notin> set b"
  then have "strrchr_split (CHR ''/'') (d @ CHR ''/'' # b) = Some (d, b)"
    by (simp add: strrchr_split_Some)
  then show ?thesis by (simp add: path_basename_def)
qed

text \<open>\<open>strstr (hay, needle) != NULL\<close>.\<close>

fun strstr_found :: "string \<Rightarrow> string \<Rightarrow> bool" where
  "strstr_found [] needle = (needle = [])"
| "strstr_found (x # xs) needle =
     (take (length needle) (x # xs) = needle \<or> strstr_found xs needle)"

lemma strstr_found_iff: "strstr_found hay needle \<longleftrightarrow> (\<exists>a b. hay = a @ needle @ b)"
proof (induction hay)
  case Nil
  then show ?case by auto
next
  case (Cons x xs)
  show ?case
  proof
    assume "strstr_found (x # xs) needle"
    then consider "take (length needle) (x # xs) = needle" | "strstr_found xs needle" by auto
    then show "\<exists>a b. x # xs = a @ needle @ b"
    proof cases
      case 1
      then have "x # xs = [] @ needle @ drop (length needle) (x # xs)"
        by (metis append_Nil append_take_drop_id)
      then show ?thesis by blast
    next
      case 2
      with Cons obtain a b where "xs = a @ needle @ b" by blast
      then have "x # xs = (x # a) @ needle @ b" by simp
      then show ?thesis by blast
    qed
  next
    assume "\<exists>a b. x # xs = a @ needle @ b"
    then obtain a b where ab: "x # xs = a @ needle @ b" by blast
    show "strstr_found (x # xs) needle"
    proof (cases a)
      case Nil
      with ab have "take (length needle) (x # xs) = needle" by simp
      then show ?thesis by simp
    next
      case (Cons y a')
      with ab have "xs = a' @ needle @ b" by simp
      with Cons.IH show ?thesis by auto
    qed
  qed
qed

end
