(* ===== verification/Kernel.thy ===== *)
theory Kernel
  imports CString
begin

text \<open>
  The system calls the programs make, as far as the programs can see them. The
  state of the kernel is a record: the open descriptors of the process, the
  input waiting on each descriptor, the bytes written to each descriptor, the
  epoll registrations, the names that exist in the file system. What the
  environment decides (whether a call fails, how much of a write is taken, what
  a peer sends) is scripted in the record, so every theorem is for all scripts.

  The descriptors obey what POSIX documents: \<open>open\<close> returns the lowest
  descriptor not open in the process, or -1; \<open>close\<close> removes the descriptor
  (and, on Linux, its epoll registration).
\<close>

datatype errno = EAGAIN | EINTR | ECONNRESET | EPIPE | ENOENT | EEXIST | ENOTEMPTY | EOTHER

datatype read_res = RData bytes | REof | RErr errno

record kernel =
  k_fds    :: "fd list"
  k_names  :: "fd \<Rightarrow> path"
  k_in     :: "fd \<Rightarrow> read_res list"
  k_out    :: "fd \<Rightarrow> bytes"
  k_epoll  :: "(fd \<times> nat) list"
  k_fail   :: "bool list"
  k_wlim   :: "nat option list"
  k_exists :: "path list"
  k_dirs   :: "path list"

section \<open>Scripted outcomes\<close>

definition kfail :: "kernel \<Rightarrow> bool \<times> kernel" where
  "kfail k = (case k_fail k of [] \<Rightarrow> (False, k) | b # bs \<Rightarrow> (b, k\<lparr>k_fail := bs\<rparr>))"

section \<open>Descriptors\<close>

definition lowest_free :: "fd list \<Rightarrow> fd" where
  "lowest_free used =
     (case filter (\<lambda>i. i \<notin> set used) (map int [0..<Suc (length used)]) of
        [] \<Rightarrow> int (length used) | i # _ \<Rightarrow> i)"

definition kopen :: "path \<Rightarrow> kernel \<Rightarrow> fd \<times> kernel" where
  "kopen p k = (case kfail k of
     (True, k') \<Rightarrow> (-1, k')
   | (False, k') \<Rightarrow> let f = lowest_free (k_fds k') in
       (f, k'\<lparr>k_fds := f # k_fds k', k_names := (k_names k')(f := p)\<rparr>))"

definition kclose :: "fd \<Rightarrow> kernel \<Rightarrow> kernel" where
  "kclose f k = k\<lparr>k_fds := filter (\<lambda>g. g \<noteq> f) (k_fds k),
                  k_epoll := filter (\<lambda>e. fst e \<noteq> f) (k_epoll k)\<rparr>"

text \<open>\<open>read (f, buf, n)\<close> on a nonblocking descriptor: a longer item keeps its tail for the next call.\<close>

definition kread :: "fd \<Rightarrow> nat \<Rightarrow> kernel \<Rightarrow> read_res \<times> kernel" where
  "kread f n k = (case k_in k f of
     [] \<Rightarrow> (RErr EAGAIN, k)
   | RData s # rs \<Rightarrow>
       if s = [] then (REof, k\<lparr>k_in := (k_in k)(f := rs)\<rparr>)
       else if length s \<le> n then (RData s, k\<lparr>k_in := (k_in k)(f := rs)\<rparr>)
       else (RData (take n s), k\<lparr>k_in := (k_in k)(f := RData (drop n s) # rs)\<rparr>)
   | REof # rs \<Rightarrow> (REof, k\<lparr>k_in := (k_in k)(f := rs)\<rparr>)
   | RErr e # rs \<Rightarrow> (RErr e, k\<lparr>k_in := (k_in k)(f := rs)\<rparr>))"

text \<open>\<open>write\<close>: the next entry of the script says how much is taken (none: an error); by default all.\<close>

definition kwrite :: "fd \<Rightarrow> bytes \<Rightarrow> kernel \<Rightarrow> int \<times> kernel" where
  "kwrite f s k = (case k_wlim k of
     [] \<Rightarrow> (int (length s), k\<lparr>k_out := (k_out k)(f := k_out k f @ s)\<rparr>)
   | None # ws \<Rightarrow> (-1, k\<lparr>k_wlim := ws\<rparr>)
   | Some m # ws \<Rightarrow> (int (length (take m s)),
        k\<lparr>k_wlim := ws, k_out := (k_out k)(f := k_out k f @ take m s)\<rparr>))"

section \<open>epoll\<close>

definition kepoll_add :: "fd \<Rightarrow> nat \<Rightarrow> kernel \<Rightarrow> bool \<times> kernel" where
  "kepoll_add f d k = (case kfail k of
     (True, k') \<Rightarrow> (False, k')
   | (False, k') \<Rightarrow> (True, k'\<lparr>k_epoll := (f, d) # k_epoll k'\<rparr>))"

definition kepoll_del :: "fd \<Rightarrow> kernel \<Rightarrow> kernel" where
  "kepoll_del f k = (case kfail k of
     (True, k') \<Rightarrow> k'
   | (False, k') \<Rightarrow> k'\<lparr>k_epoll := filter (\<lambda>e. fst e \<noteq> f) (k_epoll k')\<rparr>)"

section \<open>Effect of the calls on the fields\<close>

lemma kfail_fields [simp, kernel_simps]:
  "k_fds (snd (kfail k)) = k_fds k" "k_in (snd (kfail k)) = k_in k"
  "k_out (snd (kfail k)) = k_out k" "k_epoll (snd (kfail k)) = k_epoll k"
  "k_exists (snd (kfail k)) = k_exists k" "k_names (snd (kfail k)) = k_names k"
  "k_wlim (snd (kfail k)) = k_wlim k" "k_dirs (snd (kfail k)) = k_dirs k"
  by (auto simp: kfail_def split: list.splits)

lemma kfail_fieldsD:
  assumes "kfail k = (b, k')"
  shows "k_fds k' = k_fds k \<and> k_in k' = k_in k \<and> k_out k' = k_out k \<and> k_epoll k' = k_epoll k
    \<and> k_exists k' = k_exists k \<and> k_names k' = k_names k \<and> k_wlim k' = k_wlim k
    \<and> k_dirs k' = k_dirs k"
  using assms kfail_fields[of k] by auto

lemma lowest_free_fresh: "lowest_free used \<notin> set used \<and> 0 \<le> lowest_free used"
proof -
  let ?c = "filter (\<lambda>i. i \<notin> set used) (map int [0..<Suc (length used)])"
  have "?c \<noteq> []"
  proof
    assume "?c = []"
    then have "\<forall>i\<in>set (map int [0..<Suc (length used)]). i \<in> set used"
      by (simp only: filter_empty_conv) blast
    then have sub: "int ` {0..<Suc (length used)} \<subseteq> set used"
      by (simp only: set_map set_upt) blast
    have "card (int ` {0..<Suc (length used)}) = Suc (length used)"
      by (simp add: card_image)
    moreover have "card (set used) \<le> length used" by (rule card_length)
    ultimately show False using card_mono[OF _ sub] by simp
  qed
  then obtain i c where c: "?c = i # c" by (meson list.exhaust)
  then have "i \<in> set ?c" by (simp only: list.set_intros)
  then have "i \<notin> set used \<and> 0 \<le> i" by (simp only: set_filter set_map) auto
  with c show ?thesis by (simp add: lowest_free_def)
qed

lemma kopen_cases:
  assumes "kopen p k = (f, k')"
  obtains (fail) "f = -1" "k_fds k' = k_fds k"
  | (ok) "f \<notin> set (k_fds k)" "0 \<le> f" "k_fds k' = f # k_fds k"
  using assms lowest_free_fresh
  by (fastforce simp: kopen_def Let_def split: prod.splits bool.splits dest!: kfail_fieldsD)

lemma kopen_frame [simp, kernel_simps]:
  "k_in (snd (kopen p k)) = k_in k" "k_out (snd (kopen p k)) = k_out k"
  "k_epoll (snd (kopen p k)) = k_epoll k" "k_exists (snd (kopen p k)) = k_exists k"
  by (auto simp: kopen_def Let_def split: prod.splits bool.splits dest!: kfail_fieldsD)

lemma kclose_fields [simp, kernel_simps]:
  "k_in (kclose f k) = k_in k" "k_out (kclose f k) = k_out k"
  "k_exists (kclose f k) = k_exists k"
  "k_fds (kclose f k) = filter (\<lambda>g. g \<noteq> f) (k_fds k)"
  "k_epoll (kclose f k) = filter (\<lambda>e. fst e \<noteq> f) (k_epoll k)"
  "k_fail (kclose f k) = k_fail k"
  by (simp_all add: kclose_def)

lemma kread_fields [simp, kernel_simps]:
  "k_fds (snd (kread f n k)) = k_fds k" "k_epoll (snd (kread f n k)) = k_epoll k"
  "k_out (snd (kread f n k)) = k_out k" "k_exists (snd (kread f n k)) = k_exists k"
  "k_fail (snd (kread f n k)) = k_fail k" "k_wlim (snd (kread f n k)) = k_wlim k"
  by (auto simp: kread_def split: list.splits read_res.splits)

lemma kread_other [simp, kernel_simps]: "g \<noteq> f \<Longrightarrow> k_in (snd (kread f n k)) g = k_in k g"
  by (auto simp: kread_def split: list.splits read_res.splits)

lemma kread_length: "kread f n k = (RData s, k') \<Longrightarrow> 0 < length s \<and> (0 < n \<longrightarrow> length s \<le> n)
   \<or> n = 0 \<and> s = []"
  by (auto simp: kread_def split: list.splits read_res.splits if_splits)

lemma kwrite_fields [simp, kernel_simps]:
  "k_fds (snd (kwrite f s k)) = k_fds k" "k_epoll (snd (kwrite f s k)) = k_epoll k"
  "k_in (snd (kwrite f s k)) = k_in k" "k_exists (snd (kwrite f s k)) = k_exists k"
  "k_fail (snd (kwrite f s k)) = k_fail k"
  by (auto simp: kwrite_def split: list.splits option.splits)

lemma kwrite_out:
  "\<exists>m. k_out (snd (kwrite f s k)) = (k_out k)(f := k_out k f @ take m s)"
proof (cases "k_wlim k")
  case Nil
  then have "k_out (snd (kwrite f s k)) = (k_out k)(f := k_out k f @ take (length s) s)"
    by (simp add: kwrite_def)
  then show ?thesis by blast
next
  case (Cons w ws)
  show ?thesis
  proof (cases w)
    case None
    with Cons have "k_out (snd (kwrite f s k)) = (k_out k)(f := k_out k f @ take 0 s)"
      by (simp add: kwrite_def)
    then show ?thesis by blast
  next
    case (Some m)
    with Cons have "k_out (snd (kwrite f s k)) = (k_out k)(f := k_out k f @ take m s)"
      by (simp add: kwrite_def)
    then show ?thesis by blast
  qed
qed

lemma kwrite_full: "k_wlim k = [] \<Longrightarrow>
   kwrite f s k = (int (length s), k\<lparr>k_out := (k_out k)(f := k_out k f @ s)\<rparr>)"
  by (simp add: kwrite_def)

lemma kepoll_add_fields [simp, kernel_simps]:
  "k_fds (snd (kepoll_add f d k)) = k_fds k" "k_in (snd (kepoll_add f d k)) = k_in k"
  "k_out (snd (kepoll_add f d k)) = k_out k" "k_exists (snd (kepoll_add f d k)) = k_exists k"
  by (auto simp: kepoll_add_def split: prod.splits bool.splits dest!: kfail_fieldsD)

lemma kepoll_add_epoll:
  "k_epoll (snd (kepoll_add f d k)) =
     (if fst (kepoll_add f d k) then (f, d) # k_epoll k else k_epoll k)"
  by (auto simp: kepoll_add_def split: prod.splits bool.splits dest!: kfail_fieldsD)

lemma kepoll_del_fields [simp, kernel_simps]:
  "k_fds (kepoll_del f k) = k_fds k" "k_in (kepoll_del f k) = k_in k"
  "k_out (kepoll_del f k) = k_out k" "k_exists (kepoll_del f k) = k_exists k"
  by (auto simp: kepoll_del_def split: prod.splits bool.splits dest!: kfail_fieldsD)

lemma kepoll_del_epoll:
  "filter (\<lambda>e. fst e \<noteq> f) (k_epoll (kepoll_del f k)) = filter (\<lambda>e. fst e \<noteq> f) (k_epoll k)"
  by (auto simp: kepoll_del_def split: prod.splits bool.splits dest!: kfail_fieldsD)

text \<open>The kernel with given input waiting on a descriptor.\<close>

definition set_input :: "fd \<Rightarrow> read_res list \<Rightarrow> kernel \<Rightarrow> kernel" where
  "set_input f rs k = k\<lparr>k_in := (\<lambda>g. if g = f then rs else k_in k g)\<rparr>"

lemma set_input_fields [simp, kernel_simps]:
  "k_fds (set_input f rs k) = k_fds k" "k_epoll (set_input f rs k) = k_epoll k"
  "k_out (set_input f rs k) = k_out k" "k_exists (set_input f rs k) = k_exists k"
  "k_fail (set_input f rs k) = k_fail k" "k_wlim (set_input f rs k) = k_wlim k"
  "k_in (set_input f rs k) g = (if g = f then rs else k_in k g)"
  by (simp_all add: set_input_def)

lemma set_input_twice [simp]: "set_input f rs (set_input f rs' k) = set_input f rs k"
  by (simp add: set_input_def fun_eq_iff)

lemma set_input_same: "k_in k f = rs \<Longrightarrow> set_input f rs k = k"
proof -
  assume "k_in k f = rs"
  then have "(\<lambda>g. if g = f then rs else k_in k g) = k_in k" by (auto simp: fun_eq_iff)
  then show ?thesis by (simp add: set_input_def)
qed

lemma kread_piece:
  "k_in k f = RData d # rs \<Longrightarrow> d \<noteq> [] \<Longrightarrow> length d \<le> n \<Longrightarrow> kread f n k = (RData d, set_input f rs k)"
  by (simp add: kread_def set_input_def fun_upd_def)

lemma kread_eof: "k_in k f = REof # rs \<Longrightarrow> kread f n k = (REof, set_input f rs k)"
  by (simp add: kread_def set_input_def fun_upd_def)

section \<open>How much input a descriptor still has\<close>

fun item_size :: "read_res \<Rightarrow> nat" where
  "item_size (RData s) = Suc (length s)"
| "item_size REof = 1"
| "item_size (RErr e) = 1"

definition pending :: "fd \<Rightarrow> kernel \<Rightarrow> nat" where
  "pending f k = sum_list (map item_size (k_in k f))"

text \<open>Every read that finds something (and asks for at least a byte) leaves less behind: why the drain loops end.\<close>

lemma kread_pending_le: "pending g (snd (kread f n k)) \<le> pending g k"
  by (cases "g = f") (auto simp: pending_def kread_def split: list.splits read_res.splits)

lemma kread_pending_less:
  "0 < n \<Longrightarrow> kread f n k = (RData s, k') \<Longrightarrow> pending f k' < pending f k"
  by (auto simp: pending_def kread_def split: list.splits read_res.splits if_splits)

section \<open>The descriptor interface\<close>

text \<open>
  What the programs rely on when they open and close descriptors, whatever
  provides it: an opened descriptor is new, closing removes just that one.
\<close>

locale fd_provider =
  fixes opened :: "'k \<Rightarrow> fd set"
    and openf :: "path \<Rightarrow> 'k \<Rightarrow> fd \<times> 'k"
    and closef :: "fd \<Rightarrow> 'k \<Rightarrow> 'k"
  assumes open_fresh: "openf p k = (f, k') \<Longrightarrow> f \<noteq> -1 \<Longrightarrow>
      f \<notin> opened k \<and> 0 \<le> f \<and> opened k' = insert f (opened k)"
    and open_fail: "openf p k = (-1, k') \<Longrightarrow> opened k' = opened k"
    and close_removes: "opened (closef f k) = opened k - {f}"
begin

lemma open_close: "openf p k = (f, k') \<Longrightarrow> f \<noteq> -1 \<Longrightarrow> opened (closef f k') = opened k"
  using open_fresh[of p k f k'] close_removes[of f k'] by auto

lemma close_all: "opened (fold closef fs k) = opened k - set fs"
  by (induction fs arbitrary: k) (auto simp: close_removes)

lemma open_nonneg: "openf p k = (f, k') \<Longrightarrow> f = -1 \<or> 0 \<le> f"
  using open_fresh[of p k f k'] by blast

end

interpretation kfd: fd_provider "\<lambda>k. set (k_fds k)" kopen kclose
proof
  fix p k f k'
  assume *: "kopen p k = (f, k')"
  then show "f \<noteq> -1 \<Longrightarrow> f \<notin> set (k_fds k) \<and> 0 \<le> f \<and> set (k_fds k') = insert f (set (k_fds k))"
    by (cases rule: kopen_cases) auto
next
  fix p k k'
  assume "kopen p k = (-1, k')"
  then show "set (k_fds k') = set (k_fds k)"
    by (cases rule: kopen_cases) auto
next
  fix f k
  show "set (k_fds (kclose f k)) = set (k_fds k) - {f}" by auto
qed

end
