(* ===== verification/Fifo_Paths.thy ===== *)
theory Fifo_Paths
  imports Kernel
begin

text \<open>
  Creation and removal of a FIFO together with the directories above it
  (\<open>task_7/homework/src/fifo.c\<close>), over the names and directories of the kernel.
\<close>

section \<open>The file system calls\<close>

abbreviation SLASH :: char where "SLASH \<equiv> CHR ''/''"

definition strip_slash :: "path \<Rightarrow> path" where
  "strip_slash p = rev (dropWhile (\<lambda>c. c = SLASH) (rev p))"

definition parent_ok :: "path \<Rightarrow> kernel \<Rightarrow> bool" where
  "parent_ok p k = (case strrchr_split SLASH p of None \<Rightarrow> True
     | Some (d, _) \<Rightarrow> d = [] \<or> strip_slash d \<in> set (k_dirs k))"

definition kmkdir :: "path \<Rightarrow> kernel \<Rightarrow> kernel" where
  "kmkdir p k = (let q = strip_slash p in
     if q = [] \<or> q \<in> set (k_exists k) \<or> \<not> parent_ok q k then k
     else k\<lparr>k_exists := q # k_exists k, k_dirs := q # k_dirs k\<rparr>)"

definition kmkfifo :: "path \<Rightarrow> kernel \<Rightarrow> errno option \<times> kernel" where
  "kmkfifo p k =
     (if p \<in> set (k_exists k) then (Some EEXIST, k)
      else if \<not> parent_ok p k then (Some ENOENT, k)
      else case kfail k of
          (True, k') \<Rightarrow> (Some EOTHER, k')
        | (False, k') \<Rightarrow> (None, k'\<lparr>k_exists := p # k_exists k'\<rparr>))"

definition kunlink :: "path \<Rightarrow> kernel \<Rightarrow> kernel" where
  "kunlink p k = (if p \<in> set (k_exists k) \<and> p \<notin> set (k_dirs k)
     then k\<lparr>k_exists := removeAll p (k_exists k)\<rparr> else k)"

definition dir_empty :: "path \<Rightarrow> kernel \<Rightarrow> bool" where
  "dir_empty d k \<longleftrightarrow> (\<forall>p\<in>set (k_exists k). take (Suc (length d)) p \<noteq> d @ [SLASH])"

definition krmdir :: "path \<Rightarrow> kernel \<Rightarrow> bool \<times> kernel" where
  "krmdir d k = (case kfail k of
     (True, k') \<Rightarrow> (False, k')
   | (False, k') \<Rightarrow> (True, k'\<lparr>k_exists := removeAll d (k_exists k'), k_dirs := removeAll d (k_dirs k')\<rparr>))"

section \<open>The functions of fifo.c\<close>

text \<open>The \<open>while (1)\<close> that makes one directory per slash: \<open>pre\<close> is the text before \<open>current\<close>.\<close>

function mkdir_loop :: "path \<Rightarrow> path \<Rightarrow> kernel \<Rightarrow> kernel" where
  "mkdir_loop pre current k =
     (case strchr_split SLASH current of
        Some (seg, rest) \<Rightarrow> mkdir_loop (pre @ seg @ [SLASH]) rest (kmkdir (pre @ seg) k)
      | None \<Rightarrow> kmkdir (pre @ current) k)"
  by pat_completeness auto
termination
  by (relation "measure (\<lambda>(pre, current, k). length current)") (auto simp: strchr_split_Some)

declare mkdir_loop.simps [simp del]

text \<open>
  \<open>None\<close>: the path does not fit \<open>path_copy\<close>, which \<open>strncpy\<close> then leaves
  without a terminator, and the program reads past the array.
\<close>

definition create_fifo_with_path :: "path \<Rightarrow> kernel \<Rightarrow> (int \<times> kernel) option" where
  "create_fifo_with_path fifo_path k =
     (if 256 \<le> length fifo_path then None
      else let k1 = (case strrchr_split SLASH fifo_path of
                       None \<Rightarrow> k
                     | Some (dir, _) \<Rightarrow>
                         mkdir_loop (takeWhile (\<lambda>c. c = SLASH) dir) (dropWhile (\<lambda>c. c = SLASH) dir) k)
           in Some (case kmkfifo fifo_path k1 of
                (None, k2) \<Rightarrow> (0, k2)
              | (Some e, k2) \<Rightarrow> (if e \<noteq> EEXIST then (-1, k2) else (0, k2))))"

definition file_exists :: "path \<Rightarrow> kernel \<Rightarrow> bool" where
  "file_exists p k \<longleftrightarrow> p \<in> set (k_exists k)"

text \<open>The loop that removes the directories left empty, from the inside out.\<close>

function rmdir_loop :: "path \<Rightarrow> kernel \<Rightarrow> kernel" where
  "rmdir_loop p k =
     (case strrchr_split SLASH p of
        None \<Rightarrow> k
      | Some (d, _) \<Rightarrow>
          if d \<notin> set (k_dirs k) then k
          else if \<not> dir_empty d k then k
          else (case krmdir d k of (ok, k') \<Rightarrow> if ok then rmdir_loop d k' else k'))"
  by pat_completeness auto
termination
  by (relation "measure (\<lambda>(p, k). length p)") (auto simp: strrchr_split_Some)

declare rmdir_loop.simps [simp del]

definition cleanup_fifo :: "path \<Rightarrow> kernel \<Rightarrow> kernel" where
  "cleanup_fifo fifo_path k = rmdir_loop (strncpy0 256 fifo_path) (kunlink fifo_path k)"

end
