(* ===== verification/Stdio_Format.thy ===== *)
theory Stdio_Format
  imports CString
begin

text \<open>
  \<open>printf\<close> and \<open>scanf\<close> conversions the programs use: \<open>%d\<close>, \<open>%ld\<close>, \<open>%zu\<close> and
  \<open>%Ns\<close>. Reading back what was printed gives the number again
  (\<open>scan_nat_dec_nat\<close>, \<open>scan_int_dec_int\<close>), which the protocol lemmas rest on.
\<close>

section \<open>Character classes\<close>

definition c_isspace :: "char \<Rightarrow> bool" where
  "c_isspace c \<longleftrightarrow> c = CHR '' '' \<or> c = CHR 0x09 \<or> c = NL \<or> c = CHR 0x0B \<or> c = CHR 0x0C \<or> c = CHR 0x0D"

definition digits :: string where "digits = ''0123456789''"

definition c_isdigit :: "char \<Rightarrow> bool" where
  "c_isdigit c \<longleftrightarrow> c \<in> set digits"

definition digit_char :: "nat \<Rightarrow> char" where
  "digit_char n = digits ! n"

definition digit_val :: "char \<Rightarrow> nat" where
  "digit_val c = length (takeWhile (\<lambda>d. d \<noteq> c) digits)"

lemma digit_cases:
  assumes "(n :: nat) < 10"
  obtains "n = 0" | "n = 1" | "n = 2" | "n = 3" | "n = 4"
    | "n = 5" | "n = 6" | "n = 7" | "n = 8" | "n = 9"
proof -
  have "n = 0 \<or> n = 1 \<or> n = 2 \<or> n = 3 \<or> n = 4 \<or> n = 5 \<or> n = 6 \<or> n = 7 \<or> n = 8 \<or> n = 9"
    using assms by presburger
  then show ?thesis using that by blast
qed

lemma digit_val_char [simp]: "n < 10 \<Longrightarrow> digit_val (digit_char n) = n"
  by (erule digit_cases) (simp_all add: digit_val_def digit_char_def digits_def)

lemma isdigit_digit_char [simp]: "n < 10 \<Longrightarrow> c_isdigit (digit_char n)"
  by (erule digit_cases) (simp_all add: c_isdigit_def digit_char_def digits_def)

lemma isdigit_not_space: "c_isdigit c \<Longrightarrow> \<not> c_isspace c"
  by (auto simp: c_isdigit_def digits_def c_isspace_def)

lemma isdigit_not_sign: "c_isdigit c \<Longrightarrow> c \<noteq> CHR ''-'' \<and> c \<noteq> CHR ''+'' \<and> c \<noteq> NUL \<and> c \<noteq> NL"
  by (auto simp: c_isdigit_def digits_def)

section \<open>Decimal printing\<close>

fun dec_nat :: "nat \<Rightarrow> string" where
  "dec_nat n = (if n < 10 then [digit_char n] else dec_nat (n div 10) @ [digit_char (n mod 10)])"

declare dec_nat.simps [simp del]

definition dec_int :: "int \<Rightarrow> string" where
  "dec_int i = (if i < 0 then CHR ''-'' # dec_nat (nat (- i)) else dec_nat (nat i))"

fun nat_of_digits :: "nat \<Rightarrow> string \<Rightarrow> nat" where
  "nat_of_digits acc [] = acc"
| "nat_of_digits acc (c # cs) = nat_of_digits (10 * acc + digit_val c) cs"

lemma nat_of_digits_append:
  "nat_of_digits acc (a @ b) = nat_of_digits (nat_of_digits acc a) b"
  by (induction acc a rule: nat_of_digits.induct) auto

lemma dec_nat_digits: "\<forall>c\<in>set (dec_nat n). c_isdigit c"
proof (induction n rule: dec_nat.induct)
  case (1 n)
  then show ?case by (subst dec_nat.simps) auto
qed

lemma dec_nat_nonempty [simp]: "dec_nat n \<noteq> []"
  by (subst dec_nat.simps) simp

lemma nat_of_digits_dec_nat [simp]: "nat_of_digits 0 (dec_nat n) = n"
proof (induction n rule: dec_nat.induct)
  case (1 n)
  then show ?case by (subst dec_nat.simps) (simp add: nat_of_digits_append)
qed

lemma dec_nat_inj: "dec_nat m = dec_nat n \<longleftrightarrow> m = n"
  by (metis nat_of_digits_dec_nat)

lemma dec_nat_nonul [simp]: "nonul (dec_nat n)"
  using dec_nat_digits[of n] by (auto simp: nonul_def dest: isdigit_not_sign)

lemma dec_nat_no_nl [simp]: "NL \<notin> set (dec_nat n)"
  using dec_nat_digits[of n] by (auto dest: isdigit_not_sign)

lemma dec_nat_no_dash [simp]: "CHR ''-'' \<notin> set (dec_nat n)"
  using dec_nat_digits[of n] by (auto dest: isdigit_not_sign)

lemma dec_int_inj: "dec_int i = dec_int j \<longleftrightarrow> i = j"
proof -
  have hd_dash: "dec_nat m \<noteq> CHR ''-'' # dec_nat k" for m k
    by (metis dec_nat_no_dash list.set_intros(1))
  show ?thesis
    using hd_dash hd_dash[symmetric] by (auto simp: dec_int_def dec_nat_inj)
qed

text \<open>A \<open>w\<close>-digit bound on the printed length: what the fixed buffers rely on.\<close>

lemma dec_nat_length: "n < 10 ^ k \<Longrightarrow> 0 < k \<Longrightarrow> length (dec_nat n) \<le> k"
proof (induction n arbitrary: k rule: dec_nat.induct)
  case (1 n)
  show ?case
  proof (cases "n < 10")
    case True
    with 1 show ?thesis by (subst dec_nat.simps) simp
  next
    case False
    then obtain j where k: "k = Suc j" "0 < j"
      using 1(2,3) by (cases k; cases "k - 1") auto
    with 1(2) have "n div 10 < 10 ^ j" by (simp add: less_mult_imp_div_less mult.commute)
    with 1(1) False k have "length (dec_nat (n div 10)) \<le> j" by blast
    with False k show ?thesis by (subst dec_nat.simps) simp
  qed
qed

section \<open>Scanning\<close>

definition skip_space :: "string \<Rightarrow> string" where
  "skip_space s = dropWhile c_isspace s"

text \<open>\<open>%Ns\<close>: skip white space, then at most \<open>w\<close> non-space characters; no match on none.\<close>

definition scan_word :: "nat \<Rightarrow> string \<Rightarrow> (string \<times> string) option" where
  "scan_word w s =
     (let t = skip_space s; tok = take w (takeWhile (\<lambda>c. \<not> c_isspace c) t)
      in if tok = [] then None else Some (tok, drop (length tok) t))"

text \<open>An optionally signed run of digits: the sign, the value, the rest.\<close>

definition scan_signed :: "string \<Rightarrow> (bool \<times> nat \<times> string) option" where
  "scan_signed s =
     (let t = skip_space s;
          neg = (take 1 t = ''-'');
          u = (if neg \<or> take 1 t = ''+'' then drop 1 t else t);
          ds = takeWhile c_isdigit u
      in if ds = [] then None else Some (neg, nat_of_digits 0 ds, drop (length ds) u))"

text \<open>\<open>%d\<close> and \<open>atoi\<close> into a 32-bit \<open>int\<close> (\<open>strtol\<close>'s 64-bit result cut to 32 bits, as glibc does) and \<open>%zu\<close> into a 64-bit \<open>size_t\<close>.\<close>

definition strtol_int :: "int \<Rightarrow> int" where
  "strtol_int i = (let l = max (- 9223372036854775808) (min 9223372036854775807 i)
     in (l + 2147483648) mod 4294967296 - 2147483648)"

lemma strtol_int_small: "- 2147483648 \<le> i \<Longrightarrow> i \<le> 2147483647 \<Longrightarrow> strtol_int i = i"
  by (simp add: strtol_int_def Let_def mod_pos_pos_trivial)

definition scan_int :: "string \<Rightarrow> (int \<times> string) option" where
  "scan_int s = (case scan_signed s of None \<Rightarrow> None
     | Some (neg, v, rest) \<Rightarrow> Some (strtol_int (if neg then - int v else int v), rest))"

definition atoi :: "string \<Rightarrow> int" where
  "atoi s = (case scan_int s of None \<Rightarrow> 0 | Some (i, _) \<Rightarrow> i)"

definition size_max :: nat where "size_max = 18446744073709551615"

definition scan_size :: "string \<Rightarrow> (nat \<times> string) option" where
  "scan_size s = (case scan_signed s of None \<Rightarrow> None
     | Some (neg, v, rest) \<Rightarrow>
         Some (if size_max < v then size_max
               else if neg then (size_max + 1 - v) mod (size_max + 1) else v, rest))"

text \<open>A literal of a \<open>scanf\<close> format has to match the input exactly.\<close>

definition scan_literal :: "string \<Rightarrow> string \<Rightarrow> string option" where
  "scan_literal lit s = (if take (length lit) s = lit then Some (drop (length lit) s) else None)"

lemma scan_literal_append [simp]: "scan_literal lit (lit @ s) = Some s"
  by (simp add: scan_literal_def)

section \<open>Reading back what was printed\<close>

definition stops_digits :: "string \<Rightarrow> bool" where
  "stops_digits s \<longleftrightarrow> (case s of [] \<Rightarrow> True | c # _ \<Rightarrow> \<not> c_isdigit c)"

lemma takeWhile_digits_append:
  assumes "\<forall>c\<in>set ds. c_isdigit c" "stops_digits rest"
  shows "takeWhile c_isdigit (ds @ rest) = ds"
proof (cases rest)
  case Nil
  with assms show ?thesis by (simp add: takeWhile_id)
next
  case (Cons c r)
  with assms show ?thesis by (simp add: takeWhile_stop stops_digits_def)
qed

lemma skip_space_nonspace: "s = [] \<or> \<not> c_isspace (hd s) \<Longrightarrow> skip_space s = s"
  by (cases s) (auto simp: skip_space_def)

lemma dec_nat_hd:
  "c_isdigit (hd (dec_nat n @ rest))"
  using dec_nat_digits[of n] dec_nat_nonempty[of n] by (cases "dec_nat n") auto

lemma take1_dec_nat: "take 1 (dec_nat n @ rest) \<noteq> ''-'' \<and> take 1 (dec_nat n @ rest) \<noteq> ''+''"
  using dec_nat_hd[of n rest] dec_nat_nonempty[of n]
  by (cases "dec_nat n") (auto dest: isdigit_not_sign)

lemma scan_signed_dec_nat:
  assumes "stops_digits rest"
  shows "scan_signed (dec_nat n @ rest) = Some (False, n, rest)"
proof -
  have "skip_space (dec_nat n @ rest) = dec_nat n @ rest"
    using dec_nat_hd[of n rest] by (intro skip_space_nonspace) (simp add: isdigit_not_space)
  moreover have "takeWhile c_isdigit (dec_nat n @ rest) = dec_nat n"
    using assms dec_nat_digits by (intro takeWhile_digits_append) auto
  ultimately show ?thesis
    using take1_dec_nat[of n rest] by (simp add: scan_signed_def Let_def)
qed

lemma scan_signed_neg:
  assumes "stops_digits rest"
  shows "scan_signed (CHR ''-'' # dec_nat n @ rest) = Some (True, n, rest)"
proof -
  have "takeWhile c_isdigit (dec_nat n @ rest) = dec_nat n"
    using assms dec_nat_digits by (intro takeWhile_digits_append) auto
  then show ?thesis
    by (simp add: scan_signed_def Let_def skip_space_def c_isspace_def)
qed

lemma scan_size_dec_nat:
  "stops_digits rest \<Longrightarrow> n \<le> size_max \<Longrightarrow> scan_size (dec_nat n @ rest) = Some (n, rest)"
  by (simp add: scan_size_def scan_signed_dec_nat)

lemma scan_int_dec_int:
  assumes "stops_digits rest" "- 2147483648 \<le> i" "i \<le> 2147483647"
  shows "scan_int (dec_int i @ rest) = Some (i, rest)"
  using assms
  by (simp add: scan_int_def dec_int_def scan_signed_dec_nat scan_signed_neg strtol_int_small)

definition word_like :: "string \<Rightarrow> bool" where
  "word_like s \<longleftrightarrow> s \<noteq> [] \<and> (\<forall>c\<in>set s. \<not> c_isspace c)"

lemma scan_word_append:
  assumes "word_like tok" "length tok \<le> w" "rest = [] \<or> c_isspace (hd rest)"
  shows "scan_word w (tok @ rest) = Some (tok, rest)"
proof -
  have "skip_space (tok @ rest) = tok @ rest"
    using assms(1) by (intro skip_space_nonspace) (cases tok, auto simp: word_like_def)
  moreover have "takeWhile (\<lambda>c. \<not> c_isspace c) (tok @ rest) = tok"
  proof (cases rest)
    case Nil
    with assms(1) show ?thesis by (simp add: takeWhile_id word_like_def)
  next
    case (Cons c r)
    with assms(1,3) show ?thesis by (simp add: takeWhile_stop word_like_def)
  qed
  ultimately show ?thesis
    using assms(1,2) by (cases tok) (auto simp: scan_word_def Let_def word_like_def)
qed

lemma scan_word_length: "scan_word w s = Some (tok, r) \<Longrightarrow> length tok \<le> w \<and> tok \<noteq> []"
  by (auto simp: scan_word_def Let_def split: if_splits)

lemma scan_word_skip: "c_isspace c \<Longrightarrow> scan_word w (c # s) = scan_word w s"
  by (simp add: scan_word_def skip_space_def)

lemma isspace_blank [simp]: "c_isspace (CHR '' '')" "c_isspace NL"
  by (simp_all add: c_isspace_def)

lemma stops_digits_Nil [simp]: "stops_digits []"
  by (simp add: stops_digits_def)

lemma stops_digits_Cons [simp]: "stops_digits (c # s) \<longleftrightarrow> \<not> c_isdigit c"
  by (simp add: stops_digits_def)

end
