(* ===== verification/Fifo_Server.thy ===== *)
theory Fifo_Server
  imports Fifo_Paths Stdio_Format
begin

text \<open>
  The file server of task 7 (\<open>task_7/homework/src/server\<close>): a table of 64
  clients, each with a pair of FIFO descriptors, driven by one epoll loop. The
  globals of \<open>server.c\<close> are the record \<open>server\<close>; the threads the server starts
  are recorded as the tasks it hands them.
\<close>

section \<open>State\<close>

definition MAX_CLIENTS :: nat where "MAX_CLIENTS = 64"
definition CMD_GET :: string where "CMD_GET = ''GET''"
definition CMD_DISCONNECT :: string where "CMD_DISCONNECT = ''DISCONNECT''"
definition CMD_REGISTER :: string where "CMD_REGISTER = ''REGISTER''"
definition RESP_ACK :: string where "RESP_ACK = ''ACK''"
definition SERVER_FIFO_PATH :: path where "SERVER_FIFO_PATH = ''tmp/server''"

record ClientInfo =
  client_id :: int
  tx_fd :: fd
  rx_fd :: fd
  tx_path :: path
  rx_path :: path
  is_active :: int

record FileTask =
  client_fd :: fd
  task_filename :: path

record server =
  clients :: "ClientInfo list"
  server_running :: bool
  epoll_fd :: fd
  counter :: nat
  spawned :: "FileTask list"
  kern :: kernel

text \<open>\<open>memset (&clients[i], 0, sizeof (ClientInfo))\<close>, and the reset that follows it.\<close>

definition zero_client :: ClientInfo where
  "zero_client = \<lparr>client_id = 0, tx_fd = 0, rx_fd = 0, tx_path = [], rx_path = [], is_active = 0\<rparr>"

definition reset_client :: ClientInfo where
  "reset_client = zero_client\<lparr>client_id := -1, tx_fd := -1, rx_fd := -1\<rparr>"

section \<open>Operations of server.c\<close>

definition server_signal_handler :: "int \<Rightarrow> server \<Rightarrow> server" where
  "server_signal_handler sig s = s\<lparr>server_running := False\<rparr>"

fun find_free_from :: "int \<Rightarrow> ClientInfo list \<Rightarrow> int" where
  "find_free_from i [] = -1"
| "find_free_from i (c # cs) = (if is_active c = 0 then i else find_free_from (i + 1) cs)"

definition find_free_client_slot :: "server \<Rightarrow> int" where
  "find_free_client_slot s = find_free_from 0 (clients s)"

definition valid_client :: "int \<Rightarrow> server \<Rightarrow> bool" where
  "valid_client i s \<longleftrightarrow>
     \<not> (i < 0 \<or> int MAX_CLIENTS \<le> i \<or> is_active (clients s ! nat i) = 0)"

definition close_client_connection :: "int \<Rightarrow> server \<Rightarrow> server" where
  "close_client_connection i s =
     (if \<not> valid_client i s then s
      else let c = clients s ! nat i;
               k1 = (if epoll_fd s \<noteq> -1 \<and> rx_fd c \<noteq> -1 then kepoll_del (rx_fd c) (kern s) else kern s);
               k2 = (if tx_fd c \<noteq> -1 then kclose (tx_fd c) k1 else k1);
               k3 = (if rx_fd c \<noteq> -1 then kclose (rx_fd c) k2 else k2)
           in s\<lparr>clients := (clients s)[nat i := reset_client], kern := k3\<rparr>)"

text \<open>
  The command buffer: 511 characters of the command in a zeroed array of 512,
  the first newline overwritten with NUL. What follows the newline stays in the
  array, so \<open>cmd_copy + 4\<close> is read from the array and not from the cut string.
\<close>

definition cut_newline :: "string \<Rightarrow> bytes" where
  "cut_newline s = (case strchr_split NL s of Some (a, b) \<Rightarrow> a @ NUL # b | None \<Rightarrow> s)"

definition process_client_command :: "int \<Rightarrow> string \<Rightarrow> server \<Rightarrow> server" where
  "process_client_command i command s =
     (if \<not> valid_client i s then s
      else let cmd_copy = cut_newline (strncpy0 512 command) in
        if strncmp_eq cmd_copy CMD_DISCONNECT (length CMD_DISCONNECT) then close_client_connection i s
        else if strncmp_eq cmd_copy CMD_GET (length CMD_GET) then
          (case scan_word 255 (cstr (drop (length CMD_GET + 1) cmd_copy)) of
             None \<Rightarrow> s
           | Some (filename, _) \<Rightarrow>
               if filename \<notin> set (k_exists (kern s)) then s
               else (case kfail (kern s) of
                   (True, k) \<Rightarrow> s\<lparr>kern := k\<rparr>
                 | (False, k) \<Rightarrow> (case kfail k of
                       (True, k') \<Rightarrow> s\<lparr>kern := k'\<rparr>
                     | (False, k') \<Rightarrow>
                         s\<lparr>kern := k',
                           spawned := spawned s @
                             [\<lparr>client_fd = tx_fd (clients s ! nat i),
                               task_filename = strncpy0 256 filename\<rparr>]\<rparr>)))
        else s)"

text \<open>
  The loop over the lines of a buffer that registration, the event handler and
  the periodic check share: each non-empty line, then what is left.
\<close>

function line_loop :: "(string \<Rightarrow> 's \<Rightarrow> 's) \<Rightarrow> string \<Rightarrow> 's \<Rightarrow> 's" where
  "line_loop f line s =
     (case strchr_split NL line of
        Some (seg, rest) \<Rightarrow> line_loop f rest (if seg \<noteq> [] then f seg s else s)
      | None \<Rightarrow> (if line \<noteq> [] then f line s else s))"
  by pat_completeness auto
termination
  by (relation "measure (\<lambda>(f, line, s). length line)") (auto simp: strchr_split_Some)

declare line_loop.simps [simp del]

definition register_new_client :: "path \<Rightarrow> path \<Rightarrow> server \<Rightarrow> int \<times> server" where
  "register_new_client txp rxp s =
     (let i = find_free_client_slot s in
      if i = -1 then (-1, s)
      else case kopen txp (kern s) of (tx, k1) \<Rightarrow>
        if tx = -1 then (-1, s\<lparr>kern := k1\<rparr>)
        else case kopen rxp k1 of (rx, k2) \<Rightarrow>
          if rx = -1 then (-1, s\<lparr>kern := kclose tx k2\<rparr>)
          else
            let c = (clients s ! nat i)\<lparr>client_id := i, tx_fd := tx, rx_fd := rx,
                      tx_path := strncpy0 256 txp, rx_path := strncpy0 256 rxp, is_active := 1\<rparr>;
                s1 = s\<lparr>clients := (clients s)[nat i := c]\<rparr>
            in case kepoll_add rx (nat i) k2 of (added, k3) \<Rightarrow>
              if \<not> added then (-1, close_client_connection i (s1\<lparr>kern := k3\<rparr>))
              else case kwrite tx RESP_ACK k3 of (written, k4) \<Rightarrow>
                if written \<le> 0 then (-1, close_client_connection i (s1\<lparr>kern := k4\<rparr>))
                else case kread rx 1023 k4 of
                    (RData d, k5) \<Rightarrow> (0, line_loop (process_client_command i) (cstr d) (s1\<lparr>kern := k5\<rparr>))
                  | (_, k5) \<Rightarrow> (0, s1\<lparr>kern := k5\<rparr>))"

text \<open>One registration line: \<open>sscanf (line, "%*s %255s %255s", tx_path, rx_path) == 2\<close>.\<close>

definition scan_registration :: "string \<Rightarrow> (path \<times> path) option" where
  "scan_registration line =
     (case scan_word (length line) line of
        None \<Rightarrow> None
      | Some (_, r1) \<Rightarrow> (case scan_word 255 r1 of
            None \<Rightarrow> None
          | Some (txp, r2) \<Rightarrow> (case scan_word 255 r2 of
                None \<Rightarrow> None
              | Some (rxp, _) \<Rightarrow> Some (txp, rxp))))"

definition registration_line :: "string \<Rightarrow> server \<Rightarrow> server" where
  "registration_line line s =
     (case scan_registration line of
        Some (txp, rxp) \<Rightarrow> snd (register_new_client txp rxp s)
      | None \<Rightarrow> s)"

text \<open>The lines of one buffer of registrations; what follows the last newline is not looked at.\<close>

function registration_lines :: "string \<Rightarrow> server \<Rightarrow> server" where
  "registration_lines line s =
     (case strchr_split NL line of
        Some (seg, rest) \<Rightarrow> registration_lines rest (registration_line seg s)
      | None \<Rightarrow> s)"
  by pat_completeness auto
termination
  by (relation "measure (\<lambda>(line, s). length line)") (auto simp: strchr_split_Some)

declare registration_lines.simps [simp del]

text \<open>
  \<open>process_registration_commands\<close>: reads until the FIFO is empty. Registering
  reads other descriptors of the kernel, never adds input to the FIFO
  (\<open>registration_lines_pending\<close> below), so the loop ends.
\<close>

section \<open>Input is only consumed\<close>

lemma close_k_in [simp]: "k_in (kern (close_client_connection i s)) = k_in (kern s)"
  by (simp add: close_client_connection_def Let_def)

lemma command_k_in [simp]: "k_in (kern (process_client_command i c s)) = k_in (kern s)"
  by (auto simp: process_client_command_def Let_def dest!: kfail_fieldsD
      split: option.splits prod.splits bool.splits)

text \<open>
  What a function \<open>f\<close> applied to each line keeps, the loop over the lines
  keeps: the interface between the loop and the command handler.
\<close>

locale line_consumer =
  fixes f :: "string \<Rightarrow> 's \<Rightarrow> 's" and R :: "'s \<Rightarrow> 's \<Rightarrow> bool"
  assumes step: "R s (f l s)" and refl: "R s s"
    and trans: "R s t \<Longrightarrow> R t u \<Longrightarrow> R s u"
begin

lemma line_loop_rel: "R s (line_loop f line s)"
proof (induction "length line" arbitrary: line s rule: less_induct)
  case less
  show ?case
  proof (cases "strchr_split NL line")
    case None
    then show ?thesis by (subst line_loop.simps) (simp add: step refl)
  next
    case (Some p)
    then obtain seg rest where p: "strchr_split NL line = Some (seg, rest)" by (cases p) auto
    have "R s (if seg \<noteq> [] then f seg s else s)" by (simp add: step refl)
    with less[OF strchr_split_shorter[OF p]] p show ?thesis
      by (subst line_loop.simps) (auto intro: trans)
  qed
qed

end

interpretation command_input:
  line_consumer "process_client_command i" "\<lambda>s t. k_in (kern t) = k_in (kern s)"
  by unfold_locales simp_all

lemma register_pending: "pending f (kern (snd (register_new_client txp rxp s))) \<le> pending f (kern s)"
proof -
  have open_in: "k_in k' = k_in k" if "kopen p k = (x, k')" for p k x k'
    using kopen_frame(1)[of p k] that by simp
  have add_in: "k_in k' = k_in k" if "kepoll_add x d k = (b, k')" for x d k b k'
    using kepoll_add_fields(2)[of x d k] that by simp
  have write_in: "k_in k' = k_in k" if "kwrite x d k = (b, k')" for x d k b k'
    using kwrite_fields(3)[of x d k] that by simp
  have read_le: "pending f k' \<le> pending f k" if "kread x n k = (r, k')" for x n k r k'
    using kread_pending_le[of f x n k] that by simp
  have pend: "pending f k' = pending f k" if "k_in k' = k_in k" for k k'
    using that by (simp add: pending_def)
  show ?thesis
    by (auto simp: register_new_client_def Let_def command_input.line_loop_rel pending_def
        dest!: open_in add_in write_in dest: read_le[unfolded pending_def]
        split: prod.splits read_res.splits)
qed

lemma registration_line_pending: "pending f (kern (registration_line line s)) \<le> pending f (kern s)"
  by (auto simp: registration_line_def register_pending split: option.splits)

lemma registration_lines_pending: "pending f (kern (registration_lines line s)) \<le> pending f (kern s)"
proof (induction line s rule: registration_lines.induct)
  case (1 line s)
  show ?case
  proof (cases "strchr_split NL line")
    case None
    then show ?thesis by (subst registration_lines.simps) simp
  next
    case (Some p)
    then obtain seg rest where p: "strchr_split NL line = Some (seg, rest)" by (cases p) auto
    from 1[OF p refl] p registration_line_pending[of f seg s] show ?thesis
      by (subst registration_lines.simps) (auto intro: order_trans)
  qed
qed

section \<open>The registration FIFO and the event loop\<close>

text \<open>
  \<open>process_registration_commands\<close> reads until the FIFO is empty or fails. The
  registrations it serves consume input and never add any, so the loop ends.
\<close>

function process_registration_commands :: "fd \<Rightarrow> server \<Rightarrow> server" where
  "process_registration_commands server_fifo_fd s =
     (if server_fifo_fd < 0 then s
      else case kread server_fifo_fd 1023 (kern s) of
          (RData d, k) \<Rightarrow>
            process_registration_commands server_fifo_fd (registration_lines (cstr d) (s\<lparr>kern := k\<rparr>))
        | (_, k) \<Rightarrow> s\<lparr>kern := k\<rparr>)"
  by pat_completeness auto
termination
proof (relation "measure (\<lambda>(f, s). pending f (kern s))", goal_cases)
  case 1
  show ?case by simp
next
  case (2 server_fifo_fd s x k d)
  then have "kread server_fifo_fd 1023 (kern s) = (RData d, k)" by simp
  then have "pending server_fifo_fd k < pending server_fifo_fd (kern s)"
    by (rule kread_pending_less[rotated]) simp
  moreover have "pending server_fifo_fd (kern (registration_lines (cstr d) (s\<lparr>kern := k\<rparr>)))
      \<le> pending server_fifo_fd k"
    using registration_lines_pending[of server_fifo_fd "cstr d" "s\<lparr>kern := k\<rparr>"] by simp
  ultimately show ?case by simp
qed

declare process_registration_commands.simps [simp del]

text \<open>Reading everything a client has sent, up to the 1023 bytes of the buffer.\<close>

function drain_client :: "int \<Rightarrow> bytes \<Rightarrow> server \<Rightarrow> bytes \<times> server" where
  "drain_client i buffer s =
     (if length buffer < 1023 then
        (case kread (rx_fd (clients s ! nat i)) (1023 - length buffer) (kern s) of
           (RData d, k) \<Rightarrow> drain_client i (buffer @ d) (s\<lparr>kern := k\<rparr>)
         | (REof, k) \<Rightarrow> (buffer, close_client_connection i (s\<lparr>kern := k\<rparr>))
         | (RErr e, k) \<Rightarrow>
             (if e = EAGAIN then (buffer, s\<lparr>kern := k\<rparr>)
              else if e = ECONNRESET \<or> e = EPIPE then (buffer, close_client_connection i (s\<lparr>kern := k\<rparr>))
              else (buffer, s\<lparr>kern := k\<rparr>)))
      else (buffer, s))"
  by pat_completeness auto
termination
  by (relation "measure (\<lambda>(i, buffer, s). 1023 - length buffer)")
     (auto dest!: kread_length[OF sym] simp: neq_Nil_conv)

declare drain_client.simps [simp del]

text \<open>\<open>(int) events[i].data.u32\<close>.\<close>

definition int_of_u32 :: "nat \<Rightarrow> int" where
  "int_of_u32 d = (if d < 2147483648 then int d else int d - 4294967296)"

definition handle_event :: "fd \<Rightarrow> nat \<Rightarrow> server \<Rightarrow> server" where
  "handle_event server_fifo_fd d s =
     (if d = 0 then process_registration_commands server_fifo_fd s
      else if \<not> valid_client (int_of_u32 d) s then s
      else case drain_client (int_of_u32 d) [] s of (buffer, s') \<Rightarrow>
        if 0 < length buffer then line_loop (process_client_command (int_of_u32 d)) (cstr buffer) s'
        else s')"

definition check_client :: "nat \<Rightarrow> server \<Rightarrow> server" where
  "check_client i s =
     (if is_active (clients s ! i) \<noteq> 0 then
        (case kread (rx_fd (clients s ! i)) 1023 (kern s) of
           (RData d, k) \<Rightarrow> line_loop (process_client_command (int i)) (cstr d) (s\<lparr>kern := k\<rparr>)
         | (REof, k) \<Rightarrow> close_client_connection (int i) (s\<lparr>kern := k\<rparr>)
         | (RErr _, k) \<Rightarrow> s\<lparr>kern := k\<rparr>)
      else s)"

definition periodic_check :: "server \<Rightarrow> server" where
  "periodic_check s = fold check_client [0..<MAX_CLIENTS] s"

datatype wait_res = WaitErr errno | WaitEvents "nat list"

datatype loop_input = Signal int | Wait wait_res

text \<open>One iteration of the loop of \<open>main\<close>; the flag is set when it breaks.\<close>

definition main_step :: "fd \<Rightarrow> wait_res \<Rightarrow> server \<Rightarrow> bool \<times> server" where
  "main_step server_fifo_fd w s =
     (case w of
        WaitErr e \<Rightarrow> (e \<noteq> EINTR, s)
      | WaitEvents ds \<Rightarrow>
          (let s1 = fold (handle_event server_fifo_fd) ds s;
               s2 = s1\<lparr>counter := Suc (counter s1)\<rparr>
           in (False, if counter s2 mod 5 = 0 then periodic_check s2 else s2)))"

fun main_loop :: "fd \<Rightarrow> loop_input list \<Rightarrow> server \<Rightarrow> server" where
  "main_loop server_fifo_fd [] s = s"
| "main_loop server_fifo_fd (Signal sig # xs) s =
     main_loop server_fifo_fd xs (server_signal_handler sig s)"
| "main_loop server_fifo_fd (Wait w # xs) s =
     (if \<not> server_running s then s
      else case main_step server_fifo_fd w s of (stop, s') \<Rightarrow>
        if stop then s' else main_loop server_fifo_fd xs s')"

text \<open>\<open>main\<close> up to the loop: \<open>Inl\<close> of the kernel is the early return with status 1.\<close>

definition main_init :: "kernel \<Rightarrow> (kernel + fd \<times> server) option" where
  "main_init k =
     (case create_fifo_with_path SERVER_FIFO_PATH k of
        None \<Rightarrow> None
      | Some (r, k1) \<Rightarrow> Some
         (if r \<noteq> 0 then Inl k1
          else case kopen SERVER_FIFO_PATH k1 of (srv, k2) \<Rightarrow>
            if srv = -1 then Inl (cleanup_fifo SERVER_FIFO_PATH k2)
            else case kopen ''epoll'' k2 of (ep, k3) \<Rightarrow>
              if ep = -1 then Inl (cleanup_fifo SERVER_FIFO_PATH (kclose srv k3))
              else case kepoll_add srv 0 k3 of (added, k4) \<Rightarrow>
                if \<not> added then Inl (cleanup_fifo SERVER_FIFO_PATH (kclose ep (kclose srv k4)))
                else Inr (srv, \<lparr>clients = replicate MAX_CLIENTS reset_client, server_running = True,
                                epoll_fd = ep, counter = 0, spawned = [], kern = k4\<rparr>)))"

definition close_if_active :: "nat \<Rightarrow> server \<Rightarrow> server" where
  "close_if_active i s = (if is_active (clients s ! i) \<noteq> 0 then close_client_connection (int i) s else s)"

definition main_shutdown :: "fd \<Rightarrow> server \<Rightarrow> server" where
  "main_shutdown server_fifo_fd s =
     (let s1 = fold close_if_active [0..<MAX_CLIENTS] s;
          s2 = (if epoll_fd s1 \<noteq> -1 then s1\<lparr>kern := kclose (epoll_fd s1) (kern s1), epoll_fd := -1\<rparr> else s1)
      in s2\<lparr>kern := cleanup_fifo SERVER_FIFO_PATH (kclose server_fifo_fd (kern s2))\<rparr>)"

definition server_main :: "loop_input list \<Rightarrow> kernel \<Rightarrow> (int \<times> kernel) option" where
  "server_main inputs k =
     (case main_init k of
        None \<Rightarrow> None
      | Some (Inl k') \<Rightarrow> Some (1, k')
      | Some (Inr (srv, s)) \<Rightarrow> Some (0, kern (main_shutdown srv (main_loop srv inputs s))))"

end
