(* ===== verification/Fifo_Server_Inv.thy ===== *)
theory Fifo_Server_Inv
  imports Fifo_Server
begin

text \<open>
  The invariant of the server's client table and its preservation by every
  operation, the event loop and the whole of \<open>main\<close>. \<open>B\<close> is the set of
  descriptors the process holds for other purposes, \<open>E\<close> the epoll registrations
  of those.
\<close>

section \<open>The invariant\<close>

definition active :: "nat \<Rightarrow> server \<Rightarrow> bool" where
  "active i s \<longleftrightarrow> i < MAX_CLIENTS \<and> is_active (clients s ! i) \<noteq> 0"

definition slot_fds :: "nat \<Rightarrow> server \<Rightarrow> fd set" where
  "slot_fds i s = (if active i s then {tx_fd (clients s ! i), rx_fd (clients s ! i)} else {})"

definition slot_ok :: "nat \<Rightarrow> server \<Rightarrow> bool" where
  "slot_ok i s \<longleftrightarrow> (active i s \<longrightarrow>
     client_id (clients s ! i) = int i \<and> 0 \<le> tx_fd (clients s ! i) \<and> 0 \<le> rx_fd (clients s ! i) \<and>
     tx_fd (clients s ! i) \<noteq> rx_fd (clients s ! i))"

text \<open>
  \<open>X\<close> names slots whose epoll registration is not required: a client that is
  being set up or torn down.
\<close>

definition server_inv_but :: "nat set \<Rightarrow> fd set \<Rightarrow> (fd \<times> nat) set \<Rightarrow> server \<Rightarrow> bool" where
  "server_inv_but X B E s \<longleftrightarrow>
     length (clients s) = MAX_CLIENTS \<and>
     (\<forall>i. slot_ok i s) \<and>
     (\<forall>i x. x \<in> slot_fds i s \<longrightarrow> x \<notin> B) \<and>
     (\<forall>i j x. x \<in> slot_fds i s \<longrightarrow> x \<in> slot_fds j s \<longrightarrow> i = j) \<and>
     set (k_fds (kern s)) = B \<union> (\<Union>i. slot_fds i s) \<and>
     fst ` E \<subseteq> B \<and>
     (\<forall>e\<in>set (k_epoll (kern s)). e \<in> E \<or> (\<exists>i. active i s \<and> e = (rx_fd (clients s ! i), i))) \<and>
     E \<subseteq> set (k_epoll (kern s)) \<and>
     (\<forall>i. active i s \<longrightarrow> i \<notin> X \<longrightarrow> (rx_fd (clients s ! i), i) \<in> set (k_epoll (kern s)))"

abbreviation server_inv :: "fd set \<Rightarrow> (fd \<times> nat) set \<Rightarrow> server \<Rightarrow> bool" where
  "server_inv B E s \<equiv> server_inv_but {} B E s"

lemma server_invI:
  assumes "length (clients s) = MAX_CLIENTS" and "\<And>i. slot_ok i s"
    and "\<And>i x. x \<in> slot_fds i s \<Longrightarrow> x \<notin> B"
    and "\<And>i j x. x \<in> slot_fds i s \<Longrightarrow> x \<in> slot_fds j s \<Longrightarrow> i = j"
    and "set (k_fds (kern s)) = B \<union> (\<Union>i. slot_fds i s)" and "fst ` E \<subseteq> B"
    and "\<And>e. e \<in> set (k_epoll (kern s)) \<Longrightarrow> e \<in> E \<or> (\<exists>i. active i s \<and> e = (rx_fd (clients s ! i), i))"
    and "E \<subseteq> set (k_epoll (kern s))"
    and "\<And>i. active i s \<Longrightarrow> i \<notin> X \<Longrightarrow> (rx_fd (clients s ! i), i) \<in> set (k_epoll (kern s))"
  shows "server_inv_but X B E s"
  unfolding server_inv_but_def using assms by simp

lemma server_inv_parts:
  assumes inv: "server_inv_but X B E s"
  shows server_inv_length: "length (clients s) = MAX_CLIENTS"
    and server_inv_slot: "slot_ok i s"
    and server_inv_base: "x \<in> slot_fds i s \<Longrightarrow> x \<notin> B"
    and server_inv_disjoint: "x \<in> slot_fds i s \<Longrightarrow> x \<in> slot_fds j s \<Longrightarrow> i = j"
    and server_inv_opened: "set (k_fds (kern s)) = B \<union> (\<Union>i. slot_fds i s)"
    and server_inv_E: "fst ` E \<subseteq> B"
    and server_inv_epoll_E: "E \<subseteq> set (k_epoll (kern s))"
    and server_inv_registered:
      "active i s \<Longrightarrow> i \<notin> X \<Longrightarrow> (rx_fd (clients s ! i), i) \<in> set (k_epoll (kern s))"
    and server_inv_epoll:
      "e \<in> set (k_epoll (kern s)) \<Longrightarrow> e \<in> E \<or> (\<exists>i. active i s \<and> e = (rx_fd (clients s ! i), i))"
  using inv by (simp_all only: server_inv_but_def simp_thms)

lemmas server_inv_dests =
  server_inv_length server_inv_slot server_inv_base server_inv_disjoint server_inv_opened
  server_inv_E server_inv_epoll_E server_inv_registered server_inv_epoll

text \<open>What is registered is determined by the table.\<close>

lemma server_inv_epoll_set:
  assumes "server_inv B E s"
  shows "set (k_epoll (kern s)) = E \<union> {(rx_fd (clients s ! i), i) |i. active i s}"
  using server_inv_epoll[OF assms] server_inv_epoll_E[OF assms] server_inv_registered[OF assms] by blast

lemma server_inv_weaken:
  assumes "server_inv_but X B E s" "X \<subseteq> Y"
  shows "server_inv_but Y B E s"
proof -
  have "\<forall>i. active i s \<longrightarrow> i \<notin> Y \<longrightarrow> (rx_fd (clients s ! i), i) \<in> set (k_epoll (kern s))"
    using server_inv_registered[OF assms(1)] assms(2) by (meson subsetD)
  with assms(1) show ?thesis
    unfolding server_inv_but_def by (elim conjE, intro conjI) assumption+
qed

lemma valid_client_active: "valid_client i s \<longleftrightarrow> 0 \<le> i \<and> active (nat i) s"
  by (auto simp: valid_client_def active_def MAX_CLIENTS_def)

lemma active_kern [simp]: "active j (s\<lparr>kern := k\<rparr>) = active j s"
  by (simp add: active_def)

lemma slot_fds_kern [simp]: "slot_fds j (s\<lparr>kern := k\<rparr>) = slot_fds j s"
  by (simp add: slot_fds_def)

text \<open>The invariant reads only the table and two fields of the kernel.\<close>

lemma server_inv_frame:
  assumes "clients t = clients s"
    and "set (k_fds (kern t)) = set (k_fds (kern s))" and "set (k_epoll (kern t)) = set (k_epoll (kern s))"
  shows "server_inv_but X B E t = server_inv_but X B E s"
proof -
  have act: "\<And>i. active i t = active i s" using assms(1) by (simp add: active_def)
  have "\<And>i. slot_fds i t = slot_fds i s" "\<And>i. slot_ok i t = slot_ok i s"
    using assms(1) act by (simp_all add: slot_fds_def slot_ok_def)
  with act show ?thesis unfolding server_inv_but_def by (simp only: assms)
qed

lemma server_inv_kern:
  assumes "server_inv_but X B E s" "k_fds k = k_fds (kern s)" "k_epoll k = k_epoll (kern s)"
  shows "server_inv_but X B E (s\<lparr>kern := k\<rparr>)"
  using assms server_inv_frame[of "s\<lparr>kern := k\<rparr>" s] by simp

section \<open>Closing a connection\<close>

lemma close_invalid: "\<not> valid_client i s \<Longrightarrow> close_client_connection i s = s"
  by (simp add: close_client_connection_def)

lemma reset_inactive [simp]: "is_active reset_client = 0"
  by (simp add: reset_client_def zero_client_def)

lemma close_clients:
  "valid_client i s \<Longrightarrow> clients (close_client_connection i s) = (clients s)[nat i := reset_client]"
  by (simp add: close_client_connection_def Let_def)

lemma close_fds:
  assumes "valid_client i s" "slot_ok (nat i) s"
  shows "set (k_fds (kern (close_client_connection i s))) = set (k_fds (kern s)) - slot_fds (nat i) s"
  using assms by (auto simp: close_client_connection_def Let_def slot_ok_def slot_fds_def valid_client_active)

lemma kepoll_del_remove:
  assumes "f \<in> F"
  shows "{e \<in> set (k_epoll (kepoll_del f k)). fst e \<notin> F} = {e \<in> set (k_epoll k). fst e \<notin> F}"
proof -
  have "set (filter (\<lambda>e. fst e \<noteq> f) (k_epoll (kepoll_del f k))) = set (filter (\<lambda>e. fst e \<noteq> f) (k_epoll k))"
    by (simp only: kepoll_del_epoll)
  with assms show ?thesis by (auto simp: set_eq_iff)
qed

lemma close_epoll:
  assumes "valid_client i s" "slot_ok (nat i) s"
  shows "set (k_epoll (kern (close_client_connection i s))) =
    {e \<in> set (k_epoll (kern s)). fst e \<notin> slot_fds (nat i) s}"
proof -
  let ?k1 = "if epoll_fd s \<noteq> -1 then kepoll_del (rx_fd (clients s ! nat i)) (kern s) else kern s"
  have "set (k_epoll (kern (close_client_connection i s))) =
     {e \<in> set (k_epoll ?k1). fst e \<notin> slot_fds (nat i) s}"
    using assms by (auto simp: close_client_connection_def Let_def slot_ok_def slot_fds_def valid_client_active)
  also have "\<dots> = {e \<in> set (k_epoll (kern s)). fst e \<notin> slot_fds (nat i) s}"
    using assms kepoll_del_remove[of "rx_fd (clients s ! nat i)" "slot_fds (nat i) s" "kern s"]
    by (simp add: slot_fds_def valid_client_active)
  finally show ?thesis .
qed

lemma close_active:
  assumes "valid_client i s" "length (clients s) = MAX_CLIENTS"
  shows "active j (close_client_connection i s) \<longleftrightarrow> active j s \<and> j \<noteq> nat i"
    and "j \<noteq> nat i \<Longrightarrow> clients (close_client_connection i s) ! j = clients s ! j"
  using assms
  by (cases "j = nat i"; simp add: active_def close_clients valid_client_active)+

lemma close_slot_fds:
  assumes "valid_client i s" "length (clients s) = MAX_CLIENTS"
  shows "slot_fds j (close_client_connection i s) = (if j = nat i then {} else slot_fds j s)"
  using close_active[OF assms] by (simp add: slot_fds_def)

lemma close_inv_gen:
  assumes inv: "server_inv_but X B E s" and v: "valid_client i s"
  shows "server_inv_but (X - {nat i}) B E (close_client_connection i s)"
proof (rule server_invI)
  let ?n = "nat i" and ?t = "close_client_connection i s"
  note len = server_inv_length[OF inv] and ok = server_inv_slot[OF inv]
    and disj = server_inv_disjoint[OF inv] and base = server_inv_base[OF inv]
  note act = close_active[OF v len] and sf = close_slot_fds[OF v len]
  have in_slot: "rx_fd (clients s ! j) \<in> slot_fds j s" if "active j s" for j
    using that by (simp add: slot_fds_def)
  have ep: "set (k_epoll (kern ?t)) = {e \<in> set (k_epoll (kern s)). fst e \<notin> slot_fds ?n s}"
    using close_epoll[OF v ok] .
  show "length (clients ?t) = MAX_CLIENTS" using v len by (simp add: close_clients)
  show "slot_ok j ?t" for j
    using ok[of j] by (cases "j = ?n") (simp_all add: slot_ok_def act)
  show "x \<notin> B" if "x \<in> slot_fds j ?t" for j x
    using base that by (simp add: sf split: if_splits)
  show "j = k" if "x \<in> slot_fds j ?t" "x \<in> slot_fds k ?t" for j k x
    using disj that by (simp add: sf split: if_splits)
  have "(\<Union>j. slot_fds j ?t) = (\<Union>j. slot_fds j s) - slot_fds ?n s"
  proof (intro equalityI subsetI)
    fix x assume "x \<in> (\<Union>j. slot_fds j ?t)"
    then obtain j where "j \<noteq> ?n" "x \<in> slot_fds j s" by (auto simp: sf split: if_splits)
    with disj[of x j ?n] show "x \<in> (\<Union>j. slot_fds j s) - slot_fds ?n s" by blast
  next
    fix x assume "x \<in> (\<Union>j. slot_fds j s) - slot_fds ?n s"
    then obtain j where "x \<in> slot_fds j s" "x \<notin> slot_fds ?n s" by blast
    then have "x \<in> slot_fds j ?t" by (simp add: sf) blast
    then show "x \<in> (\<Union>j. slot_fds j ?t)" by blast
  qed
  then show "set (k_fds (kern ?t)) = B \<union> (\<Union>j. slot_fds j ?t)"
  proof -
    assume "(\<Union>j. slot_fds j ?t) = (\<Union>j. slot_fds j s) - slot_fds ?n s"
    moreover have "B - slot_fds ?n s = B" using base[of _ ?n] by blast
    ultimately show ?thesis
      by (simp only: close_fds[OF v ok] server_inv_opened[OF inv] Un_Diff)
  qed
  show "fst ` E \<subseteq> B" by (rule server_inv_E[OF inv])
  show "E \<subseteq> set (k_epoll (kern ?t))"
    using ep server_inv_epoll_E[OF inv] server_inv_E[OF inv] base[of _ ?n] by fastforce
  show "e \<in> E \<or> (\<exists>j. active j ?t \<and> e = (rx_fd (clients ?t ! j), j))"
    if e: "e \<in> set (k_epoll (kern ?t))" for e
  proof -
    from e ep server_inv_epoll[OF inv, of e]
    consider "e \<in> E" | j where "active j s" "e = (rx_fd (clients s ! j), j)" by auto
    then show ?thesis
    proof cases
      case 2
      with e ep in_slot[of j] have "j \<noteq> ?n" by auto
      with 2 act[of j] show ?thesis by auto
    qed simp
  qed
  show "(rx_fd (clients ?t ! j), j) \<in> set (k_epoll (kern ?t))"
    if "active j ?t" "j \<notin> X - {?n}" for j
    using that act[of j] ep server_inv_registered[OF inv, of j] in_slot[of j] disj[of _ j ?n] by auto
qed

lemma close_inv [inv_intros]:
  assumes "server_inv B E s"
  shows "server_inv B E (close_client_connection i s)"
  using assms close_inv_gen[OF assms, of i] by (cases "valid_client i s") (auto simp: close_invalid)

section \<open>Commands\<close>

lemma server_inv_spawned [simp]:
  "server_inv_but X B E (s\<lparr>spawned := ts\<rparr>) = server_inv_but X B E s"
  "server_inv_but X B E (s\<lparr>counter := n\<rparr>) = server_inv_but X B E s"
  "server_inv_but X B E (s\<lparr>server_running := b\<rparr>) = server_inv_but X B E s"
  by (rule server_inv_frame; simp)+

lemma command_inv [inv_intros]:
  "server_inv B E s \<Longrightarrow> server_inv B E (process_client_command i c s)"
  by (auto simp: process_client_command_def Let_def close_inv
      intro!: server_inv_kern dest!: kfail_fieldsD split: option.splits prod.splits bool.splits)

interpretation command_keeps:
  line_consumer "process_client_command i" "\<lambda>s t. server_inv B E s \<longrightarrow> server_inv B E t"
  by unfold_locales (auto intro: command_inv)

lemmas line_loop_inv [inv_intros] = command_keeps.line_loop_rel[rule_format]

section \<open>Registration\<close>

lemma find_free_from_spec:
  "find_free_from i cs = (if \<exists>c\<in>set cs. is_active c = 0
     then i + int (length (takeWhile (\<lambda>c. is_active c \<noteq> 0) cs)) else -1)"
  by (induction i cs rule: find_free_from.induct) auto

lemma find_free_slot:
  assumes "find_free_client_slot s = i" "i \<noteq> -1"
  shows "0 \<le> i \<and> nat i < length (clients s) \<and> is_active (clients s ! nat i) = 0
    \<and> (\<forall>j<nat i. is_active (clients s ! j) \<noteq> 0)"
proof -
  let ?a = "takeWhile (\<lambda>c. is_active c \<noteq> 0) (clients s)"
  from assms have ex: "\<exists>c\<in>set (clients s). is_active c = 0" and i: "i = int (length ?a)"
    by (auto simp: find_free_client_slot_def find_free_from_spec split: if_splits)
  from ex have "length ?a < length (clients s)"
    by (metis (mono_tags, lifting) length_takeWhile_le le_neq_implies_less takeWhile_eq_take
        take_all_iff order_refl takeWhile_eq_all_conv)
  moreover from this have "is_active (clients s ! length ?a) = 0"
    using nth_length_takeWhile by fastforce
  moreover have "\<forall>j<length ?a. is_active (clients s ! j) \<noteq> 0"
    by (metis (mono_tags, lifting) nth_mem set_takeWhileD takeWhile_nth)
  ultimately show ?thesis using i by simp
qed

lemma find_free_none:
  "find_free_client_slot s = -1 \<longleftrightarrow> (\<forall>c\<in>set (clients s). is_active c \<noteq> 0)"
  by (auto simp: find_free_client_slot_def find_free_from_spec)

text \<open>The table entry a registration writes, before epoll knows about it.\<close>

definition add_client :: "nat \<Rightarrow> fd \<Rightarrow> fd \<Rightarrow> path \<Rightarrow> path \<Rightarrow> server \<Rightarrow> server" where
  "add_client n tx rx txp rxp s = s\<lparr>clients := (clients s)[n := (clients s ! n)
     \<lparr>client_id := int n, tx_fd := tx, rx_fd := rx, tx_path := txp, rx_path := rxp, is_active := 1\<rparr>]\<rparr>"

lemma add_client_slots:
  assumes "length (clients s) = MAX_CLIENTS" "n < MAX_CLIENTS"
  shows "active j (add_client n tx rx txp rxp s) \<longleftrightarrow> j = n \<or> active j s"
    and "j \<noteq> n \<Longrightarrow> clients (add_client n tx rx txp rxp s) ! j = clients s ! j"
    and "clients (add_client n tx rx txp rxp s) ! n = (clients s ! n)
     \<lparr>client_id := int n, tx_fd := tx, rx_fd := rx, tx_path := txp, rx_path := rxp, is_active := 1\<rparr>"
    and "slot_fds j (add_client n tx rx txp rxp s) = (if j = n then {tx, rx} else slot_fds j s)"
    and "length (clients (add_client n tx rx txp rxp s)) = MAX_CLIENTS"
  using assms by (cases "j = n"; simp add: add_client_def active_def slot_fds_def)+

lemma add_client_inv:
  assumes inv: "server_inv B E s" and n: "n < MAX_CLIENTS" "is_active (clients s ! n) = 0"
    and new: "tx \<notin> set (k_fds (kern s))" "rx \<notin> set (k_fds (kern s))" "tx \<noteq> rx" "0 \<le> tx" "0 \<le> rx"
    and k: "set (k_fds k) = insert rx (insert tx (set (k_fds (kern s))))" "k_epoll k = k_epoll (kern s)"
  shows "server_inv_but {n} B E ((add_client n tx rx txp rxp s)\<lparr>kern := k\<rparr>)"
proof -
  let ?a = "add_client n tx rx txp rxp s" and ?t = "(add_client n tx rx txp rxp s)\<lparr>kern := k\<rparr>"
  note A = add_client_slots[OF server_inv_length[OF inv] n(1), where tx = tx and rx = rx
      and txp = txp and rxp = rxp]
  have act: "active j ?t \<longleftrightarrow> j = n \<or> active j s" for j by (simp add: A(1))
  have sf: "slot_fds j ?t = (if j = n then {tx, rx} else slot_fds j s)" for j
    by (simp add: A(4))
  have nact: "\<not> active n s" using n by (simp add: active_def)
  then have sfn: "slot_fds n s = {}" by (simp add: slot_fds_def)
  have old: "x \<in> set (k_fds (kern s))" if "x \<in> slot_fds j s" for x j
    using server_inv_opened[OF inv] that by blast
  have oldB: "x \<in> set (k_fds (kern s))" if "x \<in> B" for x
    using server_inv_opened[OF inv] that by blast
  show ?thesis
  proof (rule server_invI)
    show "length (clients ?t) = MAX_CLIENTS" using A(5) by simp
    show "slot_ok j ?t" for j
      using server_inv_slot[OF inv, of j] act[of j] A(2)[of j] A(3) new
      by (cases "j = n") (simp_all add: slot_ok_def)
    show "x \<notin> B" if "x \<in> slot_fds j ?t" for j x
      using that new oldB server_inv_base[OF inv] by (auto simp: A(4) split: if_splits)
    show "i = j" if "x \<in> slot_fds i ?t" "x \<in> slot_fds j ?t" for i j x
      using that new old server_inv_disjoint[OF inv] by (auto simp: A(4) split: if_splits)
    have "(\<Union>j. slot_fds j ?t) = {tx, rx} \<union> (\<Union>j. slot_fds j s)"
    proof (intro equalityI subsetI)
      fix x assume "x \<in> (\<Union>j. slot_fds j ?t)"
      then show "x \<in> {tx, rx} \<union> (\<Union>j. slot_fds j s)" by (auto simp: A(4) split: if_splits)
    next
      fix x assume "x \<in> {tx, rx} \<union> (\<Union>j. slot_fds j s)"
      then obtain j where "x \<in> slot_fds j ?t"
        using sfn by (metis A(4) UN_E UnE empty_iff slot_fds_kern)
      then show "x \<in> (\<Union>j. slot_fds j ?t)" by blast
    qed
    with k(1) server_inv_opened[OF inv] show "set (k_fds (kern ?t)) = B \<union> (\<Union>j. slot_fds j ?t)"
      by (simp add: insert_commute)
    show "fst ` E \<subseteq> B" by (rule server_inv_E[OF inv])
    show "E \<subseteq> set (k_epoll (kern ?t))" using server_inv_epoll_E[OF inv] k(2) by simp
    show "e \<in> E \<or> (\<exists>i. active i ?t \<and> e = (rx_fd (clients ?t ! i), i))"
      if "e \<in> set (k_epoll (kern ?t))" for e
    proof -
      have "e \<in> set (k_epoll (kern s))" using that k(2) by simp
      from server_inv_epoll[OF inv this] show ?thesis
      proof (elim disjE exE conjE)
        fix j assume j: "active j s" "e = (rx_fd (clients s ! j), j)"
        with nact have "j \<noteq> n" by blast
        then have "active j ?t \<and> e = (rx_fd (clients ?t ! j), j)"
          using j act A(2)[of j] by simp
        then show ?thesis by blast
      qed blast
    qed
    show "(rx_fd (clients ?t ! j), j) \<in> set (k_epoll (kern ?t))" if "active j ?t" "j \<notin> {n}" for j
      using that act[of j] A(2)[of j] k(2) server_inv_registered[OF inv, of j] by simp
  qed
qed

text \<open>Once epoll knows the client, the invariant holds without exception; until then a close restores it.\<close>

lemma add_client_registered:
  assumes "server_inv_but {n} B E (t\<lparr>kern := k\<rparr>)" "active n t" "k_fds k' = k_fds k"
    "k_epoll k' = (rx_fd (clients t ! n), n) # k_epoll k"
  shows "server_inv B E (t\<lparr>kern := k'\<rparr>)"
proof (rule server_invI)
  note inv = assms(1)
  show "length (clients (t\<lparr>kern := k'\<rparr>)) = MAX_CLIENTS" using server_inv_length[OF inv] by simp
  show "slot_ok i (t\<lparr>kern := k'\<rparr>)" for i
    using server_inv_slot[OF inv, of i] by (simp add: slot_ok_def)
  show "x \<notin> B" if "x \<in> slot_fds i (t\<lparr>kern := k'\<rparr>)" for i x
    using server_inv_base[OF inv, of x i] that by simp
  show "i = j" if "x \<in> slot_fds i (t\<lparr>kern := k'\<rparr>)" "x \<in> slot_fds j (t\<lparr>kern := k'\<rparr>)" for i j x
    using server_inv_disjoint[OF inv, of x i j] that by simp
  show "set (k_fds (kern (t\<lparr>kern := k'\<rparr>))) = B \<union> (\<Union>i. slot_fds i (t\<lparr>kern := k'\<rparr>))"
    using server_inv_opened[OF inv] assms(3) by simp
  show "fst ` E \<subseteq> B" by (rule server_inv_E[OF inv])
  show "E \<subseteq> set (k_epoll (kern (t\<lparr>kern := k'\<rparr>)))"
    using server_inv_epoll_E[OF inv] assms(4) by auto
  show "e \<in> E \<or> (\<exists>i. active i (t\<lparr>kern := k'\<rparr>) \<and> e = (rx_fd (clients (t\<lparr>kern := k'\<rparr>) ! i), i))"
    if "e \<in> set (k_epoll (kern (t\<lparr>kern := k'\<rparr>)))" for e
    using that assms(2,4) server_inv_epoll[OF inv, of e] by auto
  show "(rx_fd (clients (t\<lparr>kern := k'\<rparr>) ! i), i) \<in> set (k_epoll (kern (t\<lparr>kern := k'\<rparr>)))"
    if "active i (t\<lparr>kern := k'\<rparr>)" for i
    using that assms(4) server_inv_registered[OF inv, of i] by (cases "i = n") auto
qed

lemma kopen_keeps: "kopen p k = (f, k') \<Longrightarrow> k_epoll k' = k_epoll k \<and> k_in k' = k_in k"
  using kopen_frame[of p k] by auto

lemma kepoll_add_result:
  "kepoll_add f d k = (b, k') \<Longrightarrow> k_fds k' = k_fds k \<and> k_in k' = k_in k
     \<and> k_epoll k' = (if b then (f, d) # k_epoll k else k_epoll k)"
  using kepoll_add_fields[of f d k] kepoll_add_epoll[of f d k] by auto

lemma kwrite_keeps: "kwrite f s k = (n, k') \<Longrightarrow> k_fds k' = k_fds k \<and> k_epoll k' = k_epoll k"
  using kwrite_fields[of f s k] by auto

lemma kread_keeps: "kread f n k = (r, k') \<Longrightarrow> k_fds k' = k_fds k \<and> k_epoll k' = k_epoll k"
  using kread_fields[of f n k] by auto

lemma register_inv [inv_intros]:
  assumes inv: "server_inv B E s"
  shows "server_inv B E (snd (register_new_client txp rxp s))"
proof -
  let ?i = "find_free_client_slot s"
  obtain tx k1 where o1: "kopen txp (kern s) = (tx, k1)" by fastforce
  obtain rx k2 where o2: "kopen rxp k1 = (rx, k2)" by fastforce
  have frame: "server_inv B E (s\<lparr>kern := k\<rparr>)"
    if "set (k_fds k) = set (k_fds (kern s))" "k_epoll k = k_epoll (kern s)" for k
    using inv server_inv_frame[of "s\<lparr>kern := k\<rparr>" s] that by simp
  consider (full) "?i = -1" | (no_tx) "?i \<noteq> -1" "tx = -1" | (no_rx) "?i \<noteq> -1" "tx \<noteq> -1" "rx = -1"
    | (ok) "?i \<noteq> -1" "tx \<noteq> -1" "rx \<noteq> -1" by blast
  then show ?thesis
  proof cases
    case full
    with inv show ?thesis by (simp add: register_new_client_def Let_def)
  next
    case no_tx
    have "server_inv B E (s\<lparr>kern := k1\<rparr>)"
      using frame[of k1] kfd.open_fail o1 no_tx kopen_keeps[OF o1] by simp
    with no_tx o1 show ?thesis by (simp add: register_new_client_def Let_def)
  next
    case no_rx
    have "tx \<notin> fst ` set (k_epoll (kern s))"
    proof
      assume "tx \<in> fst ` set (k_epoll (kern s))"
      then obtain e where e: "e \<in> set (k_epoll (kern s))" "fst e = tx" by auto
      have "tx \<in> set (k_fds (kern s))"
        using server_inv_epoll[OF inv e(1)] e(2) server_inv_E[OF inv] server_inv_opened[OF inv]
        by (auto simp: slot_fds_def)
      with kfd.open_fresh[OF o1] no_rx show False by blast
    qed
    then have "filter (\<lambda>e. fst e \<noteq> tx) (k_epoll (kern s)) = k_epoll (kern s)"
      by (auto simp: filter_id_conv)
    moreover have "set (k_fds (kclose tx k2)) = set (k_fds (kern s))"
      using kfd.open_fresh[OF o1] kfd.open_fail[of rxp k1 k2] o2 no_rx by auto
    ultimately have "server_inv B E (s\<lparr>kern := kclose tx k2\<rparr>)"
      using kopen_keeps[OF o1] kopen_keeps[OF o2] by (intro frame) simp_all
    with no_rx o1 o2 show ?thesis by (simp add: register_new_client_def Let_def)
  next
    case ok
    let ?n = "nat ?i" and ?txp = "strncpy0 256 txp" and ?rxp = "strncpy0 256 rxp"
    let ?a = "add_client ?n tx rx ?txp ?rxp s"
    have slot: "0 \<le> ?i" "?n < MAX_CLIENTS" "is_active (clients s ! ?n) = 0"
      using find_free_slot[OF refl ok(1)] server_inv_length[OF inv] by auto
    have a: "s\<lparr>clients := (clients s)[?n := (clients s ! ?n)\<lparr>client_id := ?i, tx_fd := tx, rx_fd := rx,
        tx_path := ?txp, rx_path := ?rxp, is_active := 1\<rparr>]\<rparr> = ?a"
      using slot(1) by (simp add: add_client_def)
    have inv2: "server_inv_but {?n} B E (?a\<lparr>kern := k2\<rparr>)"
      using kfd.open_fresh[OF o1] kfd.open_fresh[OF o2] ok kopen_keeps[OF o1] kopen_keeps[OF o2]
      by (intro add_client_inv[OF inv slot(2,3)]) auto
    have act: "active ?n ?a" and rxn: "rx_fd (clients ?a ! ?n) = rx"
      using add_client_slots[OF server_inv_length[OF inv] slot(2)] by simp_all
    have closing: "server_inv B E (close_client_connection ?i (?a\<lparr>kern := k\<rparr>))"
      if "server_inv_but {?n} B E (?a\<lparr>kern := k\<rparr>)" for k
      using close_inv_gen[OF that, of ?i] act slot(1) by (simp add: valid_client_active)
    obtain added k3 where e3: "kepoll_add rx ?n k2 = (added, k3)" by fastforce
    obtain w k4 where w4: "kwrite tx RESP_ACK k3 = (w, k4)" by fastforce
    obtain r k5 where r5: "kread rx 1023 k4 = (r, k5)" by fastforce
    note K3 = kepoll_add_result[OF e3] and K4 = kwrite_keeps[OF w4] and K5 = kread_keeps[OF r5]
    show ?thesis
    proof (cases added)
      case False
      with K3 inv2 have "server_inv_but {?n} B E (?a\<lparr>kern := k3\<rparr>)"
        using server_inv_frame[of "?a\<lparr>kern := k3\<rparr>" "?a\<lparr>kern := k2\<rparr>"] by simp
      with False ok o1 o2 e3 show ?thesis
        by (simp add: register_new_client_def Let_def a closing)
    next
      case True
      with K3 have inv3: "server_inv B E (?a\<lparr>kern := k3\<rparr>)"
        by (intro add_client_registered[OF inv2 act]) (auto simp: rxn)
      have inv4: "server_inv B E (?a\<lparr>kern := k4\<rparr>)"
        using server_inv_frame[of "?a\<lparr>kern := k4\<rparr>" "?a\<lparr>kern := k3\<rparr>"] inv3 K4 by simp
      have inv5: "server_inv B E (?a\<lparr>kern := k5\<rparr>)"
        using server_inv_frame[of "?a\<lparr>kern := k5\<rparr>" "?a\<lparr>kern := k4\<rparr>"] inv4 K5 by simp
      show ?thesis
        using True ok o1 o2 e3 w4 r5 close_inv[OF inv4] inv5
        by (auto simp: register_new_client_def Let_def a line_loop_inv split: read_res.splits)
    qed
  qed
qed

section \<open>The event loop\<close>

lemma registration_line_inv [inv_intros]:
  "server_inv B E s \<Longrightarrow> server_inv B E (registration_line line s)"
  by (auto simp: registration_line_def intro: register_inv split: option.splits)

lemma registration_lines_inv [inv_intros]:
  "server_inv B E s \<Longrightarrow> server_inv B E (registration_lines line s)"
proof (induction line s rule: registration_lines.induct)
  case (1 line s)
  show ?case
  proof (cases "strchr_split NL line")
    case None
    with 1(2) show ?thesis by (subst registration_lines.simps) simp
  next
    case (Some p)
    then obtain seg rest where p: "strchr_split NL line = Some (seg, rest)" by (cases p) auto
    with 1(1)[OF p refl registration_line_inv[OF 1(2)]] show ?thesis
      by (subst registration_lines.simps) simp
  qed
qed

lemma server_inv_read:
  "server_inv_but X B E s \<Longrightarrow> kread f n (kern s) = (r, k) \<Longrightarrow> server_inv_but X B E (s\<lparr>kern := k\<rparr>)"
  using kread_keeps[of f n "kern s" r k] by (intro server_inv_kern) auto

lemma process_registration_inv [inv_intros]:
  "server_inv B E s \<Longrightarrow> server_inv B E (process_registration_commands srv s)"
proof (induction srv s rule: process_registration_commands.induct)
  case (1 srv s)
  obtain r k where rk: "kread srv 1023 (kern s) = (r, k)" by fastforce
  note inv = server_inv_read[OF 1(2) rk]
  show ?case
  proof (cases "srv < 0")
    case True
    with 1(2) show ?thesis by (subst process_registration_commands.simps) simp
  next
    case False
    show ?thesis
    proof (cases r)
      case (RData d)
      have "server_inv B E (registration_lines (cstr d) (s\<lparr>kern := k\<rparr>))"
        by (intro registration_lines_inv inv)
      with 1(1)[OF False] rk RData False show ?thesis
        by (subst process_registration_commands.simps) simp
    qed (use False rk inv in \<open>subst process_registration_commands.simps; simp\<close>)+
  qed
qed

lemma drain_inv [inv_intros]:
  "server_inv B E s \<Longrightarrow> server_inv B E (snd (drain_client i buf s))"
proof (induction i buf s rule: drain_client.induct)
  case (1 i buf s)
  obtain r k where rk: "kread (rx_fd (clients s ! nat i)) (1023 - length buf) (kern s) = (r, k)"
    by fastforce
  note inv = server_inv_read[OF 1(2) rk]
  show ?case
  proof (cases "length buf < 1023")
    case False
    with 1(2) show ?thesis by (subst drain_client.simps) simp
  next
    case True
    show ?thesis
    proof (cases r)
      case (RData d)
      with 1(1)[OF True rk[symmetric] RData inv] True rk show ?thesis
        by (subst drain_client.simps) simp
    qed (use True rk inv close_inv[OF inv] in \<open>subst drain_client.simps; simp\<close>)+
  qed
qed

lemma handle_event_inv [inv_intros]:
  "server_inv B E s \<Longrightarrow> server_inv B E (handle_event srv d s)"
  using drain_inv[of B E s "int_of_u32 d" "[]"]
  by (auto simp: handle_event_def intro: process_registration_inv line_loop_inv split: prod.splits)

lemma check_client_inv [inv_intros]:
  "server_inv B E s \<Longrightarrow> server_inv B E (check_client i s)"
  by (auto simp: check_client_def intro: line_loop_inv close_inv dest: server_inv_read
      split: prod.splits read_res.splits)

lemma fold_inv:
  "(\<And>x s. server_inv B E s \<Longrightarrow> server_inv B E (f x s)) \<Longrightarrow> server_inv B E s \<Longrightarrow> server_inv B E (fold f xs s)"
  using keeps_fold[of xs "server_inv B E" f] by (simp add: keeps_def)

lemma periodic_check_inv [inv_intros]: "server_inv B E s \<Longrightarrow> server_inv B E (periodic_check s)"
  unfolding periodic_check_def by (rule fold_inv) (auto intro: check_client_inv)

lemma main_step_inv [inv_intros]: "server_inv B E s \<Longrightarrow> server_inv B E (snd (main_step srv w s))"
  by (cases w)
     (simp_all add: main_step_def Let_def periodic_check_inv fold_inv handle_event_inv)

lemma main_loop_inv [inv_intros]: "server_inv B E s \<Longrightarrow> server_inv B E (main_loop srv xs s)"
proof (induction srv xs s rule: main_loop.induct)
  case (3 srv w xs s)
  then show ?case using main_step_inv[OF 3(2), of srv w] by (auto split: prod.splits)
qed (auto simp: server_signal_handler_def)

section \<open>Start and shutdown\<close>

lemma active_initial: "\<not> active i \<lparr>clients = replicate MAX_CLIENTS reset_client, server_running = r,
    epoll_fd = e, counter = c, spawned = ts, kern = k\<rparr>"
  by (simp add: active_def)

lemma initial_inv:
  assumes "set (k_fds k) = B" "set (k_epoll k) = E" "fst ` E \<subseteq> B"
  shows "server_inv B E \<lparr>clients = replicate MAX_CLIENTS reset_client, server_running = r,
    epoll_fd = e, counter = c, spawned = ts, kern = k\<rparr>"
  using assms by (intro server_invI) (simp_all add: slot_ok_def slot_fds_def active_initial)

lemma mkdir_loop_keeps: "k_fds (mkdir_loop pre cur k) = k_fds k \<and> k_epoll (mkdir_loop pre cur k) = k_epoll k"
proof (induction pre cur k rule: mkdir_loop.induct)
  case (1 pre cur k)
  then show ?case by (subst (1 2) mkdir_loop.simps) (auto simp: kmkdir_def Let_def split: option.splits)
qed

lemma kmkfifo_keeps: "kmkfifo p k = (e, k') \<Longrightarrow> k_fds k' = k_fds k \<and> k_epoll k' = k_epoll k"
  by (auto simp: kmkfifo_def dest: kfail_fieldsD split: if_splits prod.splits bool.splits)

lemma create_fifo_keeps:
  "create_fifo_with_path p k = Some (r, k') \<Longrightarrow> k_fds k' = k_fds k \<and> k_epoll k' = k_epoll k"
  by (auto simp: create_fifo_with_path_def Let_def mkdir_loop_keeps dest!: kmkfifo_keeps
      split: if_splits option.splits prod.splits)

lemma rmdir_loop_keeps: "k_fds (rmdir_loop p k) = k_fds k \<and> k_epoll (rmdir_loop p k) = k_epoll k"
proof (induction p k rule: rmdir_loop.induct)
  case (1 p k)
  have rm: "k_fds k' = k_fds k \<and> k_epoll k' = k_epoll k" if "krmdir d k = (b, k')" for d b k'
    using that by (auto simp: krmdir_def dest: kfail_fieldsD split: prod.splits bool.splits)
  show ?case
  proof (cases "strrchr_split SLASH p")
    case None
    then show ?thesis by (subst (1 2) rmdir_loop.simps) simp
  next
    case (Some q)
    then obtain d b where q: "strrchr_split SLASH p = Some (d, b)" by (cases q) auto
    obtain ok k' where okk: "krmdir d k = (ok, k')" by fastforce
    from 1[OF q refl _ _ okk[symmetric]] rm[OF okk] q okk show ?thesis
      by (subst (1 2) rmdir_loop.simps) auto
  qed
qed

lemma cleanup_fifo_keeps: "k_fds (cleanup_fifo p k) = k_fds k \<and> k_epoll (cleanup_fifo p k) = k_epoll k"
  by (simp add: cleanup_fifo_def rmdir_loop_keeps kunlink_def)

lemma close_if_active_inv: "server_inv B E s \<Longrightarrow> server_inv B E (close_if_active i s)"
  by (simp add: close_if_active_def close_inv)

lemma close_if_active_closes:
  assumes "length (clients s) = MAX_CLIENTS"
  shows "active j (close_if_active i s) \<longleftrightarrow> active j s \<and> j \<noteq> i"
proof (cases "active i s")
  case True
  then have "valid_client (int i) s" by (simp add: valid_client_active)
  from close_active(1)[OF this assms] True show ?thesis by (simp add: close_if_active_def active_def)
next
  case False
  then have "close_if_active i s = s"
    by (auto simp: close_if_active_def close_client_connection_def valid_client_active)
  with False show ?thesis by auto
qed

lemma close_all_active:
  assumes "server_inv B E s"
  shows "active j (fold close_if_active is s) \<longleftrightarrow> active j s \<and> j \<notin> set is"
  using assms
proof (induction "is" arbitrary: s)
  case (Cons i "is")
  from Cons.prems have "server_inv B E (close_if_active i s)" by (rule close_if_active_inv)
  from Cons.IH[OF this] close_if_active_closes[OF server_inv_length[OF Cons.prems]] show ?case by auto
qed simp

lemma close_client_epoll_fd: "epoll_fd (close_client_connection i s) = epoll_fd s"
  by (simp add: close_client_connection_def Let_def)

lemma shutdown_opened:
  assumes inv: "server_inv B E s"
  shows "set (k_fds (kern (main_shutdown srv s))) =
    B - {srv} - (if epoll_fd s \<noteq> -1 then {epoll_fd s} else {})"
proof -
  let ?s1 = "fold close_if_active [0..<MAX_CLIENTS] s"
  have inv1: "server_inv B E ?s1" by (rule fold_inv[OF close_if_active_inv inv])
  have "slot_fds j ?s1 = {}" for j
    using close_all_active[OF inv, of j "[0..<MAX_CLIENTS]"] by (auto simp: slot_fds_def active_def)
  with server_inv_opened[OF inv1] have opened: "set (k_fds (kern ?s1)) = B" by simp
  have "epoll_fd (fold close_if_active is s) = epoll_fd s" for "is"
    by (induction "is" arbitrary: s) (simp_all add: close_if_active_def close_client_epoll_fd)
  with opened show ?thesis
    by (auto simp: main_shutdown_def Let_def cleanup_fifo_keeps)
qed

section \<open>The epoll descriptor never changes\<close>

lemma command_epoll_fd: "epoll_fd (process_client_command i c s) = epoll_fd s"
  by (auto simp: process_client_command_def Let_def close_client_epoll_fd
      split: option.splits prod.splits bool.splits)

interpretation command_epoll:
  line_consumer "process_client_command i" "\<lambda>s t. epoll_fd t = epoll_fd s"
  by unfold_locales (simp_all add: command_epoll_fd)

lemma register_epoll_fd: "epoll_fd (snd (register_new_client txp rxp s)) = epoll_fd s"
  by (auto simp: register_new_client_def Let_def close_client_epoll_fd command_epoll.line_loop_rel
      split: prod.splits read_res.splits)

lemma registration_lines_epoll_fd: "epoll_fd (registration_lines line s) = epoll_fd s"
proof (induction line s rule: registration_lines.induct)
  case (1 line s)
  show ?case
  proof (cases "strchr_split NL line")
    case (Some p)
    then obtain seg rest where p: "strchr_split NL line = Some (seg, rest)" by (cases p) auto
    from 1[OF p refl] p show ?thesis
      by (subst registration_lines.simps)
         (simp add: registration_line_def register_epoll_fd split: option.splits)
  qed (subst registration_lines.simps, simp)
qed

lemma process_registration_epoll_fd: "epoll_fd (process_registration_commands srv s) = epoll_fd s"
proof (induction srv s rule: process_registration_commands.induct)
  case (1 srv s)
  obtain r k where rk: "kread srv 1023 (kern s) = (r, k)" by fastforce
  show ?case
    using 1[OF _ rk[symmetric]] rk registration_lines_epoll_fd
    by (cases r) (subst process_registration_commands.simps; simp)+
qed

lemma drain_epoll_fd: "epoll_fd (snd (drain_client i buf s)) = epoll_fd s"
proof (induction i buf s rule: drain_client.induct)
  case (1 i buf s)
  obtain r k where rk: "kread (rx_fd (clients s ! nat i)) (1023 - length buf) (kern s) = (r, k)"
    by fastforce
  show ?case
    using 1[OF _ rk[symmetric]] rk
    by (cases r) (subst drain_client.simps; simp add: close_client_epoll_fd)+
qed

lemma handle_event_epoll_fd: "epoll_fd (handle_event srv d s) = epoll_fd s"
  using drain_epoll_fd[of "int_of_u32 d" "[]" s]
  by (auto simp: handle_event_def process_registration_epoll_fd command_epoll.line_loop_rel
      split: prod.splits)

lemma check_client_epoll_fd: "epoll_fd (check_client i s) = epoll_fd s"
  by (auto simp: check_client_def close_client_epoll_fd command_epoll.line_loop_rel
      split: prod.splits read_res.splits)

lemma fold_epoll_fd: "(\<And>x s. epoll_fd (f x s) = epoll_fd s) \<Longrightarrow> epoll_fd (fold f xs s) = epoll_fd s"
  by (induction xs arbitrary: s) simp_all

lemma main_loop_epoll_fd: "epoll_fd (main_loop srv xs s) = epoll_fd s"
proof (induction srv xs s rule: main_loop.induct)
  case (3 srv w xs s)
  have "epoll_fd (snd (main_step srv w s)) = epoll_fd s"
    by (cases w) (simp_all add: main_step_def Let_def periodic_check_def
        fold_epoll_fd handle_event_epoll_fd check_client_epoll_fd)
  with 3 show ?case by (auto split: prod.splits)
qed (simp_all add: server_signal_handler_def)

section \<open>The outcomes of a registration\<close>

lemma kread_data_nonempty: "kread f n k = (RData d, k') \<Longrightarrow> k_in k f \<noteq> []"
  by (auto simp: kread_def)

lemma register_cases:
  obtains (unchanged) k where "register_new_client txp rxp s = (-1, s\<lparr>kern := k\<rparr>)"
  | (undone) n tx rx k where "find_free_client_slot s = int n"
      "register_new_client txp rxp s = (-1, close_client_connection (int n)
         ((add_client n tx rx (strncpy0 256 txp) (strncpy0 256 rxp) s)\<lparr>kern := k\<rparr>))"
  | (registered) n tx rx k where "find_free_client_slot s = int n"
      "register_new_client txp rxp s =
         (0, (add_client n tx rx (strncpy0 256 txp) (strncpy0 256 rxp) s)\<lparr>kern := k\<rparr>)"
  | (commands) n tx rx k d where "find_free_client_slot s = int n"
      "rx \<notin> set (k_fds (kern s))" "k_in (kern s) rx \<noteq> []"
      "register_new_client txp rxp s = (0, line_loop (process_client_command (int n)) (cstr d)
         ((add_client n tx rx (strncpy0 256 txp) (strncpy0 256 rxp) s)\<lparr>kern := k\<rparr>))"
proof -
  let ?i = "find_free_client_slot s" and ?txp = "strncpy0 256 txp" and ?rxp = "strncpy0 256 rxp"
  obtain tx k1 where o1: "kopen txp (kern s) = (tx, k1)" by fastforce
  obtain rx k2 where o2: "kopen rxp k1 = (rx, k2)" by fastforce
  show thesis
  proof (cases "?i = -1 \<or> tx = -1 \<or> rx = -1")
    case True
    then consider "?i = -1" | "?i \<noteq> -1" "tx = -1" | "?i \<noteq> -1" "tx \<noteq> -1" "rx = -1" by blast
    then have "\<exists>k. register_new_client txp rxp s = (-1, s\<lparr>kern := k\<rparr>)"
    proof cases
      case 1
      then have "register_new_client txp rxp s = (-1, s\<lparr>kern := kern s\<rparr>)"
        by (simp add: register_new_client_def Let_def)
      then show ?thesis by blast
    next
      case 2
      with o1 have "register_new_client txp rxp s = (-1, s\<lparr>kern := k1\<rparr>)"
        by (simp add: register_new_client_def Let_def)
      then show ?thesis by blast
    next
      case 3
      with o1 o2 have "register_new_client txp rxp s = (-1, s\<lparr>kern := kclose tx k2\<rparr>)"
        by (simp add: register_new_client_def Let_def)
      then show ?thesis by blast
    qed
    then show thesis using unchanged by blast
  next
    case False
    then obtain n where n: "?i = int n" using find_free_slot[OF refl, of s] nonneg_int_cases by metis
    obtain b k3 where e3: "kepoll_add rx n k2 = (b, k3)" by fastforce
    obtain w k4 where w4: "kwrite tx RESP_ACK k3 = (w, k4)" by fastforce
    obtain r k5 where r5: "kread rx 1023 k4 = (r, k5)" by fastforce
    have a: "s\<lparr>clients := (clients s)[n := (clients s ! n)\<lparr>client_id := int n, tx_fd := tx, rx_fd := rx,
        tx_path := ?txp, rx_path := ?rxp, is_active := 1\<rparr>]\<rparr> = add_client n tx rx ?txp ?rxp s"
      by (simp add: add_client_def)
    have new: "rx \<notin> set (k_fds (kern s))"
      using kfd.open_fresh[OF o1] kfd.open_fresh[OF o2] False by auto
    have in4: "k_in k4 = k_in (kern s)"
      using kopen_keeps[OF o1] kopen_keeps[OF o2] kepoll_add_result[OF e3] kwrite_fields(3)[of tx RESP_ACK k3] w4
      by simp
    show thesis
    proof (cases "b \<and> 0 < w")
      case False
      then have "register_new_client txp rxp s = (-1, close_client_connection (int n)
          ((add_client n tx rx ?txp ?rxp s)\<lparr>kern := if b then k4 else k3\<rparr>))"
        using \<open>\<not> (?i = -1 \<or> tx = -1 \<or> rx = -1)\<close> o1 o2 n e3 w4
        by (cases b) (simp_all add: register_new_client_def Let_def a)
      with n show thesis by (rule undone)
    next
      case True
      then have reg: "register_new_client txp rxp s = (0, case r of
          RData d \<Rightarrow> line_loop (process_client_command (int n)) (cstr d)
            ((add_client n tx rx ?txp ?rxp s)\<lparr>kern := k5\<rparr>)
        | _ \<Rightarrow> (add_client n tx rx ?txp ?rxp s)\<lparr>kern := k5\<rparr>)"
        using \<open>\<not> (?i = -1 \<or> tx = -1 \<or> rx = -1)\<close> o1 o2 n e3 w4 r5
        by (simp add: register_new_client_def Let_def a split: read_res.splits)
      show thesis
      proof (cases r)
        case (RData d)
        with r5 have "k_in (kern s) rx \<noteq> []" using kread_data_nonempty in4 by metis
        with reg RData n new show thesis by (intro commands[of n rx]) simp_all
      next
        case REof
        with reg n show thesis by (intro registered) simp_all
      next
        case (RErr e)
        with reg n show thesis by (intro registered) simp_all
      qed
    qed
  qed
qed

lemma register_failure_slots:
  assumes inv: "server_inv B E s" and fail: "fst (register_new_client txp rxp s) = -1"
  shows "spawned (snd (register_new_client txp rxp s)) = spawned s
    \<and> (\<forall>i. active i (snd (register_new_client txp rxp s)) = active i s)
    \<and> (\<forall>i. active i s \<longrightarrow> clients (snd (register_new_client txp rxp s)) ! i = clients s ! i)"
proof (cases rule: register_cases[of txp rxp s])
  case (undone n tx rx k)
  let ?a = "(add_client n tx rx (strncpy0 256 txp) (strncpy0 256 rxp) s)\<lparr>kern := k\<rparr>"
  note len = server_inv_length[OF inv]
  have n: "n < MAX_CLIENTS" "is_active (clients s ! n) = 0"
    using find_free_slot[OF undone(1)] len by auto
  note A = add_client_slots[OF len n(1), where tx = tx and rx = rx
      and txp = "strncpy0 256 txp" and rxp = "strncpy0 256 rxp"]
  have v: "valid_client (int n) ?a" using A(1)[of n] by (simp add: valid_client_active)
  have la: "length (clients ?a) = MAX_CLIENTS" using A(5) by simp
  have nact: "\<not> active n s" using n by (simp add: active_def)
  have "active i (close_client_connection (int n) ?a) = active i s" for i
    using close_active(1)[OF v la, of i] A(1)[of i] nact by auto
  moreover have "active i s \<Longrightarrow> clients (close_client_connection (int n) ?a) ! i = clients s ! i" for i
    using close_active(2)[OF v la, of i] A(2)[of i] nact by (cases "i = n") auto
  moreover have "spawned (close_client_connection (int n) ?a) = spawned s"
    by (simp add: close_client_connection_def Let_def add_client_def)
  ultimately show ?thesis using undone(2) by simp
qed (use fail in \<open>auto simp: active_def\<close>)

section \<open>The table as a partial map\<close>

definition table_map :: "server \<Rightarrow> nat \<rightharpoonup> path \<times> path" where
  "table_map s = (\<lambda>i. if active i s then Some (tx_path (clients s ! i), rx_path (clients s ! i)) else None)"

lemma table_map_close:
  assumes "length (clients s) = MAX_CLIENTS"
  shows "table_map (close_client_connection (int j) s) = (table_map s)(j := None)"
proof (cases "valid_client (int j) s")
  case True
  show ?thesis
    using close_active[OF True assms] by (auto simp: table_map_def fun_eq_iff)
next
  case False
  then show ?thesis by (auto simp: close_invalid table_map_def fun_eq_iff valid_client_active)
qed

lemma table_map_free:
  assumes "length (clients s) = MAX_CLIENTS" "find_free_client_slot s = int n"
  shows "(LEAST i. i \<notin> dom (table_map s)) = n"
proof (rule Least_equality)
  from find_free_slot[OF assms(2)] assms(1)
  have n: "n < MAX_CLIENTS" "is_active (clients s ! n) = 0" "\<forall>j<n. is_active (clients s ! j) \<noteq> 0" by auto
  then show "n \<notin> dom (table_map s)" by (auto simp: table_map_def active_def split: if_splits)
  fix i assume "i \<notin> dom (table_map s)"
  then have "\<not> active i s" by (auto simp: table_map_def)
  with n show "n \<le> i" by (auto simp: active_def not_le[symmetric])
qed

lemma table_map_add:
  assumes "length (clients s) = MAX_CLIENTS" "n < MAX_CLIENTS"
  shows "table_map ((add_client n tx rx txp rxp s)\<lparr>kern := k\<rparr>) = (table_map s)(n \<mapsto> (txp, rxp))"
  using add_client_slots[OF assms] by (auto simp: table_map_def fun_eq_iff)

end
