(* ===== verification/Fifo_Client.thy ===== *)
theory Fifo_Client
  imports Fifo_Server
begin

text \<open>
  The client of task 7 (\<open>task_7/homework/src/client\<close>) and the thread of the
  server that sends it a file. The client's descriptors block: a read with
  nothing to deliver is \<open>None\<close>, "still waiting".
\<close>

section \<open>Blocking reads\<close>

definition kread_blocking :: "fd \<Rightarrow> nat \<Rightarrow> kernel \<Rightarrow> (read_res \<times> kernel) option" where
  "kread_blocking f n k = (if k_in k f = [] then None else Some (kread f n k))"

lemma kread_blocking_less:
  assumes "kread_blocking f n k = Some (r, k')" "0 < n"
  shows "pending f k' < pending f k"
proof (cases "k_in k f")
  case Nil
  with assms show ?thesis by (simp add: kread_blocking_def)
next
  case (Cons x xs)
  with assms show ?thesis
    by (cases x) (auto simp: kread_blocking_def kread_def pending_def split: if_splits)
qed

section \<open>The sending thread\<close>

definition BUFFER_SIZE :: nat where "BUFFER_SIZE = 4096"

definition size_header :: "int \<Rightarrow> string" where
  "size_header n = ''SIZE:'' @ dec_int n @ [NL]"

text \<open>
  The copy loop of \<open>send_file_to_client\<close>. \<open>rest\<close> is what \<open>fread\<close> has not yet
  delivered, \<open>run\<close> the values \<open>server_running\<close> has at the successive tests
  (true when the list is used up).
\<close>

function send_loop :: "fd \<Rightarrow> nat \<Rightarrow> nat \<Rightarrow> bytes \<Rightarrow> bool list \<Rightarrow> kernel \<Rightarrow> nat \<times> kernel" where
  "send_loop cfd file_size total_sent rest run k =
     (if total_sent < file_size \<and> (run = [] \<or> hd run) then
        (let buffer = take BUFFER_SIZE rest in
         if buffer = [] then (total_sent, k)
         else case kwrite cfd buffer k of (bytes_written, k') \<Rightarrow>
           if bytes_written \<le> 0 then (total_sent, k')
           else send_loop cfd file_size (total_sent + nat bytes_written)
                  (drop BUFFER_SIZE rest) (tl run) k')
      else (total_sent, k))"
  by pat_completeness auto
termination
  by (relation "measure (\<lambda>(cfd, file_size, total_sent, rest, run, k). length rest)")
     (auto simp: BUFFER_SIZE_def)

declare send_loop.simps [simp del]

text \<open>
  \<open>file\<close> is what the file system has under the task's name: the size \<open>ftell\<close>
  reports (negative: it failed) and the bytes \<open>fread\<close> will deliver. The result
  is the kernel and, when the loop was reached, the bytes counted as sent.
\<close>

definition send_file_to_client ::
    "(path \<Rightarrow> (int \<times> bytes) option) \<Rightarrow> bool list \<Rightarrow> FileTask \<Rightarrow> kernel \<Rightarrow> nat option \<times> kernel" where
  "send_file_to_client file run task k =
     (case file (task_filename task) of
        None \<Rightarrow> (None, k)
      | Some (file_size, content) \<Rightarrow> (case kfail k of
            (True, k1) \<Rightarrow> (None, k1)
          | (False, k1) \<Rightarrow>
              if file_size < 0 then (None, k1)
              else (case kfail k1 of
                  (True, k2) \<Rightarrow> (None, k2)
                | (False, k2) \<Rightarrow>
                    if \<not> snprintf_fits 64 (size_header file_size) then (None, k2)
                    else (case kwrite (client_fd task) (size_header file_size) k2 of (written, k3) \<Rightarrow>
                        if written \<le> 0 then (None, k3)
                        else (case send_loop (client_fd task) (nat file_size) 0 content run k3 of
                            (sent, k4) \<Rightarrow> (Some sent, k4))))))"

section \<open>The client\<close>

definition CLIENT_PREFIX :: path where "CLIENT_PREFIX = ''tmp/client_''"

record Client =
  pid :: int
  cl_tx_fd :: fd
  cl_rx_fd :: fd
  tx_fifo :: path
  rx_fifo :: path

definition register_command :: "Client \<Rightarrow> string" where
  "register_command c = CMD_REGISTER @ '' '' @ tx_fifo c @ '' '' @ rx_fifo c @ [NL]"

text \<open>\<open>ready\<close> is the result of \<open>epoll_wait\<close>: -1 an error, 0 the five-second timeout.\<close>

definition register_client :: "int \<Rightarrow> Client \<Rightarrow> kernel \<Rightarrow> int \<times> kernel" where
  "register_client ready c k =
     (case kopen (tx_fifo c) k of (preopen_fd, k1) \<Rightarrow>
      if preopen_fd = -1 then (-1, k1)
      else case kopen SERVER_FIFO_PATH k1 of (server_fifo_fd, k2) \<Rightarrow>
      if server_fifo_fd = -1 then (-1, k2)
      else if \<not> snprintf_fits 512 (register_command c) then (-1, kclose server_fifo_fd k2)
      else case kwrite server_fifo_fd (register_command c) k2 of (written, k3) \<Rightarrow>
      if written \<le> 0 then (-1, kclose server_fifo_fd k3)
      else case kopen (tx_fifo c) (kclose server_fifo_fd k3) of (temp_tx_fd, k4) \<Rightarrow>
      if temp_tx_fd = -1 then (-1, k4)
      else case kopen ''epoll'' k4 of (ep, k5) \<Rightarrow>
      if ep = -1 then (-1, kclose temp_tx_fd k5)
      else case kepoll_add temp_tx_fd 0 k5 of (added, k6) \<Rightarrow>
      if \<not> added then (-1, kclose ep (kclose temp_tx_fd k6))
      else if ready = -1 \<or> ready = 0 then (-1, kclose ep (kclose temp_tx_fd k6))
      else case kread temp_tx_fd 31 k6 of
          (RData d, k7) \<Rightarrow>
            (if strncmp_eq d RESP_ACK (length RESP_ACK) then 0 else -1,
             kclose ep (kclose temp_tx_fd k7))
        | (_, k7) \<Rightarrow> (-1, kclose ep (kclose temp_tx_fd k7)))"

definition get_command :: "string \<Rightarrow> string" where
  "get_command filename = CMD_GET @ '' '' @ filename @ [NL]"

definition send_get_command :: "Client \<Rightarrow> string \<Rightarrow> kernel \<Rightarrow> int \<times> kernel" where
  "send_get_command c filename k =
     (if \<not> snprintf_fits 512 (get_command filename) then (-1, k)
      else case kwrite (cl_rx_fd c) (get_command filename) k of (written, k') \<Rightarrow>
        (if written \<le> 0 then -1 else 0, k'))"

text \<open>The size header, a byte at a time: \<open>Inl\<close> is one of the early returns with -1.\<close>

function read_header :: "fd \<Rightarrow> bytes \<Rightarrow> kernel \<Rightarrow> ((unit + bytes) \<times> kernel) option" where
  "read_header f hdr k =
     (if length hdr < 63 then
        (case kread_blocking f 1 k of
           None \<Rightarrow> None
         | Some (REof, k') \<Rightarrow> Some (Inl (), k')
         | Some (RErr e, k') \<Rightarrow> if e = EINTR then read_header f hdr k' else Some (Inl (), k')
         | Some (RData d, k') \<Rightarrow>
             if hd d = NL then Some (Inr hdr, k') else read_header f (hdr @ [hd d]) k')
      else Some (Inl (), k))"
  by pat_completeness auto
termination
  by (relation "measure (\<lambda>(f, hdr, k). pending f k)")
     (auto intro: kread_blocking_less)

declare read_header.simps [simp del]

definition parse_size :: "bytes \<Rightarrow> nat option" where
  "parse_size hdr = (case scan_literal ''SIZE:'' (cstr hdr) of
     None \<Rightarrow> None
   | Some r \<Rightarrow> map_option fst (scan_size r))"

function receive_body :: "fd \<Rightarrow> nat \<Rightarrow> nat \<Rightarrow> kernel \<Rightarrow> (int \<times> kernel) option" where
  "receive_body f file_size total_received k =
     (if total_received < file_size then
        (let to_read = min BUFFER_SIZE (file_size - total_received) in
         case kread_blocking f to_read k of
           None \<Rightarrow> None
         | Some (REof, k') \<Rightarrow> Some (-1, k')
         | Some (RErr e, k') \<Rightarrow>
             if e = EINTR then receive_body f file_size total_received k' else Some (-1, k')
         | Some (RData d, k') \<Rightarrow> receive_body f file_size (total_received + length d) k')
      else Some (0, k))"
  by pat_completeness auto
termination
  by (relation "measure (\<lambda>(f, file_size, total_received, k). pending f k)")
     (auto simp: BUFFER_SIZE_def intro: kread_blocking_less)

declare receive_body.simps [simp del]

definition receive_file :: "Client \<Rightarrow> kernel \<Rightarrow> (int \<times> kernel) option" where
  "receive_file c k =
     (case read_header (cl_tx_fd c) [] k of
        None \<Rightarrow> None
      | Some (Inl _, k') \<Rightarrow> Some (-1, k')
      | Some (Inr hdr, k') \<Rightarrow> (case parse_size hdr of
            None \<Rightarrow> Some (-1, k')
          | Some file_size \<Rightarrow> receive_body (cl_tx_fd c) file_size 0 k'))"

text \<open>
  The request loop of \<open>main\<close>: \<open>ex\<close> holds the values of \<open>should_exit\<close> at the
  successive tests. The result lists the files received, \<open>None\<close> is a client
  that waits for the server.
\<close>

fun request_loop :: "Client \<Rightarrow> bool list \<Rightarrow> string list \<Rightarrow> kernel \<Rightarrow> (string list \<times> kernel) option" where
  "request_loop c ex [] k = Some ([], k)"
| "request_loop c ex (file # files) k =
     (if ex \<noteq> [] \<and> hd ex then Some ([], k)
      else case send_get_command c file k of (r, k1) \<Rightarrow>
        if r \<noteq> 0 then request_loop c (tl ex) files k1
        else (case receive_file c k1 of
            None \<Rightarrow> None
          | Some (r2, k2) \<Rightarrow>
              map_option (\<lambda>(got, k3). (if r2 \<noteq> 0 then got else file # got, k3))
                (request_loop c (tl ex) files k2)))"

definition fifo_path :: "int \<Rightarrow> string \<Rightarrow> path" where
  "fifo_path p which = CLIENT_PREFIX @ dec_int p @ which"

definition disconnect_command :: string where
  "disconnect_command = CMD_DISCONNECT @ [NL]"

text \<open>\<open>main\<close> once the client is registered: open both FIFOs, ask for the files, say goodbye.\<close>

definition client_session ::
    "bool list \<Rightarrow> string list \<Rightarrow> Client \<Rightarrow> kernel \<Rightarrow> (int \<times> string list \<times> kernel) option" where
  "client_session ex files c k =
     (case kopen (tx_fifo c) k of (tx, k1) \<Rightarrow>
      if tx = -1 then Some (1, [], cleanup_fifo (rx_fifo c) (cleanup_fifo (tx_fifo c) k1))
      else case kopen (rx_fifo c) k1 of (rx, k2) \<Rightarrow>
      if rx = -1 then Some (1, [], cleanup_fifo (rx_fifo c) (cleanup_fifo (tx_fifo c) (kclose tx k2)))
      else (case request_loop (c\<lparr>cl_tx_fd := tx, cl_rx_fd := rx\<rparr>) ex files k2 of
          None \<Rightarrow> None
        | Some (got, k3) \<Rightarrow>
            Some (0, got, cleanup_fifo (rx_fifo c) (cleanup_fifo (tx_fifo c)
              (kclose rx (kclose tx (snd (kwrite rx disconnect_command k3))))))))"

definition client_main ::
    "int \<Rightarrow> int \<Rightarrow> bool list \<Rightarrow> string list \<Rightarrow> kernel \<Rightarrow> (int \<times> string list \<times> kernel) option" where
  "client_main p ready ex files k =
     (if files = [] then Some (1, [], k)
      else let tx = fifo_path p ''/tx''; rx = fifo_path p ''/rx'';
               c = \<lparr>pid = p, cl_tx_fd = 0, cl_rx_fd = 0, tx_fifo = tx, rx_fifo = rx\<rparr>
      in if \<not> snprintf_fits 256 tx \<or> \<not> snprintf_fits 256 rx then Some (1, [], k)
      else case create_fifo_with_path tx k of None \<Rightarrow> None
      | Some (r1, k1) \<Rightarrow>
        if r1 \<noteq> 0 then Some (1, [], k1)
        else (case create_fifo_with_path rx k1 of None \<Rightarrow> None
        | Some (r2, k2) \<Rightarrow>
          if r2 \<noteq> 0 then Some (1, [], cleanup_fifo tx k2)
          else if \<not> file_exists SERVER_FIFO_PATH k2
            then Some (1, [], cleanup_fifo rx (cleanup_fifo tx k2))
          else (case register_client ready c k2 of (r3, k3) \<Rightarrow>
            if r3 \<noteq> 0 then Some (1, [], cleanup_fifo rx (cleanup_fifo tx k3))
            else client_session ex files c k3)))"

section \<open>What the sending loop writes\<close>

lemma send_loop_full:
  assumes "k_wlim k = []" "run = []" "sent + length rest = file_size"
  shows "fst (send_loop cfd file_size sent rest run k) = file_size
    \<and> k_out (snd (send_loop cfd file_size sent rest run k)) = (k_out k)(cfd := k_out k cfd @ rest)"
  using assms
proof (induction cfd file_size sent rest run k rule: send_loop.induct)
  case (1 cfd file_size sent rest run k)
  let ?b = "take BUFFER_SIZE rest"
  let ?k = "k\<lparr>k_out := (k_out k)(cfd := k_out k cfd @ ?b)\<rparr>"
  have w: "kwrite cfd ?b k = (int (length ?b), ?k)" using 1(2) by (rule kwrite_full)
  show ?case
  proof (cases "rest = []")
    case True
    with 1(4) show ?thesis by (subst (1 2) send_loop.simps) simp
  next
    case False
    then have b: "?b \<noteq> []" "sent < file_size" using 1(4) by (auto simp: BUFFER_SIZE_def)
    have "sent + length ?b + length (drop BUFFER_SIZE rest) = file_size"
      using 1(4) by (metis add.assoc append_take_drop_id length_append)
    then have IH: "fst (send_loop cfd file_size (sent + nat (int (length ?b))) (drop BUFFER_SIZE rest) (tl run) ?k) = file_size
      \<and> k_out (snd (send_loop cfd file_size (sent + nat (int (length ?b))) (drop BUFFER_SIZE rest) (tl run) ?k))
          = (k_out ?k)(cfd := k_out ?k cfd @ drop BUFFER_SIZE rest)"
      using 1(2,3) b by (intro 1(1)[OF _ refl b(1) w[symmetric]]) auto
    have step: "send_loop cfd file_size sent rest run k =
        send_loop cfd file_size (sent + nat (int (length ?b))) (drop BUFFER_SIZE rest) (tl run) ?k"
      using b 1(3) w by (subst send_loop.simps) (auto simp: Let_def min_def)
    have "(k_out ?k)(cfd := k_out ?k cfd @ drop BUFFER_SIZE rest) = (k_out k)(cfd := k_out k cfd @ rest)"
      by (rule ext) simp
    with IH step show ?thesis by (simp only:)
  qed
qed

section \<open>What the client reads\<close>

text \<open>Input that a reader can only see as bytes, whatever the pieces it comes in and the signals in between.\<close>

fun plain_item :: "read_res \<Rightarrow> bool" where
  "plain_item (RData s) = (s \<noteq> [])"
| "plain_item (RErr e) = (e = EINTR)"
| "plain_item REof = False"

fun item_bytes :: "read_res \<Rightarrow> bytes" where
  "item_bytes (RData s) = s"
| "item_bytes _ = []"

definition plain_input :: "fd \<Rightarrow> kernel \<Rightarrow> bool" where
  "plain_input f k \<longleftrightarrow> (\<forall>x\<in>set (k_in k f). plain_item x)"

definition incoming :: "fd \<Rightarrow> kernel \<Rightarrow> bytes" where
  "incoming f k = concat (map item_bytes (k_in k f))"

text \<open>A byte stream: each read delivers a non-empty piece of its front, or is interrupted.\<close>

lemma plain_read_cases:
  assumes "plain_input f k" "incoming f k \<noteq> []" "0 < n"
  obtains (data) d k' where "kread_blocking f n k = Some (RData d, k')" "d \<noteq> []" "length d \<le> n"
      "incoming f k = d @ incoming f k'" "plain_input f k'"
  | (intr) k' where "kread_blocking f n k = Some (RErr EINTR, k')"
      "incoming f k' = incoming f k" "plain_input f k'"
proof (cases "k_in k f")
  case Nil
  with assms(2) show ?thesis by (simp add: incoming_def)
next
  case (Cons x xs)
  with assms(1) have x: "plain_item x" "\<forall>y\<in>set xs. plain_item y" by (auto simp: plain_input_def)
  show ?thesis
  proof (cases x)
    case (RData d)
    show ?thesis
    proof (cases "length d \<le> n")
      case True
      with x Cons RData show ?thesis
        by (intro data[of d "k\<lparr>k_in := (k_in k)(f := xs)\<rparr>"])
           (auto simp: kread_blocking_def kread_def incoming_def plain_input_def)
    next
      case False
      with x Cons RData assms(3) show ?thesis
        by (intro data[of "take n d" "k\<lparr>k_in := (k_in k)(f := RData (drop n d) # xs)\<rparr>"])
           (auto simp: kread_blocking_def kread_def incoming_def plain_input_def)
    qed
  next
    case (RErr e)
    with x Cons show ?thesis
      by (intro intr[of "k\<lparr>k_in := (k_in k)(f := xs)\<rparr>"])
         (auto simp: kread_blocking_def kread_def incoming_def plain_input_def)
  qed (use x in simp)
qed

lemma read_header_plain:
  assumes "plain_input f k" "incoming f k = h @ NL # rest" "NL \<notin> set h" "length hdr + length h < 63"
  shows "\<exists>k'. read_header f hdr k = Some (Inr (hdr @ h), k') \<and> plain_input f k' \<and> incoming f k' = rest"
  using assms
proof (induction f hdr k arbitrary: h rule: read_header.induct)
  case (1 f hdr k)
  have len: "length hdr < 63" and ne: "incoming f k \<noteq> []" using 1(4,6) by auto
  have one: "0 < (1::nat)" by simp
  from 1(3) ne one show ?case
  proof (cases rule: plain_read_cases)
    case (data d k')
    then obtain c where d: "d = [c]" by (cases d) auto
    show ?thesis
    proof (cases h)
      case Nil
      with data d 1(4) len show ?thesis by (subst read_header.simps) simp
    next
      case (Cons c' h')
      with data d 1(4,5) have c: "c = c'" "c \<noteq> NL" "incoming f k' = h' @ NL # rest" by auto
      with 1(1)[OF len data(1) refl refl _ data(5), of h'] data d 1(5,6) Cons len
      show ?thesis by (subst read_header.simps) (auto simp: d)
    qed
  next
    case (intr k')
    with 1(2)[OF len intr(1) refl refl refl] 1(4-6) len show ?thesis
      by (subst read_header.simps) simp
  qed
qed

lemma receive_body_plain:
  assumes "plain_input f k" "incoming f k = body @ rest" "total_received + length body = file_size"
  shows "\<exists>k'. receive_body f file_size total_received k = Some (0, k') \<and> plain_input f k' \<and> incoming f k' = rest"
  using assms
proof (induction f file_size total_received k arbitrary: body rule: receive_body.induct)
  case (1 f file_size total_received k)
  let ?n = "min BUFFER_SIZE (file_size - total_received)"
  show ?case
  proof (cases "body = []")
    case True
    with 1(3-5) show ?thesis by (subst receive_body.simps) simp
  next
    case False
    then have less: "total_received < file_size" and n: "0 < ?n" and ne: "incoming f k \<noteq> []"
      using 1(4,5) by (auto simp: BUFFER_SIZE_def)
    from 1(3) ne n show ?thesis
    proof (cases rule: plain_read_cases)
      case (data d k')
      have "length d \<le> length body" using data(3) 1(5) by arith
      then have body: "body = d @ drop (length d) body" and rest: "incoming f k' = drop (length d) body @ rest"
        using data(4) 1(4) by (metis append_eq_append_conv_if append_take_drop_id)+
      have "total_received + length d + length (drop (length d) body) = file_size"
        using 1(5) \<open>length d \<le> length body\<close> by simp
      from 1(1)[OF less refl data(1) refl refl data(5) rest this] data less show ?thesis
        by (subst receive_body.simps) (simp add: Let_def)
    next
      case (intr k')
      with 1(2)[OF less refl intr(1) refl refl refl] 1(4,5) less show ?thesis
        by (subst receive_body.simps) (simp add: Let_def)
    qed
  qed
qed

end
