(* ===== verification/Fifo_Properties.thy ===== *)
theory Fifo_Properties
  imports Fifo_Server_Inv Fifo_Client
begin

text \<open>
  What the invariant and the transfer lemmas give for the file server and its
  client: the properties of task 7, each with a run at a concrete state.
\<close>

section \<open>Lines and commands\<close>

lemma line_loop_lines:
  assumes "\<forall>l\<in>set ls. l \<noteq> [] \<and> NL \<notin> set l"
  shows "line_loop f (concat (map (\<lambda>l. l @ [NL]) ls)) s = fold f ls s"
  using assms
proof (induction ls arbitrary: s)
  case Nil
  then show ?case by (subst line_loop.simps) simp
next
  case (Cons l ls)
  have "line_loop f (concat (map (\<lambda>l. l @ [NL]) (l # ls))) s =
      line_loop f (concat (map (\<lambda>l. l @ [NL]) ls)) (f l s)"
    using Cons.prems by (subst line_loop.simps) simp
  with Cons show ?case by simp
qed

definition get_line :: "string \<Rightarrow> string" where
  "get_line name = CMD_GET @ '' '' @ name"

definition servable :: "string \<Rightarrow> bool" where
  "servable name \<longleftrightarrow> word_like name \<and> nonul name \<and> length name \<le> 255"

lemma servable_no_nl: "servable name \<Longrightarrow> NL \<notin> set name"
  using isspace_blank(2) by (auto simp: servable_def word_like_def)

lemma get_command_line: "get_command name = get_line name @ [NL]"
  by (simp add: get_command_def get_line_def)

lemma get_line_plain:
  "servable name \<Longrightarrow> get_line name \<noteq> [] \<and> NL \<notin> set (get_line name) \<and> nonul (get_line name)"
  using servable_no_nl[of name] by (auto simp: get_line_def CMD_GET_def servable_def)

lemma process_get:
  assumes "valid_client i s" "servable name" "name \<in> set (k_exists (kern s))" "k_fail (kern s) = []"
  shows "process_client_command i (get_line name) s =
    s\<lparr>spawned := spawned s @ [\<lparr>client_fd = tx_fd (clients s ! nat i), task_filename = name\<rparr>]\<rparr>"
proof -
  have n: "nonul name" "length name \<le> 255" "word_like name" using assms(2) by (auto simp: servable_def)
  have copy: "cut_newline (strncpy0 512 (get_line name)) = get_line name"
    using get_line_plain[OF assms(2)] n
    by (simp add: strncpy0_def cut_newline_def) (simp add: get_line_def CMD_GET_def)
  have "scan_word 255 (cstr name) = Some (name, [])"
    using scan_word_append[of name 255 "[]"] n by simp
  moreover have "strncpy0 256 name = name" using n by (simp add: strncpy0_def)
  moreover have "\<not> strncmp_eq (get_line name) CMD_DISCONNECT (length CMD_DISCONNECT)"
    by (simp add: strncmp_eq_def get_line_def CMD_GET_def CMD_DISCONNECT_def cstr_def)
  moreover have "strncmp_eq (get_line name) CMD_GET (length CMD_GET)"
    by (simp add: strncmp_eq_def get_line_def CMD_GET_def cstr_def)
  moreover have "drop (length CMD_GET + 1) (get_line name) = name"
    by (simp add: get_line_def CMD_GET_def)
  ultimately show ?thesis
    using assms copy by (simp add: process_client_command_def Let_def kfail_def)
qed

lemma fold_get:
  assumes "valid_client i s" "k_fail (kern s) = []"
    "\<forall>f\<in>set fs. servable f \<and> f \<in> set (k_exists (kern s))"
  shows "fold (process_client_command i) (map get_line fs) s =
    s\<lparr>spawned := spawned s @ map (\<lambda>f. \<lparr>client_fd = tx_fd (clients s ! nat i), task_filename = f\<rparr>) fs\<rparr>"
  using assms
proof (induction fs arbitrary: s)
  case (Cons f fs)
  let ?t = "s\<lparr>spawned := spawned s @ [\<lparr>client_fd = tx_fd (clients s ! nat i), task_filename = f\<rparr>]\<rparr>"
  have "process_client_command i (get_line f) s = ?t" using Cons.prems by (intro process_get) auto
  moreover have "valid_client i ?t" using Cons.prems(1) by (simp add: valid_client_def)
  ultimately show ?case using Cons.IH[of ?t] Cons.prems by simp
qed simp

section \<open>Draining a client\<close>

text \<open>The pieces a client sent reach the buffer in order; \<open>after\<close> is what follows them.\<close>

lemma drain_pieces:
  assumes "k_in (kern s) (rx_fd (clients s ! nat i)) = map RData ps @ after"
    and "\<forall>p\<in>set ps. p \<noteq> []" and "length buf + length (concat ps) < 1023"
  shows "drain_client i buf s =
    drain_client i (buf @ concat ps) (s\<lparr>kern := set_input (rx_fd (clients s ! nat i)) after (kern s)\<rparr>)"
  using assms
proof (induction ps arbitrary: buf s)
  case Nil
  then show ?case by (simp add: set_input_same)
next
  case (Cons p ps)
  let ?f = "rx_fd (clients s ! nat i)"
  let ?s = "s\<lparr>kern := set_input ?f (map RData ps @ after) (kern s)\<rparr>"
  have "kread ?f (1023 - length buf) (kern s) = (RData p, set_input ?f (map RData ps @ after) (kern s))"
    using Cons.prems by (intro kread_piece) auto
  then have "drain_client i buf s = drain_client i (buf @ p) ?s"
    using Cons.prems by (subst drain_client.simps) simp
  with Cons.IH[of ?s "buf @ p"] Cons.prems show ?case by simp
qed

lemma drain_again:
  "length buf < 1023 \<Longrightarrow> k_in (kern s) (rx_fd (clients s ! nat i)) = [] \<Longrightarrow> drain_client i buf s = (buf, s)"
  by (subst drain_client.simps) (simp add: kread_def)

lemma drain_eof:
  assumes "length buf < 1023" "k_in (kern s) (rx_fd (clients s ! nat i)) = REof # rs"
  shows "\<exists>k. drain_client i buf s = (buf, close_client_connection i (s\<lparr>kern := k\<rparr>))"
  using assms kread_eof[OF assms(2)] by (subst drain_client.simps) (simp, blast)

lemma int_of_u32_small: "d < 64 \<Longrightarrow> int_of_u32 d = int d"
  by (simp add: int_of_u32_def)

lemma closed_command: "\<not> valid_client i s \<Longrightarrow> process_client_command i c s = s"
  by (simp add: process_client_command_def)

lemma closed_lines:
  assumes "\<not> valid_client i s"
  shows "line_loop (process_client_command i) line s = s"
  using assms
proof (induction "length line" arbitrary: line rule: less_induct)
  case less
  show ?case
  proof (cases "strchr_split NL line")
    case None
    with less(2) show ?thesis by (subst line_loop.simps) (simp add: closed_command)
  next
    case (Some p)
    then obtain seg rest where p: "strchr_split NL line = Some (seg, rest)" by (cases p) auto
    from less(1)[OF strchr_split_shorter[OF p] less(2)] p less(2) show ?thesis
      by (subst line_loop.simps) (simp add: closed_command)
  qed
qed

section \<open>A concrete server\<close>

text \<open>The kernel of the witnesses: nothing open, one file in the file system, no scripted failure.\<close>

definition demo_kernel :: kernel where
  "demo_kernel = \<lparr>k_fds = [0, 1, 2], k_names = (\<lambda>_. []), k_in = (\<lambda>_. []), k_out = (\<lambda>_. []),
     k_epoll = [], k_fail = [], k_wlim = [], k_exists = [''f''], k_dirs = []\<rparr>"

definition demo_server :: server where
  "demo_server = \<lparr>clients = (replicate MAX_CLIENTS reset_client)
       [0 := \<lparr>client_id = 0, tx_fd = 5, rx_fd = 6, tx_path = ''a'', rx_path = ''b'', is_active = 1\<rparr>,
        1 := \<lparr>client_id = 1, tx_fd = 7, rx_fd = 8, tx_path = ''c'', rx_path = ''d'', is_active = 1\<rparr>],
     server_running = True, epoll_fd = 4, counter = 0, spawned = [],
     kern = demo_kernel\<lparr>k_fds := [8, 7, 6, 5, 4, 3, 2, 1, 0], k_epoll := [(8, 1), (6, 0), (3, 0)]\<rparr>\<rparr>"

definition demo_input :: "read_res list \<Rightarrow> server" where
  "demo_input rs = demo_server\<lparr>kern := set_input 8 rs (kern demo_server)\<rparr>"

lemma demo_slots:
  "length (clients demo_server) = MAX_CLIENTS" "active i demo_server \<longleftrightarrow> i = 0 \<or> i = 1"
  "clients demo_server ! 0 = \<lparr>client_id = 0, tx_fd = 5, rx_fd = 6, tx_path = ''a'', rx_path = ''b'', is_active = 1\<rparr>"
  "clients demo_server ! Suc 0 = \<lparr>client_id = 1, tx_fd = 7, rx_fd = 8, tx_path = ''c'', rx_path = ''d'', is_active = 1\<rparr>"
  by (auto simp: demo_server_def active_def MAX_CLIENTS_def nth_list_update)

lemma demo_input_slots [simp]:
  "clients (demo_input rs) = clients demo_server" "active i (demo_input rs) \<longleftrightarrow> i = 0 \<or> i = 1"
  "spawned (demo_input rs) = []" "k_fail (kern (demo_input rs)) = []"
  "k_exists (kern (demo_input rs)) = [''f'']" "k_in (kern (demo_input rs)) 8 = rs"
  using demo_slots(2)[of i]
  by (simp_all add: demo_input_def active_def) (simp_all add: demo_server_def demo_kernel_def)

lemma demo_inv: "server_inv {0, 1, 2, 3, 4} {(3, 0)} demo_server"
proof (rule server_invI)
  have sf: "slot_fds i demo_server = (if i = 0 then {5, 6} else if i = 1 then {7, 8} else {})" for i
    by (simp add: slot_fds_def demo_slots)
  show "slot_ok i demo_server" for i
    by (cases "i = 0"; cases "i = 1") (simp_all add: slot_ok_def demo_slots)
  show "x \<notin> {0, 1, 2, 3, 4}" if "x \<in> slot_fds i demo_server" for i x
    using that by (auto simp: sf split: if_splits)
  show "i = j" if "x \<in> slot_fds i demo_server" "x \<in> slot_fds j demo_server" for i j x
    using that by (auto simp: sf split: if_splits)
  have "(\<Union>i. slot_fds i demo_server) = {5, 6} \<union> {7, 8}"
  proof (intro equalityI subsetI)
    fix x assume "x \<in> (\<Union>i. slot_fds i demo_server)"
    then show "x \<in> {5, 6} \<union> {7, 8}" by (auto simp: sf split: if_splits)
  next
    fix x assume "x \<in> {5, 6} \<union> {7, 8::fd}"
    then have "x \<in> slot_fds 0 demo_server \<or> x \<in> slot_fds 1 demo_server" by (auto simp: sf)
    then show "x \<in> (\<Union>i. slot_fds i demo_server)" by blast
  qed
  then show "set (k_fds (kern demo_server)) = {0, 1, 2, 3, 4} \<union> (\<Union>i. slot_fds i demo_server)"
    by (auto simp: demo_server_def)
  show "e \<in> {(3, 0)} \<or> (\<exists>i. active i demo_server \<and> e = (rx_fd (clients demo_server ! i), i))"
    if "e \<in> set (k_epoll (kern demo_server))" for e
  proof -
    from that have "e = (8, 1) \<or> e = (6, 0) \<or> e = (3, 0)" by (auto simp: demo_server_def)
    moreover have "active 1 demo_server \<and> (8, 1) = (rx_fd (clients demo_server ! 1), 1)"
      "active 0 demo_server \<and> (6, 0) = (rx_fd (clients demo_server ! 0), 0)"
      by (simp_all add: demo_slots)
    ultimately show ?thesis by blast
  qed
  show "(rx_fd (clients demo_server ! i), i) \<in> set (k_epoll (kern demo_server))" if "active i demo_server" for i
  proof -
    have "k_epoll (kern demo_server) = [(8, 1), (6, 0), (3, 0)]" by (simp add: demo_server_def)
    with that show ?thesis by (auto simp: demo_slots)
  qed
qed (auto simp: demo_slots, simp add: demo_server_def)

lemma demo_main_init: "\<exists>srv s. main_init demo_kernel = Some (Inr (srv, s))"
proof -
  have "case main_init demo_kernel of Some (Inr p) \<Rightarrow> True | _ \<Rightarrow> False" by code_simp
  then show ?thesis by (auto split: option.splits sum.splits)
qed

lemma main_init_error_fds:
  assumes "main_init k = Some (Inl k')" shows "set (k_fds k') = set (k_fds k)"
proof -
  from assms obtain r k1 where c: "create_fifo_with_path SERVER_FIFO_PATH k = Some (r, k1)"
    by (auto simp: main_init_def split: option.splits)
  obtain f k2 where o2: "kopen SERVER_FIFO_PATH k1 = (f, k2)" by fastforce
  obtain ep k3 where o3: "kopen ''epoll'' k2 = (ep, k3)" by fastforce
  obtain b k4 where a4: "kepoll_add f 0 k3 = (b, k4)" by fastforce
  note K1 = create_fifo_keeps[OF c] and K4 = kepoll_add_result[OF a4]
  consider (fifo) "r \<noteq> 0" "k' = k1" | (srv) "f = -1" "k' = cleanup_fifo SERVER_FIFO_PATH k2"
    | (ep) "f \<noteq> -1" "ep = -1" "k' = cleanup_fifo SERVER_FIFO_PATH (kclose f k3)"
    | (add) "f \<noteq> -1" "ep \<noteq> -1" "k' = cleanup_fifo SERVER_FIFO_PATH (kclose ep (kclose f k4))"
    using assms c o2 o3 a4 by (auto simp: main_init_def split: if_splits)
  then show ?thesis
  proof cases
    case fifo with K1 show ?thesis by simp
  next
    case srv with K1 kfd.open_fail o2 show ?thesis by (simp add: cleanup_fifo_keeps)
  next
    case ep with K1 kfd.open_close[OF o2] kfd.open_fail o3 show ?thesis by (auto simp: cleanup_fifo_keeps)
  next
    case add
    with K1 K4 kfd.open_fresh[OF o2] kfd.open_fresh[OF o3] show ?thesis
      by (auto simp: cleanup_fifo_keeps)
  qed
qed

definition demo_failing :: "bool list \<Rightarrow> server" where
  "demo_failing bs = demo_server\<lparr>kern := (kern demo_server)\<lparr>k_fail := bs\<rparr>\<rparr>"

definition demo_client :: Client where
  "demo_client = \<lparr>pid = 9, cl_tx_fd = 7, cl_rx_fd = 8, tx_fifo = ''a'', rx_fifo = ''b''\<rparr>"

section \<open>A whole transfer\<close>

lemma size_header_fits: "n < 2 ^ 63 \<Longrightarrow> length (size_header (int n)) < 64"
proof -
  assume "n < 2 ^ 63"
  then have "n < 10 ^ 19" by simp
  then have "length (dec_nat n) \<le> 19" by (intro dec_nat_length) simp_all
  then show ?thesis by (simp add: size_header_def dec_int_def)
qed

lemma send_file_full:
  assumes "file (task_filename task) = Some (int (length content), content)" "length content < 2 ^ 63"
    and "k_fail k = []" "k_wlim k = []"
  shows "k_out (snd (send_file_to_client file [] task k)) =
    (k_out k)(client_fd task := k_out k (client_fd task) @ size_header (int (length content)) @ content)"
proof -
  let ?h = "size_header (int (length content))" and ?f = "client_fd task"
  let ?k = "k\<lparr>k_out := (k_out k)(?f := k_out k ?f @ ?h)\<rparr>"
  have w: "kwrite ?f ?h k = (int (length ?h), ?k)" using assms(4) by (rule kwrite_full)
  have h: "0 < length ?h" by (simp add: size_header_def)
  have "k_out (snd (send_loop ?f (length content) 0 content [] ?k)) = (k_out ?k)(?f := k_out ?k ?f @ content)"
    using send_loop_full[of ?k "[]" 0 content "length content" ?f] assms(4) by simp
  then have loop: "k_out (snd (send_loop ?f (length content) 0 content [] ?k)) =
      (k_out k)(?f := k_out k ?f @ ?h @ content)"
    by (simp add: fun_eq_iff)
  have "snd (send_file_to_client file [] task k) = snd (send_loop ?f (length content) 0 content [] ?k)"
    using assms size_header_fits[OF assms(2)] w h
    by (simp add: send_file_to_client_def kfail_def snprintf_fits_def split: prod.splits)
  with loop show ?thesis by simp
qed

lemma receive_file_plain:
  assumes "plain_input (cl_tx_fd c) k"
    and "incoming (cl_tx_fd c) k = (''SIZE:'' @ dec_nat (length content)) @ NL # content @ rest"
    and "length content < 2 ^ 63"
  shows "\<exists>k'. receive_file c k = Some (0, k') \<and> incoming (cl_tx_fd c) k' = rest"
proof -
  let ?h = "''SIZE:'' @ dec_nat (length content)"
  have "length ([] :: bytes) + length ?h < 63"
    using size_header_fits[OF assms(3)] by (simp add: size_header_def dec_int_def)
  moreover have "NL \<notin> set ?h" using dec_nat_no_nl by auto
  ultimately obtain k1 where k1: "read_header (cl_tx_fd c) [] k = Some (Inr ?h, k1)"
      "plain_input (cl_tx_fd c) k1" "incoming (cl_tx_fd c) k1 = content @ rest"
    using read_header_plain[OF assms(1,2), of "[]"] by auto
  have "nonul ?h" by simp
  moreover have "scan_size (dec_nat (length content) @ []) = Some (length content, [])"
    using assms(3) by (intro scan_size_dec_nat) (simp_all add: size_max_def)
  ultimately have "parse_size ?h = Some (length content)" by (simp add: parse_size_def scan_literal_def)
  with k1(1) receive_body_plain[OF k1(2,3), of 0 "length content"] show ?thesis
    by (auto simp: receive_file_def)
qed

section \<open>The event of a client that has sent requests\<close>

lemma request_event:
  assumes "active i s" "i \<noteq> 0" "k_fail (kern s) = []"
    and "k_in (kern s) (rx_fd (clients s ! i)) = map RData ps" "\<forall>p\<in>set ps. p \<noteq> []"
    and "concat ps = concat (map get_command fs)" "length (concat ps) < 1023"
    and "\<forall>f\<in>set fs. servable f \<and> f \<in> set (k_exists (kern s))"
  shows "handle_event srv i s = s\<lparr>kern := set_input (rx_fd (clients s ! i)) [] (kern s), spawned := spawned s @
    map (\<lambda>f. \<lparr>client_fd = tx_fd (clients s ! i), task_filename = f\<rparr>) fs\<rparr>"
proof -
  let ?s = "s\<lparr>kern := set_input (rx_fd (clients s ! i)) [] (kern s)\<rparr>"
  have i: "i < 64" using assms(1) by (simp add: active_def MAX_CLIENTS_def)
  have v: "valid_client (int i) s" and vs: "valid_client (int i) ?s"
    using assms(1) by (simp_all add: valid_client_active)
  have "drain_client (int i) [] s = drain_client (int i) (concat ps) ?s"
    using drain_pieces[of s "int i" ps "[]" "[]"] assms(4,5,7) by simp
  then have d: "drain_client (int i) [] s = (concat ps, ?s)"
    using assms(7) by (simp add: drain_again)
  have "map get_command fs = map (\<lambda>l. l @ [NL]) (map get_line fs)"
    by (simp add: get_command_line)
  then have lines: "concat ps = concat (map (\<lambda>l. l @ [NL]) (map get_line fs))"
    by (simp only: assms(6))
  have plain: "\<forall>l\<in>set (map get_line fs). l \<noteq> [] \<and> NL \<notin> set l \<and> nonul l"
    using assms(8) get_line_plain by auto
  have "nonul (concat ps)" unfolding lines using plain by (induction fs) auto
  then have c: "cstr (concat ps) = concat ps" by simp
  have loop: "line_loop (process_client_command (int i)) (concat ps) ?s
      = fold (process_client_command (int i)) (map get_line fs) ?s"
    unfolding lines by (rule line_loop_lines) (use plain in blast)
  have "handle_event srv i s =
      (if 0 < length (concat ps) then fold (process_client_command (int i)) (map get_line fs) ?s else ?s)"
    using i v assms(2) by (simp only: handle_event_def int_of_u32_small d c loop prod.case) simp
  also have "\<dots> = ?s\<lparr>spawned := spawned s @ map (\<lambda>f. \<lparr>client_fd = tx_fd (clients s ! i), task_filename = f\<rparr>) fs\<rparr>"
    using fold_get[OF vs, of fs] assms(3,8) lines
    by (cases fs) (auto simp: get_line_def CMD_GET_def)
  finally show ?thesis .
qed

section \<open>Properties\<close>

lemma main_init_inv:
  assumes "main_init k = Some (Inr (srv, s))" "k_epoll k = []"
  shows "server_inv (set (k_fds k) \<union> {srv, epoll_fd s}) {(srv, 0)} s
    \<and> srv \<notin> set (k_fds k) \<and> epoll_fd s \<notin> set (k_fds k) \<and> epoll_fd s \<noteq> -1"
proof -
  from assms(1) obtain k1 where c: "create_fifo_with_path SERVER_FIFO_PATH k = Some (0, k1)"
    by (auto simp: main_init_def split: option.splits if_splits)
  obtain f k2 where o2: "kopen SERVER_FIFO_PATH k1 = (f, k2)" by fastforce
  obtain ep k3 where o3: "kopen ''epoll'' k2 = (ep, k3)" by fastforce
  obtain b k4 where a4: "kepoll_add f 0 k3 = (b, k4)" by fastforce
  from assms(1) c o2 o3 a4 have ok: "f \<noteq> -1" "ep \<noteq> -1" "b" "srv = f"
    and s: "s = \<lparr>clients = replicate MAX_CLIENTS reset_client, server_running = True,
       epoll_fd = ep, counter = 0, spawned = [], kern = k4\<rparr>"
    by (auto simp: main_init_def split: if_splits)
  from create_fifo_keeps[OF c] kfd.open_fresh[OF o2 ok(1)] kfd.open_fresh[OF o3 ok(2)]
    kopen_keeps[OF o2] kopen_keeps[OF o3] kepoll_add_result[OF a4] ok assms(2)
  have "set (k_fds k4) = set (k_fds k) \<union> {srv, ep}" "set (k_epoll k4) = {(srv, 0)}"
    "srv \<notin> set (k_fds k)" "ep \<notin> set (k_fds k)"
    by auto
  with ok(2) show ?thesis unfolding s by (auto intro!: initial_inv)
qed

text \<open>
  C10: After any start of the file server and any sequence of signals and epoll
  results, whatever the clients send and whichever calls fail, the client table
  and the kernel agree: each active slot holds its own number and two open
  descriptors of its own, no descriptor is in two slots, the process has no
  other descriptor open, and epoll watches exactly the registration FIFO and
  the receive descriptor of each active client under its slot number.
\<close>

theorem server_reachable_inv:
  assumes "main_init k = Some (Inr (srv, s))" "k_epoll k = []"
  shows "server_inv (set (k_fds k) \<union> {srv, epoll_fd s}) {(srv, 0)} (main_loop srv inputs s)"
  using main_init_inv[OF assms] main_loop_inv by blast

theorem server_reachable_inv_witness:
  "\<exists>srv s. main_init demo_kernel = Some (Inr (srv, s)) \<and>
     server_inv (set (k_fds demo_kernel) \<union> {srv, epoll_fd s}) {(srv, 0)}
       (main_loop srv [Wait (WaitEvents [0]), Signal 15] s)"
proof -
  obtain srv s where i: "main_init demo_kernel = Some (Inr (srv, s))"
    using demo_main_init by blast
  have "k_epoll demo_kernel = []" by (simp add: demo_kernel_def)
  from server_reachable_inv[OF i this] i show ?thesis by blast
qed

text \<open>
  C1: However \<open>main\<close> of the file server ends, at any of its early returns or
  after the loop, every descriptor it opened is closed again, those of all the
  clients included.
\<close>

theorem server_main_closes_all:
  assumes "server_main inputs k = Some (r, k')" "k_epoll k = []"
  shows "set (k_fds k') = set (k_fds k)"
proof -
  obtain res where i: "main_init k = Some res"
    using assms(1) by (cases "main_init k") (auto simp: server_main_def)
  show ?thesis
  proof (cases res)
    case (Inl k1)
    with i assms(1) show ?thesis by (simp add: server_main_def main_init_error_fds)
  next
    case (Inr p)
    obtain srv s where p: "p = (srv, s)" by fastforce
    note I = main_init_inv[OF i[unfolded Inr p] assms(2)]
    note L = main_loop_inv[OF conjunct1[OF I], of srv inputs]
    from assms(1) i Inr p have "k' = kern (main_shutdown srv (main_loop srv inputs s))"
      by (simp add: server_main_def)
    with shutdown_opened[OF L, of srv] I show ?thesis by (auto simp: main_loop_epoll_fd)
  qed
qed

theorem server_main_closes_all_witness:
  "\<exists>k'. server_main [Wait (WaitEvents [0]), Signal 15] demo_kernel = Some (0, k') \<and>
     set (k_fds k') = {0, 1, 2}"
proof -
  obtain srv s where i: "main_init demo_kernel = Some (Inr (srv, s))"
    using demo_main_init by blast
  then obtain k' where m: "server_main [Wait (WaitEvents [0]), Signal 15] demo_kernel = Some (0, k')"
    by (simp add: server_main_def)
  have "k_epoll demo_kernel = []" by (simp add: demo_kernel_def)
  from server_main_closes_all[OF m this] m show ?thesis by (simp add: demo_kernel_def)
qed



text \<open>
  A client that sends its requests and hangs up before the server reads
  them is not served: when the end of file follows the data in the same drain,
  the connection is closed first and every command of the buffer is then
  refused as stale, so no transfer starts whatever the data was.
\<close>

theorem event_drops_commands_at_eof:
  assumes "active i s" "i \<noteq> 0" "length (clients s) = MAX_CLIENTS"
    and "k_in (kern s) (rx_fd (clients s ! i)) = map RData ps @ REof # rs" "\<forall>p\<in>set ps. p \<noteq> []"
    and "length (concat ps) < 1023"
  shows "spawned (handle_event srv i s) = spawned s \<and> \<not> active i (handle_event srv i s)"
proof -
  let ?s = "s\<lparr>kern := set_input (rx_fd (clients s ! i)) (REof # rs) (kern s)\<rparr>"
  have i: "i < 64" using assms(1) by (simp add: active_def MAX_CLIENTS_def)
  have v: "valid_client (int i) s" using assms(1) by (simp add: valid_client_active)
  have "drain_client (int i) [] s = drain_client (int i) (concat ps) ?s"
    using drain_pieces[of s "int i" ps "REof # rs" "[]"] assms(4-6) by simp
  moreover obtain k where "drain_client (int i) (concat ps) ?s =
      (concat ps, close_client_connection (int i) (?s\<lparr>kern := k\<rparr>))"
    using drain_eof[of "concat ps" ?s "int i" rs] assms(6) by auto
  ultimately have d: "drain_client (int i) [] s =
      (concat ps, close_client_connection (int i) (s\<lparr>kern := k\<rparr>))" by simp
  have v2: "valid_client (int i) (s\<lparr>kern := k\<rparr>)" using assms(1) by (simp add: valid_client_active)
  have act: "\<not> active i (close_client_connection (int i) (s\<lparr>kern := k\<rparr>))"
    using close_active(1)[OF v2, of i] assms(3) by simp
  then have "\<not> valid_client (int i) (close_client_connection (int i) (s\<lparr>kern := k\<rparr>))"
    by (simp add: valid_client_active)
  with d v i assms(2)
  have "handle_event srv i s = close_client_connection (int i) (s\<lparr>kern := k\<rparr>)"
    by (simp add: handle_event_def int_of_u32_small closed_lines)
  with act show ?thesis by (simp add: close_client_connection_def Let_def)
qed

theorem event_drops_commands_at_eof_witness:
  "spawned (handle_event 3 1 (demo_input [RData (get_command ''f''), REof])) = [] \<and>
   \<not> active 1 (handle_event 3 1 (demo_input [RData (get_command ''f''), REof]))"
proof -
  have "get_command ''f'' \<noteq> []" "length (get_command ''f'') < 1023"
    by (simp_all add: get_command_def CMD_GET_def)
  then show ?thesis
    using event_drops_commands_at_eof[of 1 "demo_input [RData (get_command ''f''), REof]" "[get_command ''f'']" "[]" 3]
    by (simp add: demo_slots)
qed

text \<open>
  Client 0 is registered with epoll under the number that stands for the
  registration FIFO, so its events are taken for registrations: with none
  pending, handling such an event leaves the whole server as it was, whatever
  client 0 has sent.
\<close>

theorem client_zero_events_ignored:
  assumes "server_inv B E s" "active 0 s" "k_in (kern s) srv = []"
  shows "(rx_fd (clients s ! 0), 0) \<in> set (k_epoll (kern s)) \<and> handle_event srv 0 s = s"
proof -
  have "process_registration_commands srv s = s"
    using assms(3) by (subst process_registration_commands.simps) (simp add: kread_def)
  with server_inv_registered[OF assms(1,2)] show ?thesis by (simp add: handle_event_def)
qed

theorem client_zero_events_ignored_witness:
  "(6, 0) \<in> set (k_epoll (kern demo_server)) \<and> handle_event 3 0 demo_server = demo_server"
proof -
  have "k_in (kern demo_server) 3 = []" by (simp add: demo_server_def demo_kernel_def)
  with client_zero_events_ignored[OF demo_inv, of 3] show ?thesis by (simp add: demo_slots)
qed

text \<open>
  C24: A registration that fails, because the table is full or because opening
  a FIFO, adding it to epoll or acknowledging fails, has no effect on the other
  clients: the same slots stay active with the same contents, the same
  descriptors are open and the same ones registered with epoll, no transfer is started.
\<close>

theorem register_failure_atomic:
  assumes inv: "server_inv B E s" and fail: "fst (register_new_client txp rxp s) = -1"
  shows "set (k_fds (kern (snd (register_new_client txp rxp s)))) = set (k_fds (kern s)) \<and>
    set (k_epoll (kern (snd (register_new_client txp rxp s)))) = set (k_epoll (kern s)) \<and>
    spawned (snd (register_new_client txp rxp s)) = spawned s \<and>
    (\<forall>i. active i (snd (register_new_client txp rxp s)) = active i s) \<and>
    (\<forall>i. active i s \<longrightarrow> clients (snd (register_new_client txp rxp s)) ! i = clients s ! i)"
proof -
  let ?t = "snd (register_new_client txp rxp s)"
  have t: "server_inv B E ?t" by (rule register_inv[OF inv])
  note same = register_failure_slots[OF inv fail]
  have "slot_fds i ?t = slot_fds i s" for i using same by (simp add: slot_fds_def)
  then have "set (k_fds (kern ?t)) = set (k_fds (kern s))"
    using server_inv_opened[OF t] server_inv_opened[OF inv] by simp
  moreover have "{(rx_fd (clients ?t ! i), i) |i. active i ?t} = {(rx_fd (clients s ! i), i) |i. active i s}"
    using same by auto
  then have "set (k_epoll (kern ?t)) = set (k_epoll (kern s))"
    using server_inv_epoll_set[OF t] server_inv_epoll_set[OF inv] by simp
  ultimately show ?thesis using same by blast
qed

theorem register_failure_atomic_witness:
  "fst (register_new_client ''x'' ''y'' (demo_failing [False, False, True])) = -1 \<and>
   active 1 (snd (register_new_client ''x'' ''y'' (demo_failing [False, False, True]))) \<and>
   set (k_fds (kern (snd (register_new_client ''x'' ''y'' (demo_failing [False, False, True])))))
     = {0, 1, 2, 3, 4, 5, 6, 7, 8}"
proof -
  let ?s = "demo_failing [False, False, True]"
  have inv: "server_inv {0, 1, 2, 3, 4} {(3, 0)} ?s"
    unfolding demo_failing_def by (rule server_inv_kern[OF demo_inv]) simp_all
  have f: "fst (register_new_client ''x'' ''y'' ?s) = -1" by code_simp
  have "set (k_fds (kern ?s)) = {0, 1, 2, 3, 4, 5, 6, 7, 8}" by code_simp
  moreover have "active 1 ?s" by (simp add: demo_failing_def demo_slots)
  ultimately show ?thesis using register_failure_atomic[OF inv f] f by simp
qed

text \<open>
  C18: The table refines a partial map from slot numbers to the two paths of a
  client: a registration that succeeds with nothing pending on unused
  descriptors adds exactly its paths at the least slot not in use, and closing
  a connection removes exactly that slot.
\<close>

theorem client_table_refines_map:
  assumes "server_inv B E s" "\<forall>f. f \<notin> set (k_fds (kern s)) \<longrightarrow> k_in (kern s) f = []"
    and "fst (register_new_client txp rxp s) = 0"
  shows "table_map (snd (register_new_client txp rxp s)) =
      (table_map s)(LEAST i. i \<notin> dom (table_map s) \<mapsto> (strncpy0 256 txp, strncpy0 256 rxp)) \<and>
    table_map (close_client_connection (int j) s) = (table_map s)(j := None)"
proof (cases rule: register_cases[of txp rxp s])
  case (registered n tx rx k)
  note len = server_inv_length[OF assms(1)]
  have n: "n < MAX_CLIENTS" using find_free_slot[OF registered(1)] len by simp
  show ?thesis
    using table_map_add[OF len n] table_map_free[OF len registered(1)] registered(2)
      table_map_close[OF len] by simp
qed (use assms(2,3) in auto)

theorem client_table_refines_map_witness:
  "table_map (snd (register_new_client ''x'' ''y'' demo_server)) =
     (table_map demo_server)(LEAST i. i \<notin> dom (table_map demo_server) \<mapsto> (''x'', ''y'')) \<and>
   table_map (close_client_connection 1 demo_server) = (table_map demo_server)(1 := None)"
proof -
  have "fst (register_new_client ''x'' ''y'' demo_server) = 0" by code_simp
  moreover have "\<forall>f. f \<notin> set (k_fds (kern demo_server)) \<longrightarrow> k_in (kern demo_server) f = []"
    by (simp add: demo_server_def demo_kernel_def)
  moreover have "strncpy0 256 ''x'' = ''x''" "strncpy0 256 ''y'' = ''y''" by (simp_all add: strncpy0_def)
  ultimately show ?thesis
    using client_table_refines_map[OF demo_inv, of "''x''" "''y''" 1] by simp
qed

text \<open>
  C3: A file transfer is complete and exact: when no write is cut short, the
  sending thread writes the size header and then the file, nothing else, and a
  client that finds these bytes on its descriptor, in pieces of any sizes and
  with signals in between, returns success having consumed exactly them.
\<close>

theorem file_transfer_roundtrip:
  assumes "file (task_filename task) = Some (int (length content), content)" "length content < 2 ^ 63"
    and "k_fail k = []" "k_wlim k = []"
    and "plain_input (cl_tx_fd c) kc"
    and "incoming (cl_tx_fd c) kc =
      drop (length (k_out k (client_fd task)))
        (k_out (snd (send_file_to_client file [] task k)) (client_fd task)) @ rest"
  shows "k_out (snd (send_file_to_client file [] task k)) =
      (k_out k)(client_fd task := k_out k (client_fd task) @ size_header (int (length content)) @ content) \<and>
    (\<exists>kc'. receive_file c kc = Some (0, kc') \<and> incoming (cl_tx_fd c) kc' = rest)"
proof -
  have out: "k_out (snd (send_file_to_client file [] task k)) =
      (k_out k)(client_fd task := k_out k (client_fd task) @ size_header (int (length content)) @ content)"
    using assms(1-4) by (rule send_file_full)
  have "incoming (cl_tx_fd c) kc = (''SIZE:'' @ dec_nat (length content)) @ NL # content @ rest"
    using assms(6) unfolding out by (simp add: size_header_def dec_int_def)
  from receive_file_plain[OF assms(5) this assms(2)] out show ?thesis by blast
qed

theorem file_transfer_roundtrip_witness:
  "\<exists>kc'. receive_file demo_client (set_input 7 [RData ''SI'', RErr EINTR, RData ''ZE:'', RData (''3'' @ NL # ''xy''), RData ''z!''] demo_kernel)
     = Some (0, kc') \<and> incoming 7 kc' = ''!''"
proof -
  let ?kc = "set_input 7 [RData ''SI'', RErr EINTR, RData ''ZE:'', RData (''3'' @ NL # ''xy''), RData ''z!''] demo_kernel"
  let ?file = "\<lambda>_. Some (int (length ''xyz''), ''xyz'')"
  let ?task = "\<lparr>client_fd = 7, task_filename = ''f''\<rparr>"
  have out: "k_out (snd (send_file_to_client ?file [] ?task demo_kernel)) 7 = ''SIZE:3'' @ NL # ''xyz''"
    by code_simp
  have "incoming (cl_tx_fd demo_client) ?kc =
      drop (length (k_out demo_kernel (client_fd ?task)))
        (k_out (snd (send_file_to_client ?file [] ?task demo_kernel)) (client_fd ?task)) @ ''!''"
    using out by (simp add: demo_client_def incoming_def demo_kernel_def)
  moreover have "plain_input (cl_tx_fd demo_client) ?kc"
    by (simp add: demo_client_def plain_input_def)
  moreover have "k_fail demo_kernel = []" "k_wlim demo_kernel = []" by (simp_all add: demo_kernel_def)
  ultimately show ?thesis
    using file_transfer_roundtrip[of ?file ?task "''xyz''" demo_kernel demo_client ?kc "''!''"]
    by (simp add: demo_client_def)
qed

end
