(* ===== verification/Fifo_Session.thy ===== *)
theory Fifo_Session
  imports Fifo_Properties
begin

text \<open>
  The two programs of task 7 together: what the client writes is what the
  server reads and the other way round. \<open>written\<close> is what a run of one side put
  on a descriptor, and becomes the input of the other side's end of that FIFO.
\<close>

section \<open>Calls that succeed\<close>

definition written :: "fd \<Rightarrow> kernel \<Rightarrow> kernel \<Rightarrow> bytes" where
  "written f k k' = drop (length (k_out k f)) (k_out k' f)"

lemma kfail_none: "k_fail k = [] \<Longrightarrow> kfail k = (False, k)"
  by (simp add: kfail_def)

lemma kopen_ok:
  "k_fail k = [] \<Longrightarrow> kopen p k = (lowest_free (k_fds k),
     k\<lparr>k_fds := lowest_free (k_fds k) # k_fds k, k_names := (k_names k)(lowest_free (k_fds k) := p)\<rparr>)"
  by (simp add: kopen_def kfail_none Let_def)

lemma kepoll_add_ok: "k_fail k = [] \<Longrightarrow> kepoll_add f d k = (True, k\<lparr>k_epoll := (f, d) # k_epoll k\<rparr>)"
  by (simp add: kepoll_add_def kfail_none)

lemma lowest_free_open: "lowest_free used \<noteq> -1"
  using lowest_free_fresh[of used] by auto

lemma kclose_last: "f \<notin> set fs \<Longrightarrow> filter (\<lambda>g. g \<noteq> f) (f # fs) = fs"
  by (induction fs) auto

section \<open>A registration the server grants\<close>

lemma register_calls:
  assumes "find_free_client_slot s = int n" "kopen txp (kern s) = (tx, k1)" "tx \<noteq> -1"
    and "kopen rxp k1 = (rx, k2)" "rx \<noteq> -1" "kepoll_add rx n k2 = (True, k3)"
    and "kwrite tx RESP_ACK k3 = (3, k4)" "kread rx 1023 k4 = (RErr e, k5)"
  shows "register_new_client txp rxp s =
    (0, (add_client n tx rx (strncpy0 256 txp) (strncpy0 256 rxp) s)\<lparr>kern := k5\<rparr>)"
  using assms by (simp add: register_new_client_def Let_def add_client_def)

lemma register_granted:
  assumes "find_free_client_slot s = int n" "k_fail (kern s) = []" "k_wlim (kern s) = []"
    and "\<forall>f. f \<notin> set (k_fds (kern s)) \<longrightarrow> k_in (kern s) f = []"
  shows "\<exists>tx rx k. register_new_client txp rxp s =
      (0, (add_client n tx rx (strncpy0 256 txp) (strncpy0 256 rxp) s)\<lparr>kern := k\<rparr>)
    \<and> k_out k = (k_out (kern s))(tx := k_out (kern s) tx @ RESP_ACK) \<and> k_in k = k_in (kern s)
    \<and> k_exists k = k_exists (kern s) \<and> k_fail k = []"
proof -
  obtain tx k1 where o1: "kopen txp (kern s) = (tx, k1)" by fastforce
  then have k1: "tx = lowest_free (k_fds (kern s))" "k_fail k1 = []" "k_wlim k1 = []" "k_in k1 = k_in (kern s)"
      "k_out k1 = k_out (kern s)" "k_exists k1 = k_exists (kern s)" "k_fds k1 = tx # k_fds (kern s)"
    using assms(2,3) by (auto simp: kopen_ok)
  obtain rx k2 where o2: "kopen rxp k1 = (rx, k2)" by fastforce
  then have k2: "rx = lowest_free (k_fds k1)" "k_fail k2 = []" "k_wlim k2 = []" "k_in k2 = k_in (kern s)"
      "k_out k2 = k_out (kern s)" "k_exists k2 = k_exists (kern s)"
    using k1 by (auto simp: kopen_ok)
  let ?k3 = "k2\<lparr>k_epoll := (rx, n) # k_epoll k2\<rparr>"
  let ?k4 = "?k3\<lparr>k_out := (k_out ?k3)(tx := k_out ?k3 tx @ RESP_ACK)\<rparr>"
  have "rx \<notin> set (k_fds (kern s))"
    using lowest_free_fresh[of "k_fds k1"] unfolding k2(1) k1(7) by simp
  then have r: "kread rx 1023 ?k4 = (RErr EAGAIN, ?k4)" using assms(4) k2 by (simp add: kread_def)
  have wr: "kwrite tx RESP_ACK ?k3 = (3, ?k4)"
    using kwrite_full[of ?k3 tx RESP_ACK] k2 by (simp add: RESP_ACK_def)
  have ne: "tx \<noteq> -1" "rx \<noteq> -1" using lowest_free_open k1(1) k2(1) by simp_all
  from register_calls[OF assms(1) o1 ne(1) o2 ne(2) kepoll_add_ok[OF k2(2)] wr r]
  show ?thesis using k2 by (intro exI[of _ tx] exI[of _ rx] exI[of _ ?k4]) simp
qed

lemma register_command_line:
  "register_command c = (CMD_REGISTER @ '' '' @ tx_fifo c @ '' '' @ rx_fifo c) @ [NL]"
  by (simp add: register_command_def)

lemma scan_register_command:
  assumes "servable (tx_fifo c)" "servable (rx_fifo c)"
  shows "scan_registration (CMD_REGISTER @ '' '' @ tx_fifo c @ '' '' @ rx_fifo c) = Some (tx_fifo c, rx_fifo c)"
proof -
  let ?line = "CMD_REGISTER @ '' '' @ tx_fifo c @ '' '' @ rx_fifo c"
  have t: "word_like (tx_fifo c)" "length (tx_fifo c) \<le> 255" and r: "word_like (rx_fifo c)" "length (rx_fifo c) \<le> 255"
    using assms by (simp_all add: servable_def)
  have "scan_word (length ?line) ?line = Some (CMD_REGISTER, '' '' @ tx_fifo c @ '' '' @ rx_fifo c)"
    by (rule scan_word_append) (simp_all add: CMD_REGISTER_def word_like_def c_isspace_def)
  moreover have "scan_word 255 ('' '' @ tx_fifo c @ '' '' @ rx_fifo c) = Some (tx_fifo c, '' '' @ rx_fifo c)"
    using scan_word_append[OF t, of "'' '' @ rx_fifo c"] by (simp add: scan_word_skip)
  moreover have "scan_word 255 ('' '' @ rx_fifo c) = Some (rx_fifo c, [])"
    using scan_word_append[OF r, of "[]"] by (simp add: scan_word_skip)
  ultimately show ?thesis by (simp add: scan_registration_def)
qed

lemma strncpy0_servable: "servable p \<Longrightarrow> strncpy0 256 p = p"
  by (simp add: servable_def strncpy0_def)

lemma register_command_plain:
  assumes "servable (tx_fifo c)" "servable (rx_fifo c)"
  shows "NL \<notin> set (CMD_REGISTER @ '' '' @ tx_fifo c @ '' '' @ rx_fifo c) \<and> nonul (register_command c)"
  using assms servable_no_nl[of "tx_fifo c"] servable_no_nl[of "rx_fifo c"]
  by (auto simp: register_command_def CMD_REGISTER_def servable_def)

lemma registration_event:
  assumes "find_free_client_slot s = int n" "k_fail (kern s) = []" "k_wlim (kern s) = []"
    and "\<forall>f. f \<notin> set (k_fds (kern s)) \<longrightarrow> k_in (kern s) f = []" "srv \<in> set (k_fds (kern s))" "0 \<le> srv"
    and "servable (tx_fifo c)" "servable (rx_fifo c)"
  shows "\<exists>tx rx k. handle_event srv 0 (s\<lparr>kern := set_input srv [RData (register_command c)] (kern s)\<rparr>)
      = (add_client n tx rx (tx_fifo c) (rx_fifo c) s)\<lparr>kern := k\<rparr>
    \<and> k_out k = (k_out (kern s))(tx := k_out (kern s) tx @ RESP_ACK)
    \<and> k_exists k = k_exists (kern s) \<and> k_fail k = []"
proof -
  let ?d = "register_command c" and ?s = "s\<lparr>kern := set_input srv [] (kern s)\<rparr>"
  let ?in = "s\<lparr>kern := set_input srv [RData (register_command c)] (kern s)\<rparr>"
  have free: "find_free_client_slot ?s = int n" using assms(1) by (simp add: find_free_client_slot_def)
  have quiet: "\<forall>f. f \<notin> set (k_fds (kern ?s)) \<longrightarrow> k_in (kern ?s) f = []" using assms(4) by simp
  from register_granted[OF free _ _ quiet, of "tx_fifo c" "rx_fifo c"] assms(2,3,7,8)
  obtain tx rx k where g: "register_new_client (tx_fifo c) (rx_fifo c) ?s =
      (0, (add_client n tx rx (tx_fifo c) (rx_fifo c) ?s)\<lparr>kern := k\<rparr>)"
    and k: "k_out k = (k_out (kern s))(tx := k_out (kern s) tx @ RESP_ACK)" "k_in k = k_in (kern ?s)"
      "k_exists k = k_exists (kern s)" "k_fail k = []"
    by (auto simp: strncpy0_servable)
  let ?t = "(add_client n tx rx (tx_fifo c) (rx_fifo c) s)\<lparr>kern := k\<rparr>"
  have same: "(add_client n tx rx (tx_fifo c) (rx_fifo c) ?s)\<lparr>kern := k\<rparr> = ?t" by (simp add: add_client_def)
  have d: "?d \<noteq> []" "length ?d \<le> 1023" "cstr ?d = ?d"
    using register_command_plain[OF assms(7,8)] assms(7,8)
    by (auto simp: register_command_def CMD_REGISTER_def servable_def)
  have "registration_lines ?d ?s = registration_line (CMD_REGISTER @ '' '' @ tx_fifo c @ '' '' @ rx_fifo c) ?s"
  proof -
    have "strchr_split NL ?d = Some (CMD_REGISTER @ '' '' @ tx_fifo c @ '' '' @ rx_fifo c, [])"
      unfolding register_command_line using register_command_plain[OF assms(7,8)] by (intro strchr_split_append) blast
    then show ?thesis by (subst registration_lines.simps) (simp add: registration_lines.simps)
  qed
  also have "\<dots> = ?t"
    unfolding registration_line_def using scan_register_command[OF assms(7,8)] g same by simp
  finally have lines: "registration_lines ?d ?s = ?t" .
  have "kread srv 1023 (kern ?in) = (RData ?d, kern ?s)"
    using kread_piece[of "kern ?in" srv ?d "[]" 1023] d(1,2) by simp
  then have "process_registration_commands srv ?in = process_registration_commands srv ?t"
    using assms(6) d(3) lines by (subst process_registration_commands.simps) simp
  also have "\<dots> = ?t"
    using assms(6) k(2) by (subst process_registration_commands.simps) (simp add: kread_def)
  finally have "handle_event srv 0 ?in = ?t" by (simp add: handle_event_def)
  with k show ?thesis by blast
qed
section \<open>A registration the client hears\<close>

text \<open>
  The descriptors of \<open>register_client\<close>: the server's FIFO, and the client's own
  transmit FIFO on which it waits for the acknowledgement.
\<close>

definition reg_fd :: "Client \<Rightarrow> kernel \<Rightarrow> fd" where
  "reg_fd c k = fst (kopen SERVER_FIFO_PATH (snd (kopen (tx_fifo c) k)))"

definition ack_fd :: "Client \<Rightarrow> kernel \<Rightarrow> fd" where
  "ack_fd c k = fst (kopen (tx_fifo c)
     (kclose (reg_fd c k) (snd (kopen SERVER_FIFO_PATH (snd (kopen (tx_fifo c) k))))))"

lemma register_client_calls:
  assumes "kopen (tx_fifo c) k = (p, k1)" "p \<noteq> -1" "kopen SERVER_FIFO_PATH k1 = (g, k2)" "g \<noteq> -1"
    and "snprintf_fits 512 (register_command c)" "kwrite g (register_command c) k2 = (w, k3)" "0 < w"
    and "kopen (tx_fifo c) (kclose g k3) = (t, k4)" "t \<noteq> -1" "kopen ''epoll'' k4 = (ep, k5)" "ep \<noteq> -1"
    and "kepoll_add t 0 k5 = (True, k6)" "kread t 31 k6 = (RData d, k7)"
  shows "register_client 1 c k =
    (if strncmp_eq d RESP_ACK (length RESP_ACK) then 0 else -1, kclose ep (kclose t k7))"
  using assms by (simp add: register_client_def)

lemma register_client_heard:
  assumes "k_fail k = []" "k_wlim k = []" "snprintf_fits 512 (register_command c)"
    and "k_in k (ack_fd c k) = [RData RESP_ACK]"
  shows "\<exists>k'. register_client 1 c k = (0, k') \<and> written (reg_fd c k) k k' = register_command c
    \<and> k_fail k' = [] \<and> k_wlim k' = []"
proof -
  obtain p k1 where o1: "kopen (tx_fifo c) k = (p, k1)" by fastforce
  then have k1: "p \<noteq> -1" "k_fail k1 = []" "k_wlim k1 = []" "k_in k1 = k_in k" "k_out k1 = k_out k"
    using assms(1,2) by (auto simp: kopen_ok lowest_free_open)
  obtain g k2 where o2: "kopen SERVER_FIFO_PATH k1 = (g, k2)" by fastforce
  then have k2: "g \<noteq> -1" "k_fail k2 = []" "k_wlim k2 = []" "k_in k2 = k_in k" "k_out k2 = k_out k"
    using k1 by (auto simp: kopen_ok lowest_free_open)
  let ?k3 = "k2\<lparr>k_out := (k_out k2)(g := k_out k2 g @ register_command c)\<rparr>"
  obtain t k4 where o4: "kopen (tx_fifo c) (kclose g ?k3) = (t, k4)" by fastforce
  then have k4: "t \<noteq> -1" "k_fail k4 = []" "k_wlim k4 = []" "k_in k4 = k_in k" "k_out k4 = k_out ?k3"
    using k2 by (auto simp: kopen_ok lowest_free_open kclose_def)
  obtain ep k5 where o5: "kopen ''epoll'' k4 = (ep, k5)" by fastforce
  then have k5: "ep \<noteq> -1" "k_fail k5 = []" "k_wlim k5 = []" "k_in k5 = k_in k" "k_out k5 = k_out ?k3"
    using k4 by (auto simp: kopen_ok lowest_free_open)
  let ?k6 = "k5\<lparr>k_epoll := (t, 0) # k_epoll k5\<rparr>"
  have g: "reg_fd c k = g" using o1 o2 by (simp add: reg_fd_def)
  have t: "ack_fd c k = t"
    using o1 o2 o4 g k2(2) by (auto simp: ack_fd_def kopen_ok kclose_def)
  have w: "kwrite g (register_command c) k2 = (int (length (register_command c)), ?k3)"
    using k2(3) by (rule kwrite_full)
  have "kread t 31 ?k6 = (RData (RESP_ACK), set_input t [] ?k6)"
    using assms(4) k5(4) by (intro kread_piece) (simp_all add: t RESP_ACK_def)
  note R = register_client_calls[OF o1 k1(1) o2 k2(1) assms(3) w _ o4 k4(1) o5 k5(1) kepoll_add_ok[OF k5(2)] this]
  have ack: "strncmp_eq (RESP_ACK) RESP_ACK (length RESP_ACK)"
    by (simp add: strncmp_eq_def)
  let ?k = "kclose ep (kclose t (set_input t [] ?k6))"
  have "register_client 1 c k = (0, ?k)" using R ack by (simp add: register_command_def)
  moreover have "written (reg_fd c k) k ?k = register_command c"
    using k2(5) k5(5) by (simp add: written_def g)
  ultimately show ?thesis using k5 by (intro exI[of _ ?k]) (simp add: kclose_def set_input_def)
qed

section \<open>The whole session\<close>

lemma descriptors_set_input:
  assumes "k_fail k = []"
  shows "reg_fd c (set_input f rs k) = reg_fd c k" "ack_fd c (set_input f rs k) = ack_fd c k"
  using assms by (simp_all add: reg_fd_def ack_fd_def kopen_ok kclose_def set_input_def)

lemma written_set_input [simp]: "written g (set_input f rs k) k' = written g k k'"
  by (simp add: written_def)

lemma get_command_sent:
  assumes "servable name" "k_wlim k = []"
  shows "\<exists>k'. send_get_command c name k = (0, k') \<and> written (cl_rx_fd c) k k' = get_command name"
proof -
  let ?k = "k\<lparr>k_out := (k_out k)(cl_rx_fd c := k_out k (cl_rx_fd c) @ get_command name)\<rparr>"
  have "kwrite (cl_rx_fd c) (get_command name) k = (int (length (get_command name)), ?k)"
    using assms(2) by (rule kwrite_full)
  moreover have "snprintf_fits 512 (get_command name)"
    using assms(1) by (simp add: snprintf_fits_def get_command_def CMD_GET_def servable_def)
  ultimately have "send_get_command c name k = (0, ?k)"
    by (simp add: send_get_command_def get_command_def CMD_GET_def)
  then show ?thesis by (intro exI[of _ ?k]) (simp add: written_def)
qed

lemma request_served:
  assumes "active n s" "n \<noteq> 0" "k_fail (kern s) = []" "servable name" "name \<in> set (k_exists (kern s))"
  shows "spawned (handle_event srv n
      (s\<lparr>kern := set_input (rx_fd (clients s ! n)) [RData (get_command name)] (kern s)\<rparr>))
    = spawned s @ [\<lparr>client_fd = tx_fd (clients s ! n), task_filename = name\<rparr>]"
proof -
  have "length (get_command name) < 1023" "get_command name \<noteq> []"
    using assms(4) by (simp_all add: get_command_def CMD_GET_def servable_def)
  with request_event[of n "s\<lparr>kern := set_input (rx_fd (clients s ! n)) [RData (get_command name)] (kern s)\<rparr>"
      "[get_command name]" "[name]" srv] assms
  show ?thesis by simp
qed

lemma file_received:
  assumes "disk name = Some (int (length content), content)" "length content < 2 ^ 63"
    and "k_fail kt = []" "k_wlim kt = []" "plain_input (cl_tx_fd c) kr"
    and "incoming (cl_tx_fd c) kr =
      written tx kt (snd (send_file_to_client disk [] \<lparr>client_fd = tx, task_filename = name\<rparr> kt))"
  shows "\<exists>kr'. receive_file c kr = Some (0, kr') \<and> incoming (cl_tx_fd c) kr' = []"
proof -
  have "k_out (snd (send_file_to_client disk [] \<lparr>client_fd = tx, task_filename = name\<rparr> kt)) tx =
      k_out kt tx @ size_header (int (length content)) @ content"
    using send_file_full[of disk "\<lparr>client_fd = tx, task_filename = name\<rparr>" content kt] assms(1-4) by simp
  then have "incoming (cl_tx_fd c) kr = (''SIZE:'' @ dec_nat (length content)) @ NL # content @ []"
    using assms(6) by (simp add: written_def size_header_def dec_int_def)
  from receive_file_plain[OF assms(5) this assms(2)] show ?thesis by simp
qed


lemma demo_sent:
  "written tx demo_kernel (snd (send_file_to_client (\<lambda>_. Some (3, ''xyz'')) []
     \<lparr>client_fd = tx, task_filename = ''f''\<rparr> demo_kernel)) = ''SIZE:3'' @ NL # ''xyz''"
proof -
  have "size_header 3 = ''SIZE:3'' @ [NL]" by code_simp
  with send_file_full[of "\<lambda>_. Some (3, ''xyz'')" "\<lparr>client_fd = tx, task_filename = ''f''\<rparr>" "''xyz''" demo_kernel]
  show ?thesis by (simp add: written_def demo_kernel_def)
qed


end
