(* ===== verification/Backup_Fs.thy ===== *)
theory Backup_Fs
  imports CString
begin

text \<open>
  The file system the backup daemon (src/task\_6) works on, and the standard I/O
  idioms it uses.  A file system is an ordered list of paths with their nodes
  (the order is the one \<open>readdir\<close> reports), the paths whose opening is refused,
  the clock, the working directories \<open>/proc\<close> shows, the inotify watches, the
  result of the next \<open>inotify_init1\<close> and whether \<open>readdir\<close> reports entry types.
  Paths are compared as strings; there are no symbolic links, and a file that
  is being copied is not changed by another process during the copy.
\<close>

section \<open>Nodes and system calls\<close>

datatype fnode = Reg bytes int | Dirn

record fsys =
  fs_nodes :: "(path \<times> fnode) list"
  fs_deny :: "path list"
  fs_now :: int
  fs_proc :: "(int \<times> path) list"
  fs_watch :: "(path \<times> int) list"
  fs_ifd :: int
  fs_dtype :: bool
  fs_free :: nat

definition SLASH :: char where "SLASH = CHR ''/''"

abbreviation join :: "path \<Rightarrow> string \<Rightarrow> path" where
  "join d n \<equiv> d @ SLASH # n"

definition fstat :: "fsys \<Rightarrow> path \<Rightarrow> fnode option" where
  "fstat fs p = map_of (fs_nodes fs) p"

definition is_dir :: "fsys \<Rightarrow> path \<Rightarrow> bool" where
  "is_dir fs p \<longleftrightarrow> fstat fs p = Some Dirn"

definition parent :: "path \<Rightarrow> path" where
  "parent p = (case strrchr_split SLASH p of None \<Rightarrow> [] | Some (d, _) \<Rightarrow> d)"

definition child_name :: "path \<Rightarrow> path \<Rightarrow> string option" where
  "child_name d p = (case strrchr_split SLASH p of
     None \<Rightarrow> None | Some (d', n) \<Rightarrow> if d' = d \<and> n \<noteq> [] then Some n else None)"

text \<open>\<open>opendir\<close> and the names \<open>readdir\<close> returns, the two dot entries included.\<close>

definition entry_names :: "path \<Rightarrow> (path \<times> fnode) list \<Rightarrow> string list" where
  "entry_names d xs = List.map_filter (child_name d) (remdups (map fst xs))"

definition readdir :: "fsys \<Rightarrow> path \<Rightarrow> string list option" where
  "readdir fs d = (if is_dir fs d \<and> d \<notin> set (fs_deny fs)
     then Some (''.'' # ''..'' # entry_names d (fs_nodes fs)) else None)"

definition fopen_read :: "fsys \<Rightarrow> path \<Rightarrow> bytes option" where
  "fopen_read fs p = (if p \<in> set (fs_deny fs) then None
     else case fstat fs p of None \<Rightarrow> None | Some Dirn \<Rightarrow> Some [] | Some (Reg c _) \<Rightarrow> Some c)"

fun node_update :: "path \<Rightarrow> fnode \<Rightarrow> (path \<times> fnode) list \<Rightarrow> (path \<times> fnode) list" where
  "node_update p n [] = [(p, n)]"
| "node_update p n ((q, m) # xs) = (if p = q then (p, n) # xs else (q, m) # node_update p n xs)"

definition fput :: "path \<Rightarrow> bytes \<Rightarrow> fsys \<Rightarrow> fsys" where
  "fput p c fs = fs\<lparr>fs_nodes := node_update p (Reg c (fs_now fs)) (fs_nodes fs)\<rparr>"

definition writable :: "fsys \<Rightarrow> path \<Rightarrow> bool" where
  "writable fs p \<longleftrightarrow> p \<notin> set (fs_deny fs) \<and> fstat fs p \<noteq> Some Dirn \<and> is_dir fs (parent p)"

definition fopen_write :: "fsys \<Rightarrow> path \<Rightarrow> fsys option" where
  "fopen_write fs p = (if writable fs p then Some (fput p [] fs) else None)"

definition fcontent :: "fsys \<Rightarrow> path \<Rightarrow> bytes" where
  "fcontent fs p = (case fstat fs p of Some (Reg c _) \<Rightarrow> c | _ \<Rightarrow> [])"

definition fwrite :: "path \<Rightarrow> bytes \<Rightarrow> fsys \<Rightarrow> fsys" where
  "fwrite p b fs = fput p (fcontent fs p @ b) fs"

definition fmkdir :: "path \<Rightarrow> fsys \<Rightarrow> fsys option" where
  "fmkdir p fs = (if fstat fs p = None \<and> is_dir fs (parent p) \<and> p \<notin> set (fs_deny fs)
     then Some (fs\<lparr>fs_nodes := fs_nodes fs @ [(p, Dirn)]\<rparr>) else None)"

definition funlink :: "path \<Rightarrow> fsys \<Rightarrow> fsys" where
  "funlink p fs = (case fstat fs p of
     Some (Reg _ _) \<Rightarrow> fs\<lparr>fs_nodes := filter (\<lambda>(q, _). q \<noteq> p) (fs_nodes fs)\<rparr> | _ \<Rightarrow> fs)"

lemma map_of_node_update [simp]: "map_of (node_update p n xs) = (map_of xs)(p \<mapsto> n)"
  by (induction xs) auto

lemma fstat_fput [simp]: "fstat (fput p c fs) q = (if q = p then Some (Reg c (fs_now fs)) else fstat fs q)"
  by (simp add: fstat_def fput_def)

lemma fput_fields [simp]:
  "fs_deny (fput p c fs) = fs_deny fs" "fs_now (fput p c fs) = fs_now fs"
  "fs_proc (fput p c fs) = fs_proc fs" "fs_watch (fput p c fs) = fs_watch fs"
  "fs_ifd (fput p c fs) = fs_ifd fs" "fs_dtype (fput p c fs) = fs_dtype fs"
  by (simp_all add: fput_def)

lemma fcontent_fput [simp]: "fcontent (fput p c fs) q = (if q = p then c else fcontent fs q)"
  by (simp add: fcontent_def)

lemma node_update_twice [simp]: "node_update p n (node_update p m xs) = node_update p n xs"
  by (induction xs) auto

lemma fput_twice [simp]: "fput p c (fput p d fs) = fput p c fs"
  by (simp add: fput_def)

lemma map_of_filter_neq: "map_of (filter (\<lambda>(q, _). q \<noteq> p) xs) q = (if q = p then None else map_of xs q)"
  by (induction xs) auto

lemma fstat_funlink: "fstat (funlink p fs) q =
  (if q = p \<and> fstat fs p \<noteq> Some Dirn then None else fstat fs q)"
  by (auto simp: funlink_def fstat_def map_of_filter_neq split: option.splits fnode.splits)

lemma funlink_fields [simp]:
  "fs_deny (funlink p fs) = fs_deny fs" "fs_now (funlink p fs) = fs_now fs"
  "fs_proc (funlink p fs) = fs_proc fs" "fs_watch (funlink p fs) = fs_watch fs"
  "fs_ifd (funlink p fs) = fs_ifd fs" "fs_dtype (funlink p fs) = fs_dtype fs"
  by (simp_all add: funlink_def split: option.splits fnode.splits)

lemma parent_join [simp]: "SLASH \<notin> set n \<Longrightarrow> parent (d @ SLASH # n) = d"
proof -
  assume "SLASH \<notin> set n"
  then have "strrchr_split SLASH (d @ SLASH # n) = Some (d, n)" by (simp add: strrchr_split_Some)
  then show ?thesis by (simp add: parent_def)
qed

lemma child_name_Some:
  "child_name d p = Some n \<longleftrightarrow> p = join d n \<and> SLASH \<notin> set n \<and> n \<noteq> []"
proof
  assume *: "child_name d p = Some n"
  show "p = join d n \<and> SLASH \<notin> set n \<and> n \<noteq> []"
  proof (cases "strrchr_split SLASH p")
    case None
    with * show ?thesis unfolding child_name_def by simp
  next
    case (Some r)
    with * show ?thesis unfolding child_name_def
      by (cases r) (auto simp: strrchr_split_Some split: if_splits)
  qed
next
  assume *: "p = join d n \<and> SLASH \<notin> set n \<and> n \<noteq> []"
  then have "strrchr_split SLASH p = Some (d, n)" by (simp add: strrchr_split_Some)
  with * show "child_name d p = Some n" by (simp add: child_name_def)
qed

lemma entry_names_iff:
  "n \<in> set (entry_names d xs) \<longleftrightarrow> join d n \<in> fst ` set xs \<and> SLASH \<notin> set n \<and> n \<noteq> []"
  by (auto simp: entry_names_def mem_map_filter child_name_Some image_iff)

lemma is_dir_fput [simp]: "is_dir (fput p c fs) q \<longleftrightarrow> q \<noteq> p \<and> is_dir fs q"
  by (simp add: is_dir_def)

section \<open>Writing a file piece by piece\<close>

text \<open>
  The interface the copying and printing loops rely on: a store with a contents
  function whose last write wins.  Appending pieces to a file that was just
  written gives one write of their concatenation.
\<close>

locale file_store =
  fixes look :: "'s \<Rightarrow> path \<Rightarrow> bytes" and put :: "path \<Rightarrow> bytes \<Rightarrow> 's \<Rightarrow> 's"
  assumes look_put: "look (put p c s) q = (if q = p then c else look s q)"
    and put_put: "put p c (put p d s) = put p c s"
begin

definition append :: "path \<Rightarrow> bytes \<Rightarrow> 's \<Rightarrow> 's" where
  "append p b s = put p (look s p @ b) s"

lemma append_put: "append p b (put p c s) = put p (c @ b) s"
  by (simp add: append_def look_put put_put)

lemma fold_append: "fold (\<lambda>x. append p (f x)) xs (put p c s) = put p (c @ concat (map f xs)) s"
  by (induction xs arbitrary: c) (simp_all add: append_put)

lemma append_other: "q \<noteq> p \<Longrightarrow> look (append p b s) q = look s q"
  by (simp add: append_def look_put)

end

interpretation fstore: file_store fcontent fput
  rewrites "file_store.append fcontent fput = fwrite"
proof -
  show "file_store fcontent fput" by unfold_locales simp_all
  then show "file_store.append fcontent fput = fwrite"
    by (simp add: fun_eq_iff file_store.append_def fwrite_def)
qed

section \<open>The copy loop\<close>

text \<open>
  \<open>while ((n = fread (buffer, 1, sizeof (buffer), src)) > 0) fwrite (buffer, 1, n, dst);\<close>
  as it occurs three times in backup.c: \<open>rest\<close> is the unread part of the source.
\<close>

function copy_loop :: "path \<Rightarrow> bytes \<Rightarrow> fsys \<Rightarrow> fsys" where
  "copy_loop dst rest fs =
     (let buffer = take 4096 rest in
      if buffer = [] then fs
      else copy_loop dst (drop 4096 rest) (fwrite dst buffer fs))"
  by pat_completeness auto
termination
  by (relation "measure (\<lambda>(dst, rest, fs). length rest)") auto

declare copy_loop.simps [simp del]

lemma copy_loop_fput: "copy_loop dst rest (fput dst c fs) = fput dst (c @ rest) fs"
proof (induction rest arbitrary: c rule: length_induct)
  case (1 rest)
  show ?case
  proof (cases "rest = []")
    case True
    then show ?thesis by (simp add: copy_loop.simps)
  next
    case False
    have "copy_loop dst rest (fput dst c fs) = copy_loop dst (drop 4096 rest) (fput dst (c @ take 4096 rest) fs)"
      using False by (subst copy_loop.simps) (simp add: fstore.append_put)
    also have "\<dots> = fput dst ((c @ take 4096 rest) @ drop 4096 rest) fs"
      using 1 False by simp
    finally show ?thesis by simp
  qed
qed

section \<open>Line input\<close>

text \<open>\<open>fgets (line, size, fp)\<close>: at most \<open>size - 1\<close> bytes, up to and with the first newline.\<close>

definition fgets :: "nat \<Rightarrow> bytes \<Rightarrow> (bytes \<times> bytes) option" where
  "fgets sz s = (if s = [] then None else
     let w = take (sz - 1) s;
         line = (case strchr_split NL w of None \<Rightarrow> w | Some (a, _) \<Rightarrow> a @ [NL])
     in Some (line, drop (length line) s))"

lemma fgets_splits: "fgets sz s = Some (l, r) \<Longrightarrow> s = l @ r"
proof -
  assume *: "fgets sz s = Some (l, r)"
  have "l = take (length l) s"
  proof (cases "strchr_split NL (take (sz - 1) s)")
    case None
    with * show ?thesis by (auto simp: fgets_def Let_def min_def split: if_splits)
  next
    case (Some p)
    then obtain a b where p: "p = (a, b)" "take (sz - 1) s = a @ NL # b"
      by (cases p) (auto simp: strchr_split_Some)
    then have "s = (a @ [NL]) @ b @ drop (sz - 1) s"
      by (metis append_Cons append_Nil append_assoc append_take_drop_id)
    then have "take (length (a @ [NL])) s = a @ [NL]" by (metis append_eq_conv_conj)
    with * Some p show ?thesis by (auto simp: fgets_def Let_def min_def split: if_splits)
  qed
  with * show ?thesis
    by (metis (no_types, lifting) Pair_inject append_take_drop_id fgets_def option.discI option.inject)
qed

lemma fgets_nonempty: "1 < sz \<Longrightarrow> fgets sz s = Some (l, r) \<Longrightarrow> l \<noteq> []"
  by (auto simp: fgets_def Let_def split: if_splits option.splits)

lemma fgets_shorter: "fgets 4096 s = Some (l, r) \<Longrightarrow> length r < length s"
  using fgets_splits[of 4096 s l r] fgets_nonempty[of 4096 s l r] by (cases l) auto

lemma fgets_line:
  assumes "NL \<notin> set a" "length a < sz - 1"
  shows "fgets sz (a @ NL # s) = Some (a @ [NL], s)"
proof -
  have "take (sz - 1) (a @ NL # s) = a @ NL # take (sz - 2 - length a) s"
    using assms(2) by (simp add: take_Cons' numeral_2_eq_2)
  then have "strchr_split NL (take (sz - 1) (a @ NL # s)) = Some (a, take (sz - 2 - length a) s)"
    using assms(1) by (simp add: strchr_split_Some)
  then show ?thesis by (simp add: fgets_def Let_def)
qed

end
