(* ===== verification/File_Search.thy ===== *)
theory File_Search
  imports Backup_Fs
begin

text \<open>
  file.c of the backup daemon: the text test (libmagic is the parameter
  \<open>magic\<close>, from the contents of a file to its MIME type) and the recursive
  search.  The result array is a list of cells, \<open>None\<close> a pointer that was never
  stored.  Each level of the recursion keeps its directory open, so the recursion is over the number of descriptors that
  the process can still open: when there is none left \<open>opendir\<close> fails, and so does libmagic.
\<close>

type_synonym magic = "bytes \<Rightarrow> string option"
type_synonym cell = "path option"

definition PATH_MAX :: nat where "PATH_MAX = 4096"

definition is_text_file :: "magic \<Rightarrow> fsys \<Rightarrow> path \<Rightarrow> bool" where
  "is_text_file magic fs p = (case fstat fs p of
     Some (Reg c _) \<Rightarrow> p \<notin> set (fs_deny fs) \<and>
       (case magic c of None \<Rightarrow> False | Some mime \<Rightarrow> strstr_found mime ''text'')
   | _ \<Rightarrow> False)"

text \<open>\<open>*files = realloc (*files, (count + 1) * sizeof (char * )); (*files)[count] = x;\<close>\<close>

definition store_at :: "nat \<Rightarrow> path \<Rightarrow> cell list \<Rightarrow> cell list" where
  "store_at n x arr = take n (arr @ replicate (n - length arr) None) @ [Some x]"

definition search_entry :: "nat \<Rightarrow> magic \<Rightarrow> fsys \<Rightarrow> path \<Rightarrow>
    (path \<Rightarrow> cell list \<Rightarrow> nat \<times> cell list) \<Rightarrow> string \<Rightarrow> nat \<times> cell list \<Rightarrow> nat \<times> cell list" where
  "search_entry fds magic fs path self name st =
     (if name = ''.'' \<or> name = ''..'' then st
      else let fullpath = snprintf PATH_MAX (join path name) in
        case fstat fs fullpath of
          None \<Rightarrow> st
        | Some Dirn \<Rightarrow> (fst st, snd (self fullpath (snd st)))
        | Some (Reg _ _) \<Rightarrow>
            if path_basename fullpath = ''debug.log'' then st
            else if fds \<noteq> 0 \<and> is_text_file magic fs fullpath
            then (fst st + 1, store_at (fst st) fullpath (snd st))
            else st)"

text \<open>The first argument is the number of free descriptors.\<close>

primrec search_files_in_dir :: "nat \<Rightarrow> magic \<Rightarrow> fsys \<Rightarrow> path \<Rightarrow> cell list \<Rightarrow> nat \<times> cell list" where
  "search_files_in_dir 0 magic fs path files = (0, files)"
| "search_files_in_dir (Suc fds) magic fs path files =
     (case readdir fs path of
        None \<Rightarrow> (0, files)
      | Some names \<Rightarrow> fold (search_entry fds magic fs path (search_files_in_dir fds magic fs)) names (0, files))"

text \<open>The calls start from a null array.\<close>

definition search_files :: "magic \<Rightarrow> fsys \<Rightarrow> path \<Rightarrow> nat \<times> cell list" where
  "search_files magic fs path = search_files_in_dir (fs_free fs) magic fs path []"

section \<open>Reference: the text files directly in a directory\<close>

definition wanted :: "magic \<Rightarrow> fsys \<Rightarrow> path \<Rightarrow> string \<Rightarrow> bool" where
  "wanted magic fs d n \<longleftrightarrow> n \<noteq> ''debug.log'' \<and> is_text_file magic fs (join d n)"

definition text_files :: "magic \<Rightarrow> fsys \<Rightarrow> path \<Rightarrow> path list" where
  "text_files magic fs d =
     map (join d) (filter (wanted magic fs d) (entry_names d (fs_nodes fs)))"

definition flat_dir :: "fsys \<Rightarrow> path \<Rightarrow> bool" where
  "flat_dir fs d \<longleftrightarrow> (\<forall>n\<in>set (entry_names d (fs_nodes fs)). \<not> is_dir fs (join d n))"

definition short_names :: "fsys \<Rightarrow> path \<Rightarrow> bool" where
  "short_names fs d \<longleftrightarrow> (\<forall>n\<in>set (entry_names d (fs_nodes fs)).
     length (join d n) < PATH_MAX \<and> n \<noteq> ''.'' \<and> n \<noteq> ''..'')"

lemma snprintf_id: "length s < n \<Longrightarrow> snprintf n s = s"
  by (simp add: snprintf_def)

lemma entry_names_plain:
  assumes "n \<in> set (entry_names d xs)"
  shows "n \<noteq> []" "SLASH \<notin> set n" "join d n \<in> fst ` set xs"
  using assms by (simp_all add: entry_names_iff)

lemma store_at_end: "length arr = n \<Longrightarrow> store_at n x arr = arr @ [Some x]"
  by (simp add: store_at_def)

lemma store_at_length: "length (store_at n x arr) = Suc n"
  by (simp add: store_at_def)

lemma is_text_regular: "is_text_file magic fs p \<Longrightarrow> \<exists>c t. fstat fs p = Some (Reg c t)"
  by (auto simp: is_text_file_def split: option.splits fnode.splits)

lemma basename_join: "SLASH \<notin> set n \<Longrightarrow> path_basename (join d n) = n"
  using path_basename_append[of n d] by (simp add: SLASH_def)

lemma search_entry_regular:
  assumes "SLASH \<notin> set n" "length (join d n) < PATH_MAX" "\<not> is_dir fs (join d n)"
    and "\<not> (n = ''.'' \<or> n = ''..'')" "fds \<noteq> 0"
  shows "search_entry fds magic fs d self n (c, arr) =
    (if wanted magic fs d n then (c + 1, store_at c (join d n) arr) else (c, arr))"
  using assms is_text_regular[of magic fs "join d n"]
  by (auto simp: search_entry_def Let_def snprintf_id wanted_def basename_join is_dir_def
      split: option.splits fnode.splits)

lemma search_flat_entries:
  assumes "\<forall>n\<in>set ns. SLASH \<notin> set n \<and> length (join d n) < PATH_MAX \<and> \<not> is_dir fs (join d n)
      \<and> \<not> (n = ''.'' \<or> n = ''..'')"
    and "length arr = c" "fds \<noteq> 0"
  shows "fold (search_entry fds magic fs d self) ns (c, arr) =
    (c + length (filter (wanted magic fs d) ns), arr @ map Some (map (join d) (filter (wanted magic fs d) ns)))"
  using assms(1,2)
proof (induction ns arbitrary: c arr)
  case (Cons n ns)
  have e: "search_entry fds magic fs d self n (c, arr) =
      (if wanted magic fs d n then (c + 1, arr @ [Some (join d n)]) else (c, arr))"
    using Cons.prems assms(3) by (subst search_entry_regular) (auto simp: store_at_end)
  show ?case
    using e Cons.IH[of arr c] Cons.IH[of "arr @ [Some (join d n)]" "c + 1"] Cons.prems by simp
qed simp

lemma search_count:
  assumes "\<forall>n\<in>set ns. SLASH \<notin> set n \<and> length (join d n) < PATH_MAX \<and> \<not> (n = ''.'' \<or> n = ''..'')" "fds \<noteq> 0"
  shows "fst (fold (search_entry fds magic fs d self) ns (c, arr)) = c + length (filter (wanted magic fs d) ns)"
  using assms(1)
proof (induction ns arbitrary: c arr)
  case (Cons n ns)
  obtain c1 arr1 where e: "search_entry fds magic fs d self n (c, arr) = (c1, arr1)" by fastforce
  have "c1 = (if wanted magic fs d n then c + 1 else c)"
  proof (cases "is_dir fs (join d n)")
    case True
    then have "\<not> wanted magic fs d n" using is_text_regular[of magic fs "join d n"]
      by (auto simp: wanted_def is_dir_def)
    then show ?thesis using e True Cons.prems(1)
      by (auto simp: search_entry_def Let_def snprintf_id is_dir_def)
  next
    case False
    then show ?thesis using e Cons.prems(1) assms(2) by (auto simp: search_entry_regular split: if_splits)
  qed
  with e Cons.IH[of c1 arr1] Cons.prems show ?case by simp
qed simp

section \<open>How many descriptors the search needs\<close>

text \<open>With short paths, one for each level and one for libmagic; more make no difference.\<close>

lemma search_entry_cong:
  assumes "\<And>full files. full = snprintf PATH_MAX (join path n) \<Longrightarrow> is_dir fs full \<Longrightarrow> n \<noteq> ''.'' \<Longrightarrow> n \<noteq> ''..'' \<Longrightarrow>
      self full files = self' full files"
    and "(fds = 0) = (fds' = 0)"
  shows "search_entry fds magic fs path self n st = search_entry fds' magic fs path self' n st"
  using assms by (auto simp: search_entry_def is_dir_def Let_def split: option.splits fnode.splits)

lemma search_enough:
  assumes "\<And>p. is_dir fs p \<Longrightarrow> length p < PATH_MAX - 1"
  shows "length p < PATH_MAX \<Longrightarrow> PATH_MAX \<le> fds + length p \<Longrightarrow> fds \<le> fds' \<Longrightarrow>
    search_files_in_dir (Suc fds) magic fs p files = search_files_in_dir (Suc fds') magic fs p files"
proof (induction fds arbitrary: fds' p files)
  case 0
  then show ?case by simp
next
  case (Suc k)
  then obtain k' where k': "fds' = Suc k'" by (cases fds') auto
  show ?case
  proof (cases "readdir fs p")
    case (Some names)
    have "fold (search_entry (Suc k) magic fs p (search_files_in_dir (Suc k) magic fs)) names (0, files) =
        fold (search_entry (Suc k') magic fs p (search_files_in_dir (Suc k') magic fs)) names (0, files)"
    proof (rule fold_cong[OF refl refl], rule ext, rule search_entry_cong)
      fix n full fls
      assume n: "n \<in> set names" and full: "full = snprintf PATH_MAX (join p n)" "is_dir fs full" "n \<noteq> ''.''" "n \<noteq> ''..''"
      have l: "length full < PATH_MAX - 1" using assms full(2) by blast
      then have "full = join p n" unfolding full(1) by (auto simp: snprintf_def PATH_MAX_def split: if_splits)
      moreover have "n \<noteq> []" using n Some full(3,4) entry_names_plain(1)[of n p "fs_nodes fs"]
        by (auto simp: readdir_def split: if_splits)
      ultimately have "PATH_MAX \<le> k + length full" using Suc.prems by (cases n) auto
      then show "search_files_in_dir (Suc k) magic fs full fls = search_files_in_dir (Suc k') magic fs full fls"
        using l Suc.prems k' by (intro Suc.IH) auto
    qed simp
    then show ?thesis using Some k' by simp
  qed (simp add: k')
qed

text \<open>Where the path of an entry is cut to that of the directory, the directory is searched again for each entry.\<close>

lemma search_cut_entries:
  assumes "is_dir fs p" "length p = PATH_MAX - 1" "\<forall>n\<in>set ns. n \<noteq> ''.'' \<and> n \<noteq> ''..''"
  shows "fold (search_entry fds magic fs p self) ns (c, files) = (c, ((\<lambda>f. snd (self p f)) ^^ length ns) files)"
  using assms(3)
proof (induction ns arbitrary: files)
  case (Cons n ns)
  have "snprintf PATH_MAX (join p n) = p" using assms(2) by (simp add: snprintf_def)
  then have "search_entry fds magic fs p self n (c, files) = (c, snd (self p files))"
    using assms(1) Cons.prems by (simp add: search_entry_def is_dir_def)
  then show ?case using Cons funpow_swap1[of "\<lambda>f. snd (self p f)" "length ns" files] by simp
qed simp

lemma search_dots:
  "readdir fs p = Some names \<Longrightarrow> fold (search_entry fds magic fs p self) names st =
    fold (search_entry fds magic fs p self) (entry_names p (fs_nodes fs)) st"
  by (auto simp: readdir_def search_entry_def split: if_splits)

lemma search_cut:
  assumes "is_dir fs p" "p \<notin> set (fs_deny fs)" "length p = PATH_MAX - 1"
    and "\<forall>n\<in>set (entry_names p (fs_nodes fs)). n \<noteq> ''.'' \<and> n \<noteq> ''..''"
  shows "search_files_in_dir (Suc fds) magic fs p files =
      (0, ((\<lambda>f. snd (search_files_in_dir fds magic fs p f)) ^^ length (entry_names p (fs_nodes fs))) files)"
    and "search_files_in_dir fds' magic fs p files = (0, files)"
proof -
  obtain names where names: "readdir fs p = Some names" using assms(1,2) by (simp add: readdir_def)
  show step: "search_files_in_dir (Suc fds) magic fs p files =
      (0, ((\<lambda>f. snd (search_files_in_dir fds magic fs p f)) ^^ length (entry_names p (fs_nodes fs))) files)" for fds files
    using names search_cut_entries[OF assms(1,3,4)] by (simp add: search_dots[OF names])
  show "search_files_in_dir fds' magic fs p files = (0, files)"
  proof (induction fds' arbitrary: files)
    case (Suc k)
    have "((\<lambda>f. snd (search_files_in_dir k magic fs p f)) ^^ m) files = files" for m
      by (induction m) (simp_all add: Suc)
    then show ?case by (simp only: step)
  qed simp
qed

section \<open>The search of one directory\<close>

lemma search_files_open:
  assumes "is_dir fs d" "d \<notin> set (fs_deny fs)" "fs_free fs = Suc fds"
  shows "search_files magic fs d = fold (search_entry fds magic fs d (search_files_in_dir fds magic fs))
    (entry_names d (fs_nodes fs)) (0, [])"
  using assms by (simp add: search_files_def readdir_def search_entry_def)

lemma two_free: "2 \<le> n \<Longrightarrow> \<exists>k. n = Suc k \<and> k \<noteq> 0"
  by (cases n) auto

lemma search_flat:
  assumes "is_dir fs d" "d \<notin> set (fs_deny fs)" "flat_dir fs d" "short_names fs d" "2 \<le> fs_free fs"
  shows "search_files magic fs d = (length (text_files magic fs d), map Some (text_files magic fs d))"
proof -
  let ?ns = "entry_names d (fs_nodes fs)"
  obtain k where k: "fs_free fs = Suc k" "k \<noteq> 0" using two_free[OF assms(5)] by blast
  have "\<forall>n\<in>set ?ns. SLASH \<notin> set n \<and> length (join d n) < PATH_MAX \<and> \<not> is_dir fs (join d n)
      \<and> \<not> (n = ''.'' \<or> n = ''..'')"
    using assms(3,4) entry_names_plain(2) by (auto simp: flat_dir_def short_names_def)
  from search_flat_entries[OF this _ k(2), of "[]" 0] show ?thesis
    by (simp add: search_files_open[OF assms(1,2) k(1)] text_files_def)
qed

lemma search_counts:
  assumes "is_dir fs d" "d \<notin> set (fs_deny fs)" "short_names fs d" "2 \<le> fs_free fs"
  shows "fst (search_files magic fs d) = length (text_files magic fs d)"
proof -
  obtain k where k: "fs_free fs = Suc k" "k \<noteq> 0" using two_free[OF assms(4)] by blast
  have "\<forall>n\<in>set (entry_names d (fs_nodes fs)). SLASH \<notin> set n \<and> length (join d n) < PATH_MAX \<and> \<not> (n = ''.'' \<or> n = ''..'')"
    using assms(3) entry_names_plain(2) by (auto simp: short_names_def)
  from search_count[OF this k(2)] show ?thesis
    by (simp add: search_files_open[OF assms(1,2) k(1)] text_files_def)
qed

lemma distinct_map_filter:
  assumes "distinct xs" "\<And>x y z. f x = Some z \<Longrightarrow> f y = Some z \<Longrightarrow> x = y"
  shows "distinct (List.map_filter f xs)"
  using assms(1)
proof (induction xs)
  case Nil
  then show ?case by (simp add: map_filter_simps)
next
  case (Cons x xs)
  show ?case
  proof (cases "f x")
    case None
    then show ?thesis using Cons by (simp add: map_filter_simps)
  next
    case (Some z)
    have "z \<notin> set (List.map_filter f xs)"
      using Cons.prems assms(2)[OF Some] by (auto simp: mem_map_filter)
    then show ?thesis using Some Cons by (simp add: map_filter_simps)
  qed
qed

lemma text_files_distinct: "distinct (text_files magic fs d)"
proof -
  have "distinct (entry_names d (fs_nodes fs))"
    unfolding entry_names_def by (rule distinct_map_filter) (auto simp: child_name_Some)
  then show ?thesis by (simp add: text_files_def distinct_map inj_on_def)
qed

lemma text_files_in:
  "p \<in> set (text_files magic fs d) \<Longrightarrow> \<exists>c t. fstat fs p = Some (Reg c t)"
  using is_text_regular by (auto simp: text_files_def wanted_def)

end
