(* ===== verification/Monitor.thy ===== *)
theory Monitor
  imports File_Search Stdio_Format "HOL-Library.Word"
begin

text \<open>
  The monitor state of the backup daemon and its inotify part: daemon.h and the
  first half of daemon.c (src/task\_6).  A C array with its count is a list
  whose length is the count.  An inotify event is the header with the name that
  follows it; \<open>ev_len\<close> is the padded length of the name field, 0 for none.
\<close>

unbundle bit_operations_syntax

section \<open>State\<close>

record FileInfo =
  fi_path :: path
  fi_mtime :: int
  fi_size :: int
  fi_exists :: bool

record WatchInfo =
  wd :: int
  wpath :: path

record MonitorState =
  files :: "FileInfo list"
  capacity :: nat
  monitored_dir :: path
  monitored_pid :: int
  sample_period_ms :: int
  current_sample :: int
  first_backup_done :: bool
  inotify_fd :: int
  watch_list :: "WatchInfo list"
  watch_capacity :: nat
  changed_files_queue :: "path list"

definition MAX_PATH_LEN :: nat where "MAX_PATH_LEN = 4096"
definition MAX_FILES :: nat where "MAX_FILES = 1000"
definition DEFAULT_SAMPLE_PERIOD_MS :: int where "DEFAULT_SAMPLE_PERIOD_MS = 10000"
definition FIFO_PATH :: path where "FIFO_PATH = ''/tmp/daemon_monitor_fifo''"
definition BACKUP_DIR :: path where "BACKUP_DIR = ''/tmp/daemon_backups''"

text \<open>\<open>readlink\<close> of \<open>/proc/<pid>/cwd\<close>, cut to the buffer.\<close>

definition get_process_cwd :: "fsys \<Rightarrow> int \<Rightarrow> path option" where
  "get_process_cwd fs pid = map_option (take (MAX_PATH_LEN - 1)) (map_of (fs_proc fs) pid)"

definition init_monitor_state :: "fsys \<Rightarrow> int \<Rightarrow> MonitorState \<Rightarrow> int \<times> MonitorState" where
  "init_monitor_state fs pid st =
     (let st1 = st\<lparr>monitored_pid := pid, sample_period_ms := DEFAULT_SAMPLE_PERIOD_MS,
            current_sample := 0, first_backup_done := False, files := [], capacity := MAX_FILES,
            inotify_fd := -1, watch_list := [], watch_capacity := 0, changed_files_queue := []\<rparr>
      in case get_process_cwd fs pid of
           None \<Rightarrow> (-1, st1)
         | Some cwd \<Rightarrow> (0, st1\<lparr>monitored_dir := cwd\<rparr>))"

definition cleanup_inotify :: "fsys \<Rightarrow> MonitorState \<Rightarrow> fsys \<times> MonitorState" where
  "cleanup_inotify fs st =
     (if 0 \<le> inotify_fd st then (fs\<lparr>fs_watch := []\<rparr>, st\<lparr>inotify_fd := -1\<rparr>) else (fs, st))"

definition cleanup_monitor_state :: "fsys \<Rightarrow> MonitorState \<Rightarrow> fsys" where
  "cleanup_monitor_state fs st = fst (cleanup_inotify fs st)"

section \<open>Watches\<close>

definition get_watch_path :: "MonitorState \<Rightarrow> int \<Rightarrow> path option" where
  "get_watch_path st w = map_option wpath (find (\<lambda>i. wd i = w) (watch_list st))"

text \<open>\<open>inotify_add_watch\<close> returns the old descriptor for a path that is watched already.\<close>

definition inotify_add_watch :: "path \<Rightarrow> fsys \<Rightarrow> int \<times> fsys" where
  "inotify_add_watch p fs =
     (if fstat fs p = None \<or> p \<in> set (fs_deny fs) then (-1, fs)
      else case map_of (fs_watch fs) p of
        Some w \<Rightarrow> (w, fs)
      | None \<Rightarrow> let w = int (length (fs_watch fs)) + 1
                in (w, fs\<lparr>fs_watch := fs_watch fs @ [(p, w)]\<rparr>))"

definition store_watch :: "int \<Rightarrow> path \<Rightarrow> MonitorState \<Rightarrow> MonitorState" where
  "store_watch w p st =
     (let c = (if length (watch_list st) \<ge> watch_capacity st
               then if watch_capacity st = 0 then 32 else watch_capacity st * 2
               else watch_capacity st)
      in st\<lparr>watch_capacity := c, watch_list := watch_list st @ [\<lparr>wd = w, wpath = p\<rparr>]\<rparr>)"

definition watch_entry :: "path \<Rightarrow>
    (path \<Rightarrow> fsys \<times> MonitorState \<Rightarrow> (int \<times> fsys \<times> MonitorState) option) \<Rightarrow>
    string \<Rightarrow> fsys \<times> MonitorState \<Rightarrow> (fsys \<times> MonitorState) option" where
  "watch_entry path self name s =
     (if name = ''.'' \<or> name = ''..'' then Some s
      else let fullpath = snprintf PATH_MAX (join path name) in
        if fs_dtype (fst s)
        then if is_dir (fst s) (join path name) then map_option snd (self fullpath s) else Some s
        else if readdir (fst s) fullpath \<noteq> None then map_option snd (self fullpath s) else Some s)"

primrec add_inotify_watch_recursive ::
    "nat \<Rightarrow> path \<Rightarrow> fsys \<times> MonitorState \<Rightarrow> (int \<times> fsys \<times> MonitorState) option" where
  "add_inotify_watch_recursive 0 path s = None"
| "add_inotify_watch_recursive (Suc fuel) path s =
     (case readdir (fst s) path of
        None \<Rightarrow> Some (-1, s)
      | Some names \<Rightarrow>
          (case inotify_add_watch path (fst s) of (w, fs1) \<Rightarrow>
             if w < 0 then Some (-1, fs1, snd s)
             else map_option (Pair 0)
               (ofold (watch_entry path (add_inotify_watch_recursive fuel)) names
                 (fs1, store_watch w path (snd s)))))"

definition init_inotify :: "fsys \<times> MonitorState \<Rightarrow> (int \<times> fsys \<times> MonitorState) option" where
  "init_inotify s =
     (let fd = fs_ifd (fst s); st1 = (snd s)\<lparr>inotify_fd := fd\<rparr> in
      if fd < 0 then Some (-1, fst s, st1)
      else case add_inotify_watch_recursive PATH_MAX (monitored_dir st1) (fst s, st1) of
             None \<Rightarrow> None
           | Some (r, fs2, st2) \<Rightarrow>
               if r \<noteq> 0 then Some (-1, fs2\<lparr>fs_watch := []\<rparr>, st2\<lparr>inotify_fd := -1\<rparr>)
               else Some (0, fs2, st2))"

section \<open>Events\<close>

record inotify_event =
  ev_wd :: int
  ev_mask :: "32 word"
  ev_len :: nat
  ev_name :: bytes

definition IN_MODIFY :: "32 word" where "IN_MODIFY = 0x2"
definition IN_CLOSE_WRITE :: "32 word" where "IN_CLOSE_WRITE = 0x8"
definition IN_MOVED_FROM :: "32 word" where "IN_MOVED_FROM = 0x40"
definition IN_MOVED_TO :: "32 word" where "IN_MOVED_TO = 0x80"
definition IN_CREATE :: "32 word" where "IN_CREATE = 0x100"
definition IN_DELETE :: "32 word" where "IN_DELETE = 0x200"
definition IN_ISDIR :: "32 word" where "IN_ISDIR = 0x40000000"

definition has_bit :: "inotify_event \<Rightarrow> 32 word \<Rightarrow> bool" where
  "has_bit ev m \<longleftrightarrow> ev_mask ev AND m \<noteq> 0"

definition skipped_name :: "path \<Rightarrow> bool" where
  "skipped_name p \<longleftrightarrow> path_basename p = ''debug.log'' \<or> strstr_found (path_basename p) ''_restored_''"

definition event_is_text :: "magic \<Rightarrow> fsys \<Rightarrow> inotify_event \<Rightarrow> path \<Rightarrow> bool" where
  "event_is_text magic fs ev p =
     (if has_bit ev (IN_CREATE OR IN_MODIFY OR IN_CLOSE_WRITE OR IN_MOVED_TO)
      then is_text_file magic fs p
      else has_bit ev (IN_DELETE OR IN_MOVED_FROM))"

definition event_should_add :: "inotify_event \<Rightarrow> bool" where
  "event_should_add ev \<longleftrightarrow>
     has_bit ev (IN_MODIFY OR IN_CLOSE_WRITE) \<or> has_bit ev IN_CREATE \<or> has_bit ev IN_DELETE
     \<or> has_bit ev (IN_MOVED_FROM OR IN_MOVED_TO)"

definition enqueue :: "path \<Rightarrow> path list \<Rightarrow> path list" where
  "enqueue p q = (if p \<in> set q then q else q @ [p])"

definition process_event ::
    "magic \<Rightarrow> inotify_event \<Rightarrow> fsys \<times> MonitorState \<Rightarrow> (fsys \<times> MonitorState) option" where
  "process_event magic ev s =
     (if ev_len ev = 0 then Some s
      else case get_watch_path (snd s) (ev_wd ev) of
        None \<Rightarrow> Some s
      | Some watch_dir \<Rightarrow>
          let file_path = snprintf PATH_MAX (join watch_dir (cstr (ev_name ev))) in
          if has_bit ev IN_ISDIR \<and> has_bit ev IN_CREATE
          then map_option snd (add_inotify_watch_recursive PATH_MAX file_path s)
          else if has_bit ev IN_ISDIR \<or> skipped_name file_path then Some s
          else if event_is_text magic (fst s) ev file_path \<and> event_should_add ev
          then Some (fst s, (snd s)\<lparr>changed_files_queue := enqueue file_path (changed_files_queue (snd s))\<rparr>)
          else Some s)"

text \<open>The result of reading the inotify descriptor: an error number or the events in the buffer.\<close>

datatype ino_read = InoErr bool | InoEvents "inotify_event list"

definition process_inotify_events ::
    "magic \<Rightarrow> ino_read \<Rightarrow> fsys \<times> MonitorState \<Rightarrow> (int \<times> fsys \<times> MonitorState) option" where
  "process_inotify_events magic r s =
     (if inotify_fd (snd s) < 0 then Some (-1, s)
      else case r of
        InoErr again \<Rightarrow> Some (if again then 0 else -1, s)
      | InoEvents evs \<Rightarrow> map_option (Pair 0) (ofold (process_event magic) evs s))"

end
