(* ===== verification/Backup.thy ===== *)
theory Backup
  imports Monitor
begin

text \<open>
  backup.c of the backup daemon: full and incremental backups, the diff files and
  the restoration of a sample.  \<open>diff\<close> and \<open>patch\<close> are run by the shell, which
  is the parameter \<open>shell\<close>: from the command line and the file system to the
  exit status, the output and the file system afterwards.  \<open>None\<close> as the result of an operation
  means undefined behaviour: a search that does not end, or a null or never
  stored entry of its result array that is used.
\<close>

type_synonym shell = "string \<Rightarrow> fsys \<Rightarrow> int \<times> bytes \<times> fsys"

definition ensure_backup_dir :: "fsys \<Rightarrow> int \<times> fsys" where
  "ensure_backup_dir fs =
     (if fstat fs BACKUP_DIR = None
      then case fmkdir BACKUP_DIR fs of None \<Rightarrow> (-1, fs) | Some fs' \<Rightarrow> (0, fs')
      else (0, fs))"

section \<open>Names of backup files\<close>

definition unslash :: "string \<Rightarrow> string" where
  "unslash s = map (\<lambda>c. if c = SLASH then CHR ''_'' else c) s"

definition make_backup_relative_path :: "path \<Rightarrow> path \<Rightarrow> string" where
  "make_backup_relative_path file dir =
     unslash
      (if strncmp_eq file dir (length dir) then
         if length dir < length file
         then let r = strncpy0 MAX_PATH_LEN (drop (length dir) file)
              in if take 1 r = [SLASH] then drop 1 r else r
         else strncpy0 MAX_PATH_LEN (path_basename file)
       else strncpy0 MAX_PATH_LEN file)"

definition full_name :: "string \<Rightarrow> path" where
  "full_name rel = BACKUP_DIR @ ''/full_'' @ rel"

definition diff_name :: "string \<Rightarrow> int \<Rightarrow> path" where
  "diff_name rel n = BACKUP_DIR @ ''/diff_'' @ rel @ ''_sample_'' @ dec_int n"

section \<open>Diff files\<close>

definition diff_command :: "path \<Rightarrow> path \<Rightarrow> string" where
  "diff_command a b = ''diff -u '' @ CHR 0x22 # a @ CHR 0x22 # '' '' @ CHR 0x22 # b @ CHR 0x22 # '' 2>/dev/null''"

definition diff_header :: "int \<Rightarrow> int \<Rightarrow> path \<Rightarrow> path \<Rightarrow> string" where
  "diff_header timestamp sample old_file new_file =
     ''# Timestamp: '' @ dec_int timestamp @ [NL] @ ''# Sample: '' @ dec_int sample @ [NL]
     @ ''# Old file: '' @ old_file @ [NL] @ ''# New file: '' @ new_file @ [NL] @ ''---'' @ [NL]"

function fgets_lines :: "bytes \<Rightarrow> bytes list" where
  "fgets_lines s = (case fgets 4096 s of None \<Rightarrow> [] | Some (line, rest) \<Rightarrow> line # fgets_lines rest)"
  by pat_completeness auto
termination
  by (relation "measure length") (auto dest: fgets_shorter)

declare fgets_lines.simps [simp del]

definition save_diff :: "shell \<Rightarrow> path \<Rightarrow> path \<Rightarrow> path \<Rightarrow> int \<Rightarrow> int \<Rightarrow> fsys \<Rightarrow> int \<times> fsys" where
  "save_diff shell old_file new_file diff_path timestamp sample fs =
     (case shell (snprintf 2048 (diff_command old_file new_file)) fs of (_, out, fs1) \<Rightarrow>
        case fopen_write fs1 diff_path of
          None \<Rightarrow> (-1, fs1)
        | Some fs2 \<Rightarrow>
            (0, fold (\<lambda>line. fwrite diff_path (cstr line)) (fgets_lines out)
                  (fwrite diff_path (diff_header timestamp sample old_file new_file) fs2)))"

section \<open>Full backup\<close>

definition cell_at :: "cell list \<Rightarrow> nat \<Rightarrow> path option" where
  "cell_at arr i = (if i < length arr then arr ! i else None)"

definition full_backup_file :: "path \<Rightarrow> path \<Rightarrow> fsys \<Rightarrow> fsys" where
  "full_backup_file dir file fs =
     (if path_basename file = ''debug.log'' then fs
      else let rel = make_backup_relative_path file dir; backup_path = full_name rel in
        if \<not> length backup_path < MAX_PATH_LEN then fs
        else case fopen_read fs file of
          None \<Rightarrow> fs
        | Some src \<Rightarrow> (case fopen_write fs backup_path of
              None \<Rightarrow> fs
            | Some fs1 \<Rightarrow> copy_loop backup_path src fs1))"

definition create_full_backup :: "magic \<Rightarrow> fsys \<times> MonitorState \<Rightarrow> (int \<times> fsys \<times> MonitorState) option" where
  "create_full_backup magic s =
     (case ensure_backup_dir (fst s) of (r, fs) \<Rightarrow>
        if r \<noteq> 0 then Some (-1, fs, snd s)
        else case search_files magic fs (monitored_dir (snd s)) of (file_count, arr) \<Rightarrow>
            if file_count = 0 then Some (0, fs, snd s)
            else (case ofold (\<lambda>i fs. map_option (\<lambda>file. full_backup_file (monitored_dir (snd s)) file fs)
                                (cell_at arr i)) [0..<file_count] fs of
                None \<Rightarrow> None
              | Some fs' \<Rightarrow> Some (0, fs', (snd s)\<lparr>first_backup_done := True\<rparr>)))"

section \<open>Changed files\<close>

definition get_changed_files_from_queue :: "MonitorState \<Rightarrow> path list \<times> MonitorState" where
  "get_changed_files_from_queue st =
     (changed_files_queue st, st\<lparr>changed_files_queue := []\<rparr>)"

text \<open>
  The search for a path among the known files: whether it counts as changed,
  and the updated table; \<open>None\<close> when it is not known.
\<close>

fun update_known :: "path \<Rightarrow> int \<Rightarrow> int \<Rightarrow> FileInfo list \<Rightarrow> (bool \<times> FileInfo list) option" where
  "update_known p mt sz [] = None"
| "update_known p mt sz (f # fs) =
     (if fi_path f = p
      then Some (fi_mtime f \<noteq> mt \<or> fi_size f \<noteq> sz \<or> \<not> fi_exists f,
                 f\<lparr>fi_mtime := mt, fi_size := sz, fi_exists := True\<rparr> # fs)
      else map_option (\<lambda>(c, fs'). (c, f # fs')) (update_known p mt sz fs))"

definition node_mtime :: "fnode \<Rightarrow> int" where
  "node_mtime n = (case n of Reg _ t \<Rightarrow> t | Dirn \<Rightarrow> 0)"

definition node_size :: "fnode \<Rightarrow> int" where
  "node_size n = (case n of Reg c _ \<Rightarrow> int (length c) | Dirn \<Rightarrow> 0)"

definition check_current :: "fsys \<Rightarrow> path \<Rightarrow> path list \<times> MonitorState \<Rightarrow> path list \<times> MonitorState" where
  "check_current fs p s =
     (case fstat fs p of None \<Rightarrow> s
      | Some node \<Rightarrow>
          (case update_known p (node_mtime node) (node_size node) (files (snd s)) of
             Some (changed, known) \<Rightarrow>
               (if changed then fst s @ [p] else fst s, (snd s)\<lparr>files := known\<rparr>)
           | None \<Rightarrow>
               (fst s @ [p], (snd s)\<lparr>
                  capacity := (if length (files (snd s)) \<ge> capacity (snd s)
                    then if capacity (snd s) = 0 then MAX_FILES else capacity (snd s) * 2
                    else capacity (snd s)),
                  files := files (snd s) @ [\<lparr>fi_path = strncpy0 MAX_PATH_LEN p,
                    fi_mtime = node_mtime node, fi_size = node_size node, fi_exists = True\<rparr>]\<rparr>)))"

definition find_changed_files ::
    "magic \<Rightarrow> fsys \<Rightarrow> MonitorState \<Rightarrow> (path list \<times> MonitorState) option" where
  "find_changed_files magic fs st =
     (if 0 \<le> inotify_fd st \<and> 0 < length (changed_files_queue st)
      then Some (get_changed_files_from_queue st)
      else case search_files magic fs (monitored_dir st) of (current_count, arr) \<Rightarrow>
          ofold (\<lambda>i s. map_option (\<lambda>p. check_current fs p s) (cell_at arr i))
            [0..<current_count] ([], st))"

section \<open>Incremental backup\<close>

definition backup_if_new :: "path \<Rightarrow> path \<Rightarrow> fsys \<Rightarrow> fsys" where
  "backup_if_new file old_backup fs =
     (if fstat fs old_backup \<noteq> None then fs
      else case fopen_read fs file of
        None \<Rightarrow> fs
      | Some src \<Rightarrow> (case fopen_write fs old_backup of
            None \<Rightarrow> fs
          | Some fs1 \<Rightarrow> copy_loop old_backup src fs1))"

definition incremental_file :: "shell \<Rightarrow> path \<Rightarrow> int \<Rightarrow> int \<Rightarrow> path \<Rightarrow> fsys \<Rightarrow> fsys" where
  "incremental_file shell dir sample now file fs =
     (if path_basename file = ''debug.log'' then fs
      else let rel = make_backup_relative_path file dir; old_backup = full_name rel in
        if \<not> length old_backup < MAX_PATH_LEN then fs
        else let fs1 = backup_if_new file old_backup fs; diff_path = diff_name rel sample in
          if \<not> length diff_path < MAX_PATH_LEN then fs1
          else snd (save_diff shell old_backup file diff_path now sample fs1))"

definition create_incremental_backup ::
    "magic \<Rightarrow> shell \<Rightarrow> fsys \<times> MonitorState \<Rightarrow> (int \<times> fsys \<times> MonitorState) option" where
  "create_incremental_backup magic shell s =
     (case ensure_backup_dir (fst s) of (r, fs) \<Rightarrow>
        if r \<noteq> 0 then Some (-1, fs, snd s)
        else case find_changed_files magic fs (snd s) of
          None \<Rightarrow> None
        | Some (changed, st) \<Rightarrow>
            if changed = [] then Some (0, fs, st)
            else Some (int (length changed),
              fold (incremental_file shell (monitored_dir st) (current_sample st) (fs_now fs)) changed fs,
              st))"

section \<open>Restoring a sample\<close>

definition get_diff_content :: "path \<Rightarrow> fsys \<Rightarrow> string option" where
  "get_diff_content p fs = map_option cstr (fopen_read fs p)"

fun clean_lines :: "bool \<Rightarrow> bytes list \<Rightarrow> bytes" where
  "clean_lines past_metadata [] = []"
| "clean_lines past_metadata (line # lines) =
     (if take 1 line = ''#'' then clean_lines past_metadata lines
      else if strncmp_eq line (''---'' @ [NL]) 4 then clean_lines True lines
      else if past_metadata \<or> take 1 line \<noteq> ''#''
      then cstr line @ clean_lines past_metadata lines
      else clean_lines past_metadata lines)"

definition patch_command :: "path \<Rightarrow> path \<Rightarrow> string" where
  "patch_command t d = ''patch -u '' @ CHR 0x22 # t @ CHR 0x22 # '' < '' @ CHR 0x22 # d @ CHR 0x22 # '' 2>/dev/null''"

definition restored_name :: "string \<Rightarrow> int \<Rightarrow> string" where
  "restored_name file n =
     snprintf MAX_PATH_LEN
      (case strrchr_split (CHR ''.'') (path_basename file) of
         Some (name, ext) \<Rightarrow> name @ ''_restored_'' @ dec_int n @ CHR ''.'' # ext
       | None \<Rightarrow> path_basename file @ ''_restored_'' @ dec_int n)"

text \<open>The diff of the sample applied to the temporary copy: whether it worked.\<close>

definition apply_sample_diff :: "shell \<Rightarrow> path \<Rightarrow> path \<Rightarrow> path \<Rightarrow> fsys \<Rightarrow> bool \<times> fsys" where
  "apply_sample_diff shell diff_path clean_path temp_file fs =
     (if fstat fs diff_path = None then (True, fs)
      else case fopen_read fs diff_path of
        None \<Rightarrow> (False, funlink temp_file fs)
      | Some diff \<Rightarrow>
          let fs1 = (case fopen_write fs clean_path of
                       None \<Rightarrow> fs
                     | Some f \<Rightarrow> fwrite clean_path (clean_lines False (fgets_lines diff)) f)
          in case shell (snprintf 2048 (patch_command temp_file clean_path)) fs1 of (rc, _, fs2) \<Rightarrow>
               if rc \<noteq> 0 then (False, funlink temp_file (funlink clean_path fs2))
               else (True, funlink clean_path fs2))"

definition install_restored :: "path \<Rightarrow> path \<Rightarrow> fsys \<Rightarrow> int \<times> fsys" where
  "install_restored temp_file target fs =
     (case fopen_read fs temp_file of
        None \<Rightarrow> (-1, funlink temp_file fs)
      | Some src \<Rightarrow> (case fopen_write fs target of
            None \<Rightarrow> (-1, funlink temp_file fs)
          | Some fs1 \<Rightarrow> (0, funlink temp_file (copy_loop target src fs1))))"

definition restore_file_to_sample ::
    "shell \<Rightarrow> int \<Rightarrow> MonitorState \<Rightarrow> string \<Rightarrow> int \<Rightarrow> fsys \<Rightarrow> int \<times> fsys" where
  "restore_file_to_sample shell pid st filename target fs =
     (if filename = [] then (-1, fs)
      else if target < 1 \<or> current_sample st < target then (-1, fs)
      else
        let file_path = snprintf MAX_PATH_LEN (join (monitored_dir st) filename);
            rel = make_backup_relative_path file_path (monitored_dir st);
            base = snprintf MAX_PATH_LEN (full_name rel);
            temp_file = snprintf MAX_PATH_LEN
              (BACKUP_DIR @ ''/temp_restore_'' @ rel @ ''_'' @ dec_int pid);
            diff_path = snprintf MAX_PATH_LEN (diff_name rel target);
            clean_path = snprintf MAX_PATH_LEN
              (BACKUP_DIR @ ''/temp_clean_diff_'' @ rel @ ''_'' @ dec_int target @ ''_'' @ dec_int pid);
            restored = snprintf MAX_PATH_LEN (join (monitored_dir st) (restored_name filename target))
        in if fstat fs base = None then (-1, fs)
           else case fopen_read fs base of
             None \<Rightarrow> (-1, fs)
           | Some src \<Rightarrow> (case fopen_write fs temp_file of
                None \<Rightarrow> (-1, fs)
              | Some fs1 \<Rightarrow>
                  (case apply_sample_diff shell diff_path clean_path temp_file (copy_loop temp_file src fs1) of
                     (ok, fs2) \<Rightarrow>
                       if \<not> ok then (-1, fs2) else install_restored temp_file restored fs2)))"

end
