(* ===== verification/Monitor_Cmd.thy ===== *)
theory Monitor_Cmd
  imports Backup Kernel
begin

text \<open>
  ipc.c of the backup daemon: the command FIFO, the parsing of commands and their
  execution.  A \<open>Command\<close> is a local variable of the callers that is not initialised, so reading a command
  takes its old contents as an argument.
\<close>

datatype CommandType = CMD_SHOW_DIFF | CMD_SHOW_K_DIFFS | CMD_SET_PID | CMD_SET_PERIOD
  | CMD_STATUS | CMD_RESTORE | CMD_UNKNOWN

record Command =
  cmd_type :: CommandType
  cmd_arg :: int
  cmd_filename :: string

definition MAX_CMD_LEN :: nat where "MAX_CMD_LEN = 256"
definition MAX_RESPONSE_LEN :: nat where "MAX_RESPONSE_LEN = 8192"

section \<open>The FIFO\<close>

record ipc =
  fifo_fd :: int
  fifo_present :: bool

text \<open>The results of \<open>mkfifo\<close> and \<open>open\<close> are arguments.\<close>

definition init_ipc :: "bool \<Rightarrow> int \<Rightarrow> ipc \<Rightarrow> int \<times> ipc" where
  "init_ipc mkfifo_ok fd s =
     (if \<not> fifo_present s \<and> \<not> mkfifo_ok then (-1, s)
      else let s1 = s\<lparr>fifo_present := True, fifo_fd := fd\<rparr>
           in if fd < 0 then (-1, s1) else (0, s1))"

definition cleanup_ipc :: "ipc \<Rightarrow> ipc" where
  "cleanup_ipc s =
     (let s1 = (if 0 \<le> fifo_fd s then s\<lparr>fifo_fd := -1\<rparr> else s) in s1\<lparr>fifo_present := False\<rparr>)"

section \<open>Parsing\<close>

text \<open>\<open>sscanf (s, "lit %d", &arg)\<close>: the argument keeps its old value when nothing matches.\<close>

definition scan_arg :: "string \<Rightarrow> string \<Rightarrow> int \<Rightarrow> int" where
  "scan_arg lit s old = (case scan_literal lit s of None \<Rightarrow> old
     | Some r \<Rightarrow> (case scan_int r of None \<Rightarrow> old | Some (i, _) \<Rightarrow> i))"

text \<open>\<open>sscanf (s, "restore %s %d", filename, &sample) == 2\<close>.\<close>

definition scan_restore :: "string \<Rightarrow> (string \<times> int) option" where
  "scan_restore s = (case scan_literal ''restore'' s of None \<Rightarrow> None
     | Some r \<Rightarrow> (case scan_word (length r) r of None \<Rightarrow> None
       | Some (f, r') \<Rightarrow> (case scan_int r' of None \<Rightarrow> None | Some (i, _) \<Rightarrow> Some (f, i))))"

definition parse_command :: "string \<Rightarrow> Command \<Rightarrow> Command" where
  "parse_command s c =
     (if strncmp_eq s ''show_diff'' 9 then c\<lparr>cmd_type := CMD_SHOW_DIFF, cmd_arg := 0\<rparr>
      else if strncmp_eq s ''show_k_diffs'' 12
      then c\<lparr>cmd_type := CMD_SHOW_K_DIFFS, cmd_arg := scan_arg ''show_k_diffs'' s (cmd_arg c)\<rparr>
      else if strncmp_eq s ''set_pid'' 7
      then c\<lparr>cmd_type := CMD_SET_PID, cmd_arg := scan_arg ''set_pid'' s (cmd_arg c)\<rparr>
      else if strncmp_eq s ''set_period'' 10
      then c\<lparr>cmd_type := CMD_SET_PERIOD, cmd_arg := scan_arg ''set_period'' s (cmd_arg c)\<rparr>
      else if strncmp_eq s ''status'' 6 then c\<lparr>cmd_type := CMD_STATUS, cmd_arg := 0\<rparr>
      else if strncmp_eq s ''restore'' 7
      then (case scan_restore s of
              Some (f, i) \<Rightarrow> c\<lparr>cmd_type := CMD_RESTORE, cmd_filename := strncpy0 MAX_PATH_LEN f, cmd_arg := i\<rparr>
            | None \<Rightarrow> c\<lparr>cmd_type := CMD_UNKNOWN\<rparr>)
      else c\<lparr>cmd_type := CMD_UNKNOWN\<rparr>)"

text \<open>
  \<open>read_command\<close>: the result of \<open>read\<close> is an argument; at the end of file
  \<open>errno\<close> has the value \<open>stale\<close> of an earlier failure.
\<close>

definition read_command :: "ipc \<Rightarrow> read_res \<Rightarrow> errno \<Rightarrow> Command \<Rightarrow> int \<times> Command" where
  "read_command s r stale c =
     (if fifo_fd s < 0 then (-1, c)
      else case r of
        RData d \<Rightarrow> (1, parse_command (cstr (take (MAX_CMD_LEN - 1) d)) c)
      | REof \<Rightarrow> (if stale = EAGAIN then 0 else -1, c)
      | RErr e \<Rightarrow> (if e = EAGAIN then 0 else -1, c))"

section \<open>Execution\<close>

text \<open>\<open>strncat (response, s, response_len - strlen (response) - 1)\<close>.\<close>

definition strncat_to :: "nat \<Rightarrow> string \<Rightarrow> string \<Rightarrow> string" where
  "strncat_to len r s = r @ take (len - length r - 1) (cstr s)"

definition strncats :: "nat \<Rightarrow> string list \<Rightarrow> string \<Rightarrow> string" where
  "strncats len ss r = fold (\<lambda>s r. strncat_to len r s) ss r"

text \<open>\<open>glob (BACKUP_DIR "/diff_*_sample_<n>", GLOB_NOSORT)\<close>: an empty result is \<open>GLOB_NOMATCH\<close>.\<close>

definition glob_match :: "int \<Rightarrow> string \<Rightarrow> bool" where
  "glob_match n name \<longleftrightarrow> (let pre = ''diff_''; suf = ''_sample_'' @ dec_int n in
     length pre + length suf \<le> length name \<and> take (length pre) name = pre
     \<and> drop (length name - length suf) name = suf)"

definition glob_diffs :: "int \<Rightarrow> fsys \<Rightarrow> path list" where
  "glob_diffs n fs = (case readdir fs BACKUP_DIR of None \<Rightarrow> []
     | Some names \<Rightarrow> map (join BACKUP_DIR) (filter (glob_match n) names))"

definition show_diff :: "nat \<Rightarrow> int \<Rightarrow> fsys \<Rightarrow> string" where
  "show_diff len n fs =
     (if glob_diffs n fs = [] then strncat_to len [] (''No diffs found for current sample'' @ [NL])
      else fold (\<lambda>p r. case get_diff_content p fs of
                   None \<Rightarrow> r
                 | Some c \<Rightarrow> strncats len [p, '':'' @ [NL], c, [NL] @ ''---'' @ [NL]] r)
             (take 5 (glob_diffs n fs)) (strncat_to len [] (''Latest diffs:'' @ [NL])))"

definition show_sample :: "nat \<Rightarrow> fsys \<Rightarrow> int \<Rightarrow> string \<Rightarrow> string" where
  "show_sample len fs n r =
     (if n < 0 then r
      else fold (\<lambda>p r. strncats len [''Sample '', dec_int n, '': '', p, [NL]] r) (glob_diffs n fs) r)"

definition show_k_diffs :: "nat \<Rightarrow> int \<Rightarrow> int \<Rightarrow> fsys \<Rightarrow> string" where
  "show_k_diffs len arg cur fs =
     (let k = (if arg \<le> 0 \<or> cur < arg then cur else arg) in
      fold (show_sample len fs) [cur - k + 1..cur]
        (strncats len [''Diffs for last '', dec_int k, '' samples:'' @ [NL]] []))"

definition status_text :: "MonitorState \<Rightarrow> string" where
  "status_text st =
     ''Status:'' @ [NL] @ ''  Monitored PID: '' @ dec_int (monitored_pid st) @ [NL]
     @ ''  Directory: '' @ monitored_dir st @ [NL]
     @ ''  Sample period: '' @ dec_int (sample_period_ms st) @ '' ms'' @ [NL]
     @ ''  Current sample: '' @ dec_int (current_sample st) @ [NL]
     @ ''  Files tracked: '' @ dec_nat (length (files st)) @ [NL]
     @ ''  First backup done: '' @ (if first_backup_done st then ''yes'' else ''no'') @ [NL]"

definition process_command ::
    "shell \<Rightarrow> int \<Rightarrow> nat \<Rightarrow> Command \<Rightarrow> fsys \<times> MonitorState \<Rightarrow> string \<times> fsys \<times> MonitorState" where
  "process_command shell pid len c s =
     (let fs = fst s; st = snd s in
      case cmd_type c of
        CMD_SHOW_DIFF \<Rightarrow> (show_diff len (current_sample st) fs, s)
      | CMD_SHOW_K_DIFFS \<Rightarrow> (show_k_diffs len (cmd_arg c) (current_sample st) fs, s)
      | CMD_SET_PID \<Rightarrow>
          (case get_process_cwd fs (cmd_arg c) of
             Some cwd \<Rightarrow>
               (snprintf len (''PID changed to '' @ dec_int (cmd_arg c) @ '', monitoring directory: '' @ cwd @ [NL]),
                fs, st\<lparr>monitored_dir := cwd, monitored_pid := cmd_arg c, first_backup_done := False, files := []\<rparr>)
           | None \<Rightarrow> (snprintf len (''Failed to get CWD for PID '' @ dec_int (cmd_arg c) @ [NL]), s))
      | CMD_SET_PERIOD \<Rightarrow>
          if 0 < cmd_arg c \<and> cmd_arg c < 3600000
          then (snprintf len (''Sample period changed to '' @ dec_int (cmd_arg c) @ '' ms'' @ [NL]),
                fs, st\<lparr>sample_period_ms := cmd_arg c\<rparr>)
          else (snprintf len (''Invalid period: '' @ dec_int (cmd_arg c) @ '' (must be 1-3600000 ms)'' @ [NL]), s)
      | CMD_STATUS \<Rightarrow> (snprintf len (status_text st), s)
      | CMD_RESTORE \<Rightarrow>
          (case restore_file_to_sample shell pid st (cmd_filename c) (cmd_arg c) fs of (r, fs') \<Rightarrow>
             (snprintf len
               (if r = 0
                then ''File '' @ cmd_filename c @ '' restored to sample '' @ dec_int (cmd_arg c) @ '' as ''
                     @ restored_name (cmd_filename c) (cmd_arg c) @ [NL]
                else ''Failed to restore file '' @ cmd_filename c @ '' to sample '' @ dec_int (cmd_arg c) @ [NL]),
              fs', st))
      | CMD_UNKNOWN \<Rightarrow> (snprintf len (''Unknown command'' @ [NL]), s))"

section \<open>Facts about the responses\<close>

lemma strncat_to_length: "length r < len \<Longrightarrow> length (strncat_to len r s) < len"
  by (simp add: strncat_to_def)

lemma strncats_length: "length r < len \<Longrightarrow> length (strncats len ss r) < len"
  by (induction ss arbitrary: r) (simp_all add: strncats_def strncat_to_length)

lemma fold_length:
  assumes "\<And>x r. length r < len \<Longrightarrow> length (f x r) < len" "length (r :: string) < len"
  shows "length (fold f xs r) < len"
  using assms(2) by (induction xs arbitrary: r) (simp_all add: assms(1))

lemma show_sample_length: "length r < len \<Longrightarrow> length (show_sample len fs n r) < len"
  unfolding show_sample_def by (auto intro!: fold_length strncats_length)

lemma show_diff_length: "0 < len \<Longrightarrow> length (show_diff len n fs) < len"
  unfolding show_diff_def
  by (auto intro!: fold_length strncat_to_length strncats_length split: option.splits)

lemma show_k_diffs_length: "0 < len \<Longrightarrow> length (show_k_diffs len arg cur fs) < len"
  unfolding show_k_diffs_def Let_def by (intro fold_length show_sample_length strncats_length) auto

lemma snprintf_length: "0 < len \<Longrightarrow> length (snprintf len s) < len"
  by (simp add: snprintf_def)

lemma glob_match_iff: "glob_match n name \<longleftrightarrow> (\<exists>x. name = ''diff_'' @ x @ ''_sample_'' @ dec_int n)"
proof
  assume g: "glob_match n name"
  let ?suf = "''_sample_'' @ dec_int n"
  have l: "5 + length ?suf \<le> length name" and t: "take 5 name = ''diff_''"
    and d: "drop (length name - length ?suf) name = ?suf"
    using g unfolding glob_match_def Let_def by (simp_all add: eval_nat_numeral)
  let ?m = "length name - length ?suf"
  have "take 5 (take ?m name) = take 5 name" using l by (simp add: min_absorb1)
  then have "take ?m name = take 5 name @ drop 5 (take ?m name)" by (metis append_take_drop_id)
  then have "name = take 5 name @ drop 5 (take ?m name) @ drop ?m name"
    by (metis append_assoc append_take_drop_id)
  then show "\<exists>x. name = ''diff_'' @ x @ ?suf" unfolding t d by blast
qed (auto simp: glob_match_def Let_def eval_nat_numeral)

end
