(* ===== verification/Monitor_Watch.thy ===== *)
theory Monitor_Watch
  imports Monitor
begin

text \<open>
  The watch list and the queue of changed files: what adding watches keeps and
  reaches, and what a read of the inotify descriptor puts in the queue.
\<close>

section \<open>What adding watches keeps\<close>

definition same_tree :: "fsys \<Rightarrow> fsys \<Rightarrow> bool" where
  "same_tree fs fs' \<longleftrightarrow> fs_nodes fs' = fs_nodes fs \<and> fs_deny fs' = fs_deny fs \<and> fs_dtype fs' = fs_dtype fs"

text \<open>
  The kernel gives different descriptors to different paths, and the list of the program
  agrees with the kernel.
\<close>

definition watch_ok :: "fsys \<times> MonitorState \<Rightarrow> bool" where
  "watch_ok s \<longleftrightarrow>
     (\<forall>i\<in>set (watch_list (snd s)). map_of (fs_watch (fst s)) (wpath i) = Some (wd i)) \<and>
     (\<forall>p p' w. map_of (fs_watch (fst s)) p = Some w \<longrightarrow> map_of (fs_watch (fst s)) p' = Some w \<longrightarrow> p = p') \<and>
     (\<forall>(p, w)\<in>set (fs_watch (fst s)). 0 < w \<and> w \<le> int (length (fs_watch (fst s))))"

definition grows :: "fsys \<times> MonitorState \<Rightarrow> fsys \<times> MonitorState \<Rightarrow> bool" where
  "grows s t \<longleftrightarrow> same_tree (fst s) (fst t) \<and> (watch_ok s \<longrightarrow> watch_ok t) \<and>
     (\<exists>new. watch_list (snd t) = watch_list (snd s) @ new) \<and>
     changed_files_queue (snd t) = changed_files_queue (snd s) \<and>
     inotify_fd (snd t) = inotify_fd (snd s) \<and> monitored_dir (snd t) = monitored_dir (snd s) \<and>
     first_backup_done (snd t) = first_backup_done (snd s) \<and> current_sample (snd t) = current_sample (snd s) \<and>
     sample_period_ms (snd t) = sample_period_ms (snd s)"

lemma grows_refl [simp]: "grows s s"
  by (simp add: grows_def same_tree_def)

lemma grows_trans: "grows s t \<Longrightarrow> grows t u \<Longrightarrow> grows s u"
  by (auto simp: grows_def same_tree_def)

lemma same_tree_simps:
  assumes "same_tree fs fs'"
  shows "is_dir fs' = is_dir fs" "readdir fs' = readdir fs" "fstat fs' = fstat fs"
  using assms by (simp_all add: same_tree_def is_dir_def readdir_def fstat_def fun_eq_iff)

lemma map_of_append_new: "map_of (xs @ [(p, w)]) q = (case map_of xs q of Some v \<Rightarrow> Some v | None \<Rightarrow> if q = p then Some w else None)"
  by (simp add: map_add_def split: option.splits)

lemma add_watch_ok:
  assumes "inotify_add_watch p fs = (w, fs')" "\<not> w < 0" "watch_ok (fs, st)"
  shows "watch_ok (fs', store_watch w p st)"
proof (cases "map_of (fs_watch fs) p")
  case (Some v)
  then show ?thesis using assms by (auto simp: inotify_add_watch_def watch_ok_def store_watch_def Let_def split: if_splits)
next
  case None
  have w: "w = int (length (fs_watch fs)) + 1" "fs' = fs\<lparr>fs_watch := fs_watch fs @ [(p, w)]\<rparr>"
    using assms(1,2) None by (auto simp: inotify_add_watch_def Let_def split: if_splits)
  have fresh: "map_of (fs_watch fs) q \<noteq> Some w" for q
    using assms(3) w(1) by (auto simp: watch_ok_def dest!: map_of_SomeD)
  have old: "map_of (fs_watch fs) (wpath i) = Some (wd i)" if "i \<in> set (watch_list st)" for i
    using assms(3) that by (simp add: watch_ok_def)
  have inj: "q = q'" if "map_of (fs_watch fs) q = Some v" "map_of (fs_watch fs) q' = Some v" for q q' v
    using assms(3) that unfolding watch_ok_def by simp
  show ?thesis
    unfolding watch_ok_def
  proof (intro conjI)
    show "\<forall>i\<in>set (watch_list (snd (fs', store_watch w p st))).
        map_of (fs_watch (fst (fs', store_watch w p st))) (wpath i) = Some (wd i)"
      using old None w(2) by (auto simp: store_watch_def Let_def map_of_append_new simp del: map_of_append)
    show "\<forall>q q' v. map_of (fs_watch (fst (fs', store_watch w p st))) q = Some v \<longrightarrow>
        map_of (fs_watch (fst (fs', store_watch w p st))) q' = Some v \<longrightarrow> q = q'"
      using inj fresh w(2) by (auto simp: map_of_append_new simp del: map_of_append split: option.splits if_splits)
    show "\<forall>(q, v)\<in>set (fs_watch (fst (fs', store_watch w p st))).
        0 < v \<and> v \<le> int (length (fs_watch (fst (fs', store_watch w p st))))"
      using assms(3) w by (auto simp: watch_ok_def)
  qed
qed

lemma add_watch_grows:
  assumes "inotify_add_watch p fs = (w, fs')" "\<not> w < 0"
  shows "grows (fs, st) (fs', store_watch w p st)"
  using assms add_watch_ok[OF assms]
  by (auto simp: grows_def same_tree_def inotify_add_watch_def store_watch_def Let_def split: if_splits option.splits)

lemma add_watch_failed:
  assumes "inotify_add_watch p fs = (w, fs')" "w < 0"
  shows "fs' = fs"
  using assms by (auto simp: inotify_add_watch_def Let_def split: if_splits option.splits)

lemma watch_entry_grows:
  assumes "\<And>p s r t. self p s = Some (r, t) \<Longrightarrow> grows s t"
    and "watch_entry path self n s = Some t"
  shows "grows s t"
proof -
  consider "t = s" | p r where "self p s = Some (r, t)"
    using assms(2) by (auto simp: watch_entry_def Let_def split: if_splits)
  then show ?thesis using assms(1) by cases auto
qed

lemma entries_grow:
  assumes "\<And>p s r t. self p s = Some (r, t) \<Longrightarrow> grows s t"
    and "ofold (watch_entry path self) ns s = Some t"
  shows "grows s t"
  using assms(2)
proof (induction ns arbitrary: s)
  case Nil
  then show ?case by simp
next
  case (Cons n ns)
  then obtain u where u: "watch_entry path self n s = Some u" "ofold (watch_entry path self) ns u = Some t"
    by (auto split: option.splits)
  have "grows s u" using assms(1) u(1) by (rule watch_entry_grows)
  then show ?case using Cons.IH[OF u(2)] by (rule grows_trans)
qed

lemma same_tree_add: "inotify_add_watch p fs = (w, fs') \<Longrightarrow> same_tree fs fs'"
  by (auto simp: inotify_add_watch_def same_tree_def Let_def split: if_splits option.splits)

lemma recursive_grows:
  "add_inotify_watch_recursive fuel p s = Some (r, t) \<Longrightarrow> grows s t"
proof (induction fuel arbitrary: p s r t)
  case 0
  then show ?case by simp
next
  case (Suc fuel)
  obtain w fs1 where a: "inotify_add_watch p (fst s) = (w, fs1)" by (cases "inotify_add_watch p (fst s)")
  show ?case
  proof (cases "readdir (fst s) p")
    case None
    then show ?thesis using Suc.prems by simp
  next
    case (Some names)
    show ?thesis
    proof (cases "w < 0")
      case True
      then have "t = s" using Suc.prems Some a add_watch_failed[OF a] by simp
      then show ?thesis by simp
    next
      case False
      have g: "grows s (fs1, store_watch w p (snd s))" using add_watch_grows[OF a False, of "snd s"] by simp
      have "ofold (watch_entry p (add_inotify_watch_recursive fuel)) names (fs1, store_watch w p (snd s)) = Some t"
        using Suc.prems Some a False by auto
      with Suc.IH have "grows (fs1, store_watch w p (snd s)) t" by (rule entries_grow)
      with g show ?thesis by (rule grows_trans)
    qed
  qed
qed

section \<open>What it reaches\<close>

inductive subdir :: "fsys \<Rightarrow> path \<Rightarrow> path \<Rightarrow> bool" for fs where
  subdir_refl: "subdir fs p p"
| subdir_step: "n \<in> set (entry_names p (fs_nodes fs)) \<Longrightarrow> n \<noteq> ''.'' \<Longrightarrow> n \<noteq> ''..'' \<Longrightarrow>
    is_dir fs (join p n) \<Longrightarrow> subdir fs (join p n) q \<Longrightarrow> subdir fs p q"

inductive_cases subdirE: "subdir fs p q"

definition watched :: "MonitorState \<Rightarrow> path \<Rightarrow> bool" where
  "watched st q \<longleftrightarrow> q \<in> wpath ` set (watch_list st)"

lemma grows_watched: "grows s t \<Longrightarrow> watched (snd s) q \<Longrightarrow> watched (snd t) q"
  by (auto simp: grows_def watched_def)

definition watchable :: "fsys \<Rightarrow> bool" where
  "watchable fs \<longleftrightarrow> fs_deny fs = [] \<and> (\<forall>p. is_dir fs p \<longrightarrow> length p < PATH_MAX - 1)"

lemma watchable_same: "same_tree fs fs' \<Longrightarrow> watchable fs \<Longrightarrow> watchable fs'"
  by (simp add: watchable_def same_tree_simps) (simp add: same_tree_def)

lemma subdir_same:
  assumes "same_tree fs fs'"
  shows "subdir fs p q \<Longrightarrow> subdir fs' p q"
proof (induction rule: subdir.induct)
  case (subdir_refl p)
  then show ?case by (rule subdir.subdir_refl)
next
  case (subdir_step n p q)
  have a: "n \<in> set (entry_names p (fs_nodes fs'))" using subdir_step(1) assms by (simp add: same_tree_def)
  have b: "is_dir fs' (join p n)" using subdir_step(4) same_tree_simps(1)[OF assms] by simp
  show ?case by (rule subdir.subdir_step[OF a subdir_step(2,3) b subdir_step(6)])
qed

lemma watch_entry_dir:
  assumes "watchable (fst s)" "is_dir (fst s) (join p n)" "n \<noteq> ''.''" "n \<noteq> ''..''"
  shows "watch_entry p self n s = map_option snd (self (join p n) s)"
proof -
  have "length (join p n) < PATH_MAX - 1" using assms(1,2) unfolding watchable_def by blast
  then have "snprintf PATH_MAX (join p n) = join p n" by (intro snprintf_id) simp
  moreover have "readdir (fst s) (join p n) \<noteq> None" using assms(1,2) by (simp add: readdir_def watchable_def)
  ultimately show ?thesis using assms by (simp add: watch_entry_def Let_def)
qed

lemma entries_watched:
  assumes IH: "\<And>p s r t. watch_ok s \<Longrightarrow> watchable (fst s) \<Longrightarrow> is_dir (fst s) p \<Longrightarrow> self p s = Some (r, t) \<Longrightarrow>
      subdir (fst s) p q \<Longrightarrow> watched (snd t) q"
    and gr: "\<And>p s r t. self p s = Some (r, t) \<Longrightarrow> grows s t"
    and "ofold (watch_entry p self) ns s = Some t" "watch_ok s" "watchable (fst s)"
    and "n \<in> set ns" "n \<noteq> ''.''" "n \<noteq> ''..''" "is_dir (fst s) (join p n)" "subdir (fst s) (join p n) q"
  shows "watched (snd t) q"
  using assms(3-)
proof (induction ns arbitrary: s)
  case Nil
  then show ?case by simp
next
  case (Cons m ns)
  from Cons.prems(1) obtain u where u: "watch_entry p self m s = Some u" "ofold (watch_entry p self) ns u = Some t"
    by (auto split: option.splits)
  have g: "grows s u" by (rule watch_entry_grows[OF gr u(1)])
  then have st: "same_tree (fst s) (fst u)" and ok: "watch_ok u"
    using Cons.prems(2) by (simp_all add: grows_def)
  show ?case
  proof (cases "m = n")
    case True
    then obtain r where "self (join p n) s = Some (r, u)"
      using u(1) watch_entry_dir[OF Cons.prems(3,7,5,6), of self] by auto
    then have "watched (snd u) q" by (rule IH[OF Cons.prems(2,3,7) _ Cons.prems(8)])
    moreover have "grows u t" using gr u(2) by (rule entries_grow)
    ultimately show ?thesis by (rule grows_watched[rotated])
  next
    case False
    show ?thesis
      using Cons.prems False ok subdir_same[OF st] watchable_same[OF st]
      by (intro Cons.IH[OF u(2)]) (auto simp: same_tree_simps[OF st])
  qed
qed

lemma recursive_watches:
  "watch_ok s \<Longrightarrow> watchable (fst s) \<Longrightarrow> is_dir (fst s) p \<Longrightarrow> add_inotify_watch_recursive fuel p s = Some (r, t) \<Longrightarrow>
    subdir (fst s) p q \<Longrightarrow> watched (snd t) q"
proof (induction fuel arbitrary: p s r t)
  case 0
  then show ?case by simp
next
  case (Suc fuel)
  obtain w fs1 where a: "inotify_add_watch p (fst s) = (w, fs1)" by (cases "inotify_add_watch p (fst s)")
  let ?u = "(fs1, store_watch w p (snd s))"
  have rd: "readdir (fst s) p = Some (''.'' # ''..'' # entry_names p (fs_nodes (fst s)))"
    using Suc.prems(2,3) by (simp add: readdir_def watchable_def)
  have False: "\<not> w < 0"
    using Suc.prems(1-3) a unfolding inotify_add_watch_def watchable_def is_dir_def watch_ok_def
    by (auto simp: Let_def split: option.splits dest!: map_of_SomeD)
  have o: "ofold (watch_entry p (add_inotify_watch_recursive fuel))
      (''.'' # ''..'' # entry_names p (fs_nodes (fst s))) ?u = Some t"
    using Suc.prems(4) rd a False by (auto simp del: ofold.simps)
  have st: "same_tree (fst s) fs1" by (rule same_tree_add[OF a])
  have ok: "watch_ok ?u" using add_watch_ok[OF a False, of "snd s"] Suc.prems(1) by simp
  from Suc.prems(5) show ?case
  proof (cases rule: subdirE)
    assume 1: "q = p"
    have "grows ?u t" using recursive_grows o by (rule entries_grow)
    moreover have "watched (snd ?u) p" by (simp add: watched_def store_watch_def Let_def)
    ultimately show ?thesis using 1 grows_watched[of ?u t p] by simp
  next
    fix n
    assume 2: "n \<in> set (entry_names p (fs_nodes (fst s)))" "n \<noteq> ''.''" "n \<noteq> ''..''"
      "is_dir (fst s) (join p n)" "subdir (fst s) (join p n) q"
    show ?thesis
    proof (rule entries_watched[where self = "add_inotify_watch_recursive fuel" and n = n and p = p, OF _ _ o ok])
      show "watched (snd t') q" if "watch_ok s'" "watchable (fst s')" "is_dir (fst s') p'"
        "add_inotify_watch_recursive fuel p' s' = Some (r', t')" "subdir (fst s') p' q" for p' s' r' t'
        by (rule Suc.IH[OF that])
      show "grows s' t'" if "add_inotify_watch_recursive fuel p' s' = Some (r', t')" for p' s' r' t'
        by (rule recursive_grows[OF that])
    qed (use 2 Suc.prems(2) watchable_same[OF st] subdir_same[OF st] same_tree_simps[OF st] in auto)
  qed
qed

lemma watched_resolves:
  assumes "watch_ok s" "watched (snd s) q"
  shows "\<exists>w. map_of (fs_watch (fst s)) q = Some w \<and> get_watch_path (snd s) w = Some q"
proof -
  obtain i where i: "i \<in> set (watch_list (snd s))" "wpath i = q" using assms(2) by (auto simp: watched_def)
  then have m: "map_of (fs_watch (fst s)) q = Some (wd i)" using assms(1) by (auto simp: watch_ok_def)
  have "find (\<lambda>j. wd j = wd i) (watch_list (snd s)) \<noteq> None" using i(1) by (auto simp: find_None_iff)
  then obtain j where j: "find (\<lambda>j. wd j = wd i) (watch_list (snd s)) = Some j" by blast
  then have "j \<in> set (watch_list (snd s))" "wd j = wd i" by (auto simp: find_Some_iff)
  then have "map_of (fs_watch (fst s)) (wpath j) = Some (wd i)" using assms(1) by (auto simp: watch_ok_def)
  then have "wpath j = q" using m assms(1) unfolding watch_ok_def by metis
  then show ?thesis using m j by (auto simp: get_watch_path_def)
qed

lemma PATH_MAX_Suc: "PATH_MAX = Suc 4095"
  by (simp add: PATH_MAX_def)

lemma recursive_succeeds:
  assumes "add_inotify_watch_recursive (Suc fuel) p s = Some (r, t)" "watchable (fst s)" "is_dir (fst s) p"
    and "inotify_add_watch p (fst s) = (w, fs1)" "\<not> w < 0"
  shows "r = 0"
  using assms by (auto simp: readdir_def watchable_def simp del: ofold.simps)

lemma recursive_total:
  assumes "watchable (fst s)" "length p < PATH_MAX" "PATH_MAX \<le> fuel + length p"
  shows "\<exists>r. add_inotify_watch_recursive fuel p s = Some r"
  using assms
proof (induction fuel arbitrary: p s)
  case 0
  then show ?case by simp
next
  case (Suc fuel)
  have step: "\<exists>u. watch_entry p (add_inotify_watch_recursive fuel) n s' = Some u"
    if "watchable (fst s')" "n = ''.'' \<or> n = ''..'' \<or> n \<noteq> []" for n s'
  proof (cases "(n = ''.'' \<or> n = ''..'') \<or> \<not> (is_dir (fst s') (join p n) \<or> is_dir (fst s') (snprintf PATH_MAX (join p n)))")
    case True
    then show ?thesis by (auto simp: watch_entry_def Let_def readdir_def)
  next
    case False
    then have "is_dir (fst s') (join p n) \<or> is_dir (fst s') (snprintf PATH_MAX (join p n))" by blast
    then have "length (snprintf PATH_MAX (join p n)) < PATH_MAX - 1"
    proof
      assume "is_dir (fst s') (join p n)"
      then have "length (join p n) < PATH_MAX - 1" using that(1) unfolding watchable_def by blast
      then show ?thesis by (simp add: snprintf_def)
    next
      assume "is_dir (fst s') (snprintf PATH_MAX (join p n))"
      then show ?thesis using that(1) unfolding watchable_def by blast
    qed
    then have l: "snprintf PATH_MAX (join p n) = join p n" "length (join p n) < PATH_MAX"
      by (auto simp: snprintf_def PATH_MAX_def split: if_splits)
    have "n \<noteq> []" using False that(2) by blast
    then have "PATH_MAX \<le> fuel + length (join p n)" using Suc.prems(3) by (cases n) auto
    with Suc.IH[of s' "join p n"] that(1) l(2)
    obtain r where "add_inotify_watch_recursive fuel (join p n) s' = Some r" by blast
    then show ?thesis using l by (auto simp: watch_entry_def Let_def)
  qed
  have entries: "\<exists>t. ofold (watch_entry p (add_inotify_watch_recursive fuel)) ns s' = Some t"
    if "watchable (fst s')" "\<forall>n\<in>set ns. n = ''.'' \<or> n = ''..'' \<or> n \<noteq> []" for ns s'
    using that
  proof (induction ns arbitrary: s')
    case Nil
    then show ?case by simp
  next
    case (Cons n ns)
    obtain u where u: "watch_entry p (add_inotify_watch_recursive fuel) n s' = Some u"
      using step[OF Cons.prems(1), of n] Cons.prems(2) unfolding list.set by blast
    have "grows s' u" using recursive_grows u by (rule watch_entry_grows)
    then have "watchable (fst u)" using watchable_same Cons.prems(1) by (auto simp: grows_def)
    then show ?case using Cons.IH[of u] Cons.prems(2) u by auto
  qed
  obtain w fs1 where a: "inotify_add_watch p (fst s) = (w, fs1)" by (cases "inotify_add_watch p (fst s)")
  have "watchable fs1" using watchable_same[OF same_tree_add[OF a]] Suc.prems(1) .
  moreover have "\<forall>n\<in>set (''.'' # ''..'' # entry_names p (fs_nodes (fst s))). n = ''.'' \<or> n = ''..'' \<or> n \<noteq> []"
    by (auto simp: entry_names_iff)
  ultimately show ?case
    using a entries[of "(fs1, store_watch w p (snd s))" "''.'' # ''..'' # entry_names p (fs_nodes (fst s))"]
    by (auto simp: readdir_def simp del: ofold.simps split: option.splits)
qed

section \<open>The queue of changed files\<close>

text \<open>The interface: inserting keeps the old order and adds what is not there yet at the end.\<close>

text \<open>The elements of a list in the order in which they first appear.\<close>

fun first_occurrences :: "'a list \<Rightarrow> 'a list" where
  "first_occurrences [] = []"
| "first_occurrences (x # xs) = x # filter (\<lambda>y. y \<noteq> x) (first_occurrences xs)"

locale set_queue =
  fixes enq :: "'a \<Rightarrow> 'q \<Rightarrow> 'q" and elems :: "'q \<Rightarrow> 'a list"
  assumes elems_enq: "elems (enq x q) = (if x \<in> set (elems q) then elems q else elems q @ [x])"
begin

lemma fold_set: "set (elems (fold enq xs q)) = set (elems q) \<union> set xs"
  by (induction xs arbitrary: q) (auto simp: elems_enq)

lemma fold_distinct: "distinct (elems q) \<Longrightarrow> distinct (elems (fold enq xs q))"
  by (induction xs arbitrary: q) (auto simp: elems_enq)

lemma fold_order: "elems (fold enq xs q) = elems q @ filter (\<lambda>x. x \<notin> set (elems q)) (first_occurrences xs)"
proof (induction xs arbitrary: q)
  case (Cons x xs)
  show ?case
  proof (cases "x \<in> set (elems q)")
    case True
    then have "filter (\<lambda>y. y \<notin> set (elems q)) (filter (\<lambda>y. y \<noteq> x) ys) = filter (\<lambda>y. y \<notin> set (elems q)) ys" for ys
      by (auto intro: filter_cong simp: filter_filter)
    with True Cons[of "enq x q"] show ?thesis by (simp add: elems_enq)
  next
    case False
    with Cons[of "enq x q"] show ?thesis by (simp add: elems_enq filter_filter conj_commute)
  qed
qed simp

end

interpretation path_queue: set_queue enqueue "\<lambda>q. q"
  by unfold_locales (simp add: enqueue_def)

text \<open>The path an event puts in the queue, for events that do not create directories.\<close>

definition event_path :: "magic \<Rightarrow> fsys \<times> MonitorState \<Rightarrow> inotify_event \<Rightarrow> path option" where
  "event_path magic s ev =
     (if ev_len ev = 0 then None
      else case get_watch_path (snd s) (ev_wd ev) of
        None \<Rightarrow> None
      | Some dir \<Rightarrow> let p = snprintf PATH_MAX (join dir (cstr (ev_name ev))) in
          if has_bit ev IN_ISDIR \<or> skipped_name p \<or> \<not> event_is_text magic (fst s) ev p \<or> \<not> event_should_add ev
          then None else Some p)"

definition creates_dir :: "inotify_event \<Rightarrow> bool" where
  "creates_dir ev \<longleftrightarrow> has_bit ev IN_ISDIR \<and> has_bit ev IN_CREATE"

definition with_queue :: "fsys \<times> MonitorState \<Rightarrow> path list \<Rightarrow> fsys \<times> MonitorState" where
  "with_queue s q = (fst s, (snd s)\<lparr>changed_files_queue := q\<rparr>)"

lemma with_queue_state:
  "fst (with_queue s q) = fst s" "get_watch_path (snd (with_queue s q)) = get_watch_path (snd s)"
  by (simp_all add: with_queue_def get_watch_path_def fun_eq_iff)

lemma with_queue_simps [simp]:
  "event_path magic (with_queue s q) = event_path magic s"
  "with_queue (with_queue s q) q' = with_queue s q'" "with_queue s (changed_files_queue (snd s)) = s"
  "changed_files_queue (snd (with_queue s q)) = q"
  unfolding event_path_def with_queue_state by (rule refl) (simp_all add: with_queue_def)

lemma process_event_plain:
  assumes "\<not> creates_dir ev"
  shows "process_event magic ev s = Some (case event_path magic s ev of
    None \<Rightarrow> s | Some p \<Rightarrow> with_queue s (enqueue p (changed_files_queue (snd s))))"
  using assms
  by (auto simp: process_event_def event_path_def creates_dir_def with_queue_def Let_def split: option.splits)

lemma process_events_plain:
  assumes "\<forall>ev\<in>set evs. \<not> creates_dir ev"
  shows "ofold (process_event magic) evs s =
    Some (with_queue s (fold enqueue (List.map_filter (event_path magic s) evs) (changed_files_queue (snd s))))"
  using assms
proof (induction evs arbitrary: s)
  case Nil
  then show ?case by (simp add: map_filter_simps)
next
  case (Cons ev evs)
  then show ?case
    by (cases "event_path magic s ev") (simp_all add: process_event_plain map_filter_simps)
qed

section \<open>Safety of the queue\<close>

definition queue_ok :: "MonitorState \<Rightarrow> bool" where
  "queue_ok st \<longleftrightarrow> distinct (changed_files_queue st) \<and> (\<forall>p\<in>set (changed_files_queue st). \<not> skipped_name p)"

lemma process_event_queue_ok:
  assumes "process_event magic ev s = Some t" "queue_ok (snd s)" "watch_ok s"
  shows "queue_ok (snd t)" "watch_ok t"
proof -
  have "queue_ok (snd t) \<and> watch_ok t"
  proof (cases "creates_dir ev \<and> ev_len ev \<noteq> 0 \<and> get_watch_path (snd s) (ev_wd ev) \<noteq> None")
    case True
    then obtain p r where "add_inotify_watch_recursive PATH_MAX p s = Some (r, t)"
      using assms(1) by (auto simp: process_event_def creates_dir_def Let_def)
    then show ?thesis using recursive_grows assms(2,3) by (auto simp: grows_def queue_ok_def dest!: recursive_grows)
  next
    case False
    then have "t = s \<or> (\<exists>p. \<not> skipped_name p \<and> t = with_queue s (enqueue p (changed_files_queue (snd s))))"
      using assms(1) by (auto simp: process_event_def creates_dir_def with_queue_def Let_def split: option.splits if_splits)
    then show ?thesis
    proof
      assume "t = s"
      then show ?thesis using assms(2,3) by simp
    next
      assume "\<exists>p. \<not> skipped_name p \<and> t = with_queue s (enqueue p (changed_files_queue (snd s)))"
      then obtain p where p: "\<not> skipped_name p" "t = with_queue s (enqueue p (changed_files_queue (snd s)))"
        by blast
      have "watch_ok t" using assms(3) p(2) by (simp add: watch_ok_def with_queue_def)
      moreover have "queue_ok (snd t)"
      proof (cases "p \<in> set (changed_files_queue (snd s))")
        case True
        then show ?thesis using assms(2) p(2) by (simp add: enqueue_def)
      next
        case False
        then show ?thesis using assms(2) p by (auto simp: enqueue_def queue_ok_def)
      qed
      ultimately show ?thesis by blast
    qed
  qed
  then show "queue_ok (snd t)" "watch_ok t" by blast+
qed

section \<open>What a read of events leaves alone\<close>

definition same_counters :: "MonitorState \<Rightarrow> MonitorState \<Rightarrow> bool" where
  "same_counters st st' \<longleftrightarrow> first_backup_done st' = first_backup_done st \<and>
     current_sample st' = current_sample st \<and> sample_period_ms st' = sample_period_ms st"

lemma process_event_counters:
  assumes "process_event magic ev s = Some t"
  shows "same_counters (snd s) (snd t)"
proof -
  consider "snd t = snd s" | q where "t = with_queue s q"
    | p r where "add_inotify_watch_recursive PATH_MAX p s = Some (r, t)"
    using assms by (auto simp: process_event_def with_queue_def Let_def split: option.splits if_splits)
  then show ?thesis
    by cases (auto simp: same_counters_def with_queue_def grows_def dest!: recursive_grows)
qed

lemma process_inotify_counters:
  assumes "process_inotify_events magic r s = Some (n, t)"
  shows "same_counters (snd s) (snd t)"
proof (cases "inotify_fd (snd s) < 0 \<or> (\<exists>b. r = InoErr b)")
  case True
  then show ?thesis using assms by (auto simp: process_inotify_events_def same_counters_def split: if_splits)
next
  case False
  then obtain evs where "ofold (process_event magic) evs s = Some t"
    using assms by (cases r) (auto simp: process_inotify_events_def)
  then show ?thesis
    by (rule ofold_invariant) (auto simp: same_counters_def dest!: process_event_counters)
qed

end
