(* ===== verification/Getopt.thy ===== *)
theory Getopt
  imports CString
begin

text \<open>
  \<open>getopt\<close> on the option strings the programs use: \<open>spec c\<close> is \<open>None\<close> for an
  unknown option letter, \<open>Some True\<close> for one that takes an argument.  The
  result lists the option letters with their arguments in order, a question mark for an error;
  operands are skipped, as GNU getopt permutes them, and \<open>--\<close> ends the options.
\<close>

type_synonym optspec = "char \<Rightarrow> bool option"

fun getopt_word :: "optspec \<Rightarrow> string \<Rightarrow> string list \<Rightarrow> (char \<times> string) list \<times> string list" where
  "getopt_word spec [] rest = ([], rest)"
| "getopt_word spec (c # cs) rest =
     (case spec c of
        None \<Rightarrow> (case getopt_word spec cs rest of (os, r) \<Rightarrow> ((CHR ''?'', []) # os, r))
      | Some False \<Rightarrow> (case getopt_word spec cs rest of (os, r) \<Rightarrow> ((c, []) # os, r))
      | Some True \<Rightarrow>
          if cs \<noteq> [] then ([(c, cs)], rest)
          else case rest of [] \<Rightarrow> ([(CHR ''?'', [])], []) | a # r \<Rightarrow> ([(c, a)], r))"

lemma getopt_word_length: "length (snd (getopt_word spec w rest)) \<le> length rest"
  by (induction spec w rest rule: getopt_word.induct)
     (auto split: option.splits bool.splits list.splits prod.splits)

function getopt :: "optspec \<Rightarrow> string list \<Rightarrow> (char \<times> string) list" where
  "getopt spec [] = []"
| "getopt spec (a # as) =
     (if a = ''--'' then []
      else if take 1 a = ''-'' \<and> 1 < length a
      then fst (getopt_word spec (tl a) as) @ getopt spec (snd (getopt_word spec (tl a) as))
      else getopt spec as)"
  by pat_completeness auto
termination
  by (relation "measure (\<lambda>(spec, as). length as)") (auto simp: le_imp_less_Suc getopt_word_length)

lemma getopt_arg:
  "spec c = Some True \<Longrightarrow> c \<noteq> CHR ''-'' \<Longrightarrow>
    getopt spec ([CHR ''-'', c] # x # as) = (c, x) # getopt spec as"
  by simp

lemma getopt_flag:
  "spec c = Some False \<Longrightarrow> c \<noteq> CHR ''-'' \<Longrightarrow>
    getopt spec ([CHR ''-'', c] # as) = (c, []) # getopt spec as"
  by simp

end
