(* ===== verification/Fd_Table.thy ===== *)
theory Fd_Table
  imports Kernel
begin

text \<open>
  Descriptor tables of processes: which open descriptor refers to what.  \<open>open\<close>, \<open>pipe\<close> and \<open>dup2\<close>
  follow POSIX: the lowest free descriptors are used, \<open>dup2\<close> onto itself does nothing.
\<close>

type_synonym 'a fdtab = "(fd \<times> 'a) list"

definition fd_close :: "fd \<Rightarrow> 'a fdtab \<Rightarrow> 'a fdtab" where
  "fd_close f t = filter (\<lambda>(g, _). g \<noteq> f) t"

definition fd_open :: "'a \<Rightarrow> 'a fdtab \<Rightarrow> fd \<times> 'a fdtab" where
  "fd_open p t = (let f = lowest_free (map fst t) in (f, (f, p) # t))"

definition fd_dup2 :: "fd \<Rightarrow> fd \<Rightarrow> 'a fdtab \<Rightarrow> 'a fdtab" where
  "fd_dup2 a b t = (case map_of t a of None \<Rightarrow> t
     | Some p \<Rightarrow> if a = b then t else (b, p) # fd_close b t)"

lemma map_of_close [simp]: "map_of (fd_close f t) g = (if g = f then None else map_of t g)"
  unfolding fd_close_def by (induction t) auto

lemma close_removes: "f \<notin> fst ` set (fd_close f t)" "g \<notin> fst ` set t \<Longrightarrow> g \<notin> fst ` set (fd_close f t)"
  by (auto simp: fd_close_def)

lemma lowest_free_zero: "0 \<notin> set fs \<Longrightarrow> lowest_free fs = 0"
  by (simp add: lowest_free_def upt_conv_Cons del: upt_Suc)

lemma map_of_dup2: "map_of (fd_dup2 a b t) f =
  (case map_of t a of None \<Rightarrow> map_of t f | Some p \<Rightarrow> if f = b then Some p else map_of t f)"
  by (auto simp: fd_dup2_def split: option.splits)

lemma fd_open_fresh: "fd_open p t = (f, t') \<Longrightarrow> f \<notin> fst ` set t \<and> 0 \<le> f \<and> t' = (f, p) # t"
  using lowest_free_fresh[of "map fst t"] by (auto simp: fd_open_def Let_def)

lemma dom_fresh: "f \<notin> fst ` set t \<longleftrightarrow> map_of t f = None"
  by (simp add: map_of_eq_None_iff)

text \<open>Which descriptor is the lowest free one.\<close>

lemma lowest_free_least: "0 \<le> i \<Longrightarrow> i \<notin> set used \<Longrightarrow> lowest_free used \<le> i"
proof -
  assume i: "0 \<le> i" "i \<notin> set used"
  let ?l = "map int [0..<Suc (length used)]"
  let ?c = "filter (\<lambda>i. i \<notin> set used) ?l"
  have range: "i \<in> set ?l" if "i < int (Suc (length used))"
  proof -
    obtain n where "i = int n" using i(1) by (rule nonneg_int_cases)
    then show ?thesis using that by (simp del: upt_Suc)
  qed
  have srt: "sorted ?c" by (intro sorted_wrt_filter) (simp add: sorted_map del: upt_Suc)
  show "lowest_free used \<le> i"
  proof (cases ?c)
    case Nil
    then have "\<forall>x\<in>set ?l. x \<in> set used" by (simp only: filter_empty_conv) blast
    then have "\<not> i < int (Suc (length used))" using i(2) range by blast
    then show ?thesis unfolding lowest_free_def Nil by simp
  next
    case (Cons x xs)
    have lf: "lowest_free used = x" unfolding lowest_free_def Cons by simp
    have "x \<in> set ?c" using Cons by simp
    then have x: "x \<le> int (length used)" by (simp del: upt_Suc) auto
    show ?thesis
    proof (cases "i \<le> int (length used)")
      case True
      then have "i \<in> set ?c" using i(2) range by (simp del: upt_Suc)
      then show ?thesis using srt lf unfolding Cons by auto
    qed (use x lf in simp)
  qed
qed

lemma lowest_free_eq:
  assumes "0 \<le> f" "f \<notin> set used" "\<And>i. 0 \<le> i \<Longrightarrow> i < f \<Longrightarrow> i \<in> set used"
  shows "lowest_free used = f"
  using assms lowest_free_least[of f used] lowest_free_fresh[of used] by (meson not_le order_antisym)

lemma lowest_free_cong: "set a = set b \<Longrightarrow> lowest_free a = lowest_free b"
  using lowest_free_least lowest_free_fresh by (metis order_antisym)

end
