(* ===== verification/Monitor_Daemon.thy ===== *)
theory Monitor_Daemon
  imports Monitor_Cmd Monitor_Watch Getopt Fd_Table
begin

text \<open>
  config.c, main.c and the second half of daemon.c: the command line, the daemon's descriptors,
  the daemon loop and the interactive loop.  A loop runs over the list of what its system
  calls return in each round; the list ends where the observation ends.
\<close>

section \<open>Configuration\<close>

datatype Mode = INTERACTIVE | DAEMON

record Config =
  mode :: Mode
  cfg_pid :: int

definition cmd_spec :: optspec where
  "cmd_spec c = (if c = CHR ''p'' then Some True
     else if c = CHR ''d'' \<or> c = CHR ''i'' then Some False else None)"

fun config_options :: "(char \<times> string) list \<Rightarrow> Config \<Rightarrow> Config option" where
  "config_options [] cfg = Some cfg"
| "config_options ((opt, optarg) # os) cfg =
     (if opt = CHR ''p'' then config_options os (cfg\<lparr>cfg_pid := atoi optarg\<rparr>)
      else if opt = CHR ''d'' then config_options os (cfg\<lparr>mode := DAEMON\<rparr>)
      else if opt = CHR ''i'' then config_options os (cfg\<lparr>mode := INTERACTIVE\<rparr>)
      else None)"

text \<open>\<open>None\<close> is \<open>exit (EXIT_FAILURE)\<close>.\<close>

definition get_cmd_args :: "string list \<Rightarrow> Config option" where
  "get_cmd_args args =
     (case config_options (getopt cmd_spec args) \<lparr>mode = INTERACTIVE, cfg_pid = -1\<rparr> of
        None \<Rightarrow> None
      | Some cfg \<Rightarrow> if cfg_pid cfg = -1 then None else Some cfg)"

section \<open>Descriptors of the daemon\<close>

text \<open>\<open>fork_pid\<close> is the result of \<open>fork\<close>: the failing and the parent process exit with the status in \<open>Inl\<close>.\<close>

definition daemonize :: "int \<Rightarrow> path fdtab \<Rightarrow> int + path fdtab" where
  "daemonize fork_pid t =
     (if fork_pid < 0 then Inl 1
      else if 0 < fork_pid then Inl 0
      else
        let t1 = fd_close 2 (fd_close 1 (fd_close 0 t)) in
        case fd_open ''/dev/null'' t1 of (null_fd, t2) \<Rightarrow>
          if 0 \<le> null_fd then
            let t3 = fd_dup2 null_fd 2 (fd_dup2 null_fd 1 (fd_dup2 null_fd 0 t2))
            in Inr (if 2 < null_fd then fd_close null_fd t3 else t3)
          else Inr t2)"

section \<open>The daemon loop\<close>

text \<open>What one round of the loop meets: a signal before it, changes of the file system, the reads.\<close>

record tick =
  t_signal :: bool
  t_env :: "fsys \<Rightarrow> fsys"
  t_inotify :: ino_read
  t_fifo :: read_res
  t_stale :: errno

record daemon =
  d_fs :: fsys
  d_st :: MonitorState
  d_ipc :: ipc
  d_cmd :: Command
  d_running :: bool
  d_responses :: "string list"
  d_sleeps :: "(int \<times> int) list"

definition signal_handler :: "int \<Rightarrow> daemon \<Rightarrow> daemon" where
  "signal_handler sig d = d\<lparr>d_running := False\<rparr>"

definition sleep_of :: "int \<Rightarrow> int \<times> int" where
  "sleep_of ms = (ms div 1000, (ms mod 1000) * 1000000)"

definition daemon_command :: "shell \<Rightarrow> int \<Rightarrow> read_res \<Rightarrow> errno \<Rightarrow> daemon \<Rightarrow> daemon" where
  "daemon_command shell pid r stale d =
     (case read_command (d_ipc d) r stale (d_cmd d) of (n, c) \<Rightarrow>
        if 0 < n then
          (case process_command shell pid MAX_RESPONSE_LEN c (d_fs d, d_st d) of (resp, fs, st) \<Rightarrow>
             d\<lparr>d_cmd := c, d_fs := fs, d_st := st, d_responses := d_responses d @ [resp]\<rparr>)
        else d\<lparr>d_cmd := c\<rparr>)"

definition daemon_sample :: "magic \<Rightarrow> shell \<Rightarrow> daemon \<Rightarrow> daemon option" where
  "daemon_sample magic shell d =
     (if 0 < length (changed_files_queue (d_st d)) \<or> \<not> first_backup_done (d_st d)
      then let st = (d_st d)\<lparr>current_sample := current_sample (d_st d) + 1\<rparr> in
        map_option (\<lambda>(_, fs, st). d\<lparr>d_fs := fs, d_st := st\<rparr>)
          (create_incremental_backup magic shell (d_fs d, st))
      else Some d)"

definition daemon_round :: "magic \<Rightarrow> shell \<Rightarrow> int \<Rightarrow> int \<times> int \<Rightarrow> tick \<Rightarrow> daemon \<Rightarrow> daemon option" where
  "daemon_round magic shell pid sleep_time t d =
     (case process_inotify_events magic (t_inotify t) (t_env t (d_fs d), d_st d) of
        None \<Rightarrow> None
      | Some (_, fs, st) \<Rightarrow>
          map_option (\<lambda>d. d\<lparr>d_sleeps := d_sleeps d @ [sleep_time]\<rparr>)
            (daemon_sample magic shell
              (daemon_command shell pid (t_fifo t) (t_stale t) (d\<lparr>d_fs := fs, d_st := st\<rparr>))))"

fun daemon_loop :: "magic \<Rightarrow> shell \<Rightarrow> int \<Rightarrow> int \<times> int \<Rightarrow> tick list \<Rightarrow> daemon \<Rightarrow> daemon option" where
  "daemon_loop magic shell pid sleep_time [] d = Some d"
| "daemon_loop magic shell pid sleep_time (t # ts) d =
     (let d1 = (if t_signal t then signal_handler 15 d else d) in
      if \<not> d_running d1 then Some d1
      else case daemon_round magic shell pid sleep_time t d1 of
        None \<Rightarrow> None
      | Some d2 \<Rightarrow> daemon_loop magic shell pid sleep_time ts d2)"

definition run_daemon ::
    "magic \<Rightarrow> shell \<Rightarrow> int \<Rightarrow> bool \<Rightarrow> int \<Rightarrow> tick list \<Rightarrow> daemon \<Rightarrow> (int \<times> daemon) option" where
  "run_daemon magic shell pid mkfifo_ok ipc_fd ts d =
     (case init_ipc mkfifo_ok ipc_fd (d_ipc d) of (r, i) \<Rightarrow>
        if r \<noteq> 0 then Some (-1, d\<lparr>d_ipc := i\<rparr>)
        else case init_inotify (d_fs d, d_st d) of
          None \<Rightarrow> None
        | Some (r2, fs, st) \<Rightarrow>
            if r2 \<noteq> 0 then Some (-1, d\<lparr>d_ipc := cleanup_ipc i, d_fs := fs, d_st := st\<rparr>)
            else case create_full_backup magic (fs, st) of
              None \<Rightarrow> None
            | Some (_, fs2, st2) \<Rightarrow>
                map_option (\<lambda>d. (0, d\<lparr>d_ipc := cleanup_ipc (d_ipc d)\<rparr>))
                  (daemon_loop magic shell pid (sleep_of (sample_period_ms st2)) ts
                    (d\<lparr>d_ipc := i, d_fs := fs2, d_st := st2\<rparr>)))"

section \<open>The interactive loop\<close>

text \<open>
  What \<open>select\<close> and \<open>fgets\<close> return: an error, the timeout, input on the descriptor of inotify only, the end of
  the input, or the bytes \<open>fgets\<close> put in the input buffer, at most \<open>MAX_CMD_LEN - 1\<close>.
\<close>

datatype ievent = SelErr | SelTimeout | SelInotify | SelEof | SelLine bytes

record iround =
  i_signal :: bool
  i_env :: "fsys \<Rightarrow> fsys"
  i_inotify :: ino_read
  i_event :: ievent

datatype istep = Quit | Run Command | Sample | Print string

text \<open>The parsing of a line, in the order of the code.\<close>

definition parse_input :: "string \<Rightarrow> Command \<Rightarrow> istep" where
  "parse_input s c =
     (if s = ''quit'' \<or> s = ''exit'' then Quit
      else if strncmp_eq s ''show_diff'' 9 then Run (c\<lparr>cmd_type := CMD_SHOW_DIFF\<rparr>)
      else if strncmp_eq s ''show_k_diffs'' 12
      then Run (c\<lparr>cmd_type := CMD_SHOW_K_DIFFS, cmd_arg := scan_arg ''show_k_diffs'' s (cmd_arg c)\<rparr>)
      else if strncmp_eq s ''set_pid'' 7
      then Run (c\<lparr>cmd_type := CMD_SET_PID, cmd_arg := scan_arg ''set_pid'' s (cmd_arg c)\<rparr>)
      else if strncmp_eq s ''set_period'' 10
      then Run (c\<lparr>cmd_type := CMD_SET_PERIOD, cmd_arg := scan_arg ''set_period'' s (cmd_arg c)\<rparr>)
      else if s = ''status'' then Run (c\<lparr>cmd_type := CMD_STATUS\<rparr>)
      else if s = [] then Sample
      else if strncmp_eq s ''restore'' 7
      then (case scan_restore s of
              Some (f, i) \<Rightarrow> Run (c\<lparr>cmd_type := CMD_RESTORE, cmd_filename := take (MAX_PATH_LEN - 1) f, cmd_arg := i\<rparr>)
            | None \<Rightarrow> Print (''Usage: restore <filename> <sample_number>'' @ [NL]))
      else Print (''Unknown command: '' @ s @ [NL]))"

text \<open>The removal of the newline.\<close>

definition input_line :: "bytes \<Rightarrow> string" where
  "input_line b = (let s = cstr b in if s \<noteq> [] \<and> last s = NL then butlast s else s)"

definition interactive_sample ::
    "magic \<Rightarrow> shell \<Rightarrow> string \<Rightarrow> string \<Rightarrow> fsys \<times> MonitorState \<Rightarrow> (string list \<times> fsys \<times> MonitorState) option" where
  "interactive_sample magic shell pre post s =
     (let st = (snd s)\<lparr>current_sample := current_sample (snd s) + 1\<rparr> in
      map_option (\<lambda>(r, fs, st').
          ([pre @ dec_int (current_sample st) @ post @ [NL]] @
           (if r \<noteq> 0 then [''Failed to create incremental backup'' @ [NL]] else []), fs, st'))
        (create_incremental_backup magic shell (fst s, st)))"

datatype iresult = Stop fsys MonitorState | Next "string list" fsys MonitorState Command

definition interactive_round ::
    "magic \<Rightarrow> shell \<Rightarrow> int \<Rightarrow> iround \<Rightarrow> fsys \<Rightarrow> MonitorState \<Rightarrow> Command \<Rightarrow> iresult option" where
  "interactive_round magic shell pid r fs st c =
     (case process_inotify_events magic (i_inotify r) (i_env r fs, st) of
        None \<Rightarrow> None
      | Some (_, fs1, st1) \<Rightarrow>
          (case i_event r of
             SelErr \<Rightarrow> Some (Next [] fs1 st1 c)
           | SelInotify \<Rightarrow> Some (Next [] fs1 st1 c)
           | SelEof \<Rightarrow> Some (Next [] fs1 st1 c)
           | SelTimeout \<Rightarrow> map_option (\<lambda>(out, fs, st). Next out fs st c)
               (interactive_sample magic shell ''Sample #'' '' (auto)'' (fs1, st1))
           | SelLine b \<Rightarrow>
               (case parse_input (input_line b) c of
                  Quit \<Rightarrow> Some (Stop fs1 st1)
                | Sample \<Rightarrow> map_option (\<lambda>(out, fs, st). Next out fs st c)
                    (interactive_sample magic shell ''Taking sample #'' ''...'' (fs1, st1))
                | Print s \<Rightarrow> Some (Next [s] fs1 st1 c)
                | Run c' \<Rightarrow> (case process_command shell pid MAX_RESPONSE_LEN c' (fs1, st1) of
                    (resp, fs2, st2) \<Rightarrow> Some (Next [resp] fs2 st2 c')))))"

fun interactive_loop ::
    "magic \<Rightarrow> shell \<Rightarrow> int \<Rightarrow> iround list \<Rightarrow> fsys \<Rightarrow> MonitorState \<Rightarrow> Command \<Rightarrow> (string list \<times> fsys \<times> MonitorState) option" where
  "interactive_loop magic shell pid [] fs st c = Some ([], fs, st)"
| "interactive_loop magic shell pid (r # rs) fs st c =
     (if i_signal r then Some ([], fs, st)
      else case interactive_round magic shell pid r fs st c of
        None \<Rightarrow> None
      | Some (Stop fs' st') \<Rightarrow> Some ([], fs', st')
      | Some (Next out fs' st' c') \<Rightarrow>
          map_option (\<lambda>(outs, s). (out @ outs, s)) (interactive_loop magic shell pid rs fs' st' c'))"

definition run_interactive ::
    "magic \<Rightarrow> shell \<Rightarrow> int \<Rightarrow> iround list \<Rightarrow> fsys \<Rightarrow> MonitorState \<Rightarrow> Command \<Rightarrow>
      (int \<times> string list \<times> fsys \<times> MonitorState) option" where
  "run_interactive magic shell pid rs fs st c =
     (case init_inotify (fs, st) of
        None \<Rightarrow> None
      | Some (r, fs1, st1) \<Rightarrow>
          if r \<noteq> 0 then Some (-1, [], fs1, st1)
          else case create_full_backup magic (fs1, st1) of
            None \<Rightarrow> None
          | Some (_, fs2, st2) \<Rightarrow> map_option (Pair 0) (interactive_loop magic shell pid rs fs2 st2 c))"

section \<open>The program\<close>

datatype inputs = DaemonInputs int "path fdtab" bool int "tick list" | InteractiveInputs "iround list"

text \<open>
  \<open>main\<close>: the exit status, and the file system at the end.  The inputs of the loop that is not
  run are not there; a mode without its inputs does not arise.
\<close>

definition monitor_main ::
    "magic \<Rightarrow> shell \<Rightarrow> int \<Rightarrow> string list \<Rightarrow> inputs \<Rightarrow> daemon \<Rightarrow> (int \<times> fsys) option" where
  "monitor_main magic shell pid args inp d =
     (case get_cmd_args args of
        None \<Rightarrow> Some (1, d_fs d)
      | Some cfg \<Rightarrow>
          (case init_monitor_state (d_fs d) (cfg_pid cfg) (d_st d) of (r, st) \<Rightarrow>
             if r \<noteq> 0 then Some (1, d_fs d)
             else (case (mode cfg, inp) of
                 (DAEMON, DaemonInputs fork_pid tab mk fd ts) \<Rightarrow>
                   (case daemonize fork_pid tab of
                      Inl e \<Rightarrow> Some (e, d_fs d)
                    | Inr _ \<Rightarrow> map_option (\<lambda>(_, d'). (0, cleanup_monitor_state (d_fs d') (d_st d')))
                        (run_daemon magic shell pid mk fd ts (d\<lparr>d_st := st\<rparr>)))
               | (INTERACTIVE, InteractiveInputs rs) \<Rightarrow>
                   map_option (\<lambda>(_, _, fs, st'). (0, cleanup_monitor_state fs st'))
                     (run_interactive magic shell pid rs (d_fs d) st (d_cmd d))
               | _ \<Rightarrow> None)))"

end
