(* ===== verification/Backup_Restore.thy ===== *)
theory Backup_Restore
  imports Backup
begin

text \<open>
  What an incremental backup leaves in the backup directory and what a later
  restore makes of it.
\<close>

section \<open>The diff file\<close>

lemma fgets_lines_None: "fgets 4096 s = None \<Longrightarrow> fgets_lines s = []"
  by (subst fgets_lines.simps) simp

lemma fgets_lines_Some: "fgets 4096 s = Some (l, r) \<Longrightarrow> fgets_lines s = l # fgets_lines r"
  by (subst fgets_lines.simps) simp

lemma concat_fgets_lines: "concat (fgets_lines s) = s"
proof (induction s rule: fgets_lines.induct)
  case (1 s)
  show ?case
  proof (cases "fgets 4096 s")
    case None
    then have "s = []" by (auto simp: fgets_def Let_def split: if_splits)
    then show ?thesis using fgets_lines_None[OF None] by simp
  next
    case (Some p)
    then obtain l r where p: "fgets 4096 s = Some (l, r)" by (cases p) auto
    have "concat (fgets_lines r) = r" by (rule 1[OF p refl])
    with fgets_splits[OF p] show ?thesis using fgets_lines_Some[OF p] by simp
  qed
qed

lemma fgets_lines_line:
  "NL \<notin> set a \<Longrightarrow> length a < 4095 \<Longrightarrow> fgets_lines (a @ NL # s) = (a @ [NL]) # fgets_lines s"
  by (rule fgets_lines_Some) (simp add: fgets_line)

definition kept_line :: "bytes \<Rightarrow> bool" where
  "kept_line l \<longleftrightarrow> nonul l \<and> take 1 l \<noteq> ''#'' \<and> l \<noteq> ''---'' @ [NL]"

lemma fgets_newline_last:
  assumes "fgets 4096 s = Some (l, r)"
  shows "NL \<notin> set (butlast l)"
proof -
  obtain w where "l = (case strchr_split NL w of None \<Rightarrow> w | Some (a, _) \<Rightarrow> a @ [NL])"
    using assms by (auto simp: fgets_def Let_def split: if_splits)
  then show ?thesis
    by (cases "strchr_split NL w") (auto simp: strchr_split_Some dest: in_set_butlastD)
qed

lemma separator_only:
  assumes "NL \<notin> set (butlast l)" "strncmp_eq l (''---'' @ [NL]) 4" "nonul l"
  shows "l = ''---'' @ [NL]"
proof -
  have t: "take 4 l = ''---'' @ [NL]" 
    using assms(2) cstr_nonul[OF assms(3)] by (simp add: strncmp_eq_def)
  then have "l = (''---'' @ [NL]) @ drop 4 l" by (metis append_take_drop_id)
  moreover have "drop 4 l = []"
  proof (rule ccontr)
    assume "drop 4 l \<noteq> []"
    then have "butlast l = (''---'' @ [NL]) @ butlast (drop 4 l)"
      using calculation by (metis butlast_append)
    then show False using assms(1) by (metis Un_iff in_set_conv_decomp append_is_Nil_conv set_append list.set_intros(1))
  qed
  ultimately show ?thesis by simp
qed

lemma fgets_lines_newline: "l \<in> set (fgets_lines s) \<Longrightarrow> NL \<notin> set (butlast l)"
proof (induction s rule: fgets_lines.induct)
  case (1 s)
  show ?case
  proof (cases "fgets 4096 s")
    case None
    with 1(2) show ?thesis by (simp add: fgets_lines_None)
  next
    case (Some p)
    then obtain a r where p: "fgets 4096 s = Some (a, r)" by (cases p) auto
    have "l = a \<or> l \<in> set (fgets_lines r)" using 1(2) fgets_lines_Some[OF p] by simp
    then show ?thesis
    proof
      assume "l = a"
      then show ?thesis using fgets_newline_last[OF p] by simp
    next
      assume "l \<in> set (fgets_lines r)"
      then show ?thesis by (rule 1(1)[OF p refl])
    qed
  qed
qed

lemma clean_kept:
  assumes "\<forall>l\<in>set ls. kept_line l \<and> NL \<notin> set (butlast l)"
  shows "clean_lines b ls = concat ls"
  using assms
proof (induction ls)
  case Nil
  then show ?case by simp
next
  case (Cons l ls)
  have "\<not> strncmp_eq l (''---'' @ [NL]) 4"
    using Cons.prems separator_only[of l] by (auto simp: kept_line_def)
  then show ?case using Cons by (simp add: kept_line_def)
qed

lemma clean_header:
  assumes "NL \<notin> set old" "NL \<notin> set new" "length old < 4000" "length new < 4000"
    and "length (dec_int t) < 4000" "length (dec_int n) < 4000"
  shows "clean_lines b (fgets_lines (diff_header t n old new @ d)) = clean_lines True (fgets_lines d)"
proof -
  have nl: "NL \<notin> set (dec_int i)" for i
    by (simp add: dec_int_def dec_nat_no_nl)
  have "fgets_lines (diff_header t n old new @ d) =
      (''# Timestamp: '' @ dec_int t @ [NL]) # (''# Sample: '' @ dec_int n @ [NL])
      # (''# Old file: '' @ old @ [NL]) # (''# New file: '' @ new @ [NL]) # (''---'' @ [NL]) # fgets_lines d"
    using assms nl fgets_lines_line[of "''# Timestamp: '' @ dec_int t"]
      fgets_lines_line[of "''# Sample: '' @ dec_int n"] fgets_lines_line[of "''# Old file: '' @ old"]
      fgets_lines_line[of "''# New file: '' @ new"] fgets_lines_line[of "''---''"]
    by (simp add: diff_header_def)
  moreover have "strncmp_eq (''---'' @ [NL]) (''---'' @ [NL]) 4" by (simp add: strncmp_eq_def)
  ultimately show ?thesis by (simp only: clean_lines.simps) simp
qed

lemma save_diff_effect:
  assumes "shell (snprintf 2048 (diff_command a b)) fs = (rc, d, fs)" "writable fs p"
    and "\<forall>l\<in>set (fgets_lines d). kept_line l"
  shows "save_diff shell a b p t n fs = (0, fput p (diff_header t n a b @ d) fs)"
proof -
  have "map cstr (fgets_lines d) = map id (fgets_lines d)"
    using assms(3) by (intro map_cong) (auto simp: kept_line_def)
  then have "concat (map cstr (fgets_lines d)) = d" by (simp add: concat_fgets_lines)
  then show ?thesis
    using assms(1,2) by (simp add: save_diff_def fopen_write_def fstore.append_put fstore.fold_append)
qed

section \<open>The external tools\<close>

text \<open>
  What the code relies on in \<open>diff\<close> and \<open>patch\<close>: on paths without characters that
  the shell interprets between double quotes, \<open>diff -u\<close> changes nothing and prints some text
  that depends on the two files when both can be read, and \<open>patch\<close> applied to the first file with that text
  succeeds and leaves the contents of the second.
\<close>

definition shell_plain :: "path \<Rightarrow> bool" where
  "shell_plain p \<longleftrightarrow> (\<forall>c\<in>set p. c \<notin> {NUL, NL, CHR 0x22, CHR ''$'', CHR 0x60, CHR 0x5C})"

definition diff_patch_tools :: "shell \<Rightarrow> (path \<Rightarrow> path \<Rightarrow> bytes \<Rightarrow> bytes \<Rightarrow> bytes) \<Rightarrow> bool" where
  "diff_patch_tools shell udiff \<longleftrightarrow>
    (\<forall>a b fs. shell_plain a \<longrightarrow> shell_plain b \<longrightarrow>
      (\<exists>rc out. shell (diff_command a b) fs = (rc, out, fs) \<and>
        (\<forall>ca cb. fopen_read fs a = Some ca \<longrightarrow> fopen_read fs b = Some cb \<longrightarrow> out = udiff a b ca cb))) \<and>
    (\<forall>t d fs p q ca cb. shell_plain t \<longrightarrow> shell_plain d \<longrightarrow> fopen_read fs t = Some ca \<longrightarrow>
      fopen_read fs d = Some (udiff p q ca cb) \<longrightarrow>
      (\<exists>out. shell (patch_command t d) fs = (0, out, fput t cb fs)))"

lemma tools_diff:
  assumes "diff_patch_tools shell udiff" "shell_plain a" "shell_plain b"
    and "fopen_read fs a = Some ca" "fopen_read fs b = Some cb"
  obtains rc where "shell (diff_command a b) fs = (rc, udiff a b ca cb, fs)"
  using assms unfolding diff_patch_tools_def by metis

lemma tools_diff_frame:
  assumes "diff_patch_tools shell udiff" "shell_plain a" "shell_plain b"
  obtains rc out where "shell (diff_command a b) fs = (rc, out, fs)"
  using assms unfolding diff_patch_tools_def by metis

lemma tools_patch:
  assumes "diff_patch_tools shell udiff" "shell_plain t" "shell_plain d"
    and "fopen_read fs t = Some ca" "fopen_read fs d = Some (udiff p q ca cb)"
  obtains out where "shell (patch_command t d) fs = (0, out, fput t cb fs)"
  using assms unfolding diff_patch_tools_def by metis

lemma shell_plain_append [simp]: "shell_plain (a @ b) \<longleftrightarrow> shell_plain a \<and> shell_plain b"
  by (auto simp: shell_plain_def)

lemma shell_plain_NL: "shell_plain p \<Longrightarrow> NL \<notin> set p"
  by (auto simp: shell_plain_def)

section \<open>Paths in the backup directory\<close>

lemma unslash_plain: "SLASH \<notin> set (unslash s)"
  by (auto simp: unslash_def SLASH_def)

lemma relative_plain: "SLASH \<notin> set (make_backup_relative_path f d)"
  by (simp add: make_backup_relative_path_def unslash_plain)

lemma dec_int_plain: "SLASH \<notin> set (dec_int i)" "NUL \<notin> set (dec_int i)"
proof -
  have "\<not> c_isdigit SLASH" "\<not> c_isdigit NUL" by (simp_all add: SLASH_def c_isdigit_def digits_def)
  then have "SLASH \<notin> set (dec_nat m) \<and> NUL \<notin> set (dec_nat m)" for m
    using dec_nat_digits[of m] by blast
  then show "SLASH \<notin> set (dec_int i)" "NUL \<notin> set (dec_int i)"
    by (auto simp: dec_int_def SLASH_def)
qed

lemma backup_path_join:
  "full_name r = join BACKUP_DIR (''full_'' @ r)"
  "diff_name r n = join BACKUP_DIR (''diff_'' @ r @ ''_sample_'' @ dec_int n)"
  "BACKUP_DIR @ ''/temp_restore_'' @ r = join BACKUP_DIR (''temp_restore_'' @ r)"
  "BACKUP_DIR @ ''/temp_clean_diff_'' @ r = join BACKUP_DIR (''temp_clean_diff_'' @ r)"
  by (simp_all add: full_name_def diff_name_def SLASH_def)

lemma snprintf_absent: "c \<notin> set s \<Longrightarrow> c \<notin> set (snprintf n s)"
  by (auto simp: snprintf_def dest: in_set_takeD)

lemma restored_plain: "SLASH \<notin> set (restored_name f n)"
proof -
  have b: "SLASH \<notin> set (path_basename f)" by (simp add: SLASH_def path_basename_no_slash)
  have r: "SLASH \<notin> set (''_restored_'' @ dec_int n)" "SLASH \<noteq> CHR ''.''"
    using dec_int_plain(1)[of n] by (simp_all add: SLASH_def)
  show ?thesis
  proof (cases "strrchr_split (CHR ''.'') (path_basename f)")
    case None
    have "SLASH \<notin> set (path_basename f @ ''_restored_'' @ dec_int n)" using b r(1) by simp
    then show ?thesis unfolding restored_name_def None option.case by (rule snprintf_absent)
  next
    case (Some p)
    then obtain a e where p: "p = (a, e)" "path_basename f = a @ CHR ''.'' # e"
      by (cases p) (auto simp: strrchr_split_Some)
    have "SLASH \<notin> set (a @ ''_restored_'' @ dec_int n @ CHR ''.'' # e)" using b r p(2) by simp
    then show ?thesis unfolding restored_name_def Some p(1) option.case prod.case by (rule snprintf_absent)
  qed
qed

section \<open>One sample of one file\<close>

text \<open>
  The situation both operations work in: nothing is refused, the backup directory exists,
  and its entries are not directories.
\<close>

definition backup_ready :: "fsys \<Rightarrow> bool" where
  "backup_ready fs \<longleftrightarrow> fs_deny fs = [] \<and> is_dir fs BACKUP_DIR
     \<and> (\<forall>n. SLASH \<notin> set n \<longrightarrow> fstat fs (join BACKUP_DIR n) \<noteq> Some Dirn)"

lemma ready_writable:
  assumes "backup_ready fs" "SLASH \<notin> set n"
  shows "writable fs (join BACKUP_DIR n)"
  using assms by (simp add: backup_ready_def writable_def)

lemma join_not_dir: "join d n \<noteq> d"
  by simp

lemma ready_fput:
  "backup_ready fs \<Longrightarrow> p \<noteq> BACKUP_DIR \<Longrightarrow> backup_ready (fput p c fs)"
  by (simp add: backup_ready_def)

lemma ready_read: "backup_ready fs \<Longrightarrow> fopen_read fs p = Some c \<Longrightarrow>
    fopen_read (fput q x fs) p = Some (if p = q then x else c)"
  by (simp add: backup_ready_def fopen_read_def)

lemma backup_if_new_effect:
  assumes "backup_ready fs" "SLASH \<notin> set rel" "fopen_read fs file = Some b"
  shows "backup_if_new file (full_name rel) fs =
    (if fstat fs (full_name rel) = None then fput (full_name rel) b fs else fs)"
  using assms ready_writable[of fs "''full_'' @ rel"] copy_loop_fput[of "full_name rel" b "[]" fs]
  by (simp add: backup_if_new_def fopen_write_def backup_path_join(1) SLASH_def)

lemma dec_int_time: "- (2 ^ 63) \<le> i \<Longrightarrow> i < 2 ^ 63 \<Longrightarrow> length (dec_int i) \<le> 21"
proof -
  assume b: "- (2 ^ 63) \<le> i" "i < 2 ^ 63"
  have "nat i < 10 ^ 20" "nat (- i) < 10 ^ 20" using b by (simp_all add: nat_less_iff)
  then have "length (dec_nat (nat i)) \<le> 20" "length (dec_nat (nat (- i))) \<le> 20"
    by (simp_all only: dec_nat_length zero_less_numeral)
  then show ?thesis by (simp add: dec_int_def)
qed

lemma incremental_effect:
  fixes f dir :: path and n now :: int
  defines "rel \<equiv> make_backup_relative_path f dir"
  defines "base \<equiv> full_name rel" and "dp \<equiv> diff_name rel n"
  assumes tools: "diff_patch_tools shell udiff" "shell_plain base" "shell_plain f"
    and ready: "backup_ready fs" and src: "fopen_read fs f = Some b" and dirs: "f \<noteq> BACKUP_DIR"
    and name: "path_basename f \<noteq> ''debug.log''"
    and sizes: "length base < MAX_PATH_LEN" "length dp < MAX_PATH_LEN" "length (diff_command base f) < 2048"
    and a: "a = (if fstat fs base = None then b else fcontent fs base)"
    and lines: "\<forall>l\<in>set (fgets_lines (udiff base f a b)). kept_line l"
  shows "incremental_file shell dir n now f fs =
    fput dp (diff_header now n base f @ udiff base f a b)
      (if fstat fs base = None then fput base b fs else fs)"
proof -
  have plain: "SLASH \<notin> set rel" by (simp add: rel_def relative_plain)
  let ?fs1 = "if fstat fs base = None then fput base b fs else fs"
  have nb: "base \<noteq> BACKUP_DIR" by (simp add: base_def full_name_def)
  have new: "backup_if_new f base fs = ?fs1"
    unfolding base_def by (rule backup_if_new_effect[OF ready plain src])
  have ready1: "backup_ready ?fs1" using ready nb by (simp add: ready_fput)
  have read_base: "fopen_read ?fs1 base = Some a"
  proof (cases "fstat fs base")
    case None
    then show ?thesis using ready a by (simp add: fopen_read_def backup_ready_def)
  next
    case (Some m)
    have "SLASH \<notin> set (''full_'' @ rel)" using plain by (simp add: SLASH_def)
    then have "fstat fs (join BACKUP_DIR (''full_'' @ rel)) \<noteq> Some Dirn"
      using ready unfolding backup_ready_def by blast
    then have "m \<noteq> Dirn" using Some by (simp add: base_def backup_path_join)
    then show ?thesis using Some a ready
      by (cases m) (auto simp: fopen_read_def backup_ready_def fcontent_def)
  qed
  have read_file: "fopen_read ?fs1 f = Some b"
    using src by (auto simp: fopen_read_def)
  obtain rc where sh: "shell (diff_command base f) ?fs1 = (rc, udiff base f a b, ?fs1)"
    using tools_diff[OF tools read_base read_file] by blast
  have sh': "shell (snprintf 2048 (diff_command base f)) ?fs1 = (rc, udiff base f a b, ?fs1)"
    using sh sizes(3) by (simp add: snprintf_def)
  have w: "writable ?fs1 dp"
    unfolding dp_def backup_path_join using plain dec_int_plain(1)[of n]
    by (intro ready_writable[OF ready1]) (simp add: SLASH_def)
  have "save_diff shell base f dp now n ?fs1 =
      (0, fput dp (diff_header now n base f @ udiff base f a b) ?fs1)"
    using sh' w lines by (rule save_diff_effect)
  then show ?thesis
    using name sizes new unfolding incremental_file_def Let_def rel_def[symmetric] base_def[symmetric]
      dp_def[symmetric] by simp
qed

section \<open>Restoring it\<close>

lemma ready_not_dir: "backup_ready fs \<Longrightarrow> SLASH \<notin> set n \<Longrightarrow> fstat fs (join BACKUP_DIR n) \<noteq> Some Dirn"
  by (simp add: backup_ready_def)

lemma read_stat: "fopen_read fs p = Some c \<Longrightarrow> fstat fs p \<noteq> None"
  by (auto simp: fopen_read_def split: if_splits option.splits)

lemma apply_diff_effect:
  assumes tools: "diff_patch_tools shell udiff" "shell_plain temp" "shell_plain clean"
    and w: "writable fs clean" and deny: "fs_deny fs = []" and tc: "temp \<noteq> clean"
    and cmd: "length (patch_command temp clean) < 2048"
    and dp: "fopen_read fs dp = Some (diff_header now m base f @ udiff base f a b)"
    and hdr: "NL \<notin> set base" "NL \<notin> set f" "length base < 4000" "length f < 4000"
      "length (dec_int now) < 4000" "length (dec_int m) < 4000"
    and lines: "\<forall>l\<in>set (fgets_lines (udiff base f a b)). kept_line l"
    and t: "fopen_read fs temp = Some a"
  shows "apply_sample_diff shell dp clean temp fs =
    (True, funlink clean (fput temp b (fput clean (udiff base f a b) fs)))"
proof -
  let ?d = "udiff base f a b"
  let ?fs = "fput clean ?d fs"
  have "\<forall>l\<in>set (fgets_lines ?d). kept_line l \<and> NL \<notin> set (butlast l)"
    using lines fgets_lines_newline by blast
  then have cl: "clean_lines False (fgets_lines (diff_header now m base f @ ?d)) = ?d"
    using clean_header[OF hdr] clean_kept concat_fgets_lines by simp
  have "fopen_read ?fs temp = Some a" "fopen_read ?fs clean = Some ?d"
    using t tc deny by (simp_all add: fopen_read_def)
  then obtain out where "shell (patch_command temp clean) ?fs = (0, out, fput temp b ?fs)"
    using tools_patch[OF tools] by blast
  then show ?thesis
    using dp read_stat[OF dp] w cl cmd
    by (auto simp: apply_sample_diff_def fopen_write_def fstore.append_put snprintf_def)
qed

lemma install_effect:
  assumes "fs_deny fs = []" "fopen_read fs temp = Some b" "writable fs target" "target \<noteq> temp"
  shows "install_restored temp target fs = (0, funlink temp (fput target b fs))"
  using assms copy_loop_fput[of target b "[]" fs]
  by (simp add: install_restored_def fopen_write_def)

lemma restore_effect:
  fixes dir f name :: path and n m pid now :: int
  defines "rel \<equiv> make_backup_relative_path f dir"
  defines "base \<equiv> full_name rel" and "dp \<equiv> diff_name rel n"
    and "temp \<equiv> join BACKUP_DIR (''temp_restore_'' @ rel @ ''_'' @ dec_int pid)"
    and "clean \<equiv> join BACKUP_DIR (''temp_clean_diff_'' @ rel @ ''_'' @ dec_int n @ ''_'' @ dec_int pid)"
    and "target \<equiv> join dir (restored_name name n)"
  assumes tools: "diff_patch_tools shell udiff" "shell_plain temp" "shell_plain clean"
    and ready: "backup_ready fs" and dir: "dir = monitored_dir st" "is_dir fs dir" "dir \<noteq> BACKUP_DIR"
    and name: "name \<noteq> []" "f = join dir name" and n: "1 \<le> n" "n \<le> current_sample st"
    and sizes: "length f < MAX_PATH_LEN" "length base < MAX_PATH_LEN" "length dp < MAX_PATH_LEN"
      "length target < MAX_PATH_LEN" "length (patch_command temp clean) < 2048"
    and base: "fopen_read fs base = Some a"
    and dp: "fopen_read fs dp = Some (diff_header now m base f @ udiff base f a b)"
    and hdr: "NL \<notin> set base" "NL \<notin> set f" "length base < 4000" "length f < 4000"
      "length (dec_int now) < 4000" "length (dec_int m) < 4000"
    and lines: "\<forall>l\<in>set (fgets_lines (udiff base f a b)). kept_line l"
    and free: "fstat fs target \<noteq> Some Dirn"
  shows "restore_file_to_sample shell pid st name n fs =
    (0, funlink temp (fput target b (funlink clean (fput temp b (fput clean (udiff base f a b) (fput temp a fs))))))"
proof -
  have plain: "SLASH \<notin> set rel" by (simp add: rel_def relative_plain)
  have tplain: "SLASH \<notin> set (''temp_restore_'' @ rel @ ''_'' @ dec_int pid)"
    "SLASH \<notin> set (''temp_clean_diff_'' @ rel @ ''_'' @ dec_int n @ ''_'' @ dec_int pid)"
    using plain dec_int_plain(1)[of pid] dec_int_plain(1)[of n] by (simp_all add: SLASH_def)
  have neq: "temp \<noteq> clean" "base \<noteq> temp" "dp \<noteq> temp"
    by (simp_all add: temp_def clean_def base_def dp_def full_name_def diff_name_def SLASH_def)
  have tdir: "dir \<noteq> temp" "dir \<noteq> clean"
    using dir(2) ready_not_dir[OF ready tplain(1)] ready_not_dir[OF ready tplain(2)]
    by (auto simp: temp_def clean_def is_dir_def)
  have par: "parent target = dir" "parent temp = BACKUP_DIR" "parent clean = BACKUP_DIR"
    unfolding target_def temp_def clean_def
    by (rule parent_join, rule restored_plain) (rule parent_join, rule tplain)+
  then have tt: "target \<noteq> temp" "target \<noteq> clean" using dir(3) by auto
  have lens: "length temp < MAX_PATH_LEN" "length clean < MAX_PATH_LEN"
    using sizes(5) by (simp_all add: patch_command_def MAX_PATH_LEN_def)
  let ?fs1 = "fput temp a fs"
  let ?d = "udiff base f a b"
  let ?fs2 = "funlink clean (fput temp b (fput clean ?d ?fs1))"
  have wt: "writable fs temp" unfolding temp_def by (rule ready_writable[OF ready tplain(1)])
  have deny: "fs_deny fs = []" using ready by (simp add: backup_ready_def)
  have ready1: "backup_ready ?fs1" using ready by (intro ready_fput) (simp_all add: temp_def)
  have wc: "writable ?fs1 clean" unfolding clean_def by (rule ready_writable[OF ready1 tplain(2)])
  have rd: "fopen_read ?fs1 dp = Some (diff_header now m base f @ ?d)"
    using dp neq deny by (simp add: fopen_read_def)
  have rt: "fopen_read ?fs1 temp = Some a" using deny by (simp add: fopen_read_def)
  have deny1: "fs_deny ?fs1 = []" using deny by simp
  have ap: "apply_sample_diff shell dp clean temp ?fs1 = (True, ?fs2)"
    by (rule apply_diff_effect[OF tools wc deny1 neq(1) sizes(5) rd hdr lines rt])
  have in_: "install_restored temp target ?fs2 = (0, funlink temp (fput target b ?fs2))"
  proof (rule install_effect)
    show "fs_deny ?fs2 = []" using deny by simp
    show "fopen_read ?fs2 temp = Some b" using deny neq by (simp add: fopen_read_def fstat_funlink)
    show "writable ?fs2 target"
      using deny tt free par(1) tdir dir(2) by (simp add: writable_def fstat_funlink is_dir_def)
    show "target \<noteq> temp" by (rule tt)
  qed
  have cp: "copy_loop temp a (fput temp [] fs) = ?fs1" using copy_loop_fput[of temp a "[]" fs] by simp
  have s: "snprintf MAX_PATH_LEN (join (monitored_dir st) name) = f"
    "snprintf MAX_PATH_LEN (full_name (make_backup_relative_path f (monitored_dir st))) = base"
    "snprintf MAX_PATH_LEN (diff_name (make_backup_relative_path f (monitored_dir st)) n) = dp"
    "snprintf MAX_PATH_LEN (BACKUP_DIR @ ''/temp_restore_'' @
       make_backup_relative_path f (monitored_dir st) @ ''_'' @ dec_int pid) = temp"
    "snprintf MAX_PATH_LEN (BACKUP_DIR @ ''/temp_clean_diff_'' @
       make_backup_relative_path f (monitored_dir st) @ ''_'' @ dec_int n @ ''_'' @ dec_int pid) = clean"
    "snprintf MAX_PATH_LEN (join (monitored_dir st) (restored_name name n)) = target"
    unfolding dir(1)[symmetric] rel_def[symmetric] base_def[symmetric] dp_def[symmetric]
      backup_path_join(3,4) temp_def[symmetric] clean_def[symmetric] target_def[symmetric] name(2)[symmetric]
    using sizes lens by (simp_all add: snprintf_id)
  have c: "\<not> (n < 1 \<or> current_sample st < n)" using n by simp
  have fw: "fopen_write fs temp = Some (fput temp [] fs)" using wt by (simp add: fopen_write_def)
  show ?thesis
    unfolding restore_file_to_sample_def Let_def s
    by (simp only: name(1) c read_stat[OF base] base fw cp ap in_ if_False option.case prod.case simp_thms)
qed

section \<open>A list of changed files\<close>

text \<open>The files a sample is taken of: their paths are plain, short and not in the backup directory.\<close>

definition backup_source :: "path \<Rightarrow> bool" where
  "backup_source f \<longleftrightarrow> shell_plain f \<and> length f \<le> 900 \<and> parent f \<noteq> BACKUP_DIR \<and> f \<noteq> BACKUP_DIR"

lemma plain_chars: "shell_plain BACKUP_DIR" "shell_plain ''_''" "shell_plain (dec_int i)"
proof -
  have "\<forall>c\<in>set ds. c \<notin> {NUL, NL, CHR 0x22, CHR ''$'', CHR 0x60, CHR 0x5C}"
    if "\<forall>c\<in>set ds. c_isdigit c" for ds
  proof -
    have "\<not> c_isdigit c" if "c \<in> {NUL, NL, CHR 0x22, CHR ''$'', CHR 0x60, CHR 0x5C}" for c
      using that by (auto simp: c_isdigit_def digits_def)
    then show ?thesis using that by blast
  qed
  then have "shell_plain (dec_nat k)" for k using dec_nat_digits[of k] by (simp add: shell_plain_def)
  moreover have "shell_plain (CHR ''-'' # s) \<longleftrightarrow> shell_plain s" for s by (simp add: shell_plain_def)
  ultimately show "shell_plain (dec_int i)" by (simp add: dec_int_def)
  show "shell_plain BACKUP_DIR" "shell_plain ''_''" by (simp_all add: shell_plain_def BACKUP_DIR_def)
qed

lemma shell_plain_take: "shell_plain s \<Longrightarrow> shell_plain (take n s)"
  by (auto simp: shell_plain_def dest: in_set_takeD)

lemma shell_plain_drop: "shell_plain s \<Longrightarrow> shell_plain (drop n s)"
  by (auto simp: shell_plain_def dest: in_set_dropD)

lemma cstr_prefix: "\<exists>n. cstr s = take n s"
  unfolding cstr_def using takeWhile_eq_take by metis

lemma strncpy0_plain: "shell_plain s \<Longrightarrow> shell_plain (strncpy0 k s)"
  using cstr_prefix[of s] by (auto simp: strncpy0_def shell_plain_take)

lemma strncpy0_le: "length (strncpy0 k s) \<le> length s"
  using cstr_prefix[of s] by (auto simp: strncpy0_def)

lemma basename_suffix: "\<exists>n. path_basename p = drop n p"
proof (cases "strrchr_split (CHR ''/'') p")
  case None
  then have "path_basename p = drop 0 p" by (simp add: path_basename_def)
  then show ?thesis by blast
next
  case (Some r)
  then obtain a b where "r = (a, b)" "p = (a @ [CHR ''/'']) @ b"
    by (cases r) (auto simp: strrchr_split_Some)
  then have "path_basename p = drop (length (a @ [CHR ''/''])) p" using Some
    by (simp add: path_basename_def)
  then show ?thesis by blast
qed

lemma relative_cases:
  obtains g where "make_backup_relative_path f d = unslash g" "length g \<le> length f"
    "shell_plain f \<Longrightarrow> shell_plain g"
proof -
  let ?a = "strncpy0 MAX_PATH_LEN (drop (length d) f)"
  obtain k where k: "path_basename f = drop k f" using basename_suffix by blast
  have "length ?a \<le> length f" using strncpy0_le[of MAX_PATH_LEN "drop (length d) f"] by simp
  moreover have "length (strncpy0 MAX_PATH_LEN (drop k f)) \<le> length f"
    using strncpy0_le[of MAX_PATH_LEN "drop k f"] by simp
  ultimately have "\<exists>g. make_backup_relative_path f d = unslash g \<and> length g \<le> length f
      \<and> (shell_plain f \<longrightarrow> shell_plain g)"
    unfolding make_backup_relative_path_def Let_def k
    using strncpy0_le[of MAX_PATH_LEN f]
    by (auto intro!: exI strncpy0_plain shell_plain_drop simp: le_diff_conv)
  then show ?thesis using that by blast
qed

lemma relative_length: "length (make_backup_relative_path f d) \<le> length f"
  by (rule relative_cases[of f d]) (simp add: unslash_def)

lemma relative_shell_plain: "shell_plain f \<Longrightarrow> shell_plain (make_backup_relative_path f d)"
proof (rule relative_cases[of f d])
  fix g
  assume "shell_plain f" "make_backup_relative_path f d = unslash g" "shell_plain f \<Longrightarrow> shell_plain g"
  then show ?thesis by (auto simp: unslash_def shell_plain_def)
qed

definition c_int :: "int \<Rightarrow> bool" where
  "c_int i \<longleftrightarrow> - (2 ^ 31) \<le> i \<and> i < 2 ^ 31"

definition c_time :: "int \<Rightarrow> bool" where
  "c_time i \<longleftrightarrow> - (2 ^ 63) \<le> i \<and> i < 2 ^ 63"

lemma dec_length:
  "c_int i \<Longrightarrow> length (dec_int i) \<le> 21" "c_time i \<Longrightarrow> length (dec_int i) \<le> 21"
  unfolding c_int_def c_time_def by (rule dec_int_time; simp)+

lemma source_sizes:
  fixes f dir :: path
  defines "rel \<equiv> make_backup_relative_path f dir"
  assumes "backup_source f" "c_int n"
  shows "shell_plain f" "shell_plain (full_name rel)" "length (full_name rel) < 4000" "length f < 4000"
    "length (diff_name rel n) < MAX_PATH_LEN" "length (diff_command (full_name rel) f) < 2048"
    "f \<noteq> full_name rel" "f \<noteq> diff_name rel n" "f \<noteq> BACKUP_DIR"
proof -
  have s: "shell_plain f" "length f \<le> 900" "parent f \<noteq> BACKUP_DIR"
    using assms(2) by (simp_all add: backup_source_def)
  show "f \<noteq> BACKUP_DIR" using assms(2) by (simp add: backup_source_def)
  have l: "length rel \<le> 900" using relative_length[of f dir] s(2) by (simp add: rel_def)
  have r: "shell_plain rel" "SLASH \<notin> set rel"
    unfolding rel_def using s(1) by (rule relative_shell_plain) (rule relative_plain)
  have d: "length (dec_int n) \<le> 21" by (rule dec_length(1)[OF assms(3)])
  show "shell_plain f" by (rule s(1))
  have "shell_plain ''/full_''" by (simp add: shell_plain_def)
  then show "shell_plain (full_name rel)" using r(1) plain_chars(1)
    by (simp only: full_name_def shell_plain_append)
  have lb: "length (full_name rel) \<le> 930" using l by (simp add: full_name_def BACKUP_DIR_def)
  then show "length (full_name rel) < 4000" "length f < 4000" using s(2) by simp_all
  show "length (diff_name rel n) < MAX_PATH_LEN"
    using l d by (simp add: diff_name_def BACKUP_DIR_def MAX_PATH_LEN_def)
  show "length (diff_command (full_name rel) f) < 2048" using lb s(2) by (simp add: diff_command_def)
  have "parent (full_name rel) = BACKUP_DIR"
    unfolding backup_path_join using r(2) by (intro parent_join) (simp add: SLASH_def)
  then show "f \<noteq> full_name rel" using s(3) by auto
  have "parent (diff_name rel n) = BACKUP_DIR"
    unfolding backup_path_join using r(2) dec_int_plain(1)[of n] by (intro parent_join) (simp add: SLASH_def)
  then show "f \<noteq> diff_name rel n" using s(3) by auto
qed

lemma save_diff_frame:
  assumes "shell (snprintf 2048 (diff_command a b)) fs = (rc, out, fs)" "writable fs p"
  shows "\<exists>c. snd (save_diff shell a b p t n fs) = fput p c fs"
  using assms by (auto simp: save_diff_def fopen_write_def fstore.append_put fstore.fold_append)

lemma backup_if_new_frame:
  assumes "backup_ready fs" "SLASH \<notin> set rel"
  shows "backup_if_new f (full_name rel) fs = fs \<or> (\<exists>c. backup_if_new f (full_name rel) fs = fput (full_name rel) c fs)"
proof (cases "fopen_read fs f")
  case None
  then show ?thesis by (simp add: backup_if_new_def)
next
  case (Some b)
  then show ?thesis using backup_if_new_effect[OF assms Some] by auto
qed

lemma incremental_frame:
  fixes f dir :: path
  defines "rel \<equiv> make_backup_relative_path f dir"
  assumes tools: "diff_patch_tools shell udiff" and src: "backup_source f" and n: "c_int n"
    and ready: "backup_ready fs"
  shows "backup_ready (incremental_file shell dir n now f fs)" (is ?A)
    and "q \<noteq> full_name rel \<Longrightarrow> q \<noteq> diff_name rel n \<Longrightarrow>
      fstat (incremental_file shell dir n now f fs) q = fstat fs q" (is "_ \<Longrightarrow> _ \<Longrightarrow> ?B")
proof -
  have plain: "SLASH \<notin> set rel" by (simp add: rel_def relative_plain)
  note sz = source_sizes(2,3,5,6)[OF src n, where dir = dir, folded rel_def]
  have sf: "shell_plain f" by (rule source_sizes(1)[OF src n])
  let ?base = "full_name rel" and ?dp = "diff_name rel n"
  let ?fs1 = "backup_if_new f ?base fs"
  have nb: "?base \<noteq> BACKUP_DIR" "?dp \<noteq> BACKUP_DIR" by (simp_all add: full_name_def diff_name_def)
  have fs1: "?fs1 = fs \<or> (\<exists>c. ?fs1 = fput ?base c fs)" by (rule backup_if_new_frame[OF ready plain])
  then have ready1: "backup_ready ?fs1" using ready nb(1) by (auto intro: ready_fput)
  obtain rc out where sh: "shell (diff_command ?base f) ?fs1 = (rc, out, ?fs1)"
    using tools_diff_frame[OF tools sz(1) sf] by blast
  then have sh': "shell (snprintf 2048 (diff_command ?base f)) ?fs1 = (rc, out, ?fs1)"
    using sz(4) by (simp add: snprintf_def)
  have "writable ?fs1 ?dp"
    unfolding backup_path_join using plain dec_int_plain(1)[of n]
    by (intro ready_writable[OF ready1[unfolded backup_path_join]]) (simp add: SLASH_def)
  with sh' obtain c where "snd (save_diff shell ?base f ?dp now n ?fs1) = fput ?dp c ?fs1"
    using save_diff_frame[where shell = shell and a = ?base and b = f] by blast
  then have eq: "incremental_file shell dir n now f fs = fs \<or> incremental_file shell dir n now f fs = fput ?dp c ?fs1"
    using sz(2,3) by (simp add: incremental_file_def Let_def rel_def MAX_PATH_LEN_def)
  then show ?A using ready ready1 nb(2) by (auto intro: ready_fput)
  show ?B if "q \<noteq> ?base" "q \<noteq> ?dp"
    using eq fs1 that by auto
qed

end
