(* ===== verification/Backup_Detect.thy ===== *)
theory Backup_Detect
  imports Backup_Restore
begin

text \<open>
  The stat-based change detection of \<open>find_changed_files\<close>: which files it reports and
  what it remembers; and the lines that survive the cleaning of a diff.
\<close>

section \<open>The table of known files\<close>

definition is_stale :: "fnode \<Rightarrow> FileInfo \<Rightarrow> bool" where
  "is_stale nd f \<longleftrightarrow> fi_mtime f \<noteq> node_mtime nd \<or> fi_size f \<noteq> node_size nd \<or> \<not> fi_exists f"

text \<open>A file counts as changed when it is unknown or its first entry in the table is is_stale.\<close>

definition changed_since :: "FileInfo list \<Rightarrow> fsys \<Rightarrow> path \<Rightarrow> bool" where
  "changed_since known fs p \<longleftrightarrow> (case fstat fs p of None \<Rightarrow> False | Some nd \<Rightarrow>
     (case find (\<lambda>f. fi_path f = p) known of None \<Rightarrow> True | Some f \<Rightarrow> is_stale nd f))"

lemma update_known_find:
  "update_known p mt sz fs = None \<longleftrightarrow> find (\<lambda>f. fi_path f = p) fs = None"
  by (induction fs) auto

lemma update_known_changed:
  "update_known p (node_mtime nd) (node_size nd) fs = Some (c, fs') \<Longrightarrow>
    \<exists>f. find (\<lambda>f. fi_path f = p) fs = Some f \<and> c = is_stale nd f"
  by (induction fs arbitrary: fs') (auto simp: is_stale_def split: if_splits)

lemma find_update_known:
  "update_known p mt sz fs = Some (c, fs') \<Longrightarrow> find (\<lambda>f. fi_path f = q) fs' =
    (if q = p then map_option (\<lambda>f. f\<lparr>fi_mtime := mt, fi_size := sz, fi_exists := True\<rparr>) (find (\<lambda>f. fi_path f = p) fs)
     else find (\<lambda>f. fi_path f = q) fs)"
  by (induction fs arbitrary: fs') (auto split: if_splits)

lemma update_known_same:
  assumes "find (\<lambda>f. fi_path f = p) fs = Some f" "\<not> is_stale nd f"
  shows "update_known p (node_mtime nd) (node_size nd) fs = Some (False, fs)"
  using assms by (induction fs) (auto simp: is_stale_def split: if_splits)

lemma find_append_single:
  "find P (xs @ [x]) = (case find P xs of Some y \<Rightarrow> Some y | None \<Rightarrow> if P x then Some x else None)"
  by (induction xs) auto

lemma check_current_changed:
  assumes "fstat fs p \<noteq> None"
  shows "fst (check_current fs p s) = fst s @ (if changed_since (files (snd s)) fs p then [p] else [])"
proof -
  obtain nd where nd: "fstat fs p = Some nd" using assms by blast
  show ?thesis
  proof (cases "update_known p (node_mtime nd) (node_size nd) (files (snd s))")
    case None
    then have "find (\<lambda>f. fi_path f = p) (files (snd s)) = None" by (simp only: update_known_find)
    then show ?thesis using nd None by (simp add: check_current_def changed_since_def)
  next
    case (Some r)
    then obtain c fs' where r: "r = (c, fs')" by (cases r) auto
    obtain f where "find (\<lambda>f. fi_path f = p) (files (snd s)) = Some f" "c = is_stale nd f"
      using update_known_changed[of p nd "files (snd s)" c fs'] Some r by blast
    then show ?thesis using nd Some r by (simp add: check_current_def changed_since_def)
  qed
qed

lemma check_current_dir: "monitored_dir (snd (check_current fs p s)) = monitored_dir (snd s)"
  "inotify_fd (snd (check_current fs p s)) = inotify_fd (snd s)"
  "changed_files_queue (snd (check_current fs p s)) = changed_files_queue (snd s)"
  by (simp_all add: check_current_def split: option.splits prod.splits)

lemma check_current_known:
  assumes "fstat fs p \<noteq> None" "strncpy0 MAX_PATH_LEN p = p"
  shows "changed_since (files (snd (check_current fs p s))) fs q \<longleftrightarrow>
    q \<noteq> p \<and> changed_since (files (snd s)) fs q"
proof -
  obtain nd where nd: "fstat fs p = Some nd" using assms by blast
  show ?thesis
  proof (cases "update_known p (node_mtime nd) (node_size nd) (files (snd s))")
    case None
    then have "find (\<lambda>f. fi_path f = p) (files (snd s)) = None" by (simp add: update_known_find)
    then show ?thesis using nd None assms(2)
      by (auto simp: check_current_def changed_since_def find_append_single is_stale_def split: option.splits)
  next
    case (Some r)
    then obtain c fs' where r: "update_known p (node_mtime nd) (node_size nd) (files (snd s)) = Some (c, fs')"
      by (cases r) auto
    then obtain f where f: "find (\<lambda>f. fi_path f = p) (files (snd s)) = Some f"
      using update_known_changed by blast
    have k: "files (snd (check_current fs p s)) = fs'" using nd r by (simp add: check_current_def)
    show ?thesis
      unfolding k changed_since_def find_update_known[OF r]
      using nd f by (auto simp: is_stale_def split: option.splits)
  qed
qed

lemma check_current_skip:
  assumes "fstat fs p \<noteq> None" "\<not> changed_since (files (snd s)) fs p"
  shows "check_current fs p s = s"
proof -
  obtain nd where nd: "fstat fs p = Some nd" using assms by blast
  then obtain f where f: "find (\<lambda>f. fi_path f = p) (files (snd s)) = Some f" "\<not> is_stale nd f"
    using assms(2) by (auto simp: changed_since_def split: option.splits)
  then show ?thesis using nd update_known_same[OF f] by (cases s) (simp add: check_current_def)
qed

section \<open>One pass over the current files\<close>

definition scan_pass :: "fsys \<Rightarrow> path list \<Rightarrow> path list \<times> MonitorState \<Rightarrow> path list \<times> MonitorState" where
  "scan_pass fs ps s = fold (check_current fs) ps s"

lemma cells_pass:
  "ofold (\<lambda>i s. map_option (\<lambda>p. check_current fs p s) (cell_at (map Some ps) i)) [k..<length ps] s
    = Some (scan_pass fs (drop k ps) s)"
proof (induction "length ps - k" arbitrary: k s)
  case 0
  then show ?case by (simp add: scan_pass_def)
next
  case (Suc n)
  then have k: "k < length ps" by simp
  have "cell_at (map Some ps) k = Some (ps ! k)" using k by (simp add: cell_at_def)
  then show ?case
    using Suc(1)[of "Suc k" "check_current fs (ps ! k) s"] Suc(2) k
    by (simp add: upt_conv_Cons Cons_nth_drop_Suc[symmetric] scan_pass_def)
qed

lemma scan_pass_result:
  assumes "distinct ps" "\<forall>p\<in>set ps. fstat fs p \<noteq> None \<and> strncpy0 MAX_PATH_LEN p = p"
  shows "fst (scan_pass fs ps (xs, st)) = xs @ filter (changed_since (files st) fs) ps"
    and "changed_since (files (snd (scan_pass fs ps (xs, st)))) fs q \<longleftrightarrow> q \<notin> set ps \<and> changed_since (files st) fs q"
  using assms
proof (induction ps arbitrary: xs st)
  case Nil
  { case 1 then show ?case by (simp add: scan_pass_def) }
  { case 2 then show ?case by (simp add: scan_pass_def) }
next
  case (Cons p ps)
  { case 1
    obtain ys st' where c: "check_current fs p (xs, st) = (ys, st')" by (cases "check_current fs p (xs, st)")
    have step: "scan_pass fs (p # ps) (xs, st) = scan_pass fs ps (ys, st')" by (simp add: scan_pass_def c)
    have ys: "ys = xs @ (if changed_since (files st) fs p then [p] else [])"
      using check_current_changed[of fs p "(xs, st)", unfolded c] 1 by simp
    have "filter (changed_since (files st') fs) ps = filter (changed_since (files st) fs) ps"
      using check_current_known[of fs p "(xs, st)", unfolded c] 1 by (intro filter_cong) auto
    then show ?case using Cons.IH(1)[of ys st'] 1 ys step by simp }
  { case 2
    obtain ys st' where c: "check_current fs p (xs, st) = (ys, st')" by (cases "check_current fs p (xs, st)")
    have step: "scan_pass fs (p # ps) (xs, st) = scan_pass fs ps (ys, st')" by (simp add: scan_pass_def c)
    show ?case using 2 Cons.IH(2)[of ys st'] step check_current_known[of fs p "(xs, st)" q, unfolded c] by auto }
qed

lemma scan_pass_fields:
  "monitored_dir (snd (scan_pass fs ps s)) = monitored_dir (snd s)"
  "inotify_fd (snd (scan_pass fs ps s)) = inotify_fd (snd s)"
  "changed_files_queue (snd (scan_pass fs ps s)) = changed_files_queue (snd s)"
  by (induction ps arbitrary: s) (simp_all add: scan_pass_def check_current_dir)

lemma scan_pass_idle:
  assumes "\<forall>p\<in>set ps. fstat fs p \<noteq> None \<and> \<not> changed_since (files (snd s)) fs p"
  shows "scan_pass fs ps s = s"
  using assms by (induction ps) (simp_all add: scan_pass_def check_current_skip)

lemma find_changed_scan:
  assumes "search_files magic fs (monitored_dir st) = (length ps, map Some ps)"
    and "inotify_fd st < 0 \<or> changed_files_queue st = []"
  shows "find_changed_files magic fs st = Some (scan_pass fs ps ([], st))"
  using assms cells_pass[of fs ps 0 "([], st)"] by (auto simp: find_changed_files_def)

section \<open>Cleaning\<close>

definition is_comment :: "bytes \<Rightarrow> bool" where
  "is_comment l \<longleftrightarrow> take 1 l = ''#''"

lemma clean_lines_filter:
  assumes "\<forall>l\<in>set ls. nonul l \<and> NL \<notin> set (butlast l)"
  shows "clean_lines b ls = concat (filter kept_line ls)"
  using assms
proof (induction ls arbitrary: b)
  case Nil
  then show ?case by simp
next
  case (Cons l ls)
  have "strncmp_eq l (''---'' @ [NL]) 4 \<longleftrightarrow> l = ''---'' @ [NL]"
    using Cons.prems separator_only[of l] by (auto simp: strncmp_eq_def)
  then show ?case using Cons by (simp add: kept_line_def)
qed

end
