(* ===== verification/Backup_Properties.thy ===== *)
theory Backup_Properties
  imports Backup_Detect
begin

text \<open>
  The properties of the backup daemon's search, change detection, backups and restores.
\<close>

section \<open>The sample of a whole queue\<close>

lemma fold_frame:
  assumes tools: "diff_patch_tools shell udiff" and n: "c_int n"
    and src: "\<forall>g\<in>set gs. backup_source g" and ready: "backup_ready fs"
  shows "backup_ready (fold (incremental_file shell dir n now) gs fs)"
    and "(\<And>g. g \<in> set gs \<Longrightarrow> q \<noteq> full_name (make_backup_relative_path g dir)
        \<and> q \<noteq> diff_name (make_backup_relative_path g dir) n) \<Longrightarrow>
      fstat (fold (incremental_file shell dir n now) gs fs) q = fstat fs q"
  using src ready
proof (induction gs arbitrary: fs)
  case Nil
  { case 1 then show ?case by simp }
  { case 2 then show ?case by simp }
next
  case (Cons g gs)
  note fr = incremental_frame[OF tools _ n, of g]
  { case 1 then show ?case using Cons.IH(1) fr(1) by simp }
  { case 2
    have "fstat (fold (incremental_file shell dir n now) gs (incremental_file shell dir n now g fs)) q
        = fstat (incremental_file shell dir n now g fs) q"
      using 2 fr(1) by (intro Cons.IH(2)) simp_all
    also have "\<dots> = fstat fs q" using 2 by (intro fr(2)) simp_all
    finally show ?case by simp }
qed

lemma backup_names_inj:
  "full_name r \<noteq> diff_name r' n" "full_name r = full_name r' \<longleftrightarrow> r = r'"
  "diff_name r n = diff_name r' n \<longleftrightarrow> r = r'"
  by (simp_all add: full_name_def diff_name_def)

lemma read_from_stat:
  "fopen_read fs p = Some c \<Longrightarrow> fs_deny fs' = [] \<Longrightarrow> fstat fs' p = fstat fs p \<Longrightarrow> fopen_read fs' p = Some c"
  by (simp add: fopen_read_def split: if_splits)

lemma ready_deny: "backup_ready fs \<Longrightarrow> fs_deny fs = []"
  by (simp add: backup_ready_def)

definition base_content :: "path \<Rightarrow> bytes \<Rightarrow> fsys \<Rightarrow> bytes" where
  "base_content base b fs = (if fstat fs base = None then b else fcontent fs base)"

lemma read_ready_base:
  assumes "backup_ready fs" "SLASH \<notin> set rel" "fstat fs (full_name rel) \<noteq> None"
  shows "fopen_read fs (full_name rel) = Some (fcontent fs (full_name rel))"
proof -
  have "SLASH \<notin> set (''full_'' @ rel)" using assms(2) by (simp add: SLASH_def)
  then have "fstat fs (full_name rel) \<noteq> Some Dirn"
    using ready_not_dir[OF assms(1)] by (simp only: backup_path_join)
  then show ?thesis using assms(1,3) ready_deny[OF assms(1)]
    by (auto simp: fopen_read_def fcontent_def split: option.splits fnode.splits)
qed

text \<open>
  After the sample of a list of files with different backup names, the base backup and the
  diff file of each are as the code means them.
\<close>

lemma sample_leaves:
  fixes f dir :: path
  defines "rel \<equiv> make_backup_relative_path f dir"
  assumes tools: "diff_patch_tools shell udiff" and n: "c_int n" "c_time now"
    and src: "\<forall>g\<in>set gs. backup_source g" and ready: "backup_ready fs"
    and dist: "distinct (map (\<lambda>g. make_backup_relative_path g dir) gs)" and f: "f \<in> set gs"
    and name: "path_basename f \<noteq> ''debug.log''" and b: "fopen_read fs f = Some b"
    and a: "a = base_content (full_name rel) b fs"
    and lines: "\<forall>l\<in>set (fgets_lines (udiff (full_name rel) f a b)). kept_line l"
  defines "fs1 \<equiv> fold (incremental_file shell dir n now) gs fs"
  shows "fopen_read fs1 (full_name rel) = Some a"
    and "fopen_read fs1 (diff_name rel n) =
      Some (diff_header now n (full_name rel) f @ udiff (full_name rel) f a b)"
proof -
  obtain xs ys where gs: "gs = xs @ f # ys" using f by (auto simp: in_set_conv_decomp)
  let ?F = "fold (incremental_file shell dir n now)"
  let ?base = "full_name rel" and ?dp = "diff_name rel n"
  let ?v = "diff_header now n ?base f @ udiff ?base f a b"
  have srcs: "\<forall>g\<in>set xs. backup_source g" "\<forall>g\<in>set ys. backup_source g" "backup_source f"
    using src gs by simp_all
  have other: "q \<noteq> full_name (make_backup_relative_path g dir) \<and> q \<noteq> diff_name (make_backup_relative_path g dir) n"
    if "g \<in> set xs \<union> set ys" "q = ?base \<or> q = ?dp" for g q
  proof -
    have "make_backup_relative_path f dir \<notin> (\<lambda>g. make_backup_relative_path g dir) ` (set xs \<union> set ys)"
      using dist gs by auto
    then have "make_backup_relative_path g dir \<noteq> rel" using that(1) by (metis imageI rel_def)
    then show ?thesis using that(2) backup_names_inj by metis
  qed
  have own: "f \<noteq> full_name (make_backup_relative_path g dir) \<and> f \<noteq> diff_name (make_backup_relative_path g dir) n" for g
  proof -
    have p: "SLASH \<notin> set (make_backup_relative_path g dir)" by (rule relative_plain)
    have "parent (full_name (make_backup_relative_path g dir)) = BACKUP_DIR"
      unfolding backup_path_join using p by (intro parent_join) (simp add: SLASH_def)
    moreover have "parent (diff_name (make_backup_relative_path g dir) n) = BACKUP_DIR"
      unfolding backup_path_join using p dec_int_plain(1)[of n] by (intro parent_join) (simp add: SLASH_def)
    ultimately show ?thesis using srcs(3) by (auto simp: backup_source_def)
  qed
  let ?x = "?F xs fs"
  have rx: "backup_ready ?x" by (rule fold_frame(1)[OF tools n(1) srcs(1) ready])
  have sx: "fstat ?x ?base = fstat fs ?base" using other by (intro fold_frame(2)[OF tools n(1) srcs(1) ready]) blast
  have fx: "fstat ?x f = fstat fs f" using own by (intro fold_frame(2)[OF tools n(1) srcs(1) ready]) blast
  have bx: "fopen_read ?x f = Some b" by (rule read_from_stat[OF b ready_deny[OF rx] fx])
  have ax: "a = (if fstat ?x ?base = None then b else fcontent ?x ?base)"
    unfolding a base_content_def using sx by (simp add: fcontent_def)
  note sz = source_sizes(2,3,5,6)[OF srcs(3) n(1), where dir = dir, folded rel_def]
  let ?y0 = "if fstat ?x ?base = None then fput ?base b ?x else ?x"
  have len: "length ?base < MAX_PATH_LEN" using sz(2) by (simp add: MAX_PATH_LEN_def)
  have ef: "incremental_file shell dir n now f ?x = fput ?dp ?v ?y0"
    unfolding rel_def
    by (rule incremental_effect[OF tools sz(1)[unfolded rel_def] source_sizes(1)[OF srcs(3) n(1)] rx bx
          source_sizes(9)[OF srcs(3) n(1)] name len[unfolded rel_def] sz(3)[unfolded rel_def]
          sz(4)[unfolded rel_def] ax[unfolded rel_def] lines[unfolded rel_def]])
  let ?y = "fput ?dp ?v ?y0"
  have ry: "backup_ready ?y"
    using incremental_frame(1)[OF tools srcs(3) n(1) rx, where dir = dir and now = now] ef by simp
  have pl: "SLASH \<notin> set rel" by (simp add: rel_def relative_plain)
  have sy: "fopen_read ?y ?base = Some a"
  proof (cases "fstat ?x ?base")
    case None
    then show ?thesis using ax ready_deny[OF rx] backup_names_inj(1)[of rel rel n]
      by (simp add: fopen_read_def)
  next
    case (Some m)
    have "fopen_read ?x ?base = Some a" using read_ready_base[OF rx pl] Some ax by simp
    then show ?thesis using Some ready_deny[OF rx] backup_names_inj(1)[of rel rel n]
      by (simp add: fopen_read_def)
  qed
  have dy: "fopen_read ?y ?dp = Some ?v" using ready_deny[OF rx] by (simp add: fopen_read_def)
  have fin: "fs1 = ?F ys ?y" unfolding fs1_def gs by (simp add: ef)
  have last: "fstat fs1 q = fstat ?y q" if "q = ?base \<or> q = ?dp" for q
    unfolding fin using other that by (intro fold_frame(2)[OF tools n(1) srcs(2) ry]) blast
  have deny1: "fs_deny fs1 = []"
    unfolding fin by (rule ready_deny[OF fold_frame(1)[OF tools n(1) srcs(2) ry]])
  show "fopen_read fs1 ?base = Some a" by (rule read_from_stat[OF sy deny1]) (rule last, simp)
  show "fopen_read fs1 ?dp = Some ?v" by (rule read_from_stat[OF dy deny1]) (rule last, simp)
qed

section \<open>Restoring from what the sample left\<close>

definition temp_path :: "string \<Rightarrow> int \<Rightarrow> path" where
  "temp_path rel pid = join BACKUP_DIR (''temp_restore_'' @ rel @ ''_'' @ dec_int pid)"

definition clean_path :: "string \<Rightarrow> int \<Rightarrow> int \<Rightarrow> path" where
  "clean_path rel n pid = join BACKUP_DIR (''temp_clean_diff_'' @ rel @ ''_'' @ dec_int n @ ''_'' @ dec_int pid)"

lemma temp_sizes:
  assumes "shell_plain rel" "length rel \<le> 900" "c_int n" "c_int pid"
  shows "shell_plain (temp_path rel pid)" "shell_plain (clean_path rel n pid)"
    "length (patch_command (temp_path rel pid) (clean_path rel n pid)) < 2048"
proof -
  have lits: "shell_plain ''/temp_restore_''" "shell_plain ''/temp_clean_diff_''"
    by (simp_all add: shell_plain_def)
  have t: "temp_path rel pid = BACKUP_DIR @ ''/temp_restore_'' @ rel @ ''_'' @ dec_int pid"
    "clean_path rel n pid = BACKUP_DIR @ ''/temp_clean_diff_'' @ rel @ ''_'' @ dec_int n @ ''_'' @ dec_int pid"
    by (simp_all add: temp_path_def clean_path_def SLASH_def)
  show "shell_plain (temp_path rel pid)" "shell_plain (clean_path rel n pid)"
    unfolding t using assms(1) lits plain_chars by (simp_all only: shell_plain_append simp_thms)
  show "length (patch_command (temp_path rel pid) (clean_path rel n pid)) < 2048"
    unfolding t patch_command_def
    using assms(2) dec_length(1)[OF assms(3)] dec_length(1)[OF assms(4)] by (simp add: BACKUP_DIR_def)
qed

lemma restored_name_length: "c_int n \<Longrightarrow> length (restored_name name n) \<le> length name + 33"
proof -
  assume n: "c_int n"
  have b: "length (path_basename name) \<le> length name" using basename_suffix[of name] by auto
  have d: "length (dec_int n) \<le> 21" by (rule dec_length(1)[OF n])
  have "length (restored_name name n) \<le> length (path_basename name) + 32"
  proof (cases "strrchr_split (CHR ''.'') (path_basename name)")
    case None
    then show ?thesis using d by (simp add: restored_name_def snprintf_def)
  next
    case (Some r)
    then obtain a e where r: "r = (a, e)" "path_basename name = a @ CHR ''.'' # e"
      by (cases r) (auto simp: strrchr_split_Some)
    have "length (restored_name name n) \<le> length (a @ ''_restored_'' @ dec_int n @ CHR ''.'' # e)"
      unfolding restored_name_def Some r(1) option.case prod.case by (simp add: snprintf_def)
    also have "\<dots> \<le> length (path_basename name) + 32" using d r(2) by simp
    finally show ?thesis .
  qed
  with b show ?thesis by simp
qed

lemma restore_from_sample:
  fixes f name :: path and st :: MonitorState
  defines "rel \<equiv> make_backup_relative_path f (monitored_dir st)"
  assumes tools: "diff_patch_tools shell udiff"
    and ready: "backup_ready fs" and dir: "is_dir fs (monitored_dir st)" "monitored_dir st \<noteq> BACKUP_DIR"
    and src: "backup_source f" "f = join (monitored_dir st) name" "name \<noteq> []"
    and n: "1 \<le> n" "n \<le> current_sample st" "c_int n" "c_int pid" "c_int m" "c_time now"
    and base: "fopen_read fs (full_name rel) = Some a"
    and dp: "fopen_read fs (diff_name rel n) = Some (diff_header now m (full_name rel) f @ udiff (full_name rel) f a b)"
    and lines: "\<forall>l\<in>set (fgets_lines (udiff (full_name rel) f a b)). kept_line l"
    and free: "fstat fs (join (monitored_dir st) (restored_name name n)) \<noteq> Some Dirn"
  obtains fs' where "restore_file_to_sample shell pid st name n fs = (0, fs')"
    "fopen_read fs' (join (monitored_dir st) (restored_name name n)) = Some b"
proof -
  let ?dir = "monitored_dir st" and ?target = "join (monitored_dir st) (restored_name name n)"
  have pl: "shell_plain f" "length f \<le> 900" using src(1) by (simp_all add: backup_source_def)
  have rel: "shell_plain rel" "length rel \<le> 900"
    using relative_shell_plain[OF pl(1), of ?dir] relative_length[of f ?dir] pl(2) by (simp_all add: rel_def)
  note ts = temp_sizes[OF rel n(3,4)]
  note sz = source_sizes(2,3,5)[OF src(1) n(3), where dir = ?dir, folded rel_def]
  have len: "length f < MAX_PATH_LEN" "length (full_name rel) < MAX_PATH_LEN"
    "length ?target < MAX_PATH_LEN"
    using pl(2) sz(2) restored_name_length[OF n(3), of name] src(2) by (simp_all add: MAX_PATH_LEN_def)
  have nl: "NL \<notin> set (full_name rel)" "NL \<notin> set f"
    using shell_plain_NL[OF sz(1)] shell_plain_NL[OF pl(1)] by simp_all
  have hl: "length (full_name rel) < 4000" "length f < 4000" "length (dec_int now) < 4000" "length (dec_int m) < 4000"
    using sz(2) pl(2) dec_length(1)[OF n(5)] dec_length(2)[OF n(6)] by simp_all
  let ?fs' = "funlink (temp_path rel pid) (fput ?target b (funlink (clean_path rel n pid)
     (fput (temp_path rel pid) b (fput (clean_path rel n pid) (udiff (full_name rel) f a b)
       (fput (temp_path rel pid) a fs)))))"
  have "restore_file_to_sample shell pid st name n fs = (0, ?fs')"
    unfolding temp_path_def clean_path_def rel_def
    by (rule restore_effect[OF tools ts(1)[unfolded temp_path_def rel_def] ts(2)[unfolded clean_path_def rel_def]
          ready refl dir src(3,2) n(1,2) len(1) len(2)[unfolded rel_def] sz(3)[unfolded rel_def] len(3)
          ts(3)[unfolded temp_path_def clean_path_def rel_def] base[unfolded rel_def] dp[unfolded rel_def]
          nl(1)[unfolded rel_def] nl(2) hl(1)[unfolded rel_def] hl(2,3,4) lines[unfolded rel_def] free])
  moreover have "parent ?target = ?dir" by (rule parent_join[OF restored_plain])
  moreover have "SLASH \<notin> set rel" by (simp add: rel_def relative_plain)
  then have "parent (temp_path rel pid) = BACKUP_DIR"
    unfolding temp_path_def using dec_int_plain(1)[of pid] by (intro parent_join) (simp add: SLASH_def)
  ultimately show ?thesis
    using dir(2) ready_deny[OF ready]
    by (intro that[of ?fs']) (auto simp: fopen_read_def fstat_funlink)
qed

lemma queue_backup:
  assumes "backup_ready fs" "0 \<le> inotify_fd st" "changed_files_queue st = gs" "monitored_dir st = dir"
    and "current_sample st = n" "gs \<noteq> []"
  shows "create_incremental_backup magic shell (fs, st) =
    Some (int (length gs), fold (incremental_file shell dir n (fs_now fs)) gs fs, st\<lparr>changed_files_queue := []\<rparr>)"
proof -
  have "fstat fs BACKUP_DIR \<noteq> None" using assms(1) by (simp add: backup_ready_def is_dir_def)
  then show ?thesis
    using assms by (auto simp: create_incremental_backup_def ensure_backup_dir_def
      find_changed_files_def get_changed_files_from_queue_def)
qed

section \<open>A shell for the witnesses\<close>

text \<open>
  A concrete \<open>diff\<close> and \<open>patch\<close>: the diff of equal files is empty, of different
  ones a plus sign with the new contents.  The shell reads the two quoted words of the command line.
\<close>

definition demo_diff :: "path \<Rightarrow> path \<Rightarrow> bytes \<Rightarrow> bytes \<Rightarrow> bytes" where
  "demo_diff p q a b = (if a = b then [] else CHR ''+'' # b)"

definition demo_patch :: "bytes \<Rightarrow> bytes \<Rightarrow> bytes" where
  "demo_patch a d = (if d = [] then a else tl d)"

definition next_quote :: "string \<Rightarrow> string \<times> string" where
  "next_quote s = (case strchr_split (CHR 0x22) s of None \<Rightarrow> (s, []) | Some r \<Rightarrow> r)"

definition quoted_words :: "string \<Rightarrow> string \<times> path \<times> path" where
  "quoted_words s = (case next_quote s of (tool, s1) \<Rightarrow> case next_quote s1 of (a, s2) \<Rightarrow>
     case next_quote s2 of (_, s3) \<Rightarrow> case next_quote s3 of (b, _) \<Rightarrow> (tool, a, b))"

definition demo_shell :: shell where
  "demo_shell cmd fs = (case quoted_words cmd of (tool, a, b) \<Rightarrow>
     if tool = ''diff -u '' then (1, demo_diff a b (fcontent fs a) (fcontent fs b), fs)
     else (0, [], fput a (demo_patch (fcontent fs a) (fcontent fs b)) fs))"

lemma next_quote_plain: "CHR 0x22 \<notin> set a \<Longrightarrow> next_quote (a @ CHR 0x22 # s) = (a, s)"
  by (simp add: next_quote_def)

lemma quoted_words_plain:
  assumes "shell_plain a" "shell_plain b" "CHR 0x22 \<notin> set tool" "CHR 0x22 \<notin> set mid"
  shows "quoted_words (tool @ CHR 0x22 # a @ CHR 0x22 # mid @ CHR 0x22 # b @ CHR 0x22 # s) = (tool, a, b)"
proof -
  have "CHR 0x22 \<notin> set a" "CHR 0x22 \<notin> set b" using assms(1,2) by (auto simp: shell_plain_def)
  then show ?thesis using assms(3,4) by (simp add: quoted_words_def next_quote_plain)
qed

lemma read_fcontent: "fopen_read fs p = Some c \<Longrightarrow> fcontent fs p = c"
  by (auto simp: fopen_read_def fcontent_def split: if_splits option.splits fnode.splits)

lemma demo_tools: "diff_patch_tools demo_shell demo_diff"
proof -
  have "quoted_words (diff_command a b) = (''diff -u '', a, b)" if "shell_plain a" "shell_plain b" for a b
    using quoted_words_plain[OF that, of "''diff -u ''" "'' ''"] by (simp add: diff_command_def)
  moreover have "quoted_words (patch_command a b) = (''patch -u '', a, b)" if "shell_plain a" "shell_plain b" for a b
    using quoted_words_plain[OF that, of "''patch -u ''" "'' < ''"] by (simp add: patch_command_def)
  ultimately show ?thesis
    by (auto simp: diff_patch_tools_def demo_shell_def demo_patch_def demo_diff_def dest!: read_fcontent)
qed

definition demo_fs :: "(path \<times> fnode) list \<Rightarrow> fsys" where
  "demo_fs xs = \<lparr>fs_nodes = [(''/tmp'', Dirn), (BACKUP_DIR, Dirn), (''/d'', Dirn)] @ xs, fs_deny = [],
     fs_now = 7, fs_proc = [(42, ''/d'')], fs_watch = [], fs_ifd = 3, fs_dtype = True, fs_free = 1000\<rparr>"

definition demo_state :: "path list \<Rightarrow> int \<Rightarrow> MonitorState" where
  "demo_state q n = \<lparr>files = [], capacity = MAX_FILES, monitored_dir = ''/d'', monitored_pid = 42,
     sample_period_ms = 10000, current_sample = n, first_backup_done = True, inotify_fd = 3,
     watch_list = [\<lparr>wd = 1, wpath = ''/d''\<rparr>], watch_capacity = 32, changed_files_queue = q\<rparr>"

definition demo_magic :: magic where
  "demo_magic c = Some ''text/plain''"

lemma demo_ready:
  assumes "\<forall>(p, m)\<in>set xs. m \<noteq> Dirn"
  shows "backup_ready (demo_fs xs)"
proof -
  have "fstat (demo_fs xs) p = Some Dirn \<Longrightarrow> p = ''/tmp'' \<or> p = BACKUP_DIR \<or> p = ''/d''" for p
    using assms by (auto simp: fstat_def demo_fs_def split: if_splits dest!: map_of_SomeD)
  moreover have "join BACKUP_DIR n \<noteq> ''/tmp''" "join BACKUP_DIR n \<noteq> ''/d''" for n
    by (simp_all add: BACKUP_DIR_def)
  ultimately have "SLASH \<notin> set n \<Longrightarrow> fstat (demo_fs xs) (join BACKUP_DIR n) \<noteq> Some Dirn" for n
    using join_not_dir by metis
  then show ?thesis
    by (simp add: backup_ready_def is_dir_def) (simp add: demo_fs_def fstat_def BACKUP_DIR_def)
qed

section \<open>Properties\<close>


definition demo_changed :: fsys where
  "demo_changed = demo_fs [(''/d/f.txt'', Reg (''new'' @ [NL]) 5), (full_name ''f.txt'', Reg (''old'' @ [NL]) 1)]"

definition demo_later :: fsys where
  "demo_later = demo_fs [(''/d/f.txt'', Reg ''gone'' 7), (full_name ''f.txt'', Reg (''old'' @ [NL]) 1),
     (diff_name ''f.txt'' 4, Reg (diff_header 7 4 (full_name ''f.txt'') ''/d/f.txt'' @ ''+new'' @ [NL]) 7)]"

lemma demo_later_ready: "backup_ready demo_later" "backup_ready demo_changed"
  unfolding demo_later_def demo_changed_def by (rule demo_ready, simp)+

lemma demo_lines:
  "\<forall>l\<in>set (fgets_lines (demo_diff (full_name ''f.txt'') ''/d/f.txt''
      (base_content (full_name ''f.txt'') (''new'' @ [NL]) demo_changed) (''new'' @ [NL]))). kept_line l"
  by code_simp


text \<open>
  The search of a directory without subdirectories returns exactly its regular text files
  except \<open>debug.log\<close>, in directory order, with the count of the array.
\<close>

theorem search_flat_exact:
  assumes "is_dir fs d" "d \<notin> set (fs_deny fs)" "flat_dir fs d" "short_names fs d" "2 \<le> fs_free fs"
  shows "search_files magic fs d = (length (text_files magic fs d), map Some (text_files magic fs d))"
  using assms by (rule search_flat)

definition demo_tree :: fsys where
  "demo_tree = demo_fs [(''/d/a'', Reg ''1'' 1), (''/d/debug.log'', Reg ''2'' 1), (''/d/b'', Reg ''3'' 1)]"

lemma demo_fs_free [simp]: "fs_free (demo_fs xs) = 1000"
  by (simp add: demo_fs_def)

theorem search_flat_exact_witness:
  "search_files demo_magic demo_tree ''/d'' = (2, [Some ''/d/a'', Some ''/d/b''])"
proof -
  have "is_dir demo_tree ''/d''" "''/d'' \<notin> set (fs_deny demo_tree)" "flat_dir demo_tree ''/d''"
    "short_names demo_tree ''/d''" "text_files demo_magic demo_tree ''/d'' = [''/d/a'', ''/d/b'']"
    by code_simp+
  moreover have "2 \<le> fs_free demo_tree" by (simp add: demo_tree_def)
  ultimately show ?thesis using search_flat_exact[of demo_tree "''/d''" demo_magic] by simp
qed

text \<open>
  The count the search returns is the number of text files directly in the directory, whatever
  its subdirectories hold: the result of the recursive call is discarded, so files in
  subdirectories are never reported although the function is written to recurse.
\<close>

theorem search_counts_direct_files:
  assumes "is_dir fs d" "d \<notin> set (fs_deny fs)" "short_names fs d" "2 \<le> fs_free fs"
  shows "fst (search_files magic fs d) = length (text_files magic fs d)"
  using assms by (rule search_counts)

definition demo_nested :: fsys where
  "demo_nested = demo_fs [(''/d/a'', Reg ''1'' 1), (''/d/s'', Dirn), (''/d/s/x'', Reg ''2'' 1), (''/d/b'', Reg ''3'' 1)]"

text \<open>In the example \<open>/d/a\<close> is overwritten by \<open>/d/s/x\<close> in the shared array.\<close>

theorem search_counts_direct_files_witness:
  "search_files demo_magic demo_nested ''/d'' = (2, [Some ''/d/s/x'', Some ''/d/b'']) \<and>
   2 = length (text_files demo_magic demo_nested ''/d'')"
proof -
  have s: "search_files demo_magic demo_nested ''/d'' = (2, [Some ''/d/s/x'', Some ''/d/b''])"
    by code_simp
  have "is_dir demo_nested ''/d''" "''/d'' \<notin> set (fs_deny demo_nested)" "short_names demo_nested ''/d''"
    by code_simp+
  moreover have "2 \<le> fs_free demo_nested" by (simp add: demo_nested_def)
  ultimately show ?thesis using search_counts_direct_files[of demo_nested "''/d''" demo_magic] s by simp
qed

text \<open>
  When all directory paths are shorter than \<open>PATH_MAX - 1\<close>, a descriptor for each level and one more are enough, and a larger
  number does not change the result.  In a directory whose path has exactly that length the path of every entry is cut to that of
  the directory: it is searched once more for each of its entries, by calls that have one descriptor less, until there is none
  left, and nothing is found.
\<close>

lemma search_descriptors:
  assumes "length d < PATH_MAX"
  shows "(\<And>p. is_dir fs p \<Longrightarrow> length p < PATH_MAX - 1) \<Longrightarrow> PATH_MAX \<le> n \<Longrightarrow>
      search_files_in_dir (Suc n) magic fs d arr = search_files_in_dir (Suc PATH_MAX) magic fs d arr"
    and "is_dir fs d \<Longrightarrow> d \<notin> set (fs_deny fs) \<Longrightarrow> length d = PATH_MAX - 1 \<Longrightarrow>
      \<forall>n\<in>set (entry_names d (fs_nodes fs)). n \<noteq> ''.'' \<and> n \<noteq> ''..'' \<Longrightarrow>
      search_files_in_dir (Suc n) magic fs d arr =
        (0, ((\<lambda>f. snd (search_files_in_dir n magic fs d f)) ^^ length (entry_names d (fs_nodes fs))) arr) \<and>
      search_files_in_dir n magic fs d arr = (0, arr)"
proof -
  show "search_files_in_dir (Suc n) magic fs d arr = search_files_in_dir (Suc PATH_MAX) magic fs d arr"
    if "\<And>p. is_dir fs p \<Longrightarrow> length p < PATH_MAX - 1" "PATH_MAX \<le> n"
    by (rule search_enough[symmetric, OF that(1) assms]) (use that(2) in simp_all)
qed (rule conjI; rule search_cut; assumption)

text \<open>
  C20: Without inotify events, of a directory that has no subdirectories, can be read and whose file paths fit the buffers, a sample reports exactly
  the text files that are new or whose time, size or
  existence changed since they were last seen, and it remembers them: an immediate second sample
  reports nothing.  With subdirectories this is not so, as \<open>search_counts_direct_files\<close> shows.
\<close>

theorem changes_detected_exactly:
  assumes "is_dir fs d" "d \<notin> set (fs_deny fs)" "flat_dir fs d" "short_names fs d" "2 \<le> fs_free fs"
    and "monitored_dir st = d" "inotify_fd st < 0 \<or> changed_files_queue st = []"
    and "\<forall>p\<in>set (text_files magic fs d). nonul p"
  shows "\<exists>st1. find_changed_files magic fs st =
      Some (filter (changed_since (files st) fs) (text_files magic fs d), st1) \<and>
    find_changed_files magic fs st1 = Some ([], st1)"
proof -
  let ?ps = "text_files magic fs d"
  obtain xs st1 where p: "scan_pass fs ?ps ([], st) = (xs, st1)" by (cases "scan_pass fs ?ps ([], st)")
  note srch = search_flat[OF assms(1-5), of magic]
  have ok: "\<forall>p\<in>set ?ps. fstat fs p \<noteq> None \<and> strncpy0 MAX_PATH_LEN p = p"
    using assms(4,8) text_files_in[of _ magic fs d]
    by (fastforce simp: text_files_def short_names_def strncpy0_def PATH_MAX_def MAX_PATH_LEN_def)
  note res = scan_pass_result[OF text_files_distinct ok, of "[]" st, unfolded p]
  have "scan_pass fs ?ps ([], st1) = ([], st1)"
    using res(2) ok by (intro scan_pass_idle) simp
  then have "find_changed_files magic fs st1 = Some ([], st1)"
    using find_changed_scan[of magic fs st1 ?ps] scan_pass_fields[of fs ?ps "([], st)"] srch assms(6,7) p by simp
  moreover have "find_changed_files magic fs st = Some (filter (changed_since (files st) fs) ?ps, st1)"
    using find_changed_scan[of magic fs st ?ps] srch assms(6,7) p res(1) by simp
  ultimately show ?thesis by blast
qed

theorem changes_detected_exactly_witness:
  "\<exists>st1. find_changed_files demo_magic demo_tree (demo_state [] 1) = Some ([''/d/a'', ''/d/b''], st1) \<and>
    find_changed_files demo_magic demo_tree st1 = Some ([], st1)"
proof -
  have "is_dir demo_tree ''/d''" "''/d'' \<notin> set (fs_deny demo_tree)" "flat_dir demo_tree ''/d''"
    "short_names demo_tree ''/d''" "\<forall>p\<in>set (text_files demo_magic demo_tree ''/d''). nonul p"
    "filter (changed_since (files (demo_state [] 1)) demo_tree) (text_files demo_magic demo_tree ''/d'') = [''/d/a'', ''/d/b'']"
    "monitored_dir (demo_state [] 1) = ''/d''" "changed_files_queue (demo_state [] 1) = []"
    by code_simp+
  moreover have "2 \<le> fs_free demo_tree" by (simp add: demo_tree_def)
  ultimately show ?thesis
    using changes_detected_exactly[of demo_tree "''/d''" "demo_state [] 1" demo_magic] by metis
qed

text \<open>
  Cleaning a diff drops every line that starts with a number sign and every line that is just three
  dashes, also inside the hunks: a deleted line \<open>--\<close> is such a line, so the
  cleaned diff is not the diff that was saved and the restore of that sample fails.
\<close>

theorem clean_diff_drops_lines:
  assumes "nonul d"
  shows "clean_lines b (fgets_lines d) = concat (filter kept_line (fgets_lines d))"
proof (rule clean_lines_filter)
  have "nonul l" if "l \<in> set (fgets_lines d)" for l
  proof -
    have "set l \<subseteq> set (concat (fgets_lines d))" using that by auto
    then show ?thesis using assms unfolding concat_fgets_lines nonul_def by blast
  qed
  then show "\<forall>l\<in>set (fgets_lines d). nonul l \<and> NL \<notin> set (butlast l)"
    using fgets_lines_newline by blast
qed

theorem clean_diff_drops_lines_witness:
  "clean_lines False (fgets_lines (''@@ -1,2 +1 @@'' @ [NL] @ ''---'' @ [NL] @ '' x'' @ [NL])) =
     ''@@ -1,2 +1 @@'' @ [NL] @ '' x'' @ [NL]"
proof -
  have nn: "nonul (''@@ -1,2 +1 @@'' @ [NL] @ ''---'' @ [NL] @ '' x'' @ [NL])" by simp
  show ?thesis unfolding clean_diff_drops_lines[OF nn] by code_simp
qed

text \<open>
  Two files of the monitored tree share their backup and diff files exactly when their relative paths
  agree after every slash is replaced by an underscore, so \<open>a/b\<close> and \<open>a_b\<close> overwrite each other.
\<close>

theorem backup_names_collide:
  assumes "nonul d" "nonul a" "nonul b" "length a < 4095" "length b < 4095"
  shows "make_backup_relative_path (join d a) d = make_backup_relative_path (join d b) d
    \<longleftrightarrow> unslash a = unslash b"
proof -
  have "make_backup_relative_path (join d x) d = unslash x" if "nonul x" "length x < 4095" for x
  proof -
    have "nonul (join d x)" using assms(1) that(1) by (simp add: SLASH_def)
    then have "strncmp_eq (join d x) d (length d)" using assms(1) by (simp add: strncmp_eq_def)
    moreover have "nonul (SLASH # x)" using that(1) by (simp add: SLASH_def)
    then have "strncpy0 MAX_PATH_LEN (SLASH # x) = SLASH # x"
      using that(2) by (simp add: strncpy0_def MAX_PATH_LEN_def)
    ultimately show ?thesis by (simp add: make_backup_relative_path_def)
  qed
  then show ?thesis using assms by simp
qed

theorem backup_names_collide_witness:
  "make_backup_relative_path (join ''/d'' ''a/b'') ''/d'' = make_backup_relative_path (join ''/d'' ''a_b'') ''/d''"
  using backup_names_collide[of "''/d''" "''a/b''" "''a_b''"] by (simp add: unslash_def SLASH_def)

end
