(* ===== verification/Monitor_Properties.thy ===== *)
theory Monitor_Properties
  imports Monitor_Daemon Backup_Properties
begin

text \<open>
  The properties of the monitor: its watches, its queue, its commands and its loops.
\<close>

section \<open>Watches and events\<close>

lemma init_inotify_runs:
  assumes "watchable fs" "is_dir fs (monitored_dir st)" "0 \<le> fs_ifd fs" "fs_watch fs = []" "watch_list st = []"
  shows "\<exists>fs' st'. init_inotify (fs, st) = Some (0, fs', st') \<and> watch_ok (fs', st') \<and>
    (\<forall>q. subdir fs (monitored_dir st) q \<longrightarrow> watched st' q)"
proof -
  let ?s = "(fs, st\<lparr>inotify_fd := fs_ifd fs\<rparr>)" and ?d = "monitored_dir st"
  have ok: "watch_ok ?s" using assms(4,5) by (simp add: watch_ok_def)
  have "length ?d < PATH_MAX - 1" using assms(1,2) unfolding watchable_def by blast
  then have "length ?d < PATH_MAX" by simp
  then obtain x where x: "add_inotify_watch_recursive PATH_MAX ?d ?s = Some x"
    using recursive_total[of ?s ?d PATH_MAX] assms(1) by auto
  obtain r fs' st' where x': "x = (r, fs', st')" by (cases x) auto
  have "subdir fs ?d q \<Longrightarrow> watched st' q" for q
    using recursive_watches[OF ok, of ?d PATH_MAX r "(fs', st')" q] x x' assms(1,2) by simp
  moreover have "watch_ok (fs', st')" using recursive_grows[of PATH_MAX ?d ?s r "(fs', st')"] x x' ok
    by (simp add: grows_def)
  moreover have "r = 0"
  proof -
    obtain w fs1 where a: "inotify_add_watch ?d fs = (w, fs1)" by (cases "inotify_add_watch ?d fs")
    have "\<not> w < 0" using a assms(1,2,4)
      by (auto simp: inotify_add_watch_def watchable_def is_dir_def Let_def split: if_splits)
    moreover have "add_inotify_watch_recursive (Suc 4095) ?d ?s = Some (r, (fs', st'))"
      using x unfolding PATH_MAX_Suc x' .
    ultimately show ?thesis
      using recursive_succeeds[of 4095 ?d ?s r "(fs', st')" w fs1] a assms(1,2) unfolding fst_conv by blast
  qed
  ultimately show ?thesis using x x' assms(3) by (auto simp: init_inotify_def Let_def)
qed

text \<open>
  C35: Initialising inotify succeeds and watches the whole tree: for every directory reachable from the
  monitored one, the descriptor the kernel reports for it resolves to its path.
\<close>

theorem init_watches_whole_tree:
  assumes "watchable fs" "is_dir fs (monitored_dir st)" "0 \<le> fs_ifd fs" "fs_watch fs = []" "watch_list st = []"
  shows "\<exists>fs' st'. init_inotify (fs, st) = Some (0, fs', st') \<and>
    (\<forall>q. subdir fs (monitored_dir st) q \<longrightarrow>
      (\<exists>w. map_of (fs_watch fs') q = Some w \<and> get_watch_path st' w = Some q))"
proof -
  obtain fs' st' where i: "init_inotify (fs, st) = Some (0, fs', st')" "watch_ok (fs', st')"
    "\<forall>q. subdir fs (monitored_dir st) q \<longrightarrow> watched st' q"
    using init_inotify_runs[OF assms] by blast
  then have "\<forall>q. subdir fs (monitored_dir st) q \<longrightarrow>
      (\<exists>w. map_of (fs_watch fs') q = Some w \<and> get_watch_path st' w = Some q)"
    using watched_resolves[OF i(2)] by simp
  with i(1) show ?thesis by blast
qed

definition demo_fresh :: MonitorState where
  "demo_fresh = (demo_state [] 0)\<lparr>first_backup_done := False, inotify_fd := -1, watch_list := [], watch_capacity := 0\<rparr>"

theorem init_watches_whole_tree_witness:
  "\<exists>fs' st' w. init_inotify (demo_nested, demo_fresh) = Some (0, fs', st') \<and>
    map_of (fs_watch fs') ''/d/s'' = Some w \<and> get_watch_path st' w = Some ''/d/s''"
proof -
  have "is_dir demo_nested p \<Longrightarrow> length p < PATH_MAX - 1" for p
    by (auto simp: is_dir_def fstat_def demo_nested_def demo_fs_def BACKUP_DIR_def PATH_MAX_def split: if_splits)
  then have "watchable demo_nested" by (simp add: watchable_def demo_nested_def demo_fs_def)
  moreover have "is_dir demo_nested (monitored_dir demo_fresh)" "0 \<le> fs_ifd demo_nested"
    "fs_watch demo_nested = []" "watch_list demo_fresh = []" by code_simp+
  moreover have "subdir demo_nested (monitored_dir demo_fresh) ''/d/s''"
  proof -
    have "''s'' \<in> set (entry_names ''/d'' (fs_nodes demo_nested))" "is_dir demo_nested (join ''/d'' ''s'')"
      by code_simp+
    then have "subdir demo_nested ''/d'' (join ''/d'' ''s'')"
      by - (rule subdir_step[OF _ _ _ _ subdir_refl], simp_all)
    moreover have "join ''/d'' ''s'' = ''/d/s''" "monitored_dir demo_fresh = ''/d''" by code_simp+
    ultimately show ?thesis by simp
  qed
  ultimately show ?thesis using init_watches_whole_tree[of demo_nested demo_fresh] by blast
qed

text \<open>
  C36: While inotify is in use, a read of file events, none of which creates a directory, changes nothing but the queue of
  changed files, which becomes the old queue followed by the paths of the relevant events in the order
  of their first occurrence, without duplicates.
\<close>

theorem events_fill_queue:
  assumes "\<forall>ev\<in>set evs. \<not> creates_dir ev" "0 \<le> inotify_fd st" "distinct (changed_files_queue st)"
  shows "\<exists>q. process_inotify_events magic (InoEvents evs) (fs, st) =
      Some (0, fs, st\<lparr>changed_files_queue := q\<rparr>) \<and> distinct q \<and>
    q = changed_files_queue st @ filter (\<lambda>p. p \<notin> set (changed_files_queue st))
      (first_occurrences (List.map_filter (event_path magic (fs, st)) evs)) \<and>
    set q = set (changed_files_queue st) \<union> {p. \<exists>ev\<in>set evs. event_path magic (fs, st) ev = Some p}"
proof -
  let ?ps = "List.map_filter (event_path magic (fs, st)) evs"
  let ?q = "fold enqueue ?ps (changed_files_queue st)"
  have "process_inotify_events magic (InoEvents evs) (fs, st) = Some (0, fs, st\<lparr>changed_files_queue := ?q\<rparr>)"
    using process_events_plain[OF assms(1), of magic "(fs, st)"] assms(2)
    by (simp add: process_inotify_events_def with_queue_def)
  moreover have "distinct ?q" by (rule path_queue.fold_distinct[OF assms(3)])
  moreover have "?q = changed_files_queue st @ filter (\<lambda>p. p \<notin> set (changed_files_queue st)) (first_occurrences ?ps)"
    by (rule path_queue.fold_order)
  moreover have "set ?q = set (changed_files_queue st) \<union> {p. \<exists>ev\<in>set evs. event_path magic (fs, st) ev = Some p}"
    unfolding path_queue.fold_set set_eq_iff Un_iff mem_map_filter mem_Collect_eq by (rule allI) (rule refl)
  ultimately show ?thesis by blast
qed

definition demo_event :: "32 word \<Rightarrow> string \<Rightarrow> inotify_event" where
  "demo_event m n = \<lparr>ev_wd = 1, ev_mask = m, ev_len = 16, ev_name = n @ [NUL]\<rparr>"

theorem events_fill_queue_witness:
  "\<exists>q. process_inotify_events demo_magic
      (InoEvents [demo_event IN_MODIFY ''a'', demo_event IN_DELETE ''b'', demo_event IN_CLOSE_WRITE ''a''])
      (demo_tree, demo_state [''/d/b''] 1) = Some (0, demo_tree, (demo_state [''/d/b''] 1)\<lparr>changed_files_queue := q\<rparr>) \<and>
    q = [''/d/b'', ''/d/a'']"
proof -
  let ?evs = "[demo_event IN_MODIFY ''a'', demo_event IN_DELETE ''b'', demo_event IN_CLOSE_WRITE ''a'']"
  let ?st = "demo_state [''/d/b''] 1"
  have "\<forall>ev\<in>set ?evs. \<not> creates_dir ev" "0 \<le> inotify_fd ?st" "distinct (changed_files_queue ?st)"
    by code_simp+
  note T = events_fill_queue[OF this, of demo_magic demo_tree]
  have "changed_files_queue ?st @ filter (\<lambda>p. p \<notin> set (changed_files_queue ?st))
      (first_occurrences (List.map_filter (event_path demo_magic (demo_tree, ?st)) ?evs)) = [''/d/b'', ''/d/a'']"
    by code_simp
  with T show ?thesis by metis
qed

text \<open>
  C37: Whatever events are read, when before that the queue holds no path twice and no path that is to be skipped, and the
  daemon's list of watches agrees with the kernel's, in which different directories have different descriptors, then all this is so afterwards.  Paths to be skipped are those of the daemon's log and those with the mark that a restore gives
  to the name of the file it writes; a name that is cut to the length of the buffer may lose the mark.
\<close>

theorem queue_never_holds_own_files:
  assumes "process_inotify_events magic r (fs, st) = Some (n, fs', st')" "queue_ok st" "watch_ok (fs, st)"
  shows "queue_ok st' \<and> watch_ok (fs', st') \<and> (\<forall>f k. length (restored_name f k) < MAX_PATH_LEN - 1 \<longrightarrow>
    (\<forall>d. join d (restored_name f k) \<notin> set (changed_files_queue st')))"
proof -
  have "queue_ok st' \<and> watch_ok (fs', st')"
  proof (cases "inotify_fd st < 0 \<or> (\<exists>b. r = InoErr b)")
    case True
    then show ?thesis using assms by (auto simp: process_inotify_events_def split: if_splits)
  next
    case False
    then obtain evs where "ofold (process_event magic) evs (fs, st) = Some (fs', st')"
      using assms(1) by (cases r) (auto simp: process_inotify_events_def)
    then have "queue_ok (snd (fs', st')) \<and> watch_ok (fs', st')"
      by (rule ofold_invariant) (use assms(2,3) process_event_queue_ok in auto)
    then show ?thesis by simp
  qed
  then have ok: "queue_ok st'" "watch_ok (fs', st')" by blast+
  have "skipped_name (join d (restored_name f k))" if "length (restored_name f k) < MAX_PATH_LEN - 1" for d f k
  proof -
    have "path_basename (join d (restored_name f k)) = restored_name f k"
      by (rule basename_join[OF restored_plain])
    moreover have "\<exists>a b. restored_name f k = a @ ''_restored_'' @ b"
    proof -
      have n: "snprintf MAX_PATH_LEN x = x" if "length (snprintf MAX_PATH_LEN x) < MAX_PATH_LEN - 1" for x :: string
        using that by (simp add: snprintf_def split: if_splits)
      show ?thesis
        using that n unfolding restored_name_def by (cases "strrchr_split (CHR ''.'') (path_basename f)") auto
    qed
    ultimately show ?thesis by (auto simp: skipped_name_def strstr_found_iff)
  qed
  with ok show ?thesis by (auto simp: queue_ok_def)
qed

theorem queue_never_holds_own_files_witness:
  "join ''/d'' (restored_name ''f.txt'' 4) \<notin> set (changed_files_queue (snd (snd (the
    (process_inotify_events demo_magic (InoEvents [demo_event IN_MODIFY ''f_restored_4.txt'', demo_event IN_CREATE ''b''])
      (demo_tree\<lparr>fs_watch := [(''/d'', 1)]\<rparr>, demo_state [] 1))))))"
proof -
  let ?r = "process_inotify_events demo_magic (InoEvents [demo_event IN_MODIFY ''f_restored_4.txt'', demo_event IN_CREATE ''b''])
      (demo_tree\<lparr>fs_watch := [(''/d'', 1)]\<rparr>, demo_state [] 1)"
  have "?r \<noteq> None" "queue_ok (demo_state [] 1)" "length (restored_name ''f.txt'' 4) < MAX_PATH_LEN - 1"
    by code_simp+
  moreover have "watch_ok (demo_tree\<lparr>fs_watch := [(''/d'', 1)]\<rparr>, demo_state [] 1)"
    by (simp add: watch_ok_def demo_state_def)
  ultimately show ?thesis
    using queue_never_holds_own_files[of demo_magic _ _ _ "fst (the ?r)" "fst (snd (the ?r))" "snd (snd (the ?r))"]
    by fastforce
qed

section \<open>The loops\<close>

lemma check_current_counters: "same_counters (snd s) (snd (check_current fs p s))"
  by (simp add: check_current_def same_counters_def split: option.splits prod.splits)

lemma find_changed_counters:
  assumes "find_changed_files magic fs st = Some (ps, st')"
  shows "same_counters st st'"
proof (cases "0 \<le> inotify_fd st \<and> 0 < length (changed_files_queue st)")
  case True
  then show ?thesis using assms
    by (auto simp: find_changed_files_def get_changed_files_from_queue_def same_counters_def)
next
  case False
  then obtain c arr where
    "ofold (\<lambda>i s. map_option (\<lambda>p. check_current fs p s) (cell_at arr i)) [0..<c] ([], st) = Some (ps, st')"
    using assms by (auto simp: find_changed_files_def split: prod.splits)
  then have "same_counters st (snd (ps, st'))"
  proof (rule ofold_invariant)
    show "same_counters st (snd ([], st))" by (simp add: same_counters_def)
  next
    fix i u v
    assume "same_counters st (snd u)" "map_option (\<lambda>p. check_current fs p u) (cell_at arr i) = Some v"
    then obtain p where "v = check_current fs p u" by blast
    then show "same_counters st (snd v)"
      using \<open>same_counters st (snd u)\<close> check_current_counters[of u fs p] by (simp add: same_counters_def)
  qed
  then show ?thesis by simp
qed

lemma incremental_counters:
  "create_incremental_backup magic shell s = Some (n, t) \<Longrightarrow> same_counters (snd s) (snd t)"
  by (auto simp: create_incremental_backup_def same_counters_def
      dest!: find_changed_counters split: prod.splits if_splits option.splits)

lemma command_fields:
  "d_sleeps (daemon_command shell pid r stale d) = d_sleeps d"
  "d_running (daemon_command shell pid r stale d) = d_running d"
  "current_sample (d_st (daemon_command shell pid r stale d)) = current_sample (d_st d)"
  "first_backup_done (d_st (daemon_command shell pid r stale d)) \<Longrightarrow> first_backup_done (d_st d)"
  by (auto simp: daemon_command_def process_command_def Let_def
      split: prod.splits if_splits CommandType.splits option.splits)

lemma sample_fields:
  assumes "daemon_sample magic shell d = Some d'"
  shows "d_sleeps d' = d_sleeps d" "d_running d' = d_running d"
    "first_backup_done (d_st d') = first_backup_done (d_st d)"
    "\<not> first_backup_done (d_st d) \<Longrightarrow> current_sample (d_st d') = current_sample (d_st d) + 1"
  using assms
  by (auto simp: daemon_sample_def same_counters_def Let_def dest!: incremental_counters split: if_splits)

lemma round_fields:
  assumes "daemon_round magic shell pid sl t d = Some d'"
  shows "d_sleeps d' = d_sleeps d @ [sl]" "d_running d' = d_running d"
    "\<not> first_backup_done (d_st d) \<Longrightarrow> \<not> first_backup_done (d_st d') \<and>
      current_sample (d_st d') = current_sample (d_st d) + 1"
proof -
  obtain n fs st where p: "process_inotify_events magic (t_inotify t) (t_env t (d_fs d), d_st d) = Some (n, fs, st)"
    using assms by (auto simp: daemon_round_def split: option.splits)
  let ?c = "daemon_command shell pid (t_fifo t) (t_stale t) (d\<lparr>d_fs := fs, d_st := st\<rparr>)"
  obtain e where e: "daemon_sample magic shell ?c = Some e" "d' = e\<lparr>d_sleeps := d_sleeps e @ [sl]\<rparr>"
    using assms p by (auto simp: daemon_round_def)
  have k: "same_counters (d_st d) st" using process_inotify_counters[OF p] by simp
  note cf = command_fields[of shell pid "t_fifo t" "t_stale t" "d\<lparr>d_fs := fs, d_st := st\<rparr>"]
  show "d_sleeps d' = d_sleeps d @ [sl]" "d_running d' = d_running d"
    using e sample_fields[OF e(1)] cf by simp_all
  show "\<not> first_backup_done (d_st d') \<and> current_sample (d_st d') = current_sample (d_st d) + 1"
    if "\<not> first_backup_done (d_st d)"
    using that e sample_fields[OF e(1)] cf k by (auto simp: same_counters_def)
qed

lemma loop_sleeps:
  assumes "daemon_loop magic shell pid sl ts d = Some d'"
  shows "\<exists>k. d_sleeps d' = d_sleeps d @ replicate k sl"
  using assms
proof (induction ts arbitrary: d)
  case Nil
  then show ?case by (intro exI[of _ 0]) simp
next
  case (Cons t ts)
  show ?case
  proof (cases "d_running (if t_signal t then signal_handler 15 d else d)")
    case False
    then show ?thesis using Cons.prems by (intro exI[of _ 0]) (auto simp: signal_handler_def split: if_splits)
  next
    case True
    then have r: "d_running d" "\<not> t_signal t" by (auto simp: signal_handler_def split: if_splits)
    then obtain e where e: "daemon_round magic shell pid sl t d = Some e" "daemon_loop magic shell pid sl ts e = Some d'"
      using Cons.prems by (auto split: option.splits)
    obtain k where "d_sleeps d' = d_sleeps e @ replicate k sl" using Cons.IH[OF e(2)] by blast
    then have "d_sleeps d' = d_sleeps d @ replicate (Suc k) sl" using round_fields(1)[OF e(1)] by simp
    then show ?thesis by blast
  qed
qed

lemma full_backup_period:
  "create_full_backup magic s = Some (r, t) \<Longrightarrow> sample_period_ms (snd t) = sample_period_ms (snd s)"
  by (auto simp: create_full_backup_def split: prod.splits if_splits option.splits)

lemma init_inotify_period:
  "init_inotify s = Some (r, t) \<Longrightarrow> sample_period_ms (snd t) = sample_period_ms (snd s)"
  by (auto simp: init_inotify_def Let_def grows_def dest!: recursive_grows split: prod.splits if_splits option.splits)

text \<open>
  The daemon sleeps the period it was started with after every round, whatever \<open>set_period\<close>
  commands it executes: the command changes the stored period only.
\<close>

theorem period_change_has_no_effect:
  assumes "run_daemon magic shell pid mk fd ts d = Some (0, d')" "d_sleeps d = []"
  shows "\<exists>k. d_sleeps d' = replicate k (sleep_of (sample_period_ms (d_st d)))"
proof -
  obtain r i where i: "init_ipc mk fd (d_ipc d) = (r, i)" by (cases "init_ipc mk fd (d_ipc d)")
  have r: "r = 0" using assms(1) i by (auto simp: run_daemon_def split: if_splits)
  obtain fs st where n: "init_inotify (d_fs d, d_st d) = Some (0, fs, st)"
    using assms(1) i r by (auto simp: run_daemon_def split: option.splits if_splits)
  obtain q fs2 st2 where b: "create_full_backup magic (fs, st) = Some (q, fs2, st2)"
    using assms(1) i r n by (auto simp: run_daemon_def split: option.splits)
  obtain e where e: "daemon_loop magic shell pid (sleep_of (sample_period_ms st2)) ts
      (d\<lparr>d_ipc := i, d_fs := fs2, d_st := st2\<rparr>) = Some e" "d' = e\<lparr>d_ipc := cleanup_ipc (d_ipc e)\<rparr>"
    using assms(1) i r n b by (auto simp: run_daemon_def)
  have "sample_period_ms st2 = sample_period_ms (d_st d)"
    using full_backup_period[OF b] init_inotify_period[OF n] by simp
  then show ?thesis using loop_sleeps[OF e(1)] e(2) assms(2) by simp
qed

definition demo_tick :: "bytes \<Rightarrow> tick" where
  "demo_tick b = \<lparr>t_signal = False, t_env = (\<lambda>fs. fs), t_inotify = InoErr True,
     t_fifo = (if b = [] then RErr EAGAIN else RData b), t_stale = EAGAIN\<rparr>"

definition demo_daemon :: "fsys \<Rightarrow> MonitorState \<Rightarrow> daemon" where
  "demo_daemon fs st = \<lparr>d_fs = fs, d_st = st, d_ipc = \<lparr>fifo_fd = 3, fifo_present = True\<rparr>,
     d_cmd = \<lparr>cmd_type = CMD_UNKNOWN, cmd_arg = 0, cmd_filename = []\<rparr>, d_running = True,
     d_responses = [], d_sleeps = []\<rparr>"

theorem period_change_has_no_effect_witness:
  "\<exists>d' k. run_daemon demo_magic demo_shell 9 True 4 [demo_tick [], demo_tick []]
      (demo_daemon (demo_fs []) demo_fresh) = Some (0, d') \<and> d_sleeps d' = replicate k (10, 0)"
proof -
  let ?d = "demo_daemon (demo_fs []) demo_fresh"
  let ?r = "run_daemon demo_magic demo_shell 9 True 4 [demo_tick [], demo_tick []] ?d"
  have "(case ?r of Some (r, d') \<Rightarrow> r = 0 | None \<Rightarrow> False)" by code_simp
  then obtain d' where d': "?r = Some (0, d')" by (auto split: option.splits)
  moreover have "d_sleeps ?d = []" by (simp add: demo_daemon_def)
  moreover have "sleep_of (sample_period_ms (d_st ?d)) = (10, 0)" by code_simp
  ultimately show ?thesis using period_change_has_no_effect[OF d'] by metis
qed

text \<open>
  A monitor whose full backup has not been done (nothing to back up at the start, or the process
  changed since) never marks it as done: every later round counts a sample, changes or not.
\<close>

theorem full_backup_flag_stays_unset:
  assumes "daemon_loop magic shell pid sl ts d = Some d'" "\<not> first_backup_done (d_st d)"
    and "d_running d" "\<forall>t\<in>set ts. \<not> t_signal t"
  shows "\<not> first_backup_done (d_st d') \<and>
    current_sample (d_st d') = current_sample (d_st d) + int (length ts)"
  using assms
proof (induction ts arbitrary: d)
  case Nil
  then show ?case by simp
next
  case (Cons t ts)
  then obtain e where e: "daemon_round magic shell pid sl t d = Some e" "daemon_loop magic shell pid sl ts e = Some d'"
    by (auto split: option.splits)
  show ?case using Cons.IH[OF e(2)] round_fields(2,3)[OF e(1)] Cons.prems(2-) by simp
qed

theorem full_backup_flag_stays_unset_witness:
  "\<exists>d'. daemon_loop demo_magic demo_shell 9 (10, 0) [demo_tick [], demo_tick []]
      (demo_daemon (demo_fs []) demo_fresh) = Some d' \<and> current_sample (d_st d') = 2"
proof -
  let ?ts = "[demo_tick [], demo_tick []]"
  have "daemon_loop demo_magic demo_shell 9 (10, 0) ?ts (demo_daemon (demo_fs []) demo_fresh) \<noteq> None"
    by code_simp
  then obtain d' where d': "daemon_loop demo_magic demo_shell 9 (10, 0) ?ts (demo_daemon (demo_fs []) demo_fresh) = Some d'"
    by blast
  have "\<not> first_backup_done (d_st (demo_daemon (demo_fs []) demo_fresh))" "d_running (demo_daemon (demo_fs []) demo_fresh)"
    "\<forall>t\<in>set ?ts. \<not> t_signal t" "current_sample (d_st (demo_daemon (demo_fs []) demo_fresh)) = 0"
    by code_simp+
  then show ?thesis using full_backup_flag_stays_unset[OF d'] d' by simp
qed

text \<open>
  In the interactive mode a sample that backs up changed files is announced as a failure, since the
  number of files is taken for an error code.
\<close>

theorem interactive_reports_success_as_failure:
  assumes "backup_ready fs" "0 \<le> inotify_fd st" "changed_files_queue st \<noteq> []"
  shows "\<exists>fs' st'. interactive_sample magic shell pre post (fs, st) =
    Some ([pre @ dec_int (current_sample st + 1) @ post @ [NL], ''Failed to create incremental backup'' @ [NL]], fs', st')"
proof -
  let ?st = "st\<lparr>current_sample := current_sample st + 1\<rparr>"
  have "create_incremental_backup magic shell (fs, ?st) = Some (int (length (changed_files_queue st)),
      fold (incremental_file shell (monitored_dir st) (current_sample st + 1) (fs_now fs)) (changed_files_queue st) fs,
      ?st\<lparr>changed_files_queue := []\<rparr>)"
    using assms by (intro queue_backup) simp_all
  then show ?thesis using assms(3) by (simp add: interactive_sample_def Let_def)
qed

theorem interactive_reports_success_as_failure_witness:
  "\<exists>fs' st'. interactive_sample demo_magic demo_shell ''Sample #'' '' (auto)'' (demo_changed, demo_state [''/d/f.txt''] 4) =
    Some ([''Sample #5 (auto)'' @ [NL], ''Failed to create incremental backup'' @ [NL]], fs', st')"
proof -
  have "0 \<le> inotify_fd (demo_state [''/d/f.txt''] 4)" "changed_files_queue (demo_state [''/d/f.txt''] 4) \<noteq> []"
    "''Sample #'' @ dec_int (current_sample (demo_state [''/d/f.txt''] 4) + 1) @ '' (auto)'' @ [NL] = ''Sample #5 (auto)'' @ [NL]"
    by code_simp+
  then show ?thesis
    using interactive_reports_success_as_failure[OF demo_later_ready(2), of "demo_state [''/d/f.txt''] 4" demo_magic demo_shell
      "''Sample #''" "'' (auto)''"] by simp
qed

section \<open>Commands\<close>

text \<open>
  C38: Every response fits the response buffer, whatever the command, the diffs and the paths.
\<close>

theorem response_fits_buffer:
  assumes "0 < len"
  shows "length (fst (process_command shell pid len c s)) < len"
  using assms
  by (auto simp: process_command_def Let_def snprintf_length show_diff_length show_k_diffs_length
      split: CommandType.splits option.splits prod.splits)

theorem response_fits_buffer_witness:
  "length (fst (process_command demo_shell 9 MAX_RESPONSE_LEN
     \<lparr>cmd_type = CMD_SHOW_DIFF, cmd_arg = 0, cmd_filename = []\<rparr> (demo_later, demo_state [] 4))) < MAX_RESPONSE_LEN"
  by (rule response_fits_buffer) (simp add: MAX_RESPONSE_LEN_def)

lemma sample_suffix:
  assumes "a @ ''_sample_'' @ dec_int n = b @ ''_sample_'' @ dec_int m" "0 \<le> n" "0 \<le> m"
  shows "n = m"
proof -
  have us: "CHR ''_'' \<notin> set (dec_int i)" if "0 \<le> i" for i
  proof -
    have "\<not> c_isdigit (CHR ''_'')" by (simp add: c_isdigit_def digits_def)
    then show ?thesis using that dec_nat_digits[of "nat i"] by (auto simp: dec_int_def)
  qed
  have "strrchr_split (CHR ''_'') (x @ ''_sample_'' @ dec_int i) = Some (x @ ''_sample'', dec_int i)"
    if "0 \<le> i" for x i
    using us[OF that] by (simp add: strrchr_split_Some)
  then have "dec_int n = dec_int m" using assms by (metis option.inject prod.inject)
  then show ?thesis by (simp add: dec_int_inj)
qed

text \<open>
  The diff file of a sample is found when the diffs of that sample are asked for, and for no other
  sample, whatever the name of the file.
\<close>

theorem diffs_found_by_sample:
  assumes "backup_ready fs" "fstat fs (diff_name rel n) \<noteq> None" "SLASH \<notin> set rel" "0 \<le> n" "0 \<le> m"
  shows "diff_name rel n \<in> set (glob_diffs m fs) \<longleftrightarrow> m = n"
proof -
  let ?name = "''diff_'' @ rel @ ''_sample_'' @ dec_int n"
  have "SLASH \<notin> set ?name" using assms(3) dec_int_plain(1)[of n] by (simp add: SLASH_def)
  moreover have "join BACKUP_DIR ?name \<in> fst ` set (fs_nodes fs)"
    using assms(2) unfolding backup_path_join(2) fstat_def map_of_eq_None_iff by simp
  ultimately have "?name \<in> set (entry_names BACKUP_DIR (fs_nodes fs))"
    by (simp add: entry_names_iff)
  then have "diff_name rel n \<in> set (glob_diffs m fs) \<longleftrightarrow> glob_match m ?name"
    using assms(1) by (auto simp: glob_diffs_def readdir_def backup_ready_def backup_path_join(2))
  also have "\<dots> \<longleftrightarrow> m = n"
    unfolding glob_match_iff using sample_suffix[OF _ assms(4,5)] by auto
  finally show ?thesis .
qed

theorem diffs_found_by_sample_witness:
  "diff_name ''f.txt'' 4 \<in> set (glob_diffs 4 demo_later) \<and> diff_name ''f.txt'' 4 \<notin> set (glob_diffs 14 demo_later)"
proof -
  have "fstat demo_later (diff_name ''f.txt'' 4) \<noteq> None" by code_simp
  then show ?thesis using diffs_found_by_sample[OF demo_later_ready(1), of "''f.txt''" 4] by (simp add: SLASH_def)
qed

section \<open>The descriptors of the daemon\<close>

text \<open>
  After \<open>daemonize\<close> the child has the null device as standard input, output and error and keeps every other
  descriptor (the log file among them) as it was; the parent exits with status 0.
\<close>

theorem daemon_descriptors:
  assumes "daemonize fork_pid t = r"
  shows "(fork_pid < 0 \<longrightarrow> r = Inl 1) \<and> (0 < fork_pid \<longrightarrow> r = Inl 0) \<and>
    (fork_pid = 0 \<longrightarrow> (\<exists>t'. r = Inr t' \<and>
      (\<forall>f. map_of t' f = (if f \<in> {0, 1, 2} then Some ''/dev/null'' else map_of t f))))"
proof -
  let ?t1 = "fd_close 2 (fd_close 1 (fd_close 0 t))"
  have "0 \<notin> fst ` set ?t1" by (intro close_removes)
  then have o: "fd_open ''/dev/null'' ?t1 = (0, (0, ''/dev/null'') # ?t1)"
    by (simp add: fd_open_def Let_def lowest_free_zero)
  let ?t2 = "(0, ''/dev/null'') # ?t1"
  have "daemonize 0 t = Inr (fd_dup2 0 2 (fd_dup2 0 1 (fd_dup2 0 0 ?t2)))"
    by (simp add: daemonize_def Let_def o)
  moreover have "map_of (fd_dup2 0 2 (fd_dup2 0 1 (fd_dup2 0 0 ?t2))) f =
      (if f \<in> {0, 1, 2} then Some ''/dev/null'' else map_of t f)" for f
    by (simp add: map_of_dup2)
  ultimately show ?thesis using assms by (auto simp: daemonize_def)
qed

theorem daemon_descriptors_witness:
  "\<exists>t'. daemonize 0 [(0, ''tty''), (1, ''tty''), (2, ''tty''), (3, ''debug.log'')] = Inr t' \<and>
    map_of t' 1 = Some ''/dev/null'' \<and> map_of t' 3 = Some ''debug.log''"
  using daemon_descriptors[OF refl, of 0 "[(0, ''tty''), (1, ''tty''), (2, ''tty''), (3, ''debug.log'')]"] by auto

end
