(* ===== verification/Shell.thy ===== *)
theory Shell
  imports CString Stdio_Format Fd_Table
begin

text \<open>
  The small shell of src/sem\_1: reading a line, the parser of command\_parser.c and the
  pipeline runner of run\_cmd.c.  A command whose argument array was never allocated is
  \<open>None\<close>; allocation never fails.
\<close>

section \<open>Command lines\<close>

datatype CmdError = OK | ALLOC_ERR | READ_ERR | TOO_MANY_COMMANDS | TOO_MANY_ARGS | SYNTAX_ERR | NULL_PTR

type_synonym argv = "string list"

record CommandLine =
  cmds :: "argv option list"
  cmd_count :: nat

definition MAX_ARGS :: nat where "MAX_ARGS = 256"
definition MAX_COMMANDS :: nat where "MAX_COMMANDS = 16"
definition PIPE_CHAR :: char where "PIPE_CHAR = CHR ''|''"

definition InitCommandLine :: CommandLine where
  "InitCommandLine = \<lparr>cmds = replicate MAX_COMMANDS None, cmd_count = 0\<rparr>"

text \<open>The argument arrays that \<open>FreeCommandLine\<close> frees, by index; the others stay allocated.\<close>

definition FreeCommandLine :: "CommandLine \<Rightarrow> CommandLine" where
  "FreeCommandLine line = line\<lparr>cmds := map (\<lambda>i. if i < cmd_count line then None else cmds line ! i)
     [0..<length (cmds line)]\<rparr>"

definition InitCommand :: "nat \<Rightarrow> CommandLine \<Rightarrow> CommandLine" where
  "InitCommand i line = line\<lparr>cmds := (cmds line)[i := Some []]\<rparr>"

definition argv_of :: "nat \<Rightarrow> CommandLine \<Rightarrow> argv" where
  "argv_of i line = (case cmds line ! i of None \<Rightarrow> [] | Some a \<Rightarrow> a)"

definition AddArgument :: "nat \<Rightarrow> string \<Rightarrow> CommandLine \<Rightarrow> CmdError \<times> CommandLine" where
  "AddArgument i arg line =
     (if MAX_ARGS - 1 \<le> length (argv_of i line) then (TOO_MANY_ARGS, line)
      else (OK, line\<lparr>cmds := (cmds line)[i := Some (argv_of i line @ [arg])]\<rparr>))"

section \<open>Tokens\<close>

definition is_sep :: "char \<Rightarrow> bool" where
  "is_sep c \<longleftrightarrow> c = CHR '' '' \<or> c = CHR 0x09 \<or> c = NL"

text \<open>The tokens \<open>strtok_r\<close> returns one after the other.\<close>

function tokens :: "string \<Rightarrow> string list" where
  "tokens s = (case dropWhile is_sep s of
     [] \<Rightarrow> []
   | t \<Rightarrow> takeWhile (\<lambda>c. \<not> is_sep c) t # tokens (dropWhile (\<lambda>c. \<not> is_sep c) t))"
  by pat_completeness auto
termination
proof (relation "measure length")
  fix s c cs
  assume d: "dropWhile is_sep s = c # cs"
  then have "\<not> is_sep c" by (metis hd_dropWhile list.sel(1) list.discI)
  then have "length (dropWhile (\<lambda>c. \<not> is_sep c) (c # cs)) < length (c # cs)"
    using length_dropWhile_le[of "\<lambda>c. \<not> is_sep c" cs] by simp
  also have "\<dots> \<le> length s" using d length_dropWhile_le[of is_sep s] by simp
  finally show "(dropWhile (\<lambda>c. \<not> is_sep c) (c # cs), s) \<in> measure length" by simp
qed simp

declare tokens.simps [simp del]

definition fixBeforeTok :: "string \<Rightarrow> string option" where
  "fixBeforeTok tok = (let b = takeWhile (\<lambda>c. c \<noteq> PIPE_CHAR) tok in if b = [] then None else Some b)"

definition fixAfterTok :: "string \<Rightarrow> string option" where
  "fixAfterTok tok = (let p = dropWhile (\<lambda>c. c \<noteq> PIPE_CHAR) tok in
     if length p = 1 then None else Some (dropWhile c_isspace (tl p)))"

section \<open>The parser\<close>

definition next_command :: "CommandLine \<Rightarrow> CmdError \<times> CommandLine" where
  "next_command out =
     (let out1 = out\<lparr>cmd_count := cmd_count out + 1\<rparr> in
      if MAX_COMMANDS \<le> cmd_count out1 then (TOO_MANY_COMMANDS, out1)
      else (OK, InitCommand (cmd_count out1) out1))"

definition add_optional :: "string option \<Rightarrow> CommandLine \<Rightarrow> CmdError \<times> CommandLine" where
  "add_optional arg out = (case arg of None \<Rightarrow> (OK, out) | Some a \<Rightarrow> AddArgument (cmd_count out) a out)"

definition parse_token :: "string \<Rightarrow> CommandLine \<Rightarrow> CmdError \<times> CommandLine" where
  "parse_token tok out =
     (if tok = [PIPE_CHAR] then next_command out
      else if PIPE_CHAR \<in> set tok then
        (case add_optional (fixBeforeTok tok) out of (e1, out1) \<Rightarrow>
           if e1 \<noteq> OK then (TOO_MANY_ARGS, out1)
           else case next_command out1 of (e2, out2) \<Rightarrow>
             if e2 \<noteq> OK then (e2, out2)
             else case add_optional (fixAfterTok tok) out2 of (e3, out3) \<Rightarrow>
               if e3 \<noteq> OK then (TOO_MANY_ARGS, out3) else (OK, out3))
      else case AddArgument (cmd_count out) tok out of (e, out1) \<Rightarrow>
        if e \<noteq> OK then (TOO_MANY_ARGS, out1) else (OK, out1))"

fun parse_tokens :: "string list \<Rightarrow> CommandLine \<Rightarrow> CmdError \<times> CommandLine" where
  "parse_tokens [] out = (OK, out)"
| "parse_tokens (t # ts) out = (case parse_token t out of (e, out1) \<Rightarrow>
     if e \<noteq> OK then (e, out1) else parse_tokens ts out1)"

definition ParseCommandLine :: "string \<Rightarrow> CommandLine \<Rightarrow> CmdError \<times> CommandLine" where
  "ParseCommandLine input out =
     (case parse_tokens (tokens input) (InitCommand 0 out) of (e, out1) \<Rightarrow>
        if e \<noteq> OK then (e, out1)
        else if 0 < length (argv_of (cmd_count out1) out1)
        then (OK, out1\<lparr>cmd_count := cmd_count out1 + 1\<rparr>) else (OK, out1))"

definition PrintCommandLineTable :: "CommandLine \<Rightarrow> string" where
  "PrintCommandLineTable line =
     ''Parsed '' @ dec_nat (cmd_count line) @ '' commands:'' @ [NL] @
     concat (map (\<lambda>i. ''Command '' @ dec_nat i @ '' (argc='' @ dec_nat (length (argv_of i line)) @ ''): '' @
       concat (map (\<lambda>a. ''['' @ a @ ''] '') (argv_of i line)) @ [NL]) [0..<cmd_count line])"

section \<open>Running a pipeline\<close>

text \<open>
  What a descriptor refers to: the terminal (by the number of the standard stream), or an end of a pipe.
\<close>

datatype pend = Term nat | PipeR nat | PipeW nat

type_synonym ptab = "pend fdtab"

definition mk_pipe :: "nat \<Rightarrow> ptab \<Rightarrow> fd \<times> fd \<times> ptab" where
  "mk_pipe k t = (case fd_open (PipeR k) t of (r, t1) \<Rightarrow>
     case fd_open (PipeW k) t1 of (w, t2) \<Rightarrow> (r, w, t2))"

text \<open>
  A child started for a command: the table it executes the command with.  \<open>outcome\<close> lists, per
  command, whether \<open>pipe\<close> and \<open>fork\<close> succeed.
\<close>

record child =
  c_argv :: argv
  c_tab :: ptab

datatype run_status = Finished | PipeFailed | ForkFailed

record run =
  r_status :: run_status
  r_tab :: ptab
  r_children :: "child list"

definition child_table :: "bool \<Rightarrow> fd \<Rightarrow> fd \<Rightarrow> fd \<Rightarrow> ptab \<Rightarrow> ptab" where
  "child_table is_last prev r w t =
     (let t1 = (if prev \<noteq> -1 then fd_close prev (fd_dup2 prev 0 t) else t)
      in if is_last then t1 else fd_close w (fd_close r (fd_dup2 w 1 t1)))"

definition parent_table :: "bool \<Rightarrow> fd \<Rightarrow> fd \<Rightarrow> ptab \<Rightarrow> ptab" where
  "parent_table is_last prev w t =
     (let t1 = (if prev \<noteq> -1 then fd_close prev t else t) in if is_last then t1 else fd_close w t1)"

fun run_loop :: "nat \<Rightarrow> argv list \<Rightarrow> (bool \<times> bool) list \<Rightarrow> fd \<Rightarrow> ptab \<Rightarrow> child list \<Rightarrow> run" where
  "run_loop i [] outs prev t cs = \<lparr>r_status = Finished, r_tab = t, r_children = cs\<rparr>"
| "run_loop i (a # as) outs prev t cs =
     (let (pipe_ok, fork_ok) = (case outs of [] \<Rightarrow> (True, True) | x # _ \<Rightarrow> x) in
      if \<not> pipe_ok then \<lparr>r_status = PipeFailed, r_tab = t, r_children = cs\<rparr>
      else case mk_pipe i t of (r, w, t1) \<Rightarrow>
        if \<not> fork_ok then \<lparr>r_status = ForkFailed, r_tab = t1, r_children = cs\<rparr>
        else let is_last = (as = []);
                 c = \<lparr>c_argv = a, c_tab = child_table is_last prev r w t1\<rparr>
             in run_loop (Suc i) as (drop 1 outs) (if is_last then prev else r)
                  (parent_table is_last prev w t1) (cs @ [c]))"

definition RunCmd :: "CommandLine \<Rightarrow> (bool \<times> bool) list \<Rightarrow> ptab \<Rightarrow> run" where
  "RunCmd line outs t = run_loop 0 (map (\<lambda>i. argv_of i line) [0..<cmd_count line]) outs (-1) t []"

text \<open>
  The report after the pipeline: \<open>waitpid (-1)\<close> returns the children in the order in which they end, with
  \<open>Some\<close> exit code or \<open>None\<close> for a signal; the loop counter names the commands.
\<close>

definition wait_report :: "CommandLine \<Rightarrow> int option list \<Rightarrow> string list" where
  "wait_report line statuses = List.map_filter (\<lambda>(i, st). map_option (\<lambda>code.
     ''Command '' @ dec_nat i @ '' ('' @ [CHR 0x27] @ (case argv_of i line of [] \<Rightarrow> ''(null)'' | a # _ \<Rightarrow> a)
     @ [CHR 0x27] @ '') exited with code '' @ dec_int code @ [NL]) st)
     (zip [0..<cmd_count line] statuses)"

section \<open>The program\<close>

definition CMD_BUFFER :: nat where "CMD_BUFFER = 1024"

text \<open>\<open>ReadCmd\<close>: \<open>None\<close> at the end of the input.\<close>

definition ReadCmd :: "bytes \<Rightarrow> string option" where
  "ReadCmd stdin = (if stdin = [] then None
     else Some (cstr (let w = take (CMD_BUFFER - 1) stdin in
       case strchr_split NL w of None \<Rightarrow> w | Some (a, _) \<Rightarrow> a @ [NL])))"

definition shell_main :: "bytes \<Rightarrow> (bool \<times> bool) list \<Rightarrow> ptab \<Rightarrow> int \<times> run option" where
  "shell_main stdin outs t = (case ReadCmd stdin of
     None \<Rightarrow> (1, None)
   | Some s \<Rightarrow> (case ParseCommandLine s InitCommandLine of (e, line) \<Rightarrow>
       if e \<noteq> OK then (1, None)
       else let r = RunCmd line outs t in (if r_status r = PipeFailed then 1 else 0, Some r)))"

end
