(* ===== verification/Shell_Properties.thy ===== *)
theory Shell_Properties
  imports Shell
begin

text \<open>
  The parser of the shell against a character-level lexer, and the wiring of the pipeline.
\<close>

section \<open>Reference lexer\<close>

datatype sym = Arg string | Pipe

definition flush :: "string \<Rightarrow> sym list" where
  "flush acc = (if acc = [] then [] else [Arg acc])"

fun lex :: "string \<Rightarrow> string \<Rightarrow> sym list" where
  "lex acc [] = flush acc"
| "lex acc (c # cs) =
     (if is_sep c then flush acc @ lex [] cs
      else if c = PIPE_CHAR then flush acc @ Pipe # lex [] cs
      else lex (acc @ [c]) cs)"

text \<open>The groups of arguments between pipes; there is always a last, open group.\<close>

fun add_sym :: "argv list \<Rightarrow> sym \<Rightarrow> argv list" where
  "add_sym gs (Arg a) = butlast gs @ [last gs @ [a]]"
| "add_sym gs Pipe = gs @ [[]]"

definition groups :: "string \<Rightarrow> argv list" where
  "groups s = foldl add_sym [[]] (lex [] s)"

definition within_limits :: "argv list \<Rightarrow> bool" where
  "within_limits gs \<longleftrightarrow> length gs \<le> MAX_COMMANDS \<and> (\<forall>g\<in>set gs. length g \<le> MAX_ARGS - 1)"

definition single_pipe :: "string \<Rightarrow> bool" where
  "single_pipe t \<longleftrightarrow> length (filter (\<lambda>c. c = PIPE_CHAR) t) \<le> 1"

lemma lex_word:
  assumes "\<forall>c\<in>set w. \<not> is_sep c" "rest = [] \<or> is_sep (hd rest)"
  shows "lex acc (w @ rest) = lex acc w @ lex [] rest"
  using assms
proof (induction w arbitrary: acc)
  case Nil
  then show ?case by (cases rest) (auto simp: flush_def)
next
  case (Cons c w)
  then show ?case by auto
qed

lemma lex_seps: "lex [] (dropWhile is_sep s) = lex [] s"
  by (induction s) (auto simp: flush_def)

lemma tokens_Nil:
  assumes "dropWhile is_sep s = []"
  shows "tokens s = []"
  by (subst tokens.simps) (simp only: assms list.case)

lemma tokens_Cons:
  assumes "dropWhile is_sep s = c # cs"
  shows "tokens s = takeWhile (\<lambda>c. \<not> is_sep c) (c # cs) # tokens (dropWhile (\<lambda>c. \<not> is_sep c) (c # cs))"
  by (subst tokens.simps) (simp only: assms list.case)

lemma lex_tokens: "lex [] s = concat (map (lex []) (tokens s))"
proof (induction s rule: tokens.induct)
  case (1 s)
  show ?case
  proof (cases "dropWhile is_sep s")
    case Nil
    have "lex [] s = []" using lex_seps[of s, unfolded Nil] by (simp add: flush_def)
    then show ?thesis using tokens_Nil[OF Nil] by simp
  next
    case (Cons c cs)
    let ?w = "takeWhile (\<lambda>c. \<not> is_sep c) (c # cs)" and ?r = "dropWhile (\<lambda>c. \<not> is_sep c) (c # cs)"
    have "lex [] (c # cs) = lex [] (?w @ ?r)" by simp
    also have "\<dots> = lex [] ?w @ lex [] ?r"
    proof (rule lex_word)
      show "\<forall>c\<in>set ?w. \<not> is_sep c" by (auto dest: set_takeWhileD)
      show "?r = [] \<or> is_sep (hd ?r)" using hd_dropWhile[of "\<lambda>c. \<not> is_sep c" "c # cs"] by blast
    qed
    also have "lex [] ?r = concat (map (lex []) (tokens ?r))" using 1 Cons by simp
    finally show ?thesis using tokens_Cons[OF Cons] lex_seps[of s] Cons by simp
  qed
qed

lemma token_chars:
  "t \<in> set (tokens s) \<Longrightarrow> t \<noteq> [] \<and> (\<forall>c\<in>set t. \<not> is_sep c \<and> c \<in> set s)"
proof (induction s rule: tokens.induct)
  case (1 s)
  show ?case
  proof (cases "dropWhile is_sep s")
    case Nil
    then show ?thesis using 1 by (simp add: tokens_Nil)
  next
    case (Cons c cs)
    let ?w = "takeWhile (\<lambda>c. \<not> is_sep c) (c # cs)" and ?r = "dropWhile (\<lambda>c. \<not> is_sep c) (c # cs)"
    have sub: "set (c # cs) \<subseteq> set s" using Cons by (metis set_dropWhileD subsetI)
    have nc: "\<not> is_sep c" using Cons hd_dropWhile[of is_sep s] by simp
    consider "t = ?w" | "t \<in> set (tokens ?r)" using 1(2) tokens_Cons[OF Cons] by auto
    then show ?thesis
    proof cases
      case 1
      then show ?thesis using nc sub by (auto dest: set_takeWhileD)
    next
      case 2
      then have "t \<noteq> [] \<and> (\<forall>x\<in>set t. \<not> is_sep x \<and> x \<in> set ?r)" by (rule 1(1)[OF Cons])
      moreover have "set ?r \<subseteq> set s" using sub set_dropWhileD[of _ "\<lambda>c. \<not> is_sep c" "c # cs"] by blast
      ultimately show ?thesis by blast
    qed
  qed
qed

lemma lex_plain: "\<forall>c\<in>set w. \<not> is_sep c \<and> c \<noteq> PIPE_CHAR \<Longrightarrow> lex acc w = flush (acc @ w)"
  by (induction w arbitrary: acc) auto

lemma lex_pipe:
  "\<forall>c\<in>set a. \<not> is_sep c \<and> c \<noteq> PIPE_CHAR \<Longrightarrow> lex acc (a @ PIPE_CHAR # b) = flush (acc @ a) @ Pipe # lex [] b"
  by (induction a arbitrary: acc) (auto simp: is_sep_def PIPE_CHAR_def)

section \<open>The parser state\<close>

definition rep :: "argv list \<Rightarrow> CommandLine \<Rightarrow> bool" where
  "rep gs line \<longleftrightarrow> gs \<noteq> [] \<and> length gs \<le> MAX_COMMANDS \<and> length (cmds line) = MAX_COMMANDS \<and>
     cmd_count line = length gs - 1 \<and>
     (\<forall>i<MAX_COMMANDS. cmds line ! i = (if i < length gs then Some (gs ! i) else None))"

lemma rep_current_index: "rep gs line \<Longrightarrow> cmd_count line < length gs \<and> cmd_count line < MAX_COMMANDS"
  by (cases gs) (auto simp: rep_def)

lemma rep_current: "rep gs line \<Longrightarrow> argv_of (cmd_count line) line = last gs"
  using rep_current_index[of gs line] by (simp add: rep_def argv_of_def last_conv_nth)

lemma add_argument_rep:
  assumes "rep gs line" "length (last gs) < MAX_ARGS - 1"
  shows "\<exists>line'. AddArgument (cmd_count line) a line = (OK, line') \<and> rep (add_sym gs (Arg a)) line'
    \<and> cmd_count line' = cmd_count line"
proof -
  have c: "cmd_count line < MAX_COMMANDS" "cmd_count line = length gs - 1" "gs \<noteq> []"
    using assms(1) rep_current_index[OF assms(1)] by (simp_all add: rep_def)
  let ?l = "line\<lparr>cmds := (cmds line)[cmd_count line := Some (last gs @ [a])]\<rparr>"
  have "rep (add_sym gs (Arg a)) ?l"
    using assms(1) c by (auto simp: rep_def nth_list_update nth_append nth_butlast)
  then show ?thesis using assms rep_current[OF assms(1)] by (simp add: AddArgument_def)
qed

lemma next_command_rep:
  assumes "rep gs line" "length gs < MAX_COMMANDS"
  shows "\<exists>line'. next_command line = (OK, line') \<and> rep (add_sym gs Pipe) line'"
proof -
  have "cmd_count line + 1 = length gs" using assms(1) by (simp add: rep_def)
  moreover have "rep (gs @ [[]]) (InitCommand (length gs) (line\<lparr>cmd_count := length gs\<rparr>))"
    using assms by (auto simp: rep_def InitCommand_def nth_list_update nth_append)
  ultimately show ?thesis using assms(2) by (simp add: next_command_def)
qed

lemma add_sym_nonempty [simp]: "add_sym gs x \<noteq> []"
  by (cases x) auto

lemma limits_step: "gs \<noteq> [] \<Longrightarrow> within_limits (add_sym gs x) \<Longrightarrow> within_limits gs"
proof -
  assume gs: "gs \<noteq> []" and w: "within_limits (add_sym gs x)"
  have "gs = butlast gs @ [last gs]" using gs by simp
  then have s: "set gs = insert (last gs) (set (butlast gs))" by (metis set_append list.simps(15) list.set(1) Un_insert_right sup_bot_right)
  show ?thesis
    using w s by (cases x) (auto simp: within_limits_def)
qed

lemma foldl_nonempty: "gs \<noteq> [] \<Longrightarrow> foldl add_sym gs xs \<noteq> []"
  by (induction xs arbitrary: gs) auto

lemma limits_prefix: "gs \<noteq> [] \<Longrightarrow> within_limits (foldl add_sym gs xs) \<Longrightarrow> within_limits gs"
proof (induction xs arbitrary: gs)
  case Nil
  then show ?case by simp
next
  case (Cons x xs)
  then have "within_limits (add_sym gs x)" by simp
  then show ?case using limits_step Cons.prems(1) by blast
qed

lemma limits_arg: "gs \<noteq> [] \<Longrightarrow> within_limits (add_sym gs (Arg a)) \<Longrightarrow> length (last gs) < MAX_ARGS - 1"
  by (simp add: within_limits_def)

lemma limits_pipe: "within_limits (add_sym gs Pipe) \<Longrightarrow> length gs < MAX_COMMANDS"
  by (simp add: within_limits_def)

definition opt_sym :: "string option \<Rightarrow> sym list" where
  "opt_sym x = (case x of None \<Rightarrow> [] | Some a \<Rightarrow> [Arg a])"

lemma add_optional_rep:
  assumes "rep gs line" "within_limits (foldl add_sym gs (opt_sym x))"
  shows "\<exists>line'. add_optional x line = (OK, line') \<and> rep (foldl add_sym gs (opt_sym x)) line'"
proof (cases x)
  case None
  then show ?thesis using assms(1) by (simp add: add_optional_def opt_sym_def)
next
  case (Some a)
  then have "length (last gs) < MAX_ARGS - 1"
    using assms limits_arg[of gs a] by (simp add: rep_def opt_sym_def)
  then show ?thesis using add_argument_rep[OF assms(1), of a] Some by (auto simp: add_optional_def opt_sym_def)
qed

lemma parse_token_rep:
  assumes "rep gs line" "t \<noteq> []" "\<forall>c\<in>set t. \<not> is_sep c \<and> (c_isspace c \<longrightarrow> is_sep c)" "single_pipe t"
    and "within_limits (foldl add_sym gs (lex [] t))"
  shows "\<exists>line'. parse_token t line = (OK, line') \<and> rep (foldl add_sym gs (lex [] t)) line'"
proof (cases "PIPE_CHAR \<in> set t")
  case False
  then have l: "lex [] t = [Arg t]" using assms(2,3) lex_plain[of t "[]"] by (auto simp: flush_def)
  have "length (last gs) < MAX_ARGS - 1" using assms(1,5) l limits_arg[of gs t] by (simp add: rep_def)
  then show ?thesis using add_argument_rep[OF assms(1), of t] l False
    by (auto simp: parse_token_def)
next
  case True
  then obtain a b where t: "t = a @ PIPE_CHAR # b" "PIPE_CHAR \<notin> set a" by (metis split_list_first)
  have b: "PIPE_CHAR \<notin> set b"
    using assms(4) t by (auto simp: single_pipe_def filter_empty_conv)
  have la: "\<forall>c\<in>set a. \<not> is_sep c \<and> c \<noteq> PIPE_CHAR" and lb: "\<forall>c\<in>set b. \<not> is_sep c \<and> c \<noteq> PIPE_CHAR"
    using assms(3) t b by auto
  have l: "lex [] t = flush a @ Pipe # flush b" using lex_pipe[OF la, of "[]" b] lex_plain[OF lb, of "[]"] t by simp
  show ?thesis
  proof (cases "t = [PIPE_CHAR]")
    case True
    then have l1: "lex [] t = [Pipe]" using l t by (auto simp: flush_def append_eq_Cons_conv)
    then have "length gs < MAX_COMMANDS" using assms(5) limits_pipe by simp
    then show ?thesis using next_command_rep[OF assms(1)] True l1 by (simp add: parse_token_def)
  next
    case False
    have fa: "opt_sym (fixBeforeTok t) = flush a"
      using t la by (auto simp: fixBeforeTok_def Let_def opt_sym_def flush_def takeWhile_stop)
    have "dropWhile (\<lambda>c. c \<noteq> PIPE_CHAR) t = PIPE_CHAR # b" using t la by (simp add: dropWhile_stop)
    moreover have "dropWhile c_isspace b = b" using assms(3) t by (cases b) auto
    ultimately have fb: "opt_sym (fixAfterTok t) = flush b"
      by (auto simp: fixAfterTok_def Let_def opt_sym_def flush_def)
    have gs: "gs \<noteq> []" using assms(1) by (simp add: rep_def)
    let ?g1 = "foldl add_sym gs (flush a)"
    let ?g2 = "add_sym ?g1 Pipe"
    have g1: "?g1 \<noteq> []" by (rule foldl_nonempty[OF gs])
    have lim3: "within_limits (foldl add_sym ?g2 (flush b))" using assms(5) l by simp
    have lim2: "within_limits ?g2" by (rule limits_prefix[OF _ lim3]) simp
    have lim1: "within_limits ?g1" by (rule limits_step[OF g1 lim2])
    obtain l1 where 1: "add_optional (fixBeforeTok t) line = (OK, l1)" "rep ?g1 l1"
      using add_optional_rep[OF assms(1), of "fixBeforeTok t"] lim1 fa by auto
    obtain l2 where 2: "next_command l1 = (OK, l2)" "rep ?g2 l2"
      using next_command_rep[OF 1(2) limits_pipe[OF lim2]] by blast
    obtain l3 where 3: "add_optional (fixAfterTok t) l2 = (OK, l3)" "rep (foldl add_sym ?g2 (flush b)) l3"
      using add_optional_rep[OF 2(2), of "fixAfterTok t"] lim3 fb by auto
    show ?thesis using 1 2 3 l False True by (simp add: parse_token_def)
  qed
qed

lemma parse_tokens_rep:
  assumes "rep gs line"
    and "\<forall>t\<in>set ts. t \<noteq> [] \<and> (\<forall>c\<in>set t. \<not> is_sep c \<and> (c_isspace c \<longrightarrow> is_sep c)) \<and> single_pipe t"
    and "within_limits (foldl add_sym gs (concat (map (lex []) ts)))"
  shows "\<exists>line'. parse_tokens ts line = (OK, line') \<and> rep (foldl add_sym gs (concat (map (lex []) ts))) line'"
  using assms
proof (induction ts arbitrary: gs line)
  case Nil
  then show ?case by simp
next
  case (Cons t ts)
  let ?g = "foldl add_sym gs (lex [] t)"
  have gs: "gs \<noteq> []" using Cons.prems(1) by (simp add: rep_def)
  have lim: "within_limits (foldl add_sym ?g (concat (map (lex []) ts)))" using Cons.prems(3) by simp
  have "within_limits ?g" by (rule limits_prefix[OF foldl_nonempty[OF gs] lim])
  then obtain l where l: "parse_token t line = (OK, l)" "rep ?g l"
    using parse_token_rep[OF Cons.prems(1), of t] Cons.prems(2) by auto
  then show ?case using Cons.IH[OF l(2) _ lim] Cons.prems(2) by auto
qed

section \<open>Properties of the parser\<close>

lemma rep_argvs:
  assumes "rep gs line" "n \<le> length gs"
  shows "map (\<lambda>i. argv_of i line) [0..<n] = take n gs"
  using assms by (intro nth_equalityI) (auto simp: rep_def argv_of_def)

text \<open>
  C9: On lines whose blank-separated words contain at most one pipe sign each, whose white space is blanks, tabs and newlines, and within the limits on
  commands and arguments, the parser succeeds and its commands are those of a character-level lexer:
  the argument groups between pipes, the last one only when it is not empty.  Freeing the result
  releases every argument array exactly when the last group is not empty; otherwise the array of the open
  group is leaked.
\<close>

theorem parser_matches_lexer:
  assumes "\<forall>t\<in>set (tokens s). single_pipe t" "\<forall>c\<in>set s. c_isspace c \<longrightarrow> is_sep c"
    and "within_limits (groups s)"
  shows "\<exists>line. ParseCommandLine s InitCommandLine = (OK, line) \<and>
    map (\<lambda>i. argv_of i line) [0..<cmd_count line] =
      (if last (groups s) = [] then butlast (groups s) else groups s) \<and>
    ((\<forall>i<MAX_COMMANDS. cmds (FreeCommandLine line) ! i = None) \<longleftrightarrow> last (groups s) \<noteq> [])"
proof -
  let ?gs = "groups s"
  have "rep [[]] (InitCommand 0 InitCommandLine)"
    by (auto simp: rep_def InitCommand_def InitCommandLine_def MAX_COMMANDS_def nth_list_update)
  moreover have "?gs = foldl add_sym [[]] (concat (map (lex []) (tokens s)))"
    by (simp add: groups_def lex_tokens[of s])
  moreover have "\<forall>t\<in>set (tokens s). t \<noteq> [] \<and> (\<forall>c\<in>set t. \<not> is_sep c \<and> (c_isspace c \<longrightarrow> is_sep c)) \<and> single_pipe t"
    using token_chars[of _ s] assms(1,2) by blast
  ultimately obtain line where line: "parse_tokens (tokens s) (InitCommand 0 InitCommandLine) = (OK, line)" "rep ?gs line"
    using parse_tokens_rep[of "[[]]" "InitCommand 0 InitCommandLine" "tokens s"] assms(3) by auto
  have ne: "?gs \<noteq> []" and n: "cmd_count line = length ?gs - 1" and len: "length (cmds line) = MAX_COMMANDS"
    and le: "length ?gs \<le> MAX_COMMANDS"
    using line(2) by (simp_all add: rep_def)
  let ?k = "if last ?gs = [] then length ?gs - 1 else length ?gs"
  let ?out = "line\<lparr>cmd_count := ?k\<rparr>"
  have "ParseCommandLine s InitCommandLine = (OK, ?out)"
    using line(1) rep_current[OF line(2)] n ne by (simp add: ParseCommandLine_def)
  moreover have "map (\<lambda>i. argv_of i ?out) [0..<cmd_count ?out] = take ?k ?gs"
    using rep_argvs[OF line(2), of ?k] by (simp add: argv_of_def)
  moreover have "take ?k ?gs = (if last ?gs = [] then butlast ?gs else ?gs)" by (simp add: butlast_conv_take)
  moreover have "cmds (FreeCommandLine ?out) ! i = (if i < ?k then None else cmds line ! i)" if "i < MAX_COMMANDS" for i
    using that len by (simp add: FreeCommandLine_def)
  then have "(\<forall>i<MAX_COMMANDS. cmds (FreeCommandLine ?out) ! i = None) \<longleftrightarrow> (\<forall>i<MAX_COMMANDS. i < ?k \<or> cmds line ! i = None)"
    by auto
  moreover have "\<dots> \<longleftrightarrow> last ?gs \<noteq> []"
  proof
    assume a: "\<forall>i<MAX_COMMANDS. i < ?k \<or> cmds line ! i = None"
    have i: "length ?gs - 1 < length ?gs" "length ?gs - 1 < MAX_COMMANDS"
      using rep_current_index[OF line(2)] n by simp_all
    then have "cmds line ! (length ?gs - 1) \<noteq> None" using line(2) by (simp add: rep_def)
    with i show "last ?gs \<noteq> []" using a by fastforce
  qed (use line(2) in \<open>auto simp: rep_def\<close>)
  ultimately show ?thesis by auto
qed

theorem parser_matches_lexer_witness:
  "\<exists>line. ParseCommandLine (''ls -l|wc |'' @ [NL]) InitCommandLine = (OK, line) \<and>
    map (\<lambda>i. argv_of i line) [0..<cmd_count line] = [[''ls'', ''-l''], [''wc'']]"
proof -
  let ?s = "''ls -l|wc |'' @ [NL]"
  have 1: "\<forall>t\<in>set (tokens ?s). single_pipe t" by code_simp
  have 2: "\<forall>c\<in>set ?s. c_isspace c \<longrightarrow> is_sep c" by code_simp
  have 3: "within_limits (groups ?s)" by code_simp
  have 4: "(if last (groups ?s) = [] then butlast (groups ?s) else groups ?s) = [[''ls'', ''-l''], [''wc'']]" by code_simp
  from parser_matches_lexer[OF 1 2 3] show ?thesis
    unfolding 4 by (elim exE conjE) (intro exI conjI)
qed

text \<open>
  A word with two pipe signs is split at the first one only: what follows it becomes one argument
  with the second pipe sign in it.
\<close>

theorem double_pipe_word_not_split:
  assumes "rep gs line" "PIPE_CHAR \<notin> set a" "a \<noteq> []" "b \<noteq> []" "\<not> c_isspace (hd b)"
    and "within_limits (add_sym (add_sym (add_sym gs (Arg a)) Pipe) (Arg b))"
  shows "\<exists>line'. parse_token (a @ PIPE_CHAR # b) line = (OK, line') \<and>
    rep (add_sym (add_sym (add_sym gs (Arg a)) Pipe) (Arg b)) line'"
proof -
  let ?t = "a @ PIPE_CHAR # b" and ?g1 = "add_sym gs (Arg a)"
  let ?g2 = "add_sym ?g1 Pipe"
  have "takeWhile (\<lambda>c. c \<noteq> PIPE_CHAR) ?t = a" using assms(2) by (intro takeWhile_stop) auto
  then have fa: "fixBeforeTok ?t = Some a" using assms(3) by (simp add: fixBeforeTok_def)
  have "dropWhile (\<lambda>c. c \<noteq> PIPE_CHAR) ?t = PIPE_CHAR # b" using assms(2) by (intro dropWhile_stop) auto
  then have fb: "fixAfterTok ?t = Some b" using assms(4,5) by (cases b) (simp_all add: fixAfterTok_def)
  have lim2: "within_limits ?g2" by (rule limits_step[OF _ assms(6)]) simp
  have lim1: "within_limits ?g1" by (rule limits_step[OF _ lim2]) simp
  obtain l1 where 1: "add_optional (Some a) line = (OK, l1)" "rep ?g1 l1"
    using add_optional_rep[OF assms(1), of "Some a"] lim1 by (auto simp: opt_sym_def)
  obtain l2 where 2: "next_command l1 = (OK, l2)" "rep ?g2 l2"
    using next_command_rep[OF 1(2) limits_pipe[OF lim2]] by blast
  obtain l3 where 3: "add_optional (Some b) l2 = (OK, l3)" "rep (add_sym ?g2 (Arg b)) l3"
    using add_optional_rep[OF 2(2), of "Some b"] assms(6) by (auto simp: opt_sym_def)
  show ?thesis using 1 2 3 fa fb assms(3) by (cases a) (auto simp: parse_token_def)
qed

theorem double_pipe_word_not_split_witness:
  "\<exists>line'. parse_token ''a|b|c'' (InitCommand 0 InitCommandLine) = (OK, line') \<and>
    rep [[''a''], [''b|c'']] line'"
proof -
  have "rep [[]] (InitCommand 0 InitCommandLine)"
    by (auto simp: rep_def InitCommand_def InitCommandLine_def MAX_COMMANDS_def nth_list_update)
  moreover have "within_limits (add_sym (add_sym (add_sym [[]] (Arg ''a'')) Pipe) (Arg ''b|c''))"
    by code_simp
  ultimately show ?thesis
    using double_pipe_word_not_split[of "[[]]" "InitCommand 0 InitCommandLine" "''a''" "''b|c''"]
    by (simp add: PIPE_CHAR_def c_isspace_def)
qed

section \<open>The pipeline\<close>

definition at_pipe :: "ptab \<Rightarrow> pend \<Rightarrow> bool" where
  "at_pipe t p \<longleftrightarrow> p \<in> ran (map_of t)"

text \<open>The table at the start: three standard streams and no pipes.\<close>

definition plain_table :: "ptab \<Rightarrow> bool" where
  "plain_table t \<longleftrightarrow> map_of t 0 \<noteq> None \<and> map_of t 1 \<noteq> None \<and>
     (\<forall>f. map_of t f \<noteq> None \<longrightarrow> 0 \<le> f) \<and> (\<forall>k. \<not> at_pipe t (PipeR k) \<and> \<not> at_pipe t (PipeW k))"

definition pipe_stage :: "ptab \<Rightarrow> nat \<Rightarrow> fd \<Rightarrow> ptab \<Rightarrow> bool" where
  "pipe_stage t0 i prev t \<longleftrightarrow> (if i = 0 then prev = -1 \<and> map_of t = map_of t0
     else 0 \<le> prev \<and> map_of t0 prev = None \<and> map_of t = (map_of t0)(prev \<mapsto> PipeR (i - 1)))"

text \<open>How child \<open>i\<close> of \<open>n\<close> has to be connected; the last one has both ends of its own pipe, which nobody uses.\<close>

definition wired :: "ptab \<Rightarrow> nat \<Rightarrow> nat \<Rightarrow> ptab \<Rightarrow> bool" where
  "wired t0 n i t \<longleftrightarrow>
     map_of t 0 = (if i = 0 then map_of t0 0 else Some (PipeR (i - 1))) \<and>
     map_of t 1 = (if Suc i = n then map_of t0 1 else Some (PipeW i)) \<and>
     (\<forall>k. (at_pipe t (PipeW k) \<longleftrightarrow> k = i) \<and> (at_pipe t (PipeR k) \<longleftrightarrow> Suc k = i \<or> Suc i = n \<and> k = i))"

lemma mk_pipe_fresh:
  assumes "mk_pipe k t = (r, w, t')"
  shows "map_of t r = None" "map_of t w = None" "r \<noteq> w" "0 \<le> r" "0 \<le> w"
    "map_of t' = (map_of t)(r \<mapsto> PipeR k, w \<mapsto> PipeW k)"
proof -
  obtain r1 t1 where 1: "fd_open (PipeR k) t = (r1, t1)" by (cases "fd_open (PipeR k) t")
  obtain w1 t2 where 2: "fd_open (PipeW k) t1 = (w1, t2)" by (cases "fd_open (PipeW k) t1")
  have e: "r = r1" "w = w1" "t' = t2" using assms 1 2 by (simp_all add: mk_pipe_def)
  note f1 = fd_open_fresh[OF 1] and f2 = fd_open_fresh[OF 2]
  show "map_of t r = None" using f1 e by (simp add: dom_fresh)
  show "map_of t w = None" "r \<noteq> w" using f1 f2 e by (auto simp: dom_fresh split: if_splits)
  show "0 \<le> r" "0 \<le> w" using f1 f2 e by simp_all
  show "map_of t' = (map_of t)(r \<mapsto> PipeR k, w \<mapsto> PipeW k)" using f1 f2 e by simp
qed

lemma map_of_close_fun: "map_of (fd_close f t) = (map_of t)(f := None)"
  by (simp add: fun_eq_iff)

lemma map_of_dup2_fun:
  "map_of t a = Some p \<Longrightarrow> map_of (fd_dup2 a b t) = (map_of t)(b \<mapsto> p)"
  by (simp add: fun_eq_iff map_of_dup2)

text \<open>The tables of the child and of the parent after one turn of the loop.\<close>

lemma stage_tables:
  assumes "plain_table t0" "pipe_stage t0 i prev t" "mk_pipe i t = (r, w, t1)"
  defines "m \<equiv> (map_of t0)(0 := (if i = 0 then map_of t0 0 else Some (PipeR (i - 1))))"
  shows "map_of (child_table True prev r w t1) = m(r \<mapsto> PipeR i, w \<mapsto> PipeW i)"
    and "map_of (child_table False prev r w t1) = m(1 \<mapsto> PipeW i)"
    and "map_of (parent_table True prev w t1) = (map_of t0)(r \<mapsto> PipeR i, w \<mapsto> PipeW i)"
    and "map_of (parent_table False prev w t1) = (map_of t0)(r \<mapsto> PipeR i)"
    and "map_of t0 r = None" "map_of t0 w = None" "0 \<le> r" "r \<noteq> w"
proof -
  note f = mk_pipe_fresh[OF assms(3)]
  have z: "map_of t0 0 \<noteq> None" "map_of t0 1 \<noteq> None" using assms(1) by (auto simp: plain_table_def)
  have sub: "map_of t g = None \<Longrightarrow> map_of t0 g = None \<and> (i \<noteq> 0 \<longrightarrow> g \<noteq> prev)" for g
    using assms(2) by (auto simp: pipe_stage_def split: if_splits)
  show r: "map_of t0 r = None" "map_of t0 w = None" "0 \<le> r" "r \<noteq> w" using sub f by blast+
  have rw: "r \<noteq> 0" "w \<noteq> 0" "r \<noteq> 1" "w \<noteq> 1" using r z by auto
  have a: "map_of (if prev \<noteq> -1 then fd_close prev (fd_dup2 prev 0 t1) else t1) = m(r \<mapsto> PipeR i, w \<mapsto> PipeW i)"
    and b: "map_of (if prev \<noteq> -1 then fd_close prev t1 else t1) = (map_of t0)(r \<mapsto> PipeR i, w \<mapsto> PipeW i)"
  proof -
    show "map_of (if prev \<noteq> -1 then fd_close prev (fd_dup2 prev 0 t1) else t1) = m(r \<mapsto> PipeR i, w \<mapsto> PipeW i)"
    proof (cases "i = 0")
      case True
      then show ?thesis using assms(2) f(6) by (simp add: pipe_stage_def m_def)
    next
      case False
      then have p: "0 \<le> prev" "map_of t0 prev = None" "map_of t = (map_of t0)(prev \<mapsto> PipeR (i - 1))"
        using assms(2) by (simp_all add: pipe_stage_def)
      have pr: "prev \<noteq> r" "prev \<noteq> w" "prev \<noteq> 0" "prev \<noteq> -1" using False sub f p z by auto
      have t1: "map_of t1 = (map_of t0)(prev \<mapsto> PipeR (i - 1), r \<mapsto> PipeR i, w \<mapsto> PipeW i)"
        using f(6) p(3) by simp
      then have "map_of t1 prev = Some (PipeR (i - 1))" using pr by simp
      then have "map_of (fd_dup2 prev 0 t1) = (map_of t1)(0 \<mapsto> PipeR (i - 1))" by (rule map_of_dup2_fun)
      then have "map_of (fd_close prev (fd_dup2 prev 0 t1)) = m(r \<mapsto> PipeR i, w \<mapsto> PipeW i)"
        unfolding map_of_close_fun t1 m_def using False pr p(2) rw by (intro ext) auto
      then show ?thesis using pr by simp
    qed
    show "map_of (if prev \<noteq> -1 then fd_close prev t1 else t1) = (map_of t0)(r \<mapsto> PipeR i, w \<mapsto> PipeW i)"
    proof (cases "i = 0")
      case True
      then show ?thesis using assms(2) f(6) by (simp add: pipe_stage_def)
    next
      case False
      then have p: "0 \<le> prev" "map_of t0 prev = None" "map_of t = (map_of t0)(prev \<mapsto> PipeR (i - 1))"
        using assms(2) by (simp_all add: pipe_stage_def)
      have pr: "prev \<noteq> r" "prev \<noteq> w" "prev \<noteq> -1" using False sub f p by auto
      have t1: "map_of t1 = (map_of t0)(prev \<mapsto> PipeR (i - 1), r \<mapsto> PipeR i, w \<mapsto> PipeW i)"
        using f(6) p(3) by simp
      have "map_of (fd_close prev t1) = (map_of t0)(r \<mapsto> PipeR i, w \<mapsto> PipeW i)"
        unfolding map_of_close_fun t1 using pr p(2) by (intro ext) auto
      then show ?thesis using pr by simp
    qed
  qed
  show "map_of (child_table True prev r w t1) = m(r \<mapsto> PipeR i, w \<mapsto> PipeW i)"
    using a by (simp add: child_table_def Let_def)
  show "map_of (parent_table True prev w t1) = (map_of t0)(r \<mapsto> PipeR i, w \<mapsto> PipeW i)"
    using b by (simp add: parent_table_def Let_def)
  have mr: "m r = None" "m w = None" using r rw by (simp_all add: m_def)
  define t2 where "t2 = (if prev \<noteq> -1 then fd_close prev (fd_dup2 prev 0 t1) else t1)"
  have t2: "map_of t2 = m(r \<mapsto> PipeR i, w \<mapsto> PipeW i)" unfolding t2_def by (rule a)
  have "map_of (fd_dup2 w 1 t2) = (map_of t2)(1 \<mapsto> PipeW i)"
    by (rule map_of_dup2_fun) (simp add: t2)
  then have "map_of (fd_close w (fd_close r (fd_dup2 w 1 t2))) = m(1 \<mapsto> PipeW i)"
    unfolding map_of_close_fun t2 using mr rw r by (intro ext) auto
  then show "map_of (child_table False prev r w t1) = m(1 \<mapsto> PipeW i)"
    unfolding child_table_def Let_def t2_def[symmetric] by simp
  define t3 where "t3 = (if prev \<noteq> -1 then fd_close prev t1 else t1)"
  have t3: "map_of t3 = (map_of t0)(r \<mapsto> PipeR i, w \<mapsto> PipeW i)" unfolding t3_def by (rule b)
  have "map_of (fd_close w t3) = (map_of t0)(r \<mapsto> PipeR i)"
    unfolding map_of_close_fun t3 using r by (intro ext) auto
  then show "map_of (parent_table False prev w t1) = (map_of t0)(r \<mapsto> PipeR i)"
    unfolding parent_table_def Let_def t3_def[symmetric] by simp
qed

lemma at_pipe_iff: "at_pipe t p \<longleftrightarrow> (\<exists>f. map_of t f = Some p)"
  by (auto simp: at_pipe_def ran_def)

lemma child_wired:
  assumes "plain_table t0" "pipe_stage t0 i prev t" "mk_pipe i t = (r, w, t1)"
  shows "wired t0 (Suc i) i (child_table True prev r w t1)"
    and "Suc i < n \<Longrightarrow> wired t0 n i (child_table False prev r w t1)"
proof -
  note st = stage_tables[OF assms]
  have np: "map_of t0 f \<noteq> Some (PipeR k)" "map_of t0 f \<noteq> Some (PipeW k)" for f k
    using assms(1) by (auto simp: plain_table_def at_pipe_iff)
  have z: "map_of t0 0 \<noteq> None" "map_of t0 1 \<noteq> None" using assms(1) by (auto simp: plain_table_def)
  have rw: "r \<noteq> 0" "w \<noteq> 0" "r \<noteq> 1" "w \<noteq> 1" using st(5,6) z by auto
  show "wired t0 (Suc i) i (child_table True prev r w t1)"
    using rw st(8) np unfolding wired_def at_pipe_iff st(1)
    by (cases i) (auto split: if_splits intro: exI[of _ w] exI[of _ r])
  show "wired t0 n i (child_table False prev r w t1)" if "Suc i < n"
    using that np unfolding wired_def at_pipe_iff st(2)
    by (cases i) (auto split: if_splits intro: exI[of _ 1])
qed

text \<open>What is known of the children \<open>news\<close> that the loop starts from command \<open>i\<close> on.\<close>

definition pipeline_ok :: "ptab \<Rightarrow> nat \<Rightarrow> argv list \<Rightarrow> child list \<Rightarrow> run \<Rightarrow> bool" where
  "pipeline_ok t0 i as news R \<longleftrightarrow>
     map c_argv news = take (length news) as \<and>
     (\<forall>j<length news. wired t0 (i + length as) (i + j) (c_tab (news ! j))) \<and>
     (r_status R = Finished \<longrightarrow> length news = length as \<and>
       (as \<noteq> [] \<longrightarrow> (\<exists>r w. map_of t0 r = None \<and> map_of t0 w = None \<and> r \<noteq> w \<and>
          map_of (r_tab R) = (map_of t0)(r \<mapsto> PipeR (i + length as - 1), w \<mapsto> PipeW (i + length as - 1)))))"

lemma pipeline_ok_stopped: "r_status R \<noteq> Finished \<Longrightarrow> pipeline_ok t0 i as [] R"
  by (simp add: pipeline_ok_def)

lemma pipeline_ok_Cons:
  assumes "pipeline_ok t0 (Suc i) as news R" "as \<noteq> []" "c_argv c = a" "wired t0 (i + length (a # as)) i (c_tab c)"
  shows "pipeline_ok t0 i (a # as) (c # news) R"
proof -
  have "wired t0 (i + length (a # as)) (i + j) (c_tab ((c # news) ! j))" if "j < length (c # news)" for j
    using that assms(1,4) by (cases j) (auto simp: pipeline_ok_def)
  then show ?thesis using assms by (auto simp: pipeline_ok_def)
qed

lemma run_loop_ok:
  assumes "plain_table t0" "pipe_stage t0 i prev t"
  shows "\<exists>news. r_children (run_loop i as outs prev t cs) = cs @ news \<and>
    pipeline_ok t0 i as news (run_loop i as outs prev t cs)"
  using assms(2)
proof (induction i as outs prev t cs rule: run_loop.induct)
  case (1 i outs prev t cs)
  show ?case by (simp add: pipeline_ok_def)
next
  case (2 i a as outs prev t cs)
  obtain p k where o: "(case outs of [] \<Rightarrow> (True, True) | x # _ \<Rightarrow> x) = (p, k)" by fastforce
  obtain r w t1 where m: "mk_pipe i t = (r, w, t1)" by (cases "mk_pipe i t")
  show ?case
  proof (cases "p \<and> k")
    case False
    then show ?thesis using o m by (auto simp: pipeline_ok_stopped)
  next
    case True
    note st = stage_tables[OF assms(1) 2(2) m] and cw = child_wired[OF assms(1) 2(2) m]
    show ?thesis
    proof (cases "as = []")
      case last: True
      show ?thesis using o m True st cw(1) last by (auto simp: pipeline_ok_def)
    next
      case more: False
      let ?c = "\<lparr>c_argv = a, c_tab = child_table False prev r w t1\<rparr>"
      let ?R = "run_loop (Suc i) as (drop 1 outs) r (parent_table False prev w t1) (cs @ [?c])"
      have eq: "run_loop i (a # as) outs prev t cs = ?R" using o m True more by simp
      have "pipe_stage t0 (Suc i) r (parent_table False prev w t1)"
        using st by (simp add: pipe_stage_def)
      then obtain news where news: "r_children ?R = (cs @ [?c]) @ news" "pipeline_ok t0 (Suc i) as news ?R"
        using 2(1)[OF o[symmetric] refl _ m[symmetric] refl _ refl refl] True more by auto
      have "wired t0 (i + length (a # as)) i (c_tab ?c)"
        using cw(2)[of "i + length (a # as)"] more by simp
      then have "pipeline_ok t0 i (a # as) (?c # news) ?R"
        by (intro pipeline_ok_Cons[OF news(2) more]) simp_all
      then show ?thesis unfolding eq using news(1) by auto
    qed
  qed
qed

lemma run_loop_finishes:
  "\<forall>x\<in>set outs. x = (True, True) \<Longrightarrow> r_status (run_loop i as outs prev t cs) = Finished"
proof (induction i as outs prev t cs rule: run_loop.induct)
  case (2 i a as outs prev t cs)
  obtain r w t1 where m: "mk_pipe i t = (r, w, t1)" by (cases "mk_pipe i t")
  have o: "(True, True) = (case outs of [] \<Rightarrow> (True, True) | x # _ \<Rightarrow> x)" using 2(2) by (cases outs) auto
  have d: "\<forall>x\<in>set (drop 1 outs). x = (True, True)" using 2(2) by (meson in_set_dropD)
  show ?case using 2(1)[OF o refl _ m[symmetric] refl _ refl refl] d m
    by (simp add: o[symmetric] Let_def)
qed simp

text \<open>
  C8: Whatever calls fail on the way, the children the runner has started are the first commands of
  the line, and each is connected as the full pipeline asks: its input is the pipe of the command
  before it (the terminal for the first), its output the pipe to the next one (the terminal for the
  last).  It holds no other end of any pipe, so readers see the end of their
  input; only the last child also has both ends of a needless pipe, which is made for it.  When no call fails
  every command is started; the parent too then keeps open both ends of that pipe.
\<close>

theorem pipeline_wired:
  assumes "plain_table t0"
  shows "map c_argv (r_children (RunCmd line outs t0)) =
      take (length (r_children (RunCmd line outs t0))) (map (\<lambda>i. argv_of i line) [0..<cmd_count line]) \<and>
    (\<forall>j<length (r_children (RunCmd line outs t0)).
      wired t0 (cmd_count line) j (c_tab (r_children (RunCmd line outs t0) ! j))) \<and>
    ((\<forall>x\<in>set outs. x = (True, True)) \<longrightarrow> length (r_children (RunCmd line outs t0)) = cmd_count line \<and>
      (0 < cmd_count line \<longrightarrow> (\<exists>r w. map_of t0 r = None \<and> map_of t0 w = None \<and> r \<noteq> w \<and>
         map_of (r_tab (RunCmd line outs t0)) =
           (map_of t0)(r \<mapsto> PipeR (cmd_count line - 1), w \<mapsto> PipeW (cmd_count line - 1)))))"
proof (intro conjI impI)
  let ?as = "map (\<lambda>i. argv_of i line) [0..<cmd_count line]" and ?R = "RunCmd line outs t0"
  have R: "?R = run_loop 0 ?as outs (-1) t0 []" by (simp add: RunCmd_def)
  have "pipe_stage t0 0 (-1) t0" by (simp add: pipe_stage_def)
  from run_loop_ok[OF assms this, of ?as outs "[]"] have ok: "pipeline_ok t0 0 ?as (r_children ?R) ?R"
    unfolding R by auto
  have n: "length ?as = cmd_count line" by simp
  show "map c_argv (r_children ?R) = take (length (r_children ?R)) ?as"
    "\<forall>j<length (r_children ?R). wired t0 (cmd_count line) j (c_tab (r_children ?R ! j))"
    using ok n by (simp_all add: pipeline_ok_def)
  assume all: "\<forall>x\<in>set outs. x = (True, True)"
  note fin = run_loop_finishes[OF all, of 0 ?as "-1" t0 "[]"]
  show "length (r_children ?R) = cmd_count line" using ok n fin by (simp add: pipeline_ok_def R)
  show "\<exists>r w. map_of t0 r = None \<and> map_of t0 w = None \<and> r \<noteq> w \<and>
      map_of (r_tab ?R) = (map_of t0)(r \<mapsto> PipeR (cmd_count line - 1), w \<mapsto> PipeW (cmd_count line - 1))"
    if "0 < cmd_count line"
    using ok n fin that by (auto simp: pipeline_ok_def R)
qed

theorem pipeline_wired_witness:
  "length (r_children (RunCmd \<lparr>cmds = [Some [''ls''], Some [''wc'']], cmd_count = 2\<rparr> []
     [(0, Term 0), (1, Term 1), (2, Term 2)])) = 2"
proof -
  let ?t = "[(0, Term 0), (1, Term 1), (2, Term 2)] :: ptab"
  have "at_pipe ?t p \<Longrightarrow> \<exists>k. p = Term k" for p
    by (auto simp: at_pipe_iff split: if_splits)
  then have "plain_table ?t" by (fastforce simp: plain_table_def split: if_splits)
  from pipeline_wired[OF this, of "\<lparr>cmds = [Some [''ls''], Some [''wc'']], cmd_count = 2\<rparr>" "[]"]
  show ?thesis by simp
qed

end
