(* ===== verification/Bounded_Runs.thy ===== *)
theory Bounded_Runs
  imports Prelude
begin

text \<open>
  Step relations whose runs all come to an end: an invariant of the steps and a rank that every step
  lowers.  What follows for the runs is proved once, for all the programs with such a rank.
\<close>

lemma relpowp_runs: "(R ^^ n) x y \<Longrightarrow> R\<^sup>*\<^sup>* x y"
  by (metis rtranclp_power)

locale bounded_runs =
  fixes step :: "'w \<Rightarrow> 'w \<Rightarrow> bool"
    and inv :: "'w \<Rightarrow> bool"
    and rank :: "'w \<Rightarrow> nat"
  assumes keeps_inv: "inv w \<Longrightarrow> step w w' \<Longrightarrow> inv w'"
    and lowers: "inv w \<Longrightarrow> step w w' \<Longrightarrow> rank w' < rank w"
begin

lemma inv_runs: "step\<^sup>*\<^sup>* w w' \<Longrightarrow> inv w \<Longrightarrow> inv w'"
  by (induction rule: rtranclp_induct) (auto dest: keeps_inv)

lemma run_length: "(step ^^ n) w w' \<Longrightarrow> inv w \<Longrightarrow> n + rank w' \<le> rank w"
proof (induction n arbitrary: w')
  case (Suc n)
  then obtain v where v: "(step ^^ n) w v" "step v w'" by auto
  have "inv v" using inv_runs[OF relpowp_runs[OF v(1)] Suc(3)] .
  then show ?case using Suc(1)[OF v(1) Suc(3)] lowers[OF _ v(2)] by fastforce
qed simp

text \<open>Every run can be continued to a state without a further step.\<close>

lemma ends: "inv w \<Longrightarrow> \<exists>w'. step\<^sup>*\<^sup>* w w' \<and> inv w' \<and> (\<nexists>v. step w' v)"
proof (induction "rank w" arbitrary: w rule: less_induct)
  case less
  show ?case
  proof (cases "\<exists>v. step w v")
    case True
    then obtain v where v: "step w v" by blast
    from less(1)[OF lowers[OF less(2) v] keeps_inv[OF less(2) v]] obtain w'
      where "step\<^sup>*\<^sup>* v w'" "inv w'" "\<nexists>u. step w' u" by blast
    moreover from v this(1) have "step\<^sup>*\<^sup>* w w'" by (rule converse_rtranclp_into_rtranclp)
    ultimately show ?thesis by blast
  qed (use less(2) in blast)
qed

end

end
