(* ===== verification/Copy_Protocol.thy ===== *)
theory Copy_Protocol
  imports Kernel Bounded_Runs "HOL-Library.Sublist"
begin

text \<open>
  What the programs that copy a file through some channel have in common: reading the input in pieces
  of the kernel's choice, and the contract of a channel that neither loses, invents nor reorders bytes.
\<close>

section \<open>Reading a file in pieces\<close>

text \<open>
  One \<open>read\<close> of at most \<open>m\<close> bytes at an offset of the input: an error for \<open>None\<close>, otherwise as many
  bytes as the kernel chooses to give, at least one if there is one.
\<close>

definition file_read :: "nat \<Rightarrow> bytes \<Rightarrow> nat \<Rightarrow> nat option \<Rightarrow> bytes option" where
  "file_read m f pos choice = (case choice of None \<Rightarrow> None
     | Some n \<Rightarrow> Some (take (Suc (min n (m - 1))) (drop pos f)))"

lemma take_of_own_length: "d = take k xs \<Longrightarrow> d = take (length d) xs"
  by (simp add: min_def)

lemma file_read_result:
  assumes "file_read m f pos choice = Some d" "0 < m"
  shows "d = take (length d) (drop pos f)" "length d \<le> m" "d = [] \<Longrightarrow> length f \<le> pos"
    "pos \<le> length f \<Longrightarrow> take (pos + length d) f = take pos f @ d" "pos \<le> length f \<Longrightarrow> pos + length d \<le> length f"
proof -
  obtain n where d: "d = take (Suc (min n (m - 1))) (drop pos f)"
    using assms by (auto simp: file_read_def split: option.splits)
  then show own: "d = take (length d) (drop pos f)" by (rule take_of_own_length)
  show "length d \<le> m" "d = [] \<Longrightarrow> length f \<le> pos" using d assms(2) by auto
  show "take (pos + length d) f = take pos f @ d" if "pos \<le> length f" using own by (metis take_add)
  show "pos + length d \<le> length f" if "pos \<le> length f" using d that by simp
qed

lemma file_read_whole: "length d \<le> m \<Longrightarrow> d \<noteq> [] \<Longrightarrow> file_read m d 0 (Some (length d)) = Some d"
  by (auto simp: file_read_def)

section \<open>Writing all of a buffer\<close>

text \<open>
  The loop of \<open>write\<close> calls over the rest of a buffer, with the results of the calls; a result of 0 is an
  error like \<open>None\<close>.  The value is \<open>None\<close> while a call does not return.
\<close>

fun write_all :: "nat option list \<Rightarrow> bytes \<Rightarrow> bytes \<Rightarrow> (bool \<times> bytes) option" where
  "write_all rs [] out = Some (True, out)"
| "write_all [] (b # bs) out = None"
| "write_all (None # rs) (b # bs) out = Some (False, out)"
| "write_all (Some n # rs) (b # bs) out = (if n = 0 then Some (False, out)
     else write_all rs (drop n (b # bs)) (out @ take n (b # bs)))"

lemma write_all_result:
  "write_all rs bs out = Some (ok, out') \<Longrightarrow>
    (None \<notin> set rs \<longrightarrow> Some 0 \<notin> set rs \<longrightarrow> ok) \<and> (ok \<longrightarrow> out' = out @ bs) \<and> (\<exists>k. out' = out @ take k bs)"
proof (induction rs bs out rule: write_all.induct)
  case (4 n rs b bs out)
  show ?case
  proof (cases "n = 0")
    case True
    then show ?thesis using 4(2) by (auto intro: exI[of _ 0])
  next
    case False
    then have "write_all rs (drop n (b # bs)) (out @ take n (b # bs)) = Some (ok, out')" using 4(2) by simp
    note IH = 4(1)[OF False this]
    then obtain k where "out' = (out @ take n (b # bs)) @ take k (drop n (b # bs))" by blast
    then have "out' = out @ take (n + k) (b # bs)" by (simp only: take_add append_assoc)
    then show ?thesis using IH by (auto simp del: take_Suc_Cons)
  qed
qed (auto intro: exI[of _ 0])

lemma write_all_whole: "bs \<noteq> [] \<Longrightarrow> write_all [Some (length bs)] bs out = Some (True, out @ bs)"
  by (cases bs) simp_all

section \<open>The contract\<close>

text \<open>
  The states, the steps in which every call succeeds, an invariant, and of every state the input, the
  part of it that has been read, what is on its way and the output.
\<close>

locale copy_protocol =
  fixes step :: "'w \<Rightarrow> 'w \<Rightarrow> bool"
    and inv :: "'w \<Rightarrow> bool"
    and source :: "'w \<Rightarrow> bytes"
    and taken :: "'w \<Rightarrow> bytes"
    and flight :: "'w \<Rightarrow> bytes"
    and out :: "'w \<Rightarrow> bytes"
  assumes keeps: "inv w \<Longrightarrow> step w w' \<Longrightarrow> inv w' \<and> source w' = source w"
    and conserves: "inv w \<Longrightarrow> out w @ flight w = taken w"
    and takes_prefix: "inv w \<Longrightarrow> prefix (taken w) (source w)"
begin

lemma runs: "step\<^sup>*\<^sup>* w w' \<Longrightarrow> inv w \<Longrightarrow> inv w' \<and> source w' = source w"
proof (induction rule: rtranclp_induct)
  case (step y z)
  then show ?case using keeps[of y z] by simp
qed simp

lemma out_is_prefix: "step\<^sup>*\<^sup>* w w' \<Longrightarrow> inv w \<Longrightarrow> prefix (out w') (source w)"
  using runs conserves takes_prefix by (metis append_prefixD)

lemma complete:
  "step\<^sup>*\<^sup>* w w' \<Longrightarrow> inv w \<Longrightarrow> taken w' = source w' \<Longrightarrow> flight w' = [] \<Longrightarrow> out w' = source w"
  using runs conserves by (metis append_Nil2)

end

end
