(* ===== verification/Signal_Copy.thy ===== *)
theory Signal_Copy
  imports Copy_Protocol
begin

text \<open>
  src/task\_5: a file is copied by two processes through chunks of shared memory; queued realtime
  signals carry the chunk numbers.  Signal handlers are atomic; a pending signal may be delivered at
  any later moment outside a handler, signals of one number in the order in which they were sent.
\<close>

section \<open>The shared memory\<close>

definition SHM_SIZE :: nat where "SHM_SIZE = 4096 * 1024"
definition CHUNKS :: nat where "CHUNKS = 8"
definition CHUNK_SIZE :: nat where "CHUNK_SIZE = SHM_SIZE div CHUNKS"
definition MAX_ATTEMPTS :: int where "MAX_ATTEMPTS = 100"

datatype EndCode = NOT_ENDED | PROD_END_SUCC | PROD_END_FAIL | CONS_END_SUCC | CONS_END_FAIL

text \<open>Pointers into the buffer are offsets.\<close>

record ChunkData =
  chunk :: nat
  chunk_size :: nat

record SharedData =
  buffer :: bytes
  buf_size :: nat
  producer_chunks :: "nat list"
  consumer_chunks :: "ChunkData list"
  pid :: int
  ppid :: int
  producer_ended :: EndCode
  consumer_ended :: EndCode
  file_size :: nat
  bytes_read :: nat
  attempts :: int
  fd_in :: fd
  fd_out :: fd

text \<open>
  A new segment holds zeros.  The results of \<open>shmget\<close> and \<open>shmat\<close> are given.
\<close>

definition init_shared_memory :: "bool \<Rightarrow> bool \<Rightarrow> int \<Rightarrow> nat \<Rightarrow> fd \<Rightarrow> SharedData option" where
  "init_shared_memory shmget_ok shmat_ok self fsize f =
     (if \<not> shmget_ok \<or> \<not> shmat_ok then None
      else Some \<lparr>buffer = replicate SHM_SIZE (CHR 0x00), buf_size = SHM_SIZE,
        producer_chunks = map (\<lambda>i. i * CHUNK_SIZE) [0..<CHUNKS],
        consumer_chunks = map (\<lambda>i. \<lparr>chunk = i * CHUNK_SIZE, chunk_size = 0\<rparr>) [0..<CHUNKS],
        pid = 0, ppid = self, producer_ended = NOT_ENDED, consumer_ended = NOT_ENDED,
        file_size = fsize, bytes_read = 0, attempts = 0, fd_in = f, fd_out = 0\<rparr>)"

definition poke :: "nat \<Rightarrow> bytes \<Rightarrow> bytes \<Rightarrow> bytes" where
  "poke off d buf = take off buf @ d @ drop (off + length d) buf"

definition chunk_bytes :: "SharedData \<Rightarrow> nat \<Rightarrow> bytes" where
  "chunk_bytes s c = take (chunk_size (consumer_chunks s ! c)) (drop (chunk (consumer_chunks s ! c)) (buffer s))"

section \<open>The handlers\<close>

definition sys_read :: "bytes \<Rightarrow> nat \<Rightarrow> nat option \<Rightarrow> bytes option" where
  "sys_read f pos choice = file_read CHUNK_SIZE f pos choice"

fun read_loop :: "bytes \<Rightarrow> nat \<Rightarrow> nat option list \<Rightarrow> SharedData \<Rightarrow> (bytes option \<times> SharedData) option" where
  "read_loop f pos [] s = None"
| "read_loop f pos (c # cs) s =
     (let r = sys_read f pos c; s1 = s\<lparr>attempts := attempts s + 1\<rparr> in
      if r = Some [] \<and> bytes_read s1 < file_size s1 \<and> attempts s1 < MAX_ATTEMPTS - 1
      then read_loop f pos cs s1 else Some (r, s1))"

text \<open>
  The outcome of a handler: the shared memory, the file (the offset of the input or the contents of the
  output), the signal value sent, and whether the handler sets its own signal to be ignored.
\<close>

record 'f outcome =
  o_sh :: SharedData
  o_file :: 'f
  o_sent :: "int option"
  o_ignore :: bool

definition producer_handler ::
    "bytes \<Rightarrow> nat option list \<Rightarrow> bool \<Rightarrow> int \<Rightarrow> SharedData \<Rightarrow> nat \<Rightarrow> nat outcome option" where
  "producer_handler f choices send_ok chunk_num s pos =
     (if chunk_num < 0 \<or> int CHUNKS \<le> chunk_num
      then Some \<lparr>o_sh = s\<lparr>producer_ended := PROD_END_FAIL\<rparr>, o_file = pos, o_sent = None, o_ignore = False\<rparr>
      else case read_loop f pos choices s of None \<Rightarrow> None
      | Some (r, s1) \<Rightarrow>
         (case r of Some (b # bs) \<Rightarrow>
            let c = nat chunk_num; d = b # bs;
                s2 = s1\<lparr>buffer := poke (producer_chunks s1 ! c) d (buffer s1),
                  consumer_chunks := (consumer_chunks s1)[c := (consumer_chunks s1 ! c)\<lparr>chunk_size := length d\<rparr>],
                  bytes_read := bytes_read s1 + length d\<rparr>
            in if send_ok
               then Some \<lparr>o_sh = s2, o_file = pos + length d, o_sent = Some chunk_num, o_ignore = False\<rparr>
               else Some \<lparr>o_sh = s2\<lparr>producer_ended := PROD_END_FAIL\<rparr>, o_file = pos + length d,
                 o_sent = None, o_ignore = False\<rparr>
          | _ \<Rightarrow> Some \<lparr>o_sh = s1\<lparr>producer_ended :=
                (if bytes_read s1 = file_size s1 then PROD_END_SUCC else PROD_END_FAIL)\<rparr>,
              o_file = pos, o_sent = None, o_ignore = True\<rparr>))"

text \<open>The loop of \<open>write\<close> calls: the rest to write and the output so far.\<close>

fun write_loop :: "nat option list \<Rightarrow> bytes \<Rightarrow> bytes \<Rightarrow> (bool \<times> bytes) option" where
  "write_loop ws [] out = Some (True, out)"
| "write_loop [] (b # bs) out = None"
| "write_loop (None # ws) (b # bs) out = Some (False, out)"
| "write_loop (Some n # ws) (b # bs) out = write_loop ws (drop n (b # bs)) (out @ take n (b # bs))"

definition consumer_handler ::
    "nat option list \<Rightarrow> bool \<Rightarrow> int \<Rightarrow> SharedData \<Rightarrow> bytes \<Rightarrow> bytes outcome option" where
  "consumer_handler writes send_ok chunk_num s out =
     (if chunk_num < 0 \<or> int CHUNKS \<le> chunk_num
      then Some \<lparr>o_sh = s\<lparr>consumer_ended := CONS_END_FAIL\<rparr>, o_file = out, o_sent = None, o_ignore = False\<rparr>
      else case write_loop writes (chunk_bytes s (nat chunk_num)) out of None \<Rightarrow> None
      | Some (ok, out1) \<Rightarrow>
         if \<not> ok then Some \<lparr>o_sh = s\<lparr>consumer_ended := CONS_END_FAIL\<rparr>, o_file = out1, o_sent = None, o_ignore = True\<rparr>
         else if send_ok then Some \<lparr>o_sh = s, o_file = out1, o_sent = Some chunk_num, o_ignore = False\<rparr>
         else Some \<lparr>o_sh = s\<lparr>consumer_ended := CONS_END_FAIL\<rparr>, o_file = out1, o_sent = None, o_ignore = False\<rparr>)"

definition sig_exit_handler :: "SharedData \<Rightarrow> SharedData \<times> bool" where
  "sig_exit_handler s = (s\<lparr>consumer_ended := CONS_END_SUCC\<rparr>, True)"

section \<open>The two processes\<close>

text \<open>
  Where the main functions are: the parent before it stores the child's pid, before the test of its
  loop, in \<open>pause\<close>, in \<open>waitpid\<close>, finished; the child before opening the output, before sending number
  \<open>i\<close>, before the test, in \<open>pause\<close>, finished with an exit code.
\<close>

datatype parent_pc = P_Forked | P_Check | P_Pause | P_Wait | P_Done
datatype child_pc = C_Start | C_Send nat | C_Check | C_Pause | C_Done int

record world =
  sh :: SharedData
  fin :: bytes
  fpos :: nat
  fout :: bytes
  prodq :: "int list"
  consq :: "int list"
  prod_ign :: bool
  cons_ign :: bool
  ppc :: parent_pc
  cpc :: child_pc

definition init_world :: "bytes \<Rightarrow> SharedData \<Rightarrow> world" where
  "init_world f s = \<lparr>sh = s, fin = f, fpos = 0, fout = [], prodq = [], consq = [],
     prod_ign = False, cons_ign = False, ppc = P_Forked, cpc = C_Start\<rparr>"

definition get_file_size :: "bytes option \<Rightarrow> nat" where
  "get_file_size f = (case f of None \<Rightarrow> 0 | Some d \<Rightarrow> length d)"

text \<open>The parent up to \<open>fork\<close>: \<open>None\<close> where it returns 1.\<close>

definition copy_start ::
    "bytes option \<Rightarrow> bool \<Rightarrow> bool \<Rightarrow> bool \<Rightarrow> bool \<Rightarrow> bool \<Rightarrow> int \<Rightarrow> fd \<Rightarrow> world option" where
  "copy_start input ftok_ok shmget_ok shmat_ok sigactions_ok fork_ok self f =
     (case input of None \<Rightarrow> None
      | Some d \<Rightarrow>
         if get_file_size input = 0 \<or> \<not> ftok_ok then None
         else case init_shared_memory shmget_ok shmat_ok self (get_file_size input) f of None \<Rightarrow> None
         | Some s \<Rightarrow> if sigactions_ok \<and> fork_ok then Some (init_world d s) else None)"

text \<open>Sending a signal with a value; a value for an ignored signal is dropped.\<close>

definition enq_sig :: "bool \<Rightarrow> int option \<Rightarrow> int list \<Rightarrow> int list" where
  "enq_sig ign v q = (if ign then q else case v of None \<Rightarrow> q | Some c \<Rightarrow> q @ [c])"

text \<open>A handler interrupts \<open>pause\<close> and, because no flag restarts it, \<open>waitpid\<close>.\<close>

definition interrupt_parent :: "parent_pc \<Rightarrow> parent_pc" where
  "interrupt_parent p = (case p of P_Pause \<Rightarrow> P_Check | P_Wait \<Rightarrow> P_Done | _ \<Rightarrow> p)"

definition interrupt_child :: "child_pc \<Rightarrow> child_pc" where
  "interrupt_child c = (case c of C_Pause \<Rightarrow> C_Check | _ \<Rightarrow> c)"

definition deliver_producer :: "nat option list \<Rightarrow> bool \<Rightarrow> world \<Rightarrow> world option" where
  "deliver_producer choices ok w = (case prodq w of [] \<Rightarrow> None
     | v # q \<Rightarrow> map_option (\<lambda>r. w\<lparr>sh := o_sh r, fpos := o_file r,
         consq := enq_sig (cons_ign w) (o_sent r) (consq w),
         prodq := (if o_ignore r then [] else q), prod_ign := (prod_ign w \<or> o_ignore r),
         ppc := interrupt_parent (ppc w)\<rparr>)
       (producer_handler (fin w) choices (ok \<and> pid (sh w) \<noteq> 0) v (sh w) (fpos w)))"

definition deliver_consumer :: "nat option list \<Rightarrow> bool \<Rightarrow> world \<Rightarrow> world option" where
  "deliver_consumer writes ok w = (case consq w of [] \<Rightarrow> None
     | v # q \<Rightarrow> map_option (\<lambda>r. w\<lparr>sh := o_sh r, fout := o_file r,
         prodq := enq_sig (prod_ign w) (o_sent r) (prodq w),
         consq := (if o_ignore r then [] else q), cons_ign := (cons_ign w \<or> o_ignore r),
         cpc := interrupt_child (cpc w)\<rparr>)
       (consumer_handler writes (ok \<and> ppc w \<noteq> P_Done) v (sh w) (fout w)))"

definition child_open :: "bool \<Rightarrow> int \<Rightarrow> fd \<Rightarrow> world \<Rightarrow> world" where
  "child_open ok parent f w = (if \<not> ok then w\<lparr>cpc := C_Done 1\<rparr>
     else w\<lparr>sh := (sh w)\<lparr>ppid := parent, fd_out := f\<rparr>, fout := [], cpc := C_Send 0\<rparr>)"

definition child_send :: "bool \<Rightarrow> nat \<Rightarrow> world \<Rightarrow> world" where
  "child_send ok i w = (if \<not> (ok \<and> ppc w \<noteq> P_Done) then w\<lparr>cpc := C_Done 1\<rparr>
     else w\<lparr>prodq := enq_sig (prod_ign w) (Some (int i)) (prodq w),
       cpc := (if Suc i < CHUNKS then C_Send (Suc i) else C_Check)\<rparr>)"

definition child_check :: "world \<Rightarrow> world" where
  "child_check w = w\<lparr>cpc := (if producer_ended (sh w) = NOT_ENDED then C_Pause
     else C_Done (if consumer_ended (sh w) = CONS_END_SUCC then 0 else 1))\<rparr>"

definition parent_store_pid :: "int \<Rightarrow> world \<Rightarrow> world" where
  "parent_store_pid p w = w\<lparr>sh := (sh w)\<lparr>pid := p\<rparr>, ppc := P_Check\<rparr>"

definition parent_check :: "world \<Rightarrow> world" where
  "parent_check w = w\<lparr>ppc := (if producer_ended (sh w) = NOT_ENDED \<and> consumer_ended (sh w) = NOT_ENDED
     then P_Pause else P_Wait)\<rparr>"

text \<open>
  The steps of the two processes.  The flag tells that every call of the step succeeded.
\<close>

inductive copy_step :: "bool \<Rightarrow> world \<Rightarrow> world \<Rightarrow> bool" where
  produce: "ppc w \<noteq> P_Done \<Longrightarrow> deliver_producer choices ok w = Some w' \<Longrightarrow>
    copy_step (ok \<and> pid (sh w) \<noteq> 0 \<and> None \<notin> set choices) w w'"
| consume: "\<forall>c. cpc w \<noteq> C_Done c \<Longrightarrow> cpc w \<noteq> C_Start \<Longrightarrow> deliver_consumer writes ok w = Some w' \<Longrightarrow>
    copy_step (ok \<and> ppc w \<noteq> P_Done \<and> None \<notin> set writes) w w'"
| opens: "cpc w = C_Start \<Longrightarrow> copy_step ok w (child_open ok parent f w)"
| sends: "cpc w = C_Send i \<Longrightarrow> copy_step (ok \<and> ppc w \<noteq> P_Done) w (child_send ok i w)"
| checks: "cpc w = C_Check \<Longrightarrow> copy_step True w (child_check w)"
| stores: "ppc w = P_Forked \<Longrightarrow> 0 < p \<Longrightarrow> copy_step True w (parent_store_pid p w)"
| tests: "ppc w = P_Check \<Longrightarrow> copy_step True w (parent_check w)"
| reaps: "ppc w = P_Wait \<Longrightarrow> cpc w = C_Done c \<Longrightarrow> copy_step True w (w\<lparr>ppc := P_Done\<rparr>)"

inductive copy_run :: "bool \<Rightarrow> world \<Rightarrow> world \<Rightarrow> bool" for clean where
  start: "copy_run clean w w"
| step: "copy_run clean w w1 \<Longrightarrow> copy_step ok w1 w2 \<Longrightarrow> (clean \<longrightarrow> ok) \<Longrightarrow> copy_run clean w w2"

inductive_cases copy_step_elim: "copy_step ok w w'"

lemmas copy_step_cases [consumes 1, case_names produce consume opens sends checks stores tests reaps] = copy_step_elim

end
