(* ===== verification/Signal_Copy_Properties.thy ===== *)
theory Signal_Copy_Properties
  imports Signal_Copy
begin

text \<open>
  Properties of the signal driven copy: the invariant of runs in which every call succeeds, the exit
  code, a chunk lost in the race for the child's pid and a lost wake-up.
\<close>

section \<open>The chunks of the buffer\<close>

lemma poke_length [simp]: "off + length d \<le> length b \<Longrightarrow> length (poke off d b) = length b"
  by (simp add: poke_def)

lemma peek_poke_same: "off \<le> length b \<Longrightarrow> take (length d) (drop off (poke off d b)) = d"
  by (simp add: poke_def)

lemma peek_poke_other:
  assumes "off + length d \<le> length b" "o1 + n \<le> off \<or> off + length d \<le> o1"
  shows "take n (drop o1 (poke off d b)) = take n (drop o1 b)"
  using assms by (auto simp: poke_def drop_append take_append drop_take min_def)

definition geometry :: "SharedData \<Rightarrow> bool" where
  "geometry s \<longleftrightarrow> length (buffer s) = SHM_SIZE \<and> producer_chunks s = map (\<lambda>i. i * CHUNK_SIZE) [0..<CHUNKS] \<and>
     length (consumer_chunks s) = CHUNKS \<and>
     (\<forall>c<CHUNKS. chunk (consumer_chunks s ! c) = c * CHUNK_SIZE \<and> chunk_size (consumer_chunks s ! c) \<le> CHUNK_SIZE)"

lemma sizes: "SHM_SIZE = CHUNKS * CHUNK_SIZE" "0 < CHUNK_SIZE" "0 < CHUNKS"
  by (simp_all add: SHM_SIZE_def CHUNKS_def CHUNK_SIZE_def)

text \<open>The shared memory after a chunk of data is stored.\<close>

definition store_chunk :: "nat \<Rightarrow> bytes \<Rightarrow> SharedData \<Rightarrow> SharedData" where
  "store_chunk c d s = s\<lparr>buffer := poke (producer_chunks s ! c) d (buffer s),
     consumer_chunks := (consumer_chunks s)[c := (consumer_chunks s ! c)\<lparr>chunk_size := length d\<rparr>],
     bytes_read := bytes_read s + length d\<rparr>"

lemma store_chunk_geometry:
  assumes "geometry s" "c < CHUNKS" "length d \<le> CHUNK_SIZE"
  shows "geometry (store_chunk c d s)" "chunk_bytes (store_chunk c d s) c = d"
    "\<And>k. k < CHUNKS \<Longrightarrow> k \<noteq> c \<Longrightarrow> chunk_bytes (store_chunk c d s) k = chunk_bytes s k"
proof -
  have off: "producer_chunks s ! c = c * CHUNK_SIZE" using assms(1,2) by (simp add: geometry_def)
  have le: "c * CHUNK_SIZE + CHUNK_SIZE \<le> SHM_SIZE"
    using mult_le_mono1[of "Suc c" CHUNKS CHUNK_SIZE] assms(2) by (simp add: sizes(1))
  then have fit: "c * CHUNK_SIZE + length d \<le> length (buffer s)" using assms(1,3) by (simp add: geometry_def)
  show "geometry (store_chunk c d s)"
    using assms fit off by (auto simp: geometry_def store_chunk_def nth_list_update)
  show "chunk_bytes (store_chunk c d s) c = d"
    using assms fit off by (simp add: chunk_bytes_def store_chunk_def geometry_def peek_poke_same)
  show "chunk_bytes (store_chunk c d s) k = chunk_bytes s k" if k: "k < CHUNKS" "k \<noteq> c" for k
  proof -
    have "k * CHUNK_SIZE + CHUNK_SIZE \<le> c * CHUNK_SIZE \<or> c * CHUNK_SIZE + CHUNK_SIZE \<le> k * CHUNK_SIZE"
      using k(2) mult_le_mono1[of "Suc k" c CHUNK_SIZE] mult_le_mono1[of "Suc c" k CHUNK_SIZE]
      by (cases "k < c") auto
    moreover have "chunk_size (consumer_chunks s ! k) \<le> CHUNK_SIZE" "chunk (consumer_chunks s ! k) = k * CHUNK_SIZE"
      using assms(1) k(1) by (auto simp: geometry_def)
    ultimately show ?thesis using k fit off assms(3)
      by (simp add: chunk_bytes_def store_chunk_def) (rule peek_poke_other, auto)
  qed
qed

lemma chunk_bytes_cong:
  "buffer s = buffer s' \<Longrightarrow> consumer_chunks s = consumer_chunks s' \<Longrightarrow> chunk_bytes s c = chunk_bytes s' c"
  by (simp add: chunk_bytes_def)

section \<open>What the handlers do\<close>

lemma read_loop_result:
  "read_loop f pos cs s = Some (r, s1) \<Longrightarrow>
    (\<exists>a. s1 = s\<lparr>attempts := a\<rparr>) \<and> (\<exists>c\<in>set cs. r = sys_read f pos c)"
proof (induction f pos cs s rule: read_loop.induct)
  case (2 f pos c cs s)
  let ?s1 = "s\<lparr>attempts := attempts s + 1\<rparr>"
  show ?case
  proof (cases "sys_read f pos c = Some [] \<and> bytes_read ?s1 < file_size ?s1 \<and> attempts ?s1 < MAX_ATTEMPTS - 1")
    case True
    then have "read_loop f pos cs ?s1 = Some (r, s1)" using 2(2) by simp
    then show ?thesis using 2(1)[OF refl refl True] by auto
  next
    case False
    then have "r = sys_read f pos c" "s1 = ?s1" using 2(2) by (auto simp: Let_def split: if_splits)
    then show ?thesis by auto
  qed
qed simp

lemma sys_read_result:
  "sys_read f pos (Some n) = Some d \<Longrightarrow> d = take (length d) (drop pos f) \<and> length d \<le> CHUNK_SIZE \<and> (d = [] \<longrightarrow> length f \<le> pos)"
  using sizes(2) take_of_own_length[of d "Suc (min n (CHUNK_SIZE - 1))" "drop pos f"]
  by (auto simp: sys_read_def file_read_def)

lemma write_loop_result:
  "write_loop ws bs out = Some (ok, out') \<Longrightarrow> (None \<notin> set ws \<longrightarrow> ok) \<and> (ok \<longrightarrow> out' = out @ bs)"
proof (induction ws bs out rule: write_loop.induct)
  case (4 n ws b bs out)
  then have "write_loop ws (drop n (b # bs)) (out @ take n (b # bs)) = Some (ok, out')" by simp
  from 4(1)[OF this] show ?case by simp
qed auto

lemma producer_handler_clean:
  assumes "producer_handler f choices True v s pos = Some r" "None \<notin> set choices" "0 \<le> v" "v < int CHUNKS"
    and "bytes_read s = pos" "file_size s = length f"
  shows "(\<exists>a d. o_sh r = store_chunk (nat v) d (s\<lparr>attempts := a\<rparr>) \<and> d = take (length d) (drop pos f) \<and> d \<noteq> [] \<and>
      length d \<le> CHUNK_SIZE \<and> o_file r = pos + length d \<and> o_sent r = Some v \<and> \<not> o_ignore r)
    \<or> (\<exists>a e. o_sh r = s\<lparr>attempts := a, producer_ended := e\<rparr> \<and> length f \<le> pos \<and> o_file r = pos \<and> o_sent r = None \<and>
      o_ignore r \<and> (pos = length f \<longrightarrow> e = PROD_END_SUCC))"
proof -
  obtain x s1 where rl: "read_loop f pos choices s = Some (x, s1)"
    using assms by (auto simp: producer_handler_def split: option.splits if_splits)
  obtain a where s1: "s1 = s\<lparr>attempts := a\<rparr>" using read_loop_result[OF rl] by blast
  obtain n where "x = sys_read f pos (Some n)"
    using read_loop_result[OF rl] assms(2) by (metis not_None_eq)
  moreover obtain d where d: "x = Some d" using calculation by (simp add: sys_read_def file_read_def)
  ultimately have dd: "d = take (length d) (drop pos f)" "length d \<le> CHUNK_SIZE" "d = [] \<longrightarrow> length f \<le> pos"
    using sys_read_result[of f pos n d] by auto
  show ?thesis
  proof (cases d)
    case Nil
    then have "length f \<le> pos" using dd by simp
    moreover have "r = \<lparr>o_sh = s\<lparr>attempts := a, producer_ended := (if pos = length f then PROD_END_SUCC else PROD_END_FAIL)\<rparr>,
        o_file = pos, o_sent = None, o_ignore = True\<rparr>"
      using assms rl s1 d Nil by (simp add: producer_handler_def)
    ultimately show ?thesis
      by (intro disjI2 exI[of _ a] exI[of _ "if pos = length f then PROD_END_SUCC else PROD_END_FAIL"] conjI) simp_all
  next
    case (Cons b bs)
    then have "r = \<lparr>o_sh = store_chunk (nat v) d s1, o_file = pos + length d, o_sent = Some v, o_ignore = False\<rparr>"
      using assms(1,3,4) rl d by (simp add: producer_handler_def store_chunk_def Let_def)
    then have "o_sh r = store_chunk (nat v) d (s\<lparr>attempts := a\<rparr>)" "o_file r = pos + length d" "o_sent r = Some v"
      "\<not> o_ignore r" "d \<noteq> []"
      using s1 Cons by simp_all
    then show ?thesis using dd(1,2) by blast
  qed
qed

lemma consumer_handler_clean:
  assumes "consumer_handler ws True v s out = Some r" "None \<notin> set ws" "0 \<le> v" "v < int CHUNKS"
  shows "o_sh r = s" "o_file r = out @ chunk_bytes s (nat v)" "o_sent r = Some v" "\<not> o_ignore r"
  using assms write_loop_result[of ws "chunk_bytes s (nat v)" out]
  by (auto simp: consumer_handler_def split: option.splits prod.splits if_splits)

section \<open>The invariant\<close>

definition unsent :: "child_pc \<Rightarrow> int list" where
  "unsent c = (case c of C_Start \<Rightarrow> map int [0..<CHUNKS] | C_Send i \<Rightarrow> map int [i..<CHUNKS] | _ \<Rightarrow> [])"

definition pending :: "world \<Rightarrow> bytes" where
  "pending w = concat (map (\<lambda>v. chunk_bytes (sh w) (nat v)) (consq w))"

definition copy_inv :: "bytes \<Rightarrow> world \<Rightarrow> bool" where
  "copy_inv d w \<longleftrightarrow> geometry (sh w) \<and> fin w = d \<and> file_size (sh w) = length d \<and> bytes_read (sh w) = fpos w \<and>
     fpos w \<le> length d \<and> \<not> cons_ign w \<and>
     distinct (prodq w @ consq w @ unsent (cpc w)) \<and>
     (\<forall>v\<in>set (prodq w @ consq w). 0 \<le> v \<and> v < int CHUNKS) \<and>
     fout w @ pending w = take (fpos w) d \<and>
     (producer_ended (sh w) \<noteq> NOT_ENDED \<longrightarrow> producer_ended (sh w) = PROD_END_SUCC \<and> fpos w = length d) \<and>
     (\<forall>i. cpc w = C_Send i \<longrightarrow> i < CHUNKS) \<and> (cpc w = C_Start \<longrightarrow> fout w = [] \<and> prodq w = [] \<and> consq w = [])"

lemma copy_inv_same_data:
  assumes "copy_inv d w" "geometry s'" "buffer s' = buffer (sh w)" "consumer_chunks s' = consumer_chunks (sh w)"
  shows "concat (map (\<lambda>v. chunk_bytes s' (nat v)) (consq w)) = pending w"
  using assms chunk_bytes_cong[of s' "sh w"] by (simp add: pending_def)

lemma produce_inv:
  assumes "copy_inv d w" "deliver_producer choices True w = Some w'" "pid (sh w) \<noteq> 0" "None \<notin> set choices"
  shows "copy_inv d w'"
proof -
  obtain v q where q: "prodq w = v # q" using assms(2) by (cases "prodq w") (auto simp: deliver_producer_def)
  obtain r where r: "producer_handler (fin w) choices True v (sh w) (fpos w) = Some r"
    and w': "w' = w\<lparr>sh := o_sh r, fpos := o_file r, consq := enq_sig (cons_ign w) (o_sent r) (consq w),
         prodq := (if o_ignore r then [] else q), prod_ign := (prod_ign w \<or> o_ignore r),
         ppc := interrupt_parent (ppc w)\<rparr>"
    using assms(2,3) q by (auto simp: deliver_producer_def)
  note I = assms(1)[unfolded copy_inv_def]
  have v: "0 \<le> v" "v < int CHUNKS" and vn: "v \<notin> set (consq w)" and fin: "fin w = d" and le: "fpos w \<le> length d"
    and g: "geometry (sh w)" and ns: "producer_ended (sh w) \<noteq> NOT_ENDED \<longrightarrow> producer_ended (sh w) = PROD_END_SUCC \<and> fpos w = length d"
    using I q by auto
  have "bytes_read (sh w) = fpos w" "file_size (sh w) = length (fin w)" using I by auto
  from producer_handler_clean[OF r assms(4) v this] show ?thesis
    unfolding fin
  proof (elim disjE exE conjE)
    fix a e assume data: "o_sh r = store_chunk (nat v) e (sh w\<lparr>attempts := a\<rparr>)" "e = take (length e) (drop (fpos w) d)"
      "e \<noteq> []" "length e \<le> CHUNK_SIZE" "o_file r = fpos w + length e" "o_sent r = Some v" "\<not> o_ignore r"
    let ?s = "sh w\<lparr>attempts := a\<rparr>"
    have gs: "geometry ?s" using g by (simp add: geometry_def)
    have c: "nat v < CHUNKS" using v by simp
    note st = store_chunk_geometry[OF gs c data(4)]
    have same: "chunk_bytes (o_sh r) (nat u) = chunk_bytes (sh w) (nat u)" if "u \<in> set (consq w)" for u
    proof -
      have u: "0 \<le> u" "u < int CHUNKS" "u \<noteq> v" using that I vn by auto
      then have "nat u < CHUNKS" "nat u \<noteq> nat v" using v by (simp_all add: nat_less_iff eq_nat_nat_iff)
      then show ?thesis using st(3)[of "nat u"] data(1) chunk_bytes_cong[of ?s "sh w"] by simp
    qed
    have "consq w' = consq w @ [v]" using I data by (simp add: w' enq_sig_def)
    then have pend: "pending w' = pending w @ e"
      using same st(2) data(1) by (simp add: pending_def w' cong: map_cong)
    have "length e = min (length e) (length (drop (fpos w) d))" using data(2) by (metis length_take min.commute)
    then have fits: "fpos w + length e \<le> length d" using le by simp
    have "take (fpos w + length e) d = take (fpos w) d @ e" using data(2) by (simp add: take_add)
    then have "fout w' @ pending w' = take (fpos w') d" using I pend data(5) by (simp add: w' flip: append_assoc)
    moreover have "fpos w \<noteq> length d" using fits data(3) by auto
    ultimately show ?thesis using I data st(1) q fits ns v vn
      by (auto simp: copy_inv_def w' enq_sig_def store_chunk_def)
  next
    fix a e assume "o_sh r = sh w\<lparr>attempts := a, producer_ended := e\<rparr>" "length d \<le> fpos w"
      "o_file r = fpos w" "o_sent r = None" "o_ignore r" "fpos w = length d \<longrightarrow> e = PROD_END_SUCC"
    then have eof: "o_sh r = sh w\<lparr>attempts := a, producer_ended := PROD_END_SUCC\<rparr>" "fpos w = length d"
      "o_file r = fpos w" "o_sent r = None" "o_ignore r" using le by simp_all
    have "pending w' = pending w"
      using eof copy_inv_same_data[OF assms(1), of "o_sh r"] g by (simp add: pending_def w' enq_sig_def geometry_def)
    then show ?thesis using I eof q by (auto simp: copy_inv_def w' enq_sig_def geometry_def)
  qed
qed

lemma consume_inv:
  assumes "copy_inv d w" "deliver_consumer writes True w = Some w'" "ppc w \<noteq> P_Done" "None \<notin> set writes"
    and "cpc w \<noteq> C_Start"
  shows "copy_inv d w'"
proof -
  obtain v q where q: "consq w = v # q" using assms(2) by (cases "consq w") (auto simp: deliver_consumer_def)
  obtain r where r: "consumer_handler writes True v (sh w) (fout w) = Some r"
    and w': "w' = w\<lparr>sh := o_sh r, fout := o_file r, prodq := enq_sig (prod_ign w) (o_sent r) (prodq w),
         consq := (if o_ignore r then [] else q), cons_ign := (cons_ign w \<or> o_ignore r),
         cpc := interrupt_child (cpc w)\<rparr>"
    using assms(2,3) q by (auto simp: deliver_consumer_def)
  note I = assms(1)[unfolded copy_inv_def]
  have v: "0 \<le> v" "v < int CHUNKS" using I q by auto
  note h = consumer_handler_clean[OF r assms(4) v]
  have u: "unsent (interrupt_child (cpc w)) = unsent (cpc w)" "interrupt_child (cpc w) \<noteq> C_Start"
    "interrupt_child (cpc w) = C_Send i \<Longrightarrow> cpc w = C_Send i" for i
    using assms(5) by (auto simp: interrupt_child_def unsent_def split: child_pc.splits)
  have "fout w' @ pending w' = fout w @ pending w" using h q by (simp add: w' pending_def)
  then show ?thesis using I h q u by (auto simp: copy_inv_def w' enq_sig_def)
qed

lemma copy_step_inv:
  assumes "copy_inv d w" "copy_step True w w'"
  shows "copy_inv d w'"
  using assms(2)
proof (cases rule: copy_step_cases)
  case (produce choices ok)
  then show ?thesis using produce_inv[OF assms(1), of choices w'] by simp
next
  case (consume writes ok)
  then show ?thesis using consume_inv[OF assms(1), of writes w'] by simp
next
  case (opens parent f)
  have "pending w' = pending w" using opens copy_inv_same_data[OF assms(1), of "sh w'"] assms(1)
    by (simp add: child_open_def pending_def copy_inv_def geometry_def)
  then show ?thesis using assms(1) opens
    by (auto simp: copy_inv_def child_open_def unsent_def geometry_def sizes(3))
next
  case (sends i ok)
  have i: "i < CHUNKS" using assms(1) sends by (simp add: copy_inv_def)
  then have u: "map int [i..<CHUNKS] = int i # map int [Suc i..<CHUNKS]"
    by (simp add: upt_conv_Cons)
  then have "unsent (cpc w) = int i # unsent (if Suc i < CHUNKS then C_Send (Suc i) else C_Check)"
    using sends by (simp add: unsent_def)
  then show ?thesis using assms(1) sends i
    by (auto simp: copy_inv_def child_send_def enq_sig_def pending_def)
next
  case checks
  then show ?thesis using assms(1) by (auto simp: copy_inv_def child_check_def unsent_def pending_def)
next
  case (stores p)
  have "pending w' = pending w" using stores copy_inv_same_data[OF assms(1), of "sh w'"] assms(1)
    by (simp add: parent_store_pid_def pending_def copy_inv_def geometry_def)
  then show ?thesis using assms(1) stores by (auto simp: copy_inv_def parent_store_pid_def geometry_def)
next
  case tests
  then show ?thesis using assms(1) by (auto simp: copy_inv_def parent_check_def pending_def)
next
  case (reaps c)
  then show ?thesis using assms(1) by (auto simp: copy_inv_def pending_def)
qed

lemma copy_start_form:
  assumes "copy_start (Some d) a b c e g self f = Some w0"
  obtains s where "w0 = init_world d s" "init_shared_memory True True self (length d) f = Some s" "d \<noteq> []"
proof -
  from assms obtain s where "init_shared_memory b c self (length d) f = Some s" "w0 = init_world d s" "d \<noteq> []"
    by (auto simp: copy_start_def get_file_size_def split: option.splits if_splits)
  then show ?thesis using that by (simp add: init_shared_memory_def split: if_splits)
qed

lemma copy_start_inv:
  assumes "copy_start (Some d) a b c e g self f = Some w0"
  shows "copy_inv d w0"
proof -
  obtain s where "w0 = init_world d s" "init_shared_memory True True self (length d) f = Some s"
    using copy_start_form[OF assms] by blast
  then show ?thesis
    by (auto simp: copy_inv_def init_world_def init_shared_memory_def geometry_def unsent_def pending_def distinct_map)
qed

lemma copy_run_rtranclp: "copy_run True w w' \<Longrightarrow> (copy_step True)\<^sup>*\<^sup>* w w'"
proof (induction rule: copy_run.induct)
  case (step w w1 ok w2)
  then show ?case by (simp add: rtranclp.rtrancl_into_rtrancl)
qed simp

interpretation sigc: copy_protocol "copy_step True" "\<lambda>w. copy_inv (fin w) w" fin "\<lambda>w. take (fpos w) (fin w)" pending fout
proof
  show "copy_inv (fin w') w' \<and> fin w' = fin w" if "copy_inv (fin w) w" "copy_step True w w'" for w w'
    using copy_step_inv[OF that] by (simp add: copy_inv_def)
  show "fout w @ pending w = take (fpos w) (fin w)" if "copy_inv (fin w) w" for w
    using that by (simp add: copy_inv_def)
  show "prefix (take (fpos w) (fin w)) (fin w)" for w by (rule take_is_prefix)
qed

lemma copy_run_inv: "copy_run True w w' \<Longrightarrow> copy_inv d w \<Longrightarrow> copy_inv d w'"
  using sigc.runs[OF copy_run_rtranclp] by (metis copy_inv_def)

text \<open>
  C12: As long as every call succeeds, the output followed by the chunks announced to the consumer is
  what has been read of the input, whatever the interleaving and however short the reads and writes;
  no chunk is at once with the producer and with the consumer; and when the producer has ended and no
  chunk is left, the output is the whole file.
\<close>

theorem copy_in_order:
  assumes "copy_start (Some d) a b c e g self f = Some w0" "copy_run True w0 w"
  shows "fout w @ concat (map (\<lambda>v. chunk_bytes (sh w) (nat v)) (consq w)) = take (fpos w) d \<and>
    distinct (prodq w @ consq w) \<and>
    (producer_ended (sh w) \<noteq> NOT_ENDED \<and> consq w = [] \<longrightarrow> fout w = d)"
proof (intro conjI impI)
  have I: "copy_inv d w" by (rule copy_run_inv[OF assms(2) copy_start_inv[OF assms(1)]])
  show "fout w @ concat (map (\<lambda>v. chunk_bytes (sh w) (nat v)) (consq w)) = take (fpos w) d"
    "distinct (prodq w @ consq w)" using I by (auto simp: copy_inv_def pending_def)
  show "fout w = d" if "producer_ended (sh w) \<noteq> NOT_ENDED \<and> consq w = []"
    using I that by (simp add: copy_inv_def pending_def)
qed

section \<open>The exit code\<close>

lemma handlers_never_succeed:
  "consumer_ended s \<noteq> CONS_END_SUCC \<Longrightarrow> producer_handler f cs k v s pos = Some r \<Longrightarrow> consumer_ended (o_sh r) \<noteq> CONS_END_SUCC"
  "consumer_ended s \<noteq> CONS_END_SUCC \<Longrightarrow> consumer_handler ws k v s out = Some r' \<Longrightarrow> consumer_ended (o_sh r') \<noteq> CONS_END_SUCC"
  by (auto simp: producer_handler_def consumer_handler_def Let_def dest!: read_loop_result
    split: option.splits list.splits prod.splits if_splits)

lemma copy_step_never_succeeds:
  assumes "copy_step ok w w'" "consumer_ended (sh w) \<noteq> CONS_END_SUCC" "\<forall>c. cpc w = C_Done c \<longrightarrow> c = 1"
  shows "consumer_ended (sh w') \<noteq> CONS_END_SUCC \<and> (\<forall>c. cpc w' = C_Done c \<longrightarrow> c = 1)"
  using assms(1)
proof (cases rule: copy_step_cases)
  case (produce choices k)
  then show ?thesis using assms(2,3) handlers_never_succeed(1)
    by (fastforce simp: deliver_producer_def split: list.splits)
next
  case (consume writes k)
  then show ?thesis using assms(2,3) handlers_never_succeed(2)
    by (fastforce simp: deliver_consumer_def interrupt_child_def split: list.splits child_pc.splits)
qed (use assms(2,3) in \<open>auto simp: child_open_def child_send_def child_check_def parent_store_pid_def parent_check_def\<close>)

lemma copy_run_never_succeeds:
  "copy_run clean w w' \<Longrightarrow> consumer_ended (sh w) \<noteq> CONS_END_SUCC \<Longrightarrow> \<forall>c. cpc w = C_Done c \<longrightarrow> c = 1 \<Longrightarrow>
    consumer_ended (sh w') \<noteq> CONS_END_SUCC \<and> (\<forall>c. cpc w' = C_Done c \<longrightarrow> c = 1)"
  by (induction rule: copy_run.induct) (use copy_step_never_succeeds in blast)+

text \<open>
  The child always exits with code 1, also after a complete copy: no step marks the consumer as
  successful, because the signal whose handler does so is never sent.
\<close>

theorem copy_child_never_succeeds:
  assumes "copy_start (Some d) a b c e g self f = Some w0" "copy_run clean w0 w" "cpc w = C_Done n"
  shows "n = 1"
proof -
  obtain s where "w0 = init_world d s" "init_shared_memory True True self (length d) f = Some s"
    using copy_start_form[OF assms(1)] by blast
  then show ?thesis using copy_run_never_succeeds[OF assms(2)] assms(3)
    by (auto simp: init_world_def init_shared_memory_def)
qed

section \<open>Two runs\<close>

lemma copy_run_step: "copy_run clean w w1 \<Longrightarrow> copy_step True w1 w2 \<Longrightarrow> copy_run clean w w2"
  by (rule copy_run.step) auto

lemma copy_run_sends:
  assumes "copy_run clean w0 w" "cpc w = C_Send i" "i < CHUNKS" "\<not> prod_ign w" "ppc w \<noteq> P_Done"
  shows "copy_run clean w0 (w\<lparr>prodq := prodq w @ map int [i..<CHUNKS], cpc := C_Check\<rparr>)"
  using assms
proof (induction "CHUNKS - i" arbitrary: i w)
  case (Suc n)
  let ?w = "child_send True i w"
  have "copy_step True w ?w" using copy_step.sends[OF Suc(4), of True] Suc(7) by simp
  with Suc(3) have run: "copy_run clean w0 ?w" by (rule copy_run_step)
  have u: "map int [i..<CHUNKS] = int i # map int [Suc i..<CHUNKS]" using Suc(5) by (simp add: upt_conv_Cons)
  show ?case
  proof (cases "Suc i < CHUNKS")
    case True
    have w: "?w = w\<lparr>prodq := prodq w @ [int i], cpc := C_Send (Suc i)\<rparr>"
      using Suc(6,7) True by (simp add: child_send_def enq_sig_def)
    have "n = CHUNKS - Suc i" using Suc(2) by simp
    from Suc(1)[OF this run _ True] show ?thesis using w u Suc(6,7) by simp
  next
    case False
    then have "?w = w\<lparr>prodq := prodq w @ map int [i..<CHUNKS], cpc := C_Check\<rparr>"
      using Suc(5,6,7) u by (simp add: child_send_def enq_sig_def)
    then show ?thesis using run by simp
  qed
qed simp

lemma read_whole:
  assumes "length d \<le> CHUNK_SIZE" "d \<noteq> []"
  shows "sys_read d 0 (Some (length d)) = Some d" "sys_read d (length d) c \<noteq> None \<Longrightarrow> sys_read d (length d) c = Some []"
  using assms by (auto simp: sys_read_def file_read_def split: option.splits)

lemma first_chunk:
  assumes "length d \<le> CHUNK_SIZE" "d \<noteq> []"
  shows "producer_handler d [Some (length d)] k 0 s 0 =
    Some \<lparr>o_sh = (let s2 = store_chunk 0 d (s\<lparr>attempts := attempts s + 1\<rparr>) in if k then s2 else s2\<lparr>producer_ended := PROD_END_FAIL\<rparr>),
      o_file = length d, o_sent = (if k then Some 0 else None), o_ignore = False\<rparr>"
  using assms read_whole[OF assms] sizes(3)
  by (cases d) (simp_all add: producer_handler_def store_chunk_def Let_def)

lemma end_of_input:
  assumes "length d \<le> CHUNK_SIZE" "d \<noteq> []" "bytes_read s = length d" "file_size s = length d" "0 \<le> v" "v < int CHUNKS"
  shows "producer_handler d [Some 0] k v s (length d) =
    Some \<lparr>o_sh = s\<lparr>attempts := attempts s + 1, producer_ended := PROD_END_SUCC\<rparr>, o_file = length d, o_sent = None, o_ignore = True\<rparr>"
  using assms read_whole(2)[OF assms(1,2), of "Some 0"] by (simp add: producer_handler_def sys_read_def file_read_def)

lemma write_whole: "d \<noteq> [] \<Longrightarrow> write_loop [Some (length d)] d out = Some (True, out @ d)"
  by (cases d) simp_all

lemma chunk_queue: "map int [0..<CHUNKS] = 0 # 1 # map int [2..<CHUNKS]"
  by (simp add: CHUNKS_def upt_conv_Cons)

text \<open>Both runs begin with a child that has announced all chunks as free.\<close>

lemma copy_run_announced:
  assumes "copy_start (Some d) a b c e g self f = Some w0"
  obtains s where "copy_run clean w0 \<lparr>sh = s, fin = d, fpos = 0, fout = [], prodq = map int [0..<CHUNKS], consq = [],
      prod_ign = False, cons_ign = False, ppc = P_Forked, cpc = C_Check\<rparr>"
    and "geometry s" "pid s = 0" "producer_ended s = NOT_ENDED" "consumer_ended s = NOT_ENDED"
    "file_size s = length d" "bytes_read s = 0" "d \<noteq> []"
proof -
  obtain s where s: "w0 = init_world d s" "init_shared_memory True True self (length d) f = Some s" "d \<noteq> []"
    using copy_start_form[OF assms] by blast
  let ?s = "s\<lparr>ppid := self, fd_out := 4\<rparr>"
  have "copy_step True w0 (child_open True self 4 w0)" using s(1) by (intro copy_step.opens) (simp add: init_world_def)
  from copy_run_step[OF copy_run.start this] have "copy_run clean w0 (child_open True self 4 w0)" .
  from copy_run_sends[OF this, of 0]
  have "copy_run clean w0 \<lparr>sh = ?s, fin = d, fpos = 0, fout = [], prodq = map int [0..<CHUNKS], consq = [],
      prod_ign = False, cons_ign = False, ppc = P_Forked, cpc = C_Check\<rparr>"
    by (simp add: s(1) init_world_def child_open_def sizes(3))
  then show ?thesis
    using that[of ?s] s(2,3) copy_start_inv[OF assms] s(1)
    by (auto simp: init_shared_memory_def copy_inv_def geometry_def init_world_def)
qed

text \<open>
  A file that fits one chunk, every call succeeding, can leave both processes waiting for ever: the
  output is complete and nothing is pending, but the child tested the flag before the producer saw the
  end of the input and now pauses with no signal to come, and the parent waits for the child.
\<close>

theorem copy_can_hang:
  assumes "copy_start (Some d) a b c e g self f = Some w0" "length d \<le> CHUNK_SIZE"
  shows "\<exists>w. copy_run True w0 w \<and> ppc w = P_Wait \<and> cpc w = C_Pause \<and> fout w = d \<and>
    producer_ended (sh w) = PROD_END_SUCC \<and> (\<forall>ok w'. \<not> copy_step ok w w')"
proof -
  obtain s where run: "copy_run True w0 \<lparr>sh = s, fin = d, fpos = 0, fout = [], prodq = map int [0..<CHUNKS], consq = [],
      prod_ign = False, cons_ign = False, ppc = P_Forked, cpc = C_Check\<rparr>" (is "copy_run True w0 ?w2")
    and s: "geometry s" "pid s = 0" "producer_ended s = NOT_ENDED" "consumer_ended s = NOT_ENDED"
    "file_size s = length d" "bytes_read s = 0" "d \<noteq> []"
    by (rule copy_run_announced[OF assms(1)])
  let ?s3 = "s\<lparr>pid := 1\<rparr>"
  let ?w3 = "?w2\<lparr>sh := ?s3, ppc := P_Check\<rparr>"
  have "copy_step True ?w2 ?w3"
    using copy_step.stores[of ?w2 1] by (simp add: parent_store_pid_def)
  with run have r3: "copy_run True w0 ?w3" by (rule copy_run_step)
  define s4 where "s4 = store_chunk 0 d (?s3\<lparr>attempts := attempts s + 1\<rparr>)"
  let ?w4 = "?w3\<lparr>sh := s4, fpos := length d, consq := [0], prodq := 1 # map int [2..<CHUNKS]\<rparr>"
  have "deliver_producer [Some (length d)] True ?w3 = Some ?w4"
    using first_chunk[OF assms(2) s(7), of True ?s3]
    by (simp add: deliver_producer_def chunk_queue enq_sig_def interrupt_parent_def s4_def Let_def)
  then have "copy_step True ?w3 ?w4"
    using copy_step.produce[of ?w3 "[Some (length d)]" True ?w4] by simp
  with r3 have r4: "copy_run True w0 ?w4" by (rule copy_run_step)
  have "geometry (?s3\<lparr>attempts := attempts s + 1\<rparr>)" using s(1) by (simp add: geometry_def)
  then have "chunk_bytes s4 0 = d" using store_chunk_geometry(2) sizes(3) assms(2) by (simp add: s4_def)
  then have ch: "consumer_handler [Some (length d)] True 0 s4 [] =
    Some \<lparr>o_sh = s4, o_file = d, o_sent = Some 0, o_ignore = False\<rparr>"
    using write_whole[OF s(7)] sizes(3) by (simp add: consumer_handler_def)
  let ?w5 = "?w4\<lparr>fout := d, consq := [], prodq := 1 # map int [2..<CHUNKS] @ [0]\<rparr>"
  have "deliver_consumer [Some (length d)] True ?w4 = Some ?w5"
    using ch by (simp add: deliver_consumer_def enq_sig_def interrupt_child_def)
  then have "copy_step True ?w4 ?w5"
    using copy_step.consume[of ?w4 "[Some (length d)]" True ?w5] by simp
  with r4 have r5: "copy_run True w0 ?w5" by (rule copy_run_step)
  let ?w6 = "?w5\<lparr>cpc := C_Pause\<rparr>"
  have s4: "producer_ended s4 = NOT_ENDED" "consumer_ended s4 = NOT_ENDED" "bytes_read s4 = length d" "file_size s4 = length d" "pid s4 = 1"
    using s by (simp_all add: s4_def store_chunk_def)
  have "copy_step True ?w5 ?w6" using copy_step.checks[of ?w5] s4 by (simp add: child_check_def)
  with r5 have r6: "copy_run True w0 ?w6" by (rule copy_run_step)
  let ?s7 = "s4\<lparr>attempts := attempts s4 + 1, producer_ended := PROD_END_SUCC\<rparr>"
  let ?w7 = "?w6\<lparr>sh := ?s7, prodq := [], prod_ign := True\<rparr>"
  have "deliver_producer [Some 0] True ?w6 = Some ?w7"
    using end_of_input[OF assms(2) s(7), of s4 1 True] s4
    by (simp add: deliver_producer_def enq_sig_def interrupt_parent_def CHUNKS_def)
  then have "copy_step True ?w6 ?w7"
    using copy_step.produce[of ?w6 "[Some 0]" True ?w7] s4 by simp
  with r6 have r7: "copy_run True w0 ?w7" by (rule copy_run_step)
  let ?w8 = "?w7\<lparr>ppc := P_Wait\<rparr>"
  have "copy_step True ?w7 ?w8" using copy_step.tests[of ?w7] by (simp add: parent_check_def)
  with r7 have r8: "copy_run True w0 ?w8" by (rule copy_run_step)
  have "\<not> copy_step ok ?w8 w'" for ok w'
    by (auto elim!: copy_step_cases simp: deliver_producer_def deliver_consumer_def)
  then show ?thesis using r8 by (intro exI[of _ ?w8]) simp
qed

text \<open>
  A file that fits one chunk can be lost without notice: when the first signal reaches the parent
  before it has stored the child's pid, the chunk read is never announced, and the next signal
  overwrites the failure by success.  Both processes end, the output is empty.
\<close>

theorem copy_can_lose_chunk:
  assumes "copy_start (Some d) a b c e g self f = Some w0" "length d \<le> CHUNK_SIZE"
  shows "\<exists>w. copy_run False w0 w \<and> ppc w = P_Done \<and> cpc w = C_Done 1 \<and> fout w = [] \<and>
    producer_ended (sh w) = PROD_END_SUCC"
proof -
  obtain s where run: "copy_run False w0 \<lparr>sh = s, fin = d, fpos = 0, fout = [], prodq = map int [0..<CHUNKS], consq = [],
      prod_ign = False, cons_ign = False, ppc = P_Forked, cpc = C_Check\<rparr>" (is "copy_run False w0 ?w2")
    and s: "geometry s" "pid s = 0" "producer_ended s = NOT_ENDED" "consumer_ended s = NOT_ENDED"
    "file_size s = length d" "bytes_read s = 0" "d \<noteq> []"
    by (rule copy_run_announced[OF assms(1)])
  define s3 where "s3 = (store_chunk 0 d (s\<lparr>attempts := attempts s + 1\<rparr>))\<lparr>producer_ended := PROD_END_FAIL\<rparr>"
  let ?w3 = "?w2\<lparr>sh := s3, fpos := length d, prodq := 1 # map int [2..<CHUNKS]\<rparr>"
  have "deliver_producer [Some (length d)] True ?w2 = Some ?w3"
    using first_chunk[OF assms(2) s(7), of False s] s(2)
    by (simp add: deliver_producer_def chunk_queue enq_sig_def interrupt_parent_def s3_def Let_def)
  then have r3: "copy_run False w0 ?w3"
    using copy_run.step[OF run copy_step.produce[of ?w2 "[Some (length d)]" True ?w3]] by simp
  have s3: "bytes_read s3 = length d" "file_size s3 = length d" "consumer_ended s3 = NOT_ENDED"
    using s by (simp_all add: s3_def store_chunk_def)
  let ?s4 = "s3\<lparr>attempts := attempts s3 + 1, producer_ended := PROD_END_SUCC\<rparr>"
  let ?w4 = "?w3\<lparr>sh := ?s4, prodq := [], prod_ign := True\<rparr>"
  have "deliver_producer [Some 0] True ?w3 = Some ?w4"
    using end_of_input[OF assms(2) s(7), of s3 1] s3
    by (simp add: deliver_producer_def enq_sig_def interrupt_parent_def CHUNKS_def)
  then have r4: "copy_run False w0 ?w4"
    using copy_run.step[OF r3 copy_step.produce[of ?w3 "[Some 0]" True ?w4]] by simp
  let ?w5 = "?w4\<lparr>sh := ?s4\<lparr>pid := 1\<rparr>, ppc := P_Check\<rparr>"
  have "copy_step True ?w4 ?w5" using copy_step.stores[of ?w4 1] by (simp add: parent_store_pid_def)
  with r4 have r5: "copy_run False w0 ?w5" by (rule copy_run_step)
  have "copy_step True ?w5 (?w5\<lparr>ppc := P_Wait\<rparr>)" using copy_step.tests[of ?w5] by (simp add: parent_check_def)
  with r5 have r6: "copy_run False w0 (?w5\<lparr>ppc := P_Wait\<rparr>)" by (rule copy_run_step)
  let ?w7 = "?w5\<lparr>ppc := P_Wait, cpc := C_Done 1\<rparr>"
  have "copy_step True (?w5\<lparr>ppc := P_Wait\<rparr>) ?w7"
    using copy_step.checks[of "?w5\<lparr>ppc := P_Wait\<rparr>"] s3 by (simp add: child_check_def)
  with r6 have r7: "copy_run False w0 ?w7" by (rule copy_run_step)
  have "copy_step True ?w7 (?w7\<lparr>ppc := P_Done\<rparr>)" using copy_step.reaps[of ?w7 1] by simp
  with r7 have r8: "copy_run False w0 (?w7\<lparr>ppc := P_Done\<rparr>)" by (rule copy_run_step)
  show ?thesis by (rule exI[of _ "?w7\<lparr>ppc := P_Done\<rparr>"]) (use r8 in simp)
qed

lemma copy_start_example: "\<exists>w0. copy_start (Some ''x'') True True True True True 1 3 = Some w0"
  by (simp add: copy_start_def get_file_size_def init_shared_memory_def)

lemma one_chunk: "length ''x'' \<le> CHUNK_SIZE"
  by (simp add: CHUNK_SIZE_def SHM_SIZE_def CHUNKS_def)

theorem copy_can_hang_witness:
  "\<exists>w0 w. copy_start (Some ''x'') True True True True True 1 3 = Some w0 \<and> copy_run True w0 w \<and>
    (\<forall>ok w'. \<not> copy_step ok w w')"
  using copy_start_example copy_can_hang[OF _ one_chunk] by meson

theorem copy_can_lose_chunk_witness:
  "\<exists>w0 w. copy_start (Some ''x'') True True True True True 1 3 = Some w0 \<and> copy_run False w0 w \<and> fout w = []"
  using copy_start_example copy_can_lose_chunk[OF _ one_chunk] by meson

lemma announced_example:
  "\<exists>w0 w. copy_start (Some ''x'') True True True True True 1 3 = Some w0 \<and> copy_run clean w0 w \<and> cpc w = C_Check"
proof -
  obtain w0 where w0: "copy_start (Some ''x'') True True True True True 1 3 = Some w0"
    using copy_start_example by blast
  then show ?thesis by (rule copy_run_announced[where clean = clean]) (use w0 in fastforce)
qed

theorem copy_in_order_witness:
  "\<exists>w0 w. copy_start (Some ''x'') True True True True True 1 3 = Some w0 \<and> copy_run True w0 w \<and>
    cpc w = C_Check \<and> distinct (prodq w @ consq w)"
  using announced_example copy_in_order by meson

theorem copy_child_never_succeeds_witness:
  "\<exists>w0 w n. copy_start (Some ''x'') True True True True True 1 3 = Some w0 \<and> copy_run False w0 w \<and> cpc w = C_Done n \<and> n = 1"
proof -
  obtain w0 where w0: "copy_start (Some ''x'') True True True True True 1 3 = Some w0"
    using copy_start_example by blast
  then have "cpc w0 = C_Start" by (auto simp: init_world_def elim: copy_start_form)
  then have "copy_step False w0 (child_open False 1 4 w0)" by (rule copy_step.opens)
  with copy_run.start have run: "copy_run False w0 (child_open False 1 4 w0)" by (rule copy_run.step) simp
  have c: "cpc (child_open False 1 4 w0) = C_Done 1" by (simp add: child_open_def)
  from copy_child_never_succeeds[OF w0 run c] w0 run c show ?thesis by blast
qed

end
