(* ===== verification/Shm_Transfer.thy ===== *)
theory Shm_Transfer
  imports Copy_Protocol
begin

text \<open>
  src/sem\_3/homework/src/shm\_main.c: a file is copied by two processes through a buffer in shared
  memory with two semaphores.  The parent fills the buffer, the child writes it out.
\<close>

section \<open>The shared memory and the semaphores\<close>

definition SHM_SIZE_3 :: nat where "SHM_SIZE_3 = 4096 * 1024"

record SharedBuffer =
  buf_size3 :: nat
  buffer3 :: bytes
  eof :: bool

datatype shm_parent = SP_Wait | SP_Read | SP_Signal | SP_SignalEof | SP_SignalErr | SP_Close | SP_Done
datatype shm_child = SC_Start | SC_Wait | SC_Test | SC_Write nat | SC_Signal | SC_SignalEof | SC_Done int

text \<open>The semaphores are removed when the parent ends, \<open>gone\<close>; every operation fails from then on.\<close>

record shm_world =
  shd :: SharedBuffer
  s_in :: bytes
  s_pos :: nat
  s_out :: bytes
  sem0 :: nat
  sem1 :: nat
  gone :: bool
  sp :: shm_parent
  sc :: shm_child

text \<open>The start: the segment may hold anything, an older run may have left it.\<close>

definition shm_start :: "bytes \<Rightarrow> SharedBuffer \<Rightarrow> shm_world" where
  "shm_start d s = \<lparr>shd = s, s_in = d, s_pos = 0, s_out = [], sem0 = 1, sem1 = 0, gone = False,
     sp = SP_Wait, sc = SC_Start\<rparr>"

text \<open>
  \<open>sem_wait\<close> and \<open>sem_signal\<close> of one of the two semaphores: \<open>None\<close> while the call blocks, otherwise
  whether it succeeds.
\<close>

definition sem_wait :: "bool \<Rightarrow> nat \<Rightarrow> (bool \<times> nat) option" where
  "sem_wait removed n = (if removed then Some (False, n) else case n of 0 \<Rightarrow> None | Suc k \<Rightarrow> Some (True, k))"

definition sem_signal :: "bool \<Rightarrow> nat \<Rightarrow> bool \<times> nat" where
  "sem_signal removed n = (if removed then (False, n) else (True, Suc n))"

section \<open>The parent\<close>

text \<open>The flag \<open>ok\<close> of an operation: the system call is not interrupted and does not fail by itself.\<close>

definition shm_p_wait :: "bool \<Rightarrow> shm_world \<Rightarrow> shm_world option" where
  "shm_p_wait ok w = (if \<not> ok then Some (w\<lparr>sp := SP_Close\<rparr>)
     else case sem_wait (gone w) (sem0 w) of None \<Rightarrow> None
     | Some (True, n) \<Rightarrow> Some (w\<lparr>sem0 := n, sp := SP_Read\<rparr>)
     | Some (False, n) \<Rightarrow> Some (w\<lparr>sp := SP_Close\<rparr>))"

definition shm_p_read :: "nat option \<Rightarrow> shm_world \<Rightarrow> shm_world" where
  "shm_p_read choice w = (case file_read SHM_SIZE_3 (s_in w) (s_pos w) choice of
     None \<Rightarrow> w\<lparr>sp := SP_SignalErr\<rparr>
   | Some d \<Rightarrow> if d \<noteq> []
       then w\<lparr>shd := \<lparr>buf_size3 = length d, buffer3 = d @ drop (length d) (buffer3 (shd w)), eof = False\<rparr>,
              s_pos := s_pos w + length d, sp := SP_Signal\<rparr>
       else w\<lparr>shd := (shd w)\<lparr>eof := True, buf_size3 := 0\<rparr>, sp := SP_SignalEof\<rparr>)"

definition shm_p_signal :: "bool \<Rightarrow> shm_world \<Rightarrow> shm_world" where
  "shm_p_signal ok w = (case sem_signal (gone w \<or> \<not> ok) (sem1 w) of (r, n) \<Rightarrow>
     w\<lparr>sem1 := n, sp := (if r then SP_Wait else SP_Close)\<rparr>)"

definition shm_p_signal_eof :: "bool \<Rightarrow> shm_world \<Rightarrow> shm_world" where
  "shm_p_signal_eof ok w = (case sem_signal (gone w \<or> \<not> ok) (sem1 w) of (r, n) \<Rightarrow> w\<lparr>sem1 := n, sp := SP_Close\<rparr>)"

definition shm_p_signal_err :: "bool \<Rightarrow> shm_world \<Rightarrow> shm_world" where
  "shm_p_signal_err ok w = (case sem_signal (gone w \<or> \<not> ok) (sem0 w) of (r, n) \<Rightarrow> w\<lparr>sem0 := n, sp := SP_Close\<rparr>)"

definition shm_p_close :: "shm_world \<Rightarrow> shm_world" where
  "shm_p_close w = w\<lparr>gone := True, sp := SP_Done\<rparr>"

section \<open>The child\<close>

definition shm_c_open :: "bool \<Rightarrow> shm_world \<Rightarrow> shm_world" where
  "shm_c_open ok w = (if ok then w\<lparr>s_out := [], sc := SC_Wait\<rparr> else w\<lparr>sc := SC_Done 1\<rparr>)"

definition shm_c_wait :: "bool \<Rightarrow> shm_world \<Rightarrow> shm_world option" where
  "shm_c_wait ok w = (if \<not> ok then Some (w\<lparr>sc := SC_Done 1\<rparr>)
     else case sem_wait (gone w) (sem1 w) of None \<Rightarrow> None
     | Some (True, n) \<Rightarrow> Some (w\<lparr>sem1 := n, sc := SC_Test\<rparr>)
     | Some (False, n) \<Rightarrow> Some (w\<lparr>sc := SC_Done 1\<rparr>))"

definition shm_c_test :: "shm_world \<Rightarrow> shm_world" where
  "shm_c_test w = w\<lparr>sc := (if eof (shd w) then SC_SignalEof else SC_Write 0)\<rparr>"

text \<open>One turn of the write loop, with the result of \<open>write\<close>; \<open>None\<close> stands for an error.\<close>

definition shm_c_write :: "nat \<Rightarrow> nat option \<Rightarrow> shm_world \<Rightarrow> shm_world" where
  "shm_c_write k res w = (if k < buf_size3 (shd w)
     then case res of None \<Rightarrow> w\<lparr>sc := SC_Done 1\<rparr>
       | Some n \<Rightarrow> if n = 0 then w\<lparr>sc := SC_Done 1\<rparr>
           else let d = take n (drop k (take (buf_size3 (shd w)) (buffer3 (shd w))))
                in w\<lparr>s_out := s_out w @ d, sc := SC_Write (k + length d)\<rparr>
     else w\<lparr>sc := SC_Signal\<rparr>)"

definition shm_c_signal :: "bool \<Rightarrow> shm_world \<Rightarrow> shm_world" where
  "shm_c_signal ok w = (case sem_signal (gone w \<or> \<not> ok) (sem0 w) of (r, n) \<Rightarrow>
     w\<lparr>sem0 := n, sc := (if r then SC_Wait else SC_Done 1)\<rparr>)"

definition shm_c_signal_eof :: "bool \<Rightarrow> shm_world \<Rightarrow> shm_world" where
  "shm_c_signal_eof ok w = (case sem_signal (gone w \<or> \<not> ok) (sem0 w) of (r, n) \<Rightarrow>
     w\<lparr>sem0 := n, sc := SC_Done 0\<rparr>)"

section \<open>Both\<close>

text \<open>The first argument tells that no system call of the step fails by itself.\<close>

inductive shm_step :: "bool \<Rightarrow> shm_world \<Rightarrow> shm_world \<Rightarrow> bool" where
  p_wait: "sp w = SP_Wait \<Longrightarrow> shm_p_wait ok w = Some w' \<Longrightarrow> shm_step ok w w'"
| p_read: "sp w = SP_Read \<Longrightarrow> shm_step (choice \<noteq> None) w (shm_p_read choice w)"
| p_signal: "sp w = SP_Signal \<Longrightarrow> shm_step ok w (shm_p_signal ok w)"
| p_signal_eof: "sp w = SP_SignalEof \<Longrightarrow> shm_step ok w (shm_p_signal_eof ok w)"
| p_signal_err: "sp w = SP_SignalErr \<Longrightarrow> shm_step ok w (shm_p_signal_err ok w)"
| p_close: "sp w = SP_Close \<Longrightarrow> shm_step True w (shm_p_close w)"
| c_open: "sc w = SC_Start \<Longrightarrow> shm_step ok w (shm_c_open ok w)"
| c_wait: "sc w = SC_Wait \<Longrightarrow> shm_c_wait ok w = Some w' \<Longrightarrow> shm_step ok w w'"
| c_test: "sc w = SC_Test \<Longrightarrow> shm_step True w (shm_c_test w)"
| c_write: "sc w = SC_Write k \<Longrightarrow> shm_step (res \<noteq> None \<and> res \<noteq> Some 0) w (shm_c_write k res w)"
| c_signal: "sc w = SC_Signal \<Longrightarrow> shm_step ok w (shm_c_signal ok w)"
| c_signal_eof: "sc w = SC_SignalEof \<Longrightarrow> shm_step ok w (shm_c_signal_eof ok w)"

inductive_cases shm_step_elim: "shm_step ok w w'"

lemmas shm_step_cases [consumes 1, case_names p_wait p_read p_signal p_signal_eof p_signal_err p_close
  c_open c_wait c_test c_write c_signal c_signal_eof] = shm_step_elim

end
