(* ===== verification/Shm_Properties.thy ===== *)
theory Shm_Properties
  imports Shm_Transfer
begin

text \<open>
  The shared memory copy: mutual exclusion, completeness, absence of deadlock and the race at the end.
\<close>

section \<open>The invariant\<close>

text \<open>Who may touch the buffer, counting the tokens in the two semaphores.\<close>

definition parent_crit :: "shm_world \<Rightarrow> bool" where
  "parent_crit w \<longleftrightarrow> sp w \<in> {SP_Read, SP_Signal, SP_SignalEof, SP_SignalErr}"

definition child_crit :: "shm_world \<Rightarrow> bool" where
  "child_crit w \<longleftrightarrow> (case sc w of SC_Test \<Rightarrow> True | SC_Write k \<Rightarrow> True | SC_Signal \<Rightarrow> True | SC_SignalEof \<Rightarrow> True | _ \<Rightarrow> False)"

definition tokens3 :: "shm_world \<Rightarrow> nat" where
  "tokens3 w = sem0 w + sem1 w + of_bool (parent_crit w) + of_bool (child_crit w)"

definition closed :: "shm_world \<Rightarrow> bool" where
  "closed w \<longleftrightarrow> sp w = SP_Close \<or> sp w = SP_Done"

definition filled :: "shm_world \<Rightarrow> bytes" where
  "filled w = take (buf_size3 (shd w)) (buffer3 (shd w))"

text \<open>What has been read and not yet written.\<close>

definition shm_flight :: "shm_world \<Rightarrow> bytes" where
  "shm_flight w = (case sc w of SC_Write k \<Rightarrow> drop k (filled w)
     | _ \<Rightarrow> if \<not> eof (shd w) \<and> (sp w = SP_Signal \<or> sem1 w = 1 \<or> sc w = SC_Test) then filled w else [])"

definition shm_inv :: "shm_world \<Rightarrow> bool" where
  "shm_inv w \<longleftrightarrow>
     length (buffer3 (shd w)) = SHM_SIZE_3 \<and> buf_size3 (shd w) \<le> SHM_SIZE_3 \<and> s_pos w \<le> length (s_in w) \<and>
     tokens3 w \<le> 1 \<and> (\<not> gone w \<longrightarrow> tokens3 w = 1) \<and> (gone w \<longleftrightarrow> sp w = SP_Done) \<and>
     s_out w @ shm_flight w = take (s_pos w) (s_in w) \<and>
     sp w \<noteq> SP_SignalErr \<and>
     (sp w = SP_Signal \<longrightarrow> \<not> eof (shd w)) \<and>
     (closed w \<or> sp w = SP_SignalEof \<longrightarrow> eof (shd w) \<and> s_pos w = length (s_in w)) \<and>
     (\<not> closed w \<and> (sem1 w = 1 \<or> sc w = SC_Test) \<longrightarrow> \<not> eof (shd w)) \<and>
     (\<forall>k. sc w = SC_Write k \<longrightarrow> \<not> eof (shd w)) \<and>
     (sc w = SC_Signal \<longrightarrow> \<not> closed w) \<and>
     (sc w = SC_SignalEof \<longrightarrow> closed w) \<and>
     (\<forall>c. sc w = SC_Done c \<longrightarrow> closed w) \<and>
     (sc w = SC_Start \<longrightarrow> s_out w = [] \<and> shm_flight w = take (s_pos w) (s_in w))"

lemmas shm_inv_defs = shm_inv_def shm_flight_def filled_def tokens3_def parent_crit_def child_crit_def closed_def

lemma SHM_pos: "0 < SHM_SIZE_3" by (simp add: SHM_SIZE_3_def)

lemma shm_read_inv:
  assumes "shm_inv w" "sp w = SP_Read" "c \<noteq> None"
  shows "shm_inv (shm_p_read c w)"
proof -
  obtain d where d: "file_read SHM_SIZE_3 (s_in w) (s_pos w) c = Some d" using assms(3) by (auto simp: file_read_def)
  note r = file_read_result[OF d SHM_pos]
  have pos: "s_pos w \<le> length (s_in w)" using assms(1) by (simp add: shm_inv_def)
  have c: "sem0 w = 0" "sem1 w = 0" "\<not> child_crit w" "\<not> closed w"
    using assms(1,2) by (auto simp: shm_inv_def tokens3_def parent_crit_def closed_def)
  show ?thesis
  proof (cases d)
    case Nil
    then show ?thesis using d r(3) pos assms(1,2) c
      by (auto simp: shm_p_read_def shm_inv_defs split: shm_child.splits)
  next
    case (Cons b bs)
    then show ?thesis using d r(2,4,5) pos assms(1,2) c
      by (auto simp: shm_p_read_def shm_inv_defs split: shm_child.splits)
  qed
qed

lemma take_drop_length: "take n xs @ drop (length (take n xs)) xs = xs"
  by (metis append_take_drop_id drop_all length_take min_def nle_le)

lemma child_alone: "shm_inv w \<Longrightarrow> child_crit w \<Longrightarrow> sem0 w = 0 \<and> sem1 w = 0 \<and> \<not> parent_crit w"
  by (auto simp: shm_inv_def tokens3_def)

lemma shm_write_inv:
  assumes "shm_inv w" "sc w = SC_Write k" "res \<noteq> None" "res \<noteq> Some 0"
  shows "shm_inv (shm_c_write k res w)"
proof -
  have alone: "sem0 w = 0 \<and> sem1 w = 0 \<and> \<not> parent_crit w"
    by (rule child_alone[OF assms(1)]) (simp add: child_crit_def assms(2))
  have eof: "\<not> eof (shd w)" "\<not> closed w" using assms(1,2) by (auto simp: shm_inv_def)
  have out: "s_out w @ drop k (filled w) = take (s_pos w) (s_in w)" using assms(1,2) by (simp add: shm_inv_def shm_flight_def)
  show ?thesis
  proof (cases "k < buf_size3 (shd w)")
    case True
    obtain n where n: "res = Some n" "n \<noteq> 0" using assms(3,4) by auto
    let ?d = "take n (drop k (filled w))"
    have w': "shm_c_write k res w = w\<lparr>s_out := s_out w @ ?d, sc := SC_Write (k + length ?d)\<rparr>" (is "_ = ?w'")
      using True n by (simp add: shm_c_write_def filled_def Let_def)
    have "?d @ drop (k + length ?d) (filled w) = drop k (filled w)"
      using take_drop_length[of n "drop k (filled w)"] by (simp add: add.commute)
    then have "s_out ?w' @ shm_flight ?w' = take (s_pos w) (s_in w)"
      using out by (simp add: shm_flight_def filled_def)
    moreover have "tokens3 ?w' = tokens3 w" "closed ?w' = closed w"
      using assms(2) by (simp_all add: tokens3_def parent_crit_def child_crit_def closed_def)
    ultimately show ?thesis unfolding w' using assms(1,2) eof alone by (simp add: shm_inv_def)
  next
    case False
    then have w': "shm_c_write k res w = w\<lparr>sc := SC_Signal\<rparr>" (is "_ = ?w'") by (simp add: shm_c_write_def)
    have "drop k (filled w) = []" using False by (simp add: filled_def)
    then have "s_out ?w' @ shm_flight ?w' = take (s_pos w) (s_in w)"
      using out alone by (simp add: shm_flight_def parent_crit_def)
    moreover have "tokens3 ?w' = tokens3 w" "closed ?w' = closed w"
      using assms(2) by (simp_all add: tokens3_def parent_crit_def child_crit_def closed_def)
    ultimately show ?thesis unfolding w' using assms(1,2) eof by (simp add: shm_inv_def)
  qed
qed

lemma shm_step_inv:
  assumes "shm_inv w" "shm_step True w w'"
  shows "shm_inv w'"
  using assms(2)
proof (cases rule: shm_step_cases)
  case p_wait
  moreover have "\<not> gone w" using assms(1) p_wait by (simp add: shm_inv_def)
  ultimately obtain n where n: "sem0 w = Suc n" "w' = w\<lparr>sem0 := n, sp := SP_Read\<rparr>"
    by (auto simp: shm_p_wait_def sem_wait_def split: nat.splits)
  have "shm_flight w' = shm_flight w" "closed w' = closed w" "tokens3 w' = tokens3 w"
    using p_wait n by (auto simp: shm_flight_def filled_def closed_def tokens3_def parent_crit_def child_crit_def
      split: shm_child.splits)
  then show ?thesis using assms(1) p_wait n by (simp add: shm_inv_def)
next
  case (p_read choice)
  then show ?thesis using shm_read_inv[OF assms(1)] by simp
next
  case p_signal
  then show ?thesis using assms(1)
    by (auto simp: shm_p_signal_def sem_signal_def shm_inv_defs split: shm_child.splits)
next
  case p_signal_eof
  then show ?thesis using assms(1)
    by (auto simp: shm_p_signal_eof_def sem_signal_def shm_inv_defs split: shm_child.splits)
next
  case p_signal_err
  then show ?thesis using assms(1) by (simp add: shm_inv_def)
next
  case p_close
  then show ?thesis using assms(1) by (auto simp: shm_p_close_def shm_inv_defs split: shm_child.splits)
next
  case c_open
  then have w': "w' = w\<lparr>s_out := [], sc := SC_Wait\<rparr>" by (simp add: shm_c_open_def)
  have st: "sc w = SC_Start" by (rule c_open)
  have "shm_flight w' = shm_flight w" "closed w' = closed w" "tokens3 w' = tokens3 w"
    unfolding w' using st by (simp_all add: shm_flight_def filled_def closed_def tokens3_def parent_crit_def child_crit_def)
  then show ?thesis unfolding w' using assms(1) st by (simp add: shm_inv_def)
next
  case c_wait
  show ?thesis
  proof (cases "gone w")
    case True
    then have "w' = w\<lparr>sc := SC_Done 1\<rparr>" using c_wait by (simp add: shm_c_wait_def sem_wait_def)
    then show ?thesis using assms(1) c_wait True by (auto simp: shm_inv_defs)
  next
    case False
    then obtain n where n: "sem1 w = Suc n" "w' = w\<lparr>sem1 := n, sc := SC_Test\<rparr>"
      using c_wait by (auto simp: shm_c_wait_def sem_wait_def split: nat.splits)
    have t: "tokens3 w = 1" using False assms(1) by (simp add: shm_inv_def)
    then have "n = 0" using n by (simp add: tokens3_def)
    then show ?thesis using assms(1) c_wait n t by (simp add: shm_inv_defs split: if_splits)
  qed
next
  case c_test
  then show ?thesis using assms(1) by (auto simp: shm_c_test_def shm_inv_defs)
next
  case (c_write k res)
  then show ?thesis using shm_write_inv[OF assms(1)] by simp
next
  case c_signal
  then show ?thesis using assms(1)
    by (auto simp: shm_c_signal_def sem_signal_def shm_inv_defs split: if_splits)
next
  case c_signal_eof
  then show ?thesis using assms(1)
    by (auto simp: shm_c_signal_eof_def sem_signal_def shm_inv_defs split: if_splits)
qed

lemma shm_step_source: "shm_step ok w w' \<Longrightarrow> s_in w' = s_in w"
  by (auto elim!: shm_step_cases simp: shm_p_wait_def shm_p_read_def shm_p_signal_def shm_p_signal_eof_def
    shm_p_signal_err_def shm_p_close_def shm_c_open_def shm_c_wait_def shm_c_test_def shm_c_write_def
    shm_c_signal_def shm_c_signal_eof_def Let_def split: option.splits prod.splits bool.splits if_splits)

interpretation shmc: copy_protocol "shm_step True" shm_inv s_in "\<lambda>w. take (s_pos w) (s_in w)" shm_flight s_out
proof
  show "shm_inv w' \<and> s_in w' = s_in w" if "shm_inv w" "shm_step True w w'" for w w'
    using shm_step_inv[OF that] shm_step_source[OF that(2)] by blast
  show "s_out w @ shm_flight w = take (s_pos w) (s_in w)" if "shm_inv w" for w
    using that by (simp add: shm_inv_def)
  show "prefix (take (s_pos w) (s_in w)) (s_in w)" for w by (rule take_is_prefix)
qed

text \<open>A segment as this program leaves it behind, or a new one.\<close>

definition segment_ok :: "SharedBuffer \<Rightarrow> bool" where
  "segment_ok s \<longleftrightarrow> length (buffer3 s) = SHM_SIZE_3 \<and> buf_size3 s \<le> SHM_SIZE_3"

lemma shm_start_inv: "segment_ok s \<Longrightarrow> shm_inv (shm_start d s)"
  by (simp add: shm_start_def segment_ok_def shm_inv_defs)

text \<open>
  C13: In every interleaving in which no system call fails, the two processes are never both between
  their semaphore operations, the output is always a prefix of the input, and it is the whole input
  from the moment the parent leaves its loop, however the child ends after that.
\<close>

theorem shm_copy_correct:
  assumes "segment_ok s" "(shm_step True)\<^sup>*\<^sup>* (shm_start d s) w"
  shows "\<not> (parent_crit w \<and> child_crit w) \<and> prefix (s_out w) d \<and> (closed w \<longrightarrow> s_out w = d)"
proof (intro conjI impI)
  note run = assms(2) and start = shm_start_inv[OF assms(1), of d]
  have d: "s_in (shm_start d s) = d" by (simp add: shm_start_def)
  have I: "shm_inv w" "s_in w = d" using shmc.runs[OF run start] d by simp_all
  then show "\<not> (parent_crit w \<and> child_crit w)" by (auto simp: shm_inv_def tokens3_def)
  show "prefix (s_out w) d" using shmc.out_is_prefix[OF run start] d by simp
  show "s_out w = d" if "closed w"
  proof -
    have "eof (shd w)" "s_pos w = length (s_in w)" using I(1) that by (auto simp: shm_inv_def)
    moreover from this have "shm_flight w = []" using I(1) by (auto simp: shm_flight_def shm_inv_def split: shm_child.splits)
    ultimately show ?thesis using shmc.complete[OF run start] d by simp
  qed
qed

section \<open>The copy comes to its end\<close>

lemma shm_progress:
  assumes "shm_inv w"
  shows "(sp w = SP_Done \<and> (\<exists>c. sc w = SC_Done c)) \<or> (\<exists>w'. shm_step True w w')"
proof -
  have child: "child_crit w \<Longrightarrow> \<exists>w'. shm_step True w w'"
    using shm_step.c_test[of w] shm_step.c_write[of w _ "Some 1"] shm_step.c_signal[of w True] shm_step.c_signal_eof[of w True]
    by (auto simp: child_crit_def split: shm_child.splits)
  have waiting: "sc w = SC_Wait \<Longrightarrow> gone w \<or> 0 < sem1 w \<Longrightarrow> \<exists>w'. shm_step True w w'"
    using shm_step.c_wait[of w True] by (cases "gone w"; cases "sem1 w") (auto simp: shm_c_wait_def sem_wait_def)
  have start: "sc w = SC_Start \<Longrightarrow> \<exists>w'. shm_step True w w'" using shm_step.c_open[of w True] by blast
  show ?thesis
  proof (cases "sp w")
    case SP_Wait
    then have "\<not> gone w" "tokens3 w = 1" "\<not> closed w" using assms by (auto simp: shm_inv_def closed_def)
    moreover from this have "\<forall>c. sc w \<noteq> SC_Done c" using assms by (auto simp: shm_inv_def)
    moreover have "0 < sem0 w \<Longrightarrow> \<exists>w'. shm_step True w w'"
      using shm_step.p_wait[OF SP_Wait, of True] \<open>\<not> gone w\<close>
      by (cases "sem0 w") (auto simp: shm_p_wait_def sem_wait_def)
    ultimately show ?thesis using child waiting start SP_Wait
      by (cases "0 < sem0 w"; cases "sc w") (auto simp: tokens3_def parent_crit_def child_crit_def)
  next
    case SP_Read
    then show ?thesis using shm_step.p_read[of w "Some 0"] by auto
  next
    case SP_Done
    then have "gone w" using assms by (simp add: shm_inv_def)
    then show ?thesis using child waiting start SP_Done by (cases "sc w") (auto simp: child_crit_def)
  qed (use shm_step.p_signal[of w True] shm_step.p_signal_eof[of w True] shm_step.p_signal_err[of w True]
    shm_step.p_close[of w] in blast)+
qed

text \<open>Every step brings the copy nearer to its end.\<close>

definition shm_rank :: "shm_world \<Rightarrow> nat" where
  "shm_rank w = 20 * (length (s_in w) - s_pos w) + 2 * length (shm_flight w) +
     2 * sem0 w + 7 * sem1 w +
     (case sp w of SP_Wait \<Rightarrow> 40 | SP_Read \<Rightarrow> 41 | SP_Signal \<Rightarrow> 48 | SP_SignalEof \<Rightarrow> 18 | SP_Close \<Rightarrow> 1 | _ \<Rightarrow> 0) +
     (case sc w of SC_Start \<Rightarrow> 2 | SC_Wait \<Rightarrow> 1 | SC_Test \<Rightarrow> 6 | SC_Write k \<Rightarrow> 5 | SC_Signal \<Rightarrow> 4 | SC_SignalEof \<Rightarrow> 4
      | SC_Done c \<Rightarrow> 0)"

lemma parent_alone: "shm_inv w \<Longrightarrow> parent_crit w \<Longrightarrow> sem0 w = 0 \<and> sem1 w = 0 \<and> \<not> child_crit w"
  by (auto simp: shm_inv_def tokens3_def)

lemma shm_rank_read:
  assumes "shm_inv w" "sp w = SP_Read" "c \<noteq> None"
  shows "shm_rank (shm_p_read c w) < shm_rank w"
proof -
  obtain d where d: "file_read SHM_SIZE_3 (s_in w) (s_pos w) c = Some d" using assms(3) by (auto simp: file_read_def)
  note r = file_read_result[OF d SHM_pos]
  have al: "sem0 w = 0 \<and> sem1 w = 0 \<and> \<not> child_crit w"
    by (rule parent_alone[OF assms(1)]) (simp add: parent_crit_def assms(2))
  then have sc: "sc w \<noteq> SC_Test" "\<And>k. sc w \<noteq> SC_Write k" by (auto simp: child_crit_def)
  have pos: "s_pos w \<le> length (s_in w)" using assms(1) by (simp add: shm_inv_def)
  show ?thesis
  proof (cases "d = []")
    case True
    have "length (shm_flight (shm_p_read c w)) = 0" "length (shm_flight w) = 0"
      using True d al sc assms(2) by (simp_all add: shm_p_read_def shm_flight_def split: shm_child.splits)
    then show ?thesis using True d assms(2) by (simp add: shm_rank_def shm_p_read_def)
  next
    case False
    have "length (shm_flight (shm_p_read c w)) = length d" "length (shm_flight w) = 0"
      using False d al sc assms(2) by (simp_all add: shm_p_read_def shm_flight_def filled_def split: shm_child.splits)
    moreover have "0 < length d" "s_pos w + length d \<le> length (s_in w)" using False r(5) pos by simp_all
    moreover from this have "7 + (20 * (length (s_in w) - (s_pos w + length d)) + 2 * length d) < 20 * (length (s_in w) - s_pos w)"
      by linarith
    ultimately show ?thesis using False d assms(2) by (simp add: shm_rank_def shm_p_read_def)
  qed
qed

lemma shm_rank_write:
  assumes "shm_inv w" "sc w = SC_Write k" "res \<noteq> None" "res \<noteq> Some 0"
  shows "shm_rank (shm_c_write k res w) < shm_rank w"
proof -
  have al: "sem0 w = 0 \<and> sem1 w = 0 \<and> \<not> parent_crit w"
    by (rule child_alone[OF assms(1)]) (simp add: child_crit_def assms(2))
  have len: "length (filled w) = buf_size3 (shd w)" using assms(1) by (simp add: filled_def shm_inv_def)
  show ?thesis
  proof (cases "k < buf_size3 (shd w)")
    case True
    obtain n where n: "res = Some n" "0 < n" using assms(3,4) by auto
    let ?d = "take n (drop k (filled w))"
    have w': "shm_c_write k res w = w\<lparr>s_out := s_out w @ ?d, sc := SC_Write (k + length ?d)\<rparr>" (is "_ = ?w'")
      using True n by (simp add: shm_c_write_def filled_def Let_def)
    have "0 < length ?d" using True n len by simp
    then have "buf_size3 (shd w) - (k + length ?d) < buf_size3 (shd w) - k" using True by linarith
    moreover have "length (shm_flight w) = buf_size3 (shd w) - k"
      "length (shm_flight ?w') = buf_size3 (shd w) - (k + length ?d)"
      using assms(2) len by (simp_all add: shm_flight_def filled_def)
    ultimately show ?thesis unfolding w' using assms(2) by (simp add: shm_rank_def)
  next
    case False
    then show ?thesis using assms(2) al len
      by (simp add: shm_c_write_def shm_rank_def shm_flight_def parent_crit_def filled_def)
  qed
qed

lemma shm_rank_step:
  assumes "shm_inv w" "shm_step True w w'"
  shows "shm_rank w' < shm_rank w"
  using assms(2)
proof (cases rule: shm_step_cases)
  case p_wait
  then have "\<not> gone w" using assms(1) by (simp add: shm_inv_def)
  then obtain n where "sem0 w = Suc n" "w' = w\<lparr>sem0 := n, sp := SP_Read\<rparr>"
    using p_wait by (auto simp: shm_p_wait_def sem_wait_def split: nat.splits)
  then show ?thesis using p_wait by (simp add: shm_rank_def shm_flight_def filled_def split: shm_child.splits)
next
  case (p_read choice)
  then show ?thesis using shm_rank_read[OF assms(1)] by simp
next
  case p_signal
  then have "sem1 w = 0 \<and> \<not> child_crit w" "\<not> gone w"
    using parent_alone[OF assms(1)] assms(1) by (auto simp: parent_crit_def shm_inv_def)
  then show ?thesis using p_signal
    by (auto simp: shm_p_signal_def sem_signal_def shm_rank_def shm_flight_def filled_def split: shm_child.splits)
next
  case p_signal_eof
  then have "sem1 w = 0 \<and> \<not> child_crit w" "\<not> gone w" "eof (shd w)"
    using parent_alone[OF assms(1)] assms(1) by (auto simp: parent_crit_def shm_inv_def)
  then show ?thesis using p_signal_eof
    by (auto simp: shm_p_signal_eof_def sem_signal_def shm_rank_def shm_flight_def filled_def split: shm_child.splits)
next
  case p_signal_err
  then show ?thesis using assms(1) by (simp add: shm_inv_def)
next
  case p_close
  then show ?thesis by (simp add: shm_p_close_def shm_rank_def shm_flight_def filled_def split: shm_child.splits)
next
  case c_open
  then show ?thesis by (simp add: shm_c_open_def shm_rank_def shm_flight_def filled_def)
next
  case c_wait
  show ?thesis
  proof (cases "gone w")
    case True
    then have "w' = w\<lparr>sc := SC_Done 1\<rparr>" using c_wait by (simp add: shm_c_wait_def sem_wait_def)
    then show ?thesis using c_wait by (simp add: shm_rank_def shm_flight_def filled_def)
  next
    case False
    then obtain n where "sem1 w = Suc n" "w' = w\<lparr>sem1 := n, sc := SC_Test\<rparr>"
      using c_wait by (auto simp: shm_c_wait_def sem_wait_def split: nat.splits)
    moreover from this have "n = 0" using assms(1) by (simp add: shm_inv_def tokens3_def)
    ultimately show ?thesis using c_wait by (simp add: shm_rank_def shm_flight_def filled_def)
  qed
next
  case c_test
  then show ?thesis by (simp add: shm_c_test_def shm_rank_def shm_flight_def filled_def)
next
  case (c_write k res)
  then show ?thesis using shm_rank_write[OF assms(1)] by simp
next
  case c_signal
  then have "sem0 w = 0 \<and> sem1 w = 0 \<and> \<not> parent_crit w" "\<not> gone w"
    using child_alone[OF assms(1)] assms(1) by (auto simp: child_crit_def shm_inv_def closed_def)
  then show ?thesis using c_signal
    by (simp add: shm_c_signal_def sem_signal_def shm_rank_def shm_flight_def filled_def parent_crit_def)
next
  case c_signal_eof
  then have "sem0 w = 0 \<and> sem1 w = 0 \<and> \<not> parent_crit w"
    using child_alone[OF assms(1)] by (simp add: child_crit_def)
  then show ?thesis using c_signal_eof
    by (simp add: shm_c_signal_eof_def sem_signal_def shm_rank_def shm_flight_def filled_def parent_crit_def)
qed

interpretation shmr: bounded_runs "shm_step True" shm_inv shm_rank
  by unfold_locales (fact shm_step_inv, fact shm_rank_step)

text \<open>
  C14: The copy always comes to its end: without failing system calls no run has more than
  20 times the length of the file plus 44 steps, and a run that cannot be continued has both
  processes finished and the output equal to the input.
\<close>

theorem shm_copy_terminates:
  assumes "segment_ok s"
  shows "((shm_step True ^^ n) (shm_start d s) w \<longrightarrow> n \<le> 20 * length d + 44) \<and>
    ((shm_step True)\<^sup>*\<^sup>* (shm_start d s) w \<and> (\<nexists>w'. shm_step True w w') \<longrightarrow>
      sp w = SP_Done \<and> (\<exists>c. sc w = SC_Done c) \<and> s_out w = d)"
proof (rule conjI; rule impI)
  note start = shm_start_inv[OF assms, of d]
  have rank: "shm_rank (shm_start d s) \<le> 20 * length d + 44"
    by (simp add: shm_rank_def shm_start_def shm_flight_def)
  show "n \<le> 20 * length d + 44" if "(shm_step True ^^ n) (shm_start d s) w"
    using shmr.run_length[OF that start] rank by linarith
  show "sp w = SP_Done \<and> (\<exists>c. sc w = SC_Done c) \<and> s_out w = d"
    if run_stuck: "(shm_step True)\<^sup>*\<^sup>* (shm_start d s) w \<and> (\<nexists>w'. shm_step True w w')"
  proof -
    note run = conjunct1[OF run_stuck] and stuck = conjunct2[OF run_stuck]
    have I: "shm_inv w" "s_in w = d" using shmc.runs[OF run start] by (simp_all add: shm_start_def)
    then have fin: "sp w = SP_Done" "\<exists>c. sc w = SC_Done c" using shm_progress stuck by blast+
    then have "eof (shd w)" "s_pos w = length (s_in w)" "shm_flight w = []"
      using I(1) by (auto simp: shm_inv_def closed_def shm_flight_def)
    then have "s_out w = d" using I by (simp add: shm_inv_def)
    with fin show ?thesis by blast
  qed
qed

text \<open>An empty file in a new segment, and the first step of the parent.\<close>

lemma segment_new: "segment_ok \<lparr>buf_size3 = 0, buffer3 = replicate SHM_SIZE_3 (CHR 0x00), eof = False\<rparr>"
  by (simp add: segment_ok_def)

theorem shm_copy_correct_witness:
  "\<exists>s w. (shm_step True)\<^sup>*\<^sup>* (shm_start ''ab'' s) w \<and> parent_crit w \<and> \<not> child_crit w \<and> prefix (s_out w) ''ab''"
proof -
  let ?s = "\<lparr>buf_size3 = 0, buffer3 = replicate SHM_SIZE_3 (CHR 0x00), eof = False\<rparr>"
  let ?w = "(shm_start ''ab'' ?s)\<lparr>sem0 := 0, sp := SP_Read\<rparr>"
  have "shm_step True (shm_start ''ab'' ?s) ?w"
    by (rule shm_step.p_wait) (simp_all add: shm_start_def shm_p_wait_def sem_wait_def)
  then have run: "(shm_step True)\<^sup>*\<^sup>* (shm_start ''ab'' ?s) ?w" by (rule r_into_rtranclp)
  have "parent_crit ?w" by (simp add: parent_crit_def)
  with run shm_copy_correct[OF segment_new run] show ?thesis by blast
qed

lemma shm_empty_run:
  "(shm_step True)\<^sup>*\<^sup>* (shm_start [] \<lparr>buf_size3 = 0, buffer3 = replicate SHM_SIZE_3 (CHR 0x00), eof = False\<rparr>)
     \<lparr>shd = \<lparr>buf_size3 = 0, buffer3 = replicate SHM_SIZE_3 (CHR 0x00), eof = True\<rparr>, s_in = [], s_pos = 0,
      s_out = [], sem0 = 0, sem1 = 1, gone = True, sp = SP_Done, sc = SC_Done 1\<rparr>"
proof -
  let ?s0 = "\<lparr>buf_size3 = 0, buffer3 = replicate SHM_SIZE_3 (CHR 0x00), eof = False\<rparr>"
  let ?w0 = "shm_start [] ?s0"
  let ?w1 = "?w0\<lparr>sem0 := 0, sp := SP_Read\<rparr>"
  have "shm_step True ?w0 ?w1"
    by (rule shm_step.p_wait) (simp_all add: shm_start_def shm_p_wait_def sem_wait_def)
  then have r: "(shm_step True)\<^sup>*\<^sup>* ?w0 ?w1" by (rule r_into_rtranclp)
  let ?w2 = "?w1\<lparr>shd := ?s0\<lparr>eof := True\<rparr>, sp := SP_SignalEof\<rparr>"
  have "shm_step True ?w1 ?w2"
    using shm_step.p_read[of ?w1 "Some 0"] by (simp add: shm_p_read_def file_read_def shm_start_def)
  with r have r: "(shm_step True)\<^sup>*\<^sup>* ?w0 ?w2" by (rule rtranclp.rtrancl_into_rtrancl)
  let ?w3 = "?w2\<lparr>sem1 := 1, sp := SP_Close\<rparr>"
  have "shm_step True ?w2 ?w3"
    using shm_step.p_signal_eof[of ?w2 True] by (simp add: shm_p_signal_eof_def sem_signal_def shm_start_def)
  with r have r: "(shm_step True)\<^sup>*\<^sup>* ?w0 ?w3" by (rule rtranclp.rtrancl_into_rtrancl)
  let ?w4 = "?w3\<lparr>gone := True, sp := SP_Done\<rparr>"
  have "shm_step True ?w3 ?w4" using shm_step.p_close[of ?w3] by (simp add: shm_p_close_def)
  with r have r: "(shm_step True)\<^sup>*\<^sup>* ?w0 ?w4" by (rule rtranclp.rtrancl_into_rtrancl)
  let ?w5 = "?w4\<lparr>sc := SC_Wait\<rparr>"
  have "shm_step True ?w4 ?w5" using shm_step.c_open[of ?w4 True] by (simp add: shm_c_open_def shm_start_def)
  with r have r: "(shm_step True)\<^sup>*\<^sup>* ?w0 ?w5" by (rule rtranclp.rtrancl_into_rtrancl)
  have "shm_step True ?w5 (?w5\<lparr>sc := SC_Done 1\<rparr>)"
    by (rule shm_step.c_wait) (simp_all add: shm_c_wait_def sem_wait_def)
  with r have r: "(shm_step True)\<^sup>*\<^sup>* ?w0 (?w5\<lparr>sc := SC_Done 1\<rparr>)" by (rule rtranclp.rtrancl_into_rtrancl)
  then show ?thesis by (simp add: shm_start_def)
qed

theorem shm_copy_terminates_witness:
  "\<exists>s w. (shm_step True)\<^sup>*\<^sup>* (shm_start [] s) w \<and> sp w = SP_Done \<and> sc w = SC_Done 1 \<and> s_out w = []"
proof -
  have stuck: "\<nexists>w'. shm_step True \<lparr>shd = \<lparr>buf_size3 = 0, buffer3 = replicate SHM_SIZE_3 (CHR 0x00), eof = True\<rparr>, s_in = [],
      s_pos = 0, s_out = [], sem0 = 0, sem1 = 1, gone = True, sp = SP_Done, sc = SC_Done 1\<rparr> w'"
    by (auto elim!: shm_step_cases)
  show ?thesis using shm_copy_terminates[OF segment_new] shm_empty_run stuck by fastforce
qed

end
