(* ===== verification/Queue_Transfer.thy ===== *)
theory Queue_Transfer
  imports Copy_Protocol
begin

text \<open>
  The other two copying programs of src/sem\_3: mq\_main.c sends the file through a System V message
  queue with a flag in shared memory, fifo\_main.c through a named pipe.
\<close>

section \<open>Through a message queue\<close>

definition MQ_SIZE :: nat where "MQ_SIZE = 4096"
definition EOF_MSG :: bytes where "EOF_MSG = ''EOF''"

datatype mq_parent = MP_Read | MP_Send nat | MP_Flag | MP_SendEof | MP_Wait | MP_Done int
datatype mq_child = MC_Start | MC_Recv | MC_Test nat | MC_Write nat | MC_Done int

text \<open>
  Each process has its own message buffer.  The queue holds at most \<open>q_max\<close> bytes.
\<close>

record mq_world =
  m_in :: bytes
  m_pos :: nat
  m_out :: bytes
  p_text :: bytes
  c_text :: bytes
  queue :: "bytes list"
  q_max :: nat
  eof_flag :: bool
  mp :: mq_parent
  mc :: mq_child

definition mq_start :: "bytes \<Rightarrow> nat \<Rightarrow> mq_world" where
  "mq_start d qm = \<lparr>m_in = d, m_pos = 0, m_out = [], p_text = replicate MQ_SIZE (CHR 0x00),
     c_text = replicate MQ_SIZE (CHR 0x00), queue = [], q_max = qm, eof_flag = False, mp = MP_Read, mc = MC_Start\<rparr>"

definition overlay :: "bytes \<Rightarrow> bytes \<Rightarrow> bytes" where
  "overlay d buf = d @ drop (length d) buf"

text \<open>\<open>msgsnd\<close> of the first \<open>n\<close> bytes of a buffer: \<open>None\<close> while it blocks.\<close>

definition msgsnd :: "nat \<Rightarrow> bytes \<Rightarrow> nat \<Rightarrow> bytes list \<Rightarrow> bytes list option" where
  "msgsnd n buf qm q = (if sum_list (map length q) + n \<le> qm then Some (q @ [take n buf]) else None)"

definition mq_p_read :: "nat option \<Rightarrow> mq_world \<Rightarrow> mq_world" where
  "mq_p_read choice w = (case file_read MQ_SIZE (m_in w) (m_pos w) choice of
     None \<Rightarrow> w\<lparr>mp := MP_Done 1\<rparr>
   | Some d \<Rightarrow> if d = [] then w\<lparr>mp := MP_Flag\<rparr>
       else w\<lparr>p_text := overlay d (p_text w), m_pos := m_pos w + length d, mp := MP_Send (length d)\<rparr>)"

text \<open>A failed \<open>msgsnd\<close> leaves the loop; what follows is the same as at the end of the file.\<close>

definition mq_p_send :: "bool \<Rightarrow> nat \<Rightarrow> mq_world \<Rightarrow> mq_world option" where
  "mq_p_send ok n w = (if \<not> ok then Some (w\<lparr>mp := MP_Flag\<rparr>)
     else map_option (\<lambda>q. w\<lparr>queue := q, mp := MP_Read\<rparr>) (msgsnd n (p_text w) (q_max w) (queue w)))"

definition mq_p_flag :: "mq_world \<Rightarrow> mq_world" where
  "mq_p_flag w = w\<lparr>eof_flag := True, p_text := overlay EOF_MSG (p_text w), mp := MP_SendEof\<rparr>"

definition mq_p_send_eof :: "bool \<Rightarrow> mq_world \<Rightarrow> mq_world option" where
  "mq_p_send_eof ok w = (if \<not> ok then Some (w\<lparr>mp := MP_Wait\<rparr>)
     else map_option (\<lambda>q. w\<lparr>queue := q, mp := MP_Wait\<rparr>) (msgsnd (length EOF_MSG) (p_text w) (q_max w) (queue w)))"

definition mq_c_open :: "bool \<Rightarrow> mq_world \<Rightarrow> mq_world" where
  "mq_c_open ok w = (if ok then w\<lparr>m_out := [], mc := MC_Recv\<rparr> else w\<lparr>mc := MC_Done 1\<rparr>)"

definition mq_c_recv :: "bool \<Rightarrow> mq_world \<Rightarrow> mq_world option" where
  "mq_c_recv ok w = (if \<not> ok then Some (w\<lparr>mc := MC_Done 1\<rparr>)
     else case queue w of [] \<Rightarrow> None
     | m # q \<Rightarrow> Some (w\<lparr>queue := q, c_text := overlay m (c_text w), mc := MC_Test (length m)\<rparr>))"

definition mq_c_test :: "nat \<Rightarrow> mq_world \<Rightarrow> mq_world" where
  "mq_c_test n w = w\<lparr>mc := (if eof_flag w \<and> take (length EOF_MSG) (c_text w) = EOF_MSG then MC_Done 0 else MC_Write n)\<rparr>"

definition mq_c_write :: "nat option list \<Rightarrow> nat \<Rightarrow> mq_world \<Rightarrow> mq_world option" where
  "mq_c_write rs n w = map_option (\<lambda>(ok, out). w\<lparr>m_out := out, mc := (if ok then MC_Recv else MC_Done 1)\<rparr>)
     (write_all rs (take n (c_text w)) (m_out w))"

inductive mq_step :: "bool \<Rightarrow> mq_world \<Rightarrow> mq_world \<Rightarrow> bool" where
  p_read: "mp w = MP_Read \<Longrightarrow> mq_step (choice \<noteq> None) w (mq_p_read choice w)"
| p_send: "mp w = MP_Send n \<Longrightarrow> mq_p_send ok n w = Some w' \<Longrightarrow> mq_step ok w w'"
| p_flag: "mp w = MP_Flag \<Longrightarrow> mq_step True w (mq_p_flag w)"
| p_send_eof: "mp w = MP_SendEof \<Longrightarrow> mq_p_send_eof ok w = Some w' \<Longrightarrow> mq_step ok w w'"
| p_wait: "mp w = MP_Wait \<Longrightarrow> mc w = MC_Done c \<Longrightarrow> mq_step True w (w\<lparr>mp := MP_Done 0\<rparr>)"
| c_open: "mc w = MC_Start \<Longrightarrow> mq_step ok w (mq_c_open ok w)"
| c_recv: "mc w = MC_Recv \<Longrightarrow> mq_c_recv ok w = Some w' \<Longrightarrow> mq_step ok w w'"
| c_test: "mc w = MC_Test n \<Longrightarrow> mq_step True w (mq_c_test n w)"
| c_write: "mc w = MC_Write n \<Longrightarrow> mq_c_write rs n w = Some w' \<Longrightarrow>
    mq_step (None \<notin> set rs \<and> Some 0 \<notin> set rs) w w'"

inductive_cases mq_step_elim: "mq_step ok w w'"

lemmas mq_step_cases [consumes 1, case_names p_read p_send p_flag p_send_eof p_wait c_open c_recv c_test c_write] =
  mq_step_elim

section \<open>Through a named pipe\<close>

definition BUF_SIZE_3 :: nat where "BUF_SIZE_3 = 4096"

text \<open>The parent may be killed by the signal for a pipe without readers.\<close>

datatype fifo_parent = FP_Open | FP_Read | FP_Write bytes | FP_Wait | FP_Done int | FP_Killed
datatype fifo_child = FC_Start | FC_Open | FC_Read | FC_Write bytes | FC_Done int

record fifo_world =
  f_in :: bytes
  f_pos :: nat
  f_out :: bytes
  pipe :: bytes
  pipe_cap :: nat
  node :: bool
  fpp :: fifo_parent
  fcc :: fifo_child

definition fifo_start :: "bytes \<Rightarrow> nat \<Rightarrow> fifo_world" where
  "fifo_start d cap = \<lparr>f_in = d, f_pos = 0, f_out = [], pipe = [], pipe_cap = cap, node = True,
     fpp = FP_Open, fcc = FC_Start\<rparr>"

definition writer_open :: "fifo_world \<Rightarrow> bool" where
  "writer_open w \<longleftrightarrow> (case fpp w of FP_Read \<Rightarrow> True | FP_Write r \<Rightarrow> True | _ \<Rightarrow> False)"

definition fifo_p_read :: "nat option \<Rightarrow> fifo_world \<Rightarrow> fifo_world" where
  "fifo_p_read choice w = (case file_read BUF_SIZE_3 (f_in w) (f_pos w) choice of
     None \<Rightarrow> w\<lparr>fpp := FP_Done 1\<rparr>
   | Some d \<Rightarrow> if d = [] then w\<lparr>fpp := FP_Wait\<rparr>
       else w\<lparr>f_pos := f_pos w + length d, fpp := FP_Write d\<rparr>)"

text \<open>
  One \<open>write\<close> into the pipe takes up to \<open>n\<close> bytes, as many as there is room for; it blocks while the pipe is
  full.
\<close>

definition fifo_p_write :: "bool \<Rightarrow> nat \<Rightarrow> bytes \<Rightarrow> fifo_world \<Rightarrow> fifo_world option" where
  "fifo_p_write ok n rest w =
     (if rest = [] then Some (w\<lparr>fpp := FP_Read\<rparr>)
      else if (\<exists>c. fcc w = FC_Done c) then Some (w\<lparr>fpp := FP_Killed\<rparr>)
      else if \<not> ok then Some (w\<lparr>fpp := FP_Done 1\<rparr>)
      else let room = pipe_cap w - length (pipe w); d = take (min (Suc n) room) rest in
        if room = 0 then None
        else Some (w\<lparr>pipe := pipe w @ d, fpp := FP_Write (drop (length d) rest)\<rparr>))"

definition fifo_p_wait :: "fifo_world \<Rightarrow> fifo_world" where
  "fifo_p_wait w = w\<lparr>node := False, fpp := FP_Done 0\<rparr>"

definition fifo_c_open_out :: "bool \<Rightarrow> fifo_world \<Rightarrow> fifo_world" where
  "fifo_c_open_out ok w = (if ok then w\<lparr>f_out := [], fcc := FC_Open\<rparr> else w\<lparr>fcc := FC_Done 1\<rparr>)"

text \<open>The two \<open>open\<close> calls on the pipe wait for each other.\<close>

definition fifo_rendezvous :: "fifo_world \<Rightarrow> fifo_world" where
  "fifo_rendezvous w = w\<lparr>fpp := FP_Read, fcc := FC_Read\<rparr>"

definition fifo_c_read :: "nat option \<Rightarrow> fifo_world \<Rightarrow> fifo_world option" where
  "fifo_c_read choice w =
     (if pipe w = [] \<and> writer_open w \<and> choice \<noteq> None then None
      else case file_read BUF_SIZE_3 (pipe w) 0 choice of
        None \<Rightarrow> Some (w\<lparr>node := False, fcc := FC_Done 0\<rparr>)
      | Some d \<Rightarrow> if d = [] then Some (w\<lparr>node := False, fcc := FC_Done 0\<rparr>)
          else Some (w\<lparr>pipe := drop (length d) (pipe w), fcc := FC_Write d\<rparr>))"

definition fifo_c_write :: "nat option list \<Rightarrow> bytes \<Rightarrow> fifo_world \<Rightarrow> fifo_world option" where
  "fifo_c_write rs d w = map_option (\<lambda>(ok, out). w\<lparr>f_out := out, fcc := (if ok then FC_Read else FC_Done 1)\<rparr>)
     (write_all rs d (f_out w))"

inductive fifo_step :: "bool \<Rightarrow> fifo_world \<Rightarrow> fifo_world \<Rightarrow> bool" where
  c_open_out: "fcc w = FC_Start \<Longrightarrow> fifo_step ok w (fifo_c_open_out ok w)"
| opens: "fpp w = FP_Open \<Longrightarrow> fcc w = FC_Open \<Longrightarrow> fifo_step True w (fifo_rendezvous w)"
| p_read: "fpp w = FP_Read \<Longrightarrow> fifo_step (choice \<noteq> None) w (fifo_p_read choice w)"
| p_write: "fpp w = FP_Write rest \<Longrightarrow> fifo_p_write ok n rest w = Some w' \<Longrightarrow> fifo_step ok w w'"
| p_wait: "fpp w = FP_Wait \<Longrightarrow> fcc w = FC_Done c \<Longrightarrow> fifo_step True w (fifo_p_wait w)"
| c_read: "fcc w = FC_Read \<Longrightarrow> fifo_c_read choice w = Some w' \<Longrightarrow> fifo_step (choice \<noteq> None) w w'"
| c_write: "fcc w = FC_Write d \<Longrightarrow> fifo_c_write rs d w = Some w' \<Longrightarrow>
    fifo_step (None \<notin> set rs \<and> Some 0 \<notin> set rs) w w'"

inductive_cases fifo_step_elim: "fifo_step ok w w'"

lemmas fifo_step_cases [consumes 1, case_names c_open_out opens p_read p_write p_wait c_read c_write] = fifo_step_elim

end
