(* ===== verification/Queue_Properties.thy ===== *)
theory Queue_Properties
  imports Queue_Transfer
begin

text \<open>
  The copies through a message queue and through a named pipe: conservation of the data, what the end
  of the child means, and the end marker that is also data.
\<close>

section \<open>The message queue\<close>

definition marker_free :: "bytes \<Rightarrow> bool" where
  "marker_free d \<longleftrightarrow> CHR ''E'' \<notin> set d"

definition payload :: "bytes \<Rightarrow> bytes" where
  "payload m = (if m = EOF_MSG then [] else m)"

text \<open>What the child has received and not written, and what the parent has read and not sent.\<close>

definition child_part :: "mq_child \<Rightarrow> bytes \<Rightarrow> bytes" where
  "child_part c buf = (case c of MC_Test n \<Rightarrow> payload (take n buf) | MC_Write n \<Rightarrow> take n buf | _ \<Rightarrow> [])"

definition parent_part :: "mq_parent \<Rightarrow> bytes \<Rightarrow> bytes" where
  "parent_part p buf = (case p of MP_Send n \<Rightarrow> take n buf | _ \<Rightarrow> [])"

lemma part_simps [simp]:
  "child_part MC_Start buf = []" "child_part MC_Recv buf = []" "child_part (MC_Done k) buf = []"
  "child_part (MC_Test n) buf = payload (take n buf)" "child_part (MC_Write n) buf = take n buf"
  "parent_part MP_Read buf = []" "parent_part MP_Flag buf = []" "parent_part MP_SendEof buf = []"
  "parent_part MP_Wait buf = []" "parent_part (MP_Done k) buf = []" "parent_part (MP_Send n) buf = take n buf"
  by (simp_all add: child_part_def parent_part_def)

definition mq_flight :: "mq_world \<Rightarrow> bytes" where
  "mq_flight w = child_part (mc w) (c_text w) @ concat (map payload (queue w)) @ parent_part (mp w) (p_text w)"

text \<open>Before the parent has sent the end marker.\<close>

definition sending :: "mq_parent \<Rightarrow> bool" where
  "sending p \<longleftrightarrow> (case p of MP_Wait \<Rightarrow> False | MP_Done c \<Rightarrow> False | _ \<Rightarrow> True)"

definition at_marker :: "mq_child \<Rightarrow> bytes \<Rightarrow> bool" where
  "at_marker c buf \<longleftrightarrow> (case c of MC_Test n \<Rightarrow> take n buf = EOF_MSG | MC_Done c \<Rightarrow> True | _ \<Rightarrow> False)"

lemma marker_simps [simp]:
  "sending MP_Read" "sending (MP_Send n)" "sending MP_Flag" "sending MP_SendEof" "\<not> sending MP_Wait" "\<not> sending (MP_Done k)"
  "\<not> at_marker MC_Start buf" "\<not> at_marker MC_Recv buf" "\<not> at_marker (MC_Write n) buf" "at_marker (MC_Done k) buf"
  "at_marker (MC_Test n) buf \<longleftrightarrow> take n buf = EOF_MSG"
  by (simp_all add: sending_def at_marker_def)

definition mq_inv :: "mq_world \<Rightarrow> bool" where
  "mq_inv w \<longleftrightarrow>
     marker_free (m_in w) \<and> m_pos w \<le> length (m_in w) \<and>
     m_out w @ mq_flight w = take (m_pos w) (m_in w) \<and>
     (\<forall>m\<in>set (queue w). m = EOF_MSG \<or> marker_free m) \<and>
     (sending (mp w) \<longrightarrow> EOF_MSG \<notin> set (queue w) \<and> \<not> at_marker (mc w) (c_text w)) \<and>
     EOF_MSG \<notin> set (butlast (queue w)) \<and>
     (\<not> sending (mp w) \<longrightarrow> eof_flag w \<and>
       (if at_marker (mc w) (c_text w) then queue w = [] else queue w \<noteq> [] \<and> last (queue w) = EOF_MSG)) \<and>
     (\<not> at_marker (mc w) (c_text w) \<longrightarrow> marker_free (c_text w)) \<and>
     (mp w \<in> {MP_Read, MP_Flag} \<or> (\<exists>n. mp w = MP_Send n) \<longrightarrow> marker_free (p_text w)) \<and>
     (mp w = MP_SendEof \<longrightarrow> take 3 (p_text w) = EOF_MSG \<and> eof_flag w) \<and>
     (mp w \<in> {MP_Flag, MP_SendEof} \<or> \<not> sending (mp w) \<longrightarrow> m_pos w = length (m_in w)) \<and>
     (mc w = MC_Start \<longrightarrow> m_out w = []) \<and>
     (\<forall>c. mc w = MC_Done c \<longrightarrow> c = 0) \<and> (\<forall>c. mp w = MP_Done c \<longrightarrow> c = 0)"

lemma marker_free_simps [simp]:
  "\<not> marker_free EOF_MSG" "marker_free (a @ b) \<longleftrightarrow> marker_free a \<and> marker_free b"
  by (auto simp: marker_free_def EOF_MSG_def)

lemma marker_free_take: "marker_free d \<Longrightarrow> marker_free (take n d)" "marker_free d \<Longrightarrow> marker_free (drop n d)"
  by (auto simp: marker_free_def dest: in_set_takeD in_set_dropD)

lemma marker_free_overlay: "marker_free d \<Longrightarrow> marker_free buf \<Longrightarrow> marker_free (overlay d buf)"
  by (simp add: overlay_def marker_free_take)

lemma take_overlay [simp]: "take (length d) (overlay d buf) = d"
  by (simp add: overlay_def)

lemma payload_free: "marker_free m \<Longrightarrow> payload m = m"
  by (auto simp: payload_def)

lemma EOF_length [simp]: "length EOF_MSG = 3"
  by (simp add: EOF_MSG_def)

lemma take_overlay_EOF [simp]: "take 3 (overlay EOF_MSG buf) = EOF_MSG"
  using take_overlay[of EOF_MSG buf] by simp

lemma msgsnd_queue: "msgsnd n buf qm q = Some q' \<Longrightarrow> q' = q @ [take n buf]"
  by (simp add: msgsnd_def split: if_splits)

lemma mq_read_inv:
  assumes "mq_inv w" "mp w = MP_Read" "c \<noteq> None"
  shows "mq_inv (mq_p_read c w)"
proof -
  obtain d where d: "file_read MQ_SIZE (m_in w) (m_pos w) c = Some d" using assms(3) by (auto simp: file_read_def)
  have "0 < MQ_SIZE" by (simp add: MQ_SIZE_def)
  note r = file_read_result[OF d this]
  note I = assms(1)[unfolded mq_inv_def]
  have pos: "m_pos w \<le> length (m_in w)" using I by simp
  have s: "sending (mp w)" using assms(2) by simp
  show ?thesis
  proof (cases "d = []")
    case True
    then have "mq_p_read c w = w\<lparr>mp := MP_Flag\<rparr>" using d by (simp add: mq_p_read_def)
    then show ?thesis using I s r(3)[OF True] pos assms(2)
      by (simp add: mq_inv_def mq_flight_def)
  next
    case False
    then have w': "mq_p_read c w = w\<lparr>p_text := overlay d (p_text w), m_pos := m_pos w + length d, mp := MP_Send (length d)\<rparr>"
      (is "_ = ?w") using d by (simp add: mq_p_read_def)
    have "mq_flight ?w = mq_flight w @ d" using assms(2) by (simp add: mq_flight_def)
    then have "m_out ?w @ mq_flight ?w = take (m_pos ?w) (m_in ?w)" using I r(4)[OF pos] by (simp flip: append_assoc)
    moreover have "marker_free d" using r(1) I marker_free_take by metis
    ultimately show ?thesis unfolding w' using I s r(5)[OF pos] assms(2)
      by (auto simp: mq_inv_def marker_free_overlay)
  qed
qed

lemma mq_recv_inv:
  assumes "mq_inv w" "mc w = MC_Recv" "queue w = m # q"
  shows "mq_inv (w\<lparr>queue := q, c_text := overlay m (c_text w), mc := MC_Test (length m)\<rparr>)" (is "mq_inv ?w")
proof -
  note I = assms(1)[unfolded mq_inv_def]
  have m: "m = EOF_MSG \<or> marker_free m" using I assms(3) by simp
  have free: "marker_free (c_text w)" using I assms(2) by simp
  have "mq_flight ?w = mq_flight w" using assms by (simp add: mq_flight_def)
  moreover have "m = EOF_MSG \<Longrightarrow> q = []" using I assms(3) by (cases q) auto
  moreover have "m \<noteq> EOF_MSG \<Longrightarrow> marker_free (overlay m (c_text w))" using m free marker_free_overlay by blast
  moreover have "sending (mp w) \<Longrightarrow> m \<noteq> EOF_MSG" using I assms(3) by auto
  moreover have "\<not> sending (mp w) \<Longrightarrow> m \<noteq> EOF_MSG \<Longrightarrow> q \<noteq> [] \<and> last q = EOF_MSG"
    using I assms(2,3) by (auto split: if_splits)
  ultimately show ?thesis using I assms(2,3)
    by (cases "m = EOF_MSG"; cases "sending (mp w)"; cases q) (auto simp: mq_inv_def)
qed

lemma mq_step_inv:
  assumes "mq_inv w" "mq_step True w w'"
  shows "mq_inv w'"
  using assms(2)
proof (cases rule: mq_step_cases)
  case (p_read choice)
  then show ?thesis using mq_read_inv[OF assms(1)] by simp
next
  case (p_send n)
  then obtain q where q: "msgsnd n (p_text w) (q_max w) (queue w) = Some q" "w' = w\<lparr>queue := q, mp := MP_Read\<rparr>"
    by (auto simp: mq_p_send_def)
  have qq: "q = queue w @ [take n (p_text w)]" by (rule msgsnd_queue[OF q(1)])
  have f: "marker_free (take n (p_text w))" using assms(1) p_send marker_free_take by (auto simp: mq_inv_def)
  have "take n (p_text w) \<noteq> EOF_MSG" using f by auto
  then show ?thesis using assms(1) p_send f by (auto simp: q(2) qq mq_inv_def mq_flight_def payload_free butlast_append)
next
  case p_flag
  then show ?thesis using assms(1)
    by (auto simp: mq_p_flag_def mq_inv_def mq_flight_def overlay_def)
next
  case p_send_eof
  then obtain q where q: "msgsnd (length EOF_MSG) (p_text w) (q_max w) (queue w) = Some q" "w' = w\<lparr>queue := q, mp := MP_Wait\<rparr>"
    by (auto simp: mq_p_send_eof_def)
  have "q = queue w @ [EOF_MSG]" using msgsnd_queue[OF q(1)] assms(1) p_send_eof by (simp add: mq_inv_def)
  then show ?thesis using assms(1) p_send_eof by (auto simp: q(2) mq_inv_def mq_flight_def payload_def butlast_append)
next
  case (p_wait c)
  then show ?thesis using assms(1) by (auto simp: mq_inv_def mq_flight_def)
next
  case c_open
  then have w': "w' = w\<lparr>m_out := [], mc := MC_Recv\<rparr>" by (simp add: mq_c_open_def)
  have "mc w = MC_Start" by (rule c_open)
  then show ?thesis using assms(1) unfolding w' by (auto simp: mq_inv_def mq_flight_def)
next
  case c_recv
  then obtain m q where "queue w = m # q" "w' = w\<lparr>queue := q, c_text := overlay m (c_text w), mc := MC_Test (length m)\<rparr>"
    by (auto simp: mq_c_recv_def split: list.splits)
  then show ?thesis using mq_recv_inv[OF assms(1)] c_recv by simp
next
  case (c_test n)
  then have w': "w' = mq_c_test n w" and n: "mc w = MC_Test n" by simp_all
  show ?thesis
  proof (cases "take n (c_text w) = EOF_MSG")
    case True
    have "3 \<le> n" using arg_cong[OF True, of length] by simp
    then have t: "take 3 (c_text w) = EOF_MSG" using arg_cong[OF True, of "take 3"] by (simp add: min_def EOF_MSG_def)
    have e: "eof_flag w" using assms(1) n True by (auto simp: mq_inv_def)
    have w'': "w' = w\<lparr>mc := MC_Done 0\<rparr>" using t e by (simp add: w' mq_c_test_def)
    have "mq_flight w' = mq_flight w" using n True by (simp add: w'' mq_flight_def payload_def)
    then show ?thesis unfolding w'' using True assms(1) n by (simp add: mq_inv_def)
  next
    case False
    then have f: "marker_free (c_text w)" using assms(1) n by (simp add: mq_inv_def)
    then have "take 3 (c_text w) \<noteq> EOF_MSG" using marker_free_take(1)[OF f, of 3] by auto
    then show ?thesis unfolding w' mq_c_test_def using False assms(1) n f
      by (auto simp: mq_inv_def mq_flight_def payload_free marker_free_take)
  qed
next
  case (c_write n rs)
  then obtain ok out where wr: "write_all rs (take n (c_text w)) (m_out w) = Some (ok, out)"
    "w' = w\<lparr>m_out := out, mc := (if ok then MC_Recv else MC_Done 1)\<rparr>"
    by (auto simp: mq_c_write_def)
  then have w': "w' = w\<lparr>m_out := m_out w @ take n (c_text w), mc := MC_Recv\<rparr>"
    using write_all_result[OF wr(1)] c_write by auto
  have n: "mc w = MC_Write n" by (rule c_write)
  then have "m_out w' @ mq_flight w' = m_out w @ mq_flight w" by (simp add: w' mq_flight_def)
  then show ?thesis using assms(1) n unfolding w' by (simp add: mq_inv_def)
qed

lemma mq_step_source: "mq_step ok w w' \<Longrightarrow> m_in w' = m_in w"
  by (auto elim!: mq_step_cases simp: mq_p_read_def mq_p_send_def mq_p_flag_def mq_p_send_eof_def mq_c_open_def
    mq_c_recv_def mq_c_test_def mq_c_write_def split: option.splits if_splits list.splits)

interpretation mqc: copy_protocol "mq_step True" mq_inv m_in "\<lambda>w. take (m_pos w) (m_in w)" mq_flight m_out
proof
  show "mq_inv w' \<and> m_in w' = m_in w" if "mq_inv w" "mq_step True w w'" for w w'
    using mq_step_inv[OF that] mq_step_source[OF that(2)] by blast
  show "m_out w @ mq_flight w = take (m_pos w) (m_in w)" if "mq_inv w" for w
    using that by (simp add: mq_inv_def)
  show "prefix (take (m_pos w) (m_in w)) (m_in w)" for w by (rule take_is_prefix)
qed

lemma mq_start_inv: "marker_free d \<Longrightarrow> mq_inv (mq_start d qm)"
  by (simp add: mq_start_def mq_inv_def mq_flight_def marker_free_def)

text \<open>
  C16: For a file without the letter E the message queue copy is correct: in every interleaving in which
  no call fails the output is a prefix of the input, and when the child ends it has exit code 0, the
  output is the whole input and no message is left.
\<close>

theorem mq_copy_correct:
  assumes "CHR ''E'' \<notin> set d" "(mq_step True)\<^sup>*\<^sup>* (mq_start d qm) w"
  shows "prefix (m_out w) d \<and> (mc w = MC_Done c \<longrightarrow> c = 0 \<and> m_out w = d \<and> queue w = [])"
proof (rule conjI; (rule impI)?)
  have "marker_free d" using assms(1) by (simp add: marker_free_def)
  note start = mq_start_inv[OF this, of qm]
  have d: "m_in (mq_start d qm) = d" by (simp add: mq_start_def)
  show "prefix (m_out w) d" using mqc.out_is_prefix[OF assms(2) start] d by simp
  show "c = 0 \<and> m_out w = d \<and> queue w = []" if "mc w = MC_Done c"
  proof -
    have I: "mq_inv w" "m_in w = d" using mqc.runs[OF assms(2) start] d by simp_all
    have "\<not> sending (mp w)" "queue w = []" "c = 0" "m_pos w = length (m_in w)"
      using I(1) that by (auto simp: mq_inv_def split: if_splits)
    moreover have "mq_flight w = []" using calculation that I(1)
      by (cases "mp w") (simp_all add: mq_flight_def)
    ultimately show ?thesis using mqc.complete[OF assms(2) start] d by simp
  qed
qed

text \<open>
  A file that begins with the letters EOF and fits one message can be lost: if the parent sets the
  flag before the child looks at the first message, the child takes it for the end marker.  Both
  processes end with exit code 0 and the output is empty, although no call fails.
\<close>

theorem mq_marker_in_data:
  assumes "take 3 d = EOF_MSG" "length d \<le> MQ_SIZE" "length d \<le> qm"
  shows "\<exists>w. (mq_step True)\<^sup>*\<^sup>* (mq_start d qm) w \<and> mp w = MP_Done 0 \<and> mc w = MC_Done 0 \<and> m_out w = []"
proof -
  have "3 \<le> length d" using arg_cong[OF assms(1), of length] by simp
  then have ne: "d \<noteq> []" "3 \<le> length d" by auto
  let ?buf = "replicate MQ_SIZE (CHR 0x00)"
  let ?w0 = "mq_start d qm"
  let ?w1 = "?w0\<lparr>p_text := overlay d ?buf, m_pos := length d, mp := MP_Send (length d)\<rparr>"
  have "mq_step True ?w0 ?w1"
    using mq_step.p_read[of ?w0 "Some (length d)"] file_read_whole[OF assms(2) ne(1)] ne(1)
    by (simp add: mq_p_read_def mq_start_def)
  then have r: "(mq_step True)\<^sup>*\<^sup>* ?w0 ?w1" by (rule r_into_rtranclp)
  let ?w2 = "?w1\<lparr>queue := [d], mp := MP_Read\<rparr>"
  have "mq_step True ?w1 ?w2"
    by (rule mq_step.p_send[of _ "length d"]) (simp_all add: mq_p_send_def msgsnd_def mq_start_def assms(3))
  with r have r: "(mq_step True)\<^sup>*\<^sup>* ?w0 ?w2" by (rule rtranclp.rtrancl_into_rtrancl)
  let ?w3 = "?w2\<lparr>mp := MP_Flag\<rparr>"
  have "mq_step True ?w2 ?w3"
    using mq_step.p_read[of ?w2 "Some 0"] by (simp add: mq_p_read_def mq_start_def file_read_def)
  with r have r: "(mq_step True)\<^sup>*\<^sup>* ?w0 ?w3" by (rule rtranclp.rtrancl_into_rtrancl)
  let ?w4 = "?w3\<lparr>eof_flag := True, p_text := overlay EOF_MSG (overlay d ?buf), mp := MP_SendEof\<rparr>"
  have "mq_step True ?w3 ?w4" using mq_step.p_flag[of ?w3] by (simp add: mq_p_flag_def)
  with r have r: "(mq_step True)\<^sup>*\<^sup>* ?w0 ?w4" by (rule rtranclp.rtrancl_into_rtrancl)
  let ?w5 = "?w4\<lparr>mc := MC_Recv\<rparr>"
  have "mq_step True ?w4 ?w5" using mq_step.c_open[of ?w4 True] by (simp add: mq_c_open_def mq_start_def)
  with r have r: "(mq_step True)\<^sup>*\<^sup>* ?w0 ?w5" by (rule rtranclp.rtrancl_into_rtrancl)
  let ?w6 = "?w5\<lparr>queue := [], c_text := overlay d ?buf, mc := MC_Test (length d)\<rparr>"
  have "mq_step True ?w5 ?w6" by (rule mq_step.c_recv) (simp_all add: mq_c_recv_def mq_start_def)
  with r have r: "(mq_step True)\<^sup>*\<^sup>* ?w0 ?w6" by (rule rtranclp.rtrancl_into_rtrancl)
  have "take 3 (overlay d ?buf) = EOF_MSG" using assms(1) ne(2) by (simp add: overlay_def)
  then have "mq_step True ?w6 (?w6\<lparr>mc := MC_Done 0\<rparr>)"
    using mq_step.c_test[of ?w6 "length d"] by (simp add: mq_c_test_def)
  with r have r: "(mq_step True)\<^sup>*\<^sup>* ?w0 (?w6\<lparr>mc := MC_Done 0\<rparr>)" by (rule rtranclp.rtrancl_into_rtrancl)
  let ?w7 = "?w6\<lparr>mc := MC_Done 0, queue := [EOF_MSG], mp := MP_Wait\<rparr>"
  have "mq_step True (?w6\<lparr>mc := MC_Done 0\<rparr>) ?w7"
    by (rule mq_step.p_send_eof) (use ne(2) assms(3) in \<open>simp_all add: mq_p_send_eof_def msgsnd_def mq_start_def\<close>)
  with r have r: "(mq_step True)\<^sup>*\<^sup>* ?w0 ?w7" by (rule rtranclp.rtrancl_into_rtrancl)
  have "mq_step True ?w7 (?w7\<lparr>mp := MP_Done 0\<rparr>)" by (rule mq_step.p_wait) simp_all
  with r have "(mq_step True)\<^sup>*\<^sup>* ?w0 (?w7\<lparr>mp := MP_Done 0\<rparr>)" by (rule rtranclp.rtrancl_into_rtrancl)
  then show ?thesis by (intro exI[of _ "?w7\<lparr>mp := MP_Done 0\<rparr>"]) (simp add: mq_start_def)
qed

theorem mq_copy_correct_witness:
  "\<exists>w. (mq_step True)\<^sup>*\<^sup>* (mq_start ''ab'' 16384) w \<and> mc w = MC_Recv \<and> prefix (m_out w) ''ab''"
proof -
  let ?w0 = "mq_start ''ab'' 16384"
  have "mq_step True ?w0 (?w0\<lparr>mc := MC_Recv\<rparr>)" using mq_step.c_open[of ?w0 True] by (simp add: mq_c_open_def mq_start_def)
  then have r: "(mq_step True)\<^sup>*\<^sup>* ?w0 (?w0\<lparr>mc := MC_Recv\<rparr>)" by (rule r_into_rtranclp)
  have "CHR ''E'' \<notin> set ''ab''" by simp
  from mq_copy_correct[OF this r] r show ?thesis by (intro exI[of _ "?w0\<lparr>mc := MC_Recv\<rparr>"]) simp
qed

theorem mq_marker_in_data_witness:
  "\<exists>w. (mq_step True)\<^sup>*\<^sup>* (mq_start ''EOF is here'' 16384) w \<and> m_out w = []"
  using mq_marker_in_data[of "''EOF is here''" 16384] by (auto simp: EOF_MSG_def MQ_SIZE_def)

section \<open>The named pipe\<close>

definition fc_part :: "fifo_child \<Rightarrow> bytes" where
  "fc_part c = (case c of FC_Write d \<Rightarrow> d | _ \<Rightarrow> [])"

definition fp_part :: "fifo_parent \<Rightarrow> bytes" where
  "fp_part p = (case p of FP_Write r \<Rightarrow> r | _ \<Rightarrow> [])"

lemma fifo_part_simps [simp]:
  "fc_part FC_Start = []" "fc_part FC_Open = []" "fc_part FC_Read = []" "fc_part (FC_Done k) = []" "fc_part (FC_Write d) = d"
  "fp_part FP_Open = []" "fp_part FP_Read = []" "fp_part FP_Wait = []" "fp_part (FP_Done k) = []" "fp_part FP_Killed = []"
  "fp_part (FP_Write r) = r"
  by (simp_all add: fc_part_def fp_part_def)

definition fifo_flight :: "fifo_world \<Rightarrow> bytes" where
  "fifo_flight w = fc_part (fcc w) @ pipe w @ fp_part (fpp w)"

definition fifo_inv :: "fifo_world \<Rightarrow> bool" where
  "fifo_inv w \<longleftrightarrow> 0 < pipe_cap w \<and> f_pos w \<le> length (f_in w) \<and>
     f_out w @ fifo_flight w = take (f_pos w) (f_in w) \<and>
     fpp w \<noteq> FP_Killed \<and> (\<forall>c. fpp w = FP_Done c \<longrightarrow> c = 0) \<and>
     (fpp w = FP_Wait \<or> fpp w = FP_Done 0 \<longrightarrow> f_pos w = length (f_in w)) \<and>
     (fpp w = FP_Open \<longleftrightarrow> fcc w = FC_Start \<or> fcc w = FC_Open) \<and>
     (fpp w = FP_Done 0 \<longrightarrow> (\<exists>c. fcc w = FC_Done c)) \<and>
     (fcc w = FC_Start \<longrightarrow> f_out w = []) \<and>
     (\<forall>c. fcc w = FC_Done c \<longrightarrow> c = 0 \<and> pipe w = [] \<and> \<not> writer_open w)"

lemma fifo_step_inv:
  assumes "fifo_inv w" "fifo_step True w w'"
  shows "fifo_inv w'"
  using assms(2)
proof (cases rule: fifo_step_cases)
  case c_open_out
  then have w': "w' = w\<lparr>f_out := [], fcc := FC_Open\<rparr>" by (simp add: fifo_c_open_out_def)
  have "fcc w = FC_Start" by (rule c_open_out)
  then show ?thesis using assms(1) unfolding w' by (auto simp: fifo_inv_def fifo_flight_def)
next
  case opens
  then show ?thesis using assms(1) by (auto simp: fifo_inv_def fifo_flight_def fifo_rendezvous_def)
next
  case (p_read choice)
  then obtain d where d: "file_read BUF_SIZE_3 (f_in w) (f_pos w) choice = Some d" by (auto simp: file_read_def)
  have "0 < BUF_SIZE_3" by (simp add: BUF_SIZE_3_def)
  note r = file_read_result[OF d this]
  have pos: "f_pos w \<le> length (f_in w)" using assms(1) by (simp add: fifo_inv_def)
  show ?thesis
  proof (cases "d = []")
    case True
    then have w': "w' = w\<lparr>fpp := FP_Wait\<rparr>" using p_read d by (simp add: fifo_p_read_def)
    have "fpp w = FP_Read" by (rule p_read)
    then show ?thesis unfolding w' using assms(1) r(3)[OF True] pos
      by (auto simp: fifo_inv_def fifo_flight_def writer_open_def)
  next
    case False
    then have w': "w' = w\<lparr>f_pos := f_pos w + length d, fpp := FP_Write d\<rparr>" using p_read d by (simp add: fifo_p_read_def)
    have p: "fpp w = FP_Read" by (rule p_read)
    have "fifo_flight w' = fifo_flight w @ d" using p by (simp add: w' fifo_flight_def)
    then have "f_out w' @ fifo_flight w' = take (f_pos w') (f_in w')"
      using assms(1) r(4)[OF pos] by (simp add: fifo_inv_def w' flip: append_assoc)
    then show ?thesis using assms(1) r(5)[OF pos] p by (auto simp: fifo_inv_def w' writer_open_def)
  qed
next
  case (p_write rest n)
  have open': "\<forall>c. fcc w \<noteq> FC_Done c" using assms(1) p_write by (auto simp: fifo_inv_def writer_open_def)
  show ?thesis
  proof (cases "rest = []")
    case True
    then have w': "w' = w\<lparr>fpp := FP_Read\<rparr>" using p_write by (simp add: fifo_p_write_def)
    have "fpp w = FP_Write rest" by (rule p_write)
    then show ?thesis unfolding w' using assms(1) True open' by (simp add: fifo_inv_def fifo_flight_def)
  next
    case False
    let ?d = "take (min (Suc n) (pipe_cap w - length (pipe w))) rest"
    have w': "w' = w\<lparr>pipe := pipe w @ ?d, fpp := FP_Write (drop (length ?d) rest)\<rparr>"
      using p_write False open' by (auto simp: fifo_p_write_def Let_def split: if_splits)
    have p: "fpp w = FP_Write rest" by (rule p_write)
    have "?d @ drop (length ?d) rest = rest" by (metis append_take_drop_id drop_all length_take min_def nle_le)
    then have "fifo_flight w' = fifo_flight w" using p by (simp add: w' fifo_flight_def del: length_take)
    then show ?thesis using assms(1) p open' by (simp add: fifo_inv_def w' del: length_take)
  qed
next
  case (p_wait c)
  then show ?thesis using assms(1) by (auto simp: fifo_inv_def fifo_flight_def fifo_p_wait_def writer_open_def)
next
  case (c_read choice)
  then obtain d where d: "file_read BUF_SIZE_3 (pipe w) 0 choice = Some d" by (auto simp: file_read_def)
  have "0 < BUF_SIZE_3" by (simp add: BUF_SIZE_3_def)
  note r = file_read_result[OF d this]
  have c: "fcc w = FC_Read" by (rule c_read)
  show ?thesis
  proof (cases "d = []")
    case True
    then have "pipe w = []" "\<not> writer_open w" and w': "w' = w\<lparr>node := False, fcc := FC_Done 0\<rparr>"
      using r(3) c_read d by (auto simp: fifo_c_read_def split: if_splits)
    then show ?thesis unfolding w' using assms(1) c by (auto simp: fifo_inv_def fifo_flight_def writer_open_def)
  next
    case False
    then have w': "w' = w\<lparr>pipe := drop (length d) (pipe w), fcc := FC_Write d\<rparr>"
      using c_read d by (auto simp: fifo_c_read_def split: if_splits)
    have "d @ drop (length d) (pipe w) = pipe w" using r(1) by (metis append_take_drop_id drop0)
    then have "fifo_flight w' = fifo_flight w" using c by (simp add: w' fifo_flight_def)
    then show ?thesis using assms(1) c by (auto simp: fifo_inv_def w' writer_open_def)
  qed
next
  case (c_write d rs)
  then obtain ok out where wr: "write_all rs d (f_out w) = Some (ok, out)"
    "w' = w\<lparr>f_out := out, fcc := (if ok then FC_Read else FC_Done 1)\<rparr>" by (auto simp: fifo_c_write_def)
  then have w': "w' = w\<lparr>f_out := f_out w @ d, fcc := FC_Read\<rparr>"
    using write_all_result[OF wr(1)] c_write by auto
  have c: "fcc w = FC_Write d" by (rule c_write)
  then have "f_out w' @ fifo_flight w' = f_out w @ fifo_flight w" by (simp add: w' fifo_flight_def)
  then show ?thesis unfolding w' using assms(1) c by (auto simp: fifo_inv_def)
qed

lemma fifo_step_source: "fifo_step ok w w' \<Longrightarrow> f_in w' = f_in w"
  by (auto elim!: fifo_step_cases simp: fifo_c_open_out_def fifo_rendezvous_def fifo_p_read_def fifo_p_write_def
    fifo_p_wait_def fifo_c_read_def fifo_c_write_def Let_def split: option.splits if_splits)

interpretation fifoc: copy_protocol "fifo_step True" fifo_inv f_in "\<lambda>w. take (f_pos w) (f_in w)" fifo_flight f_out
proof
  show "fifo_inv w' \<and> f_in w' = f_in w" if "fifo_inv w" "fifo_step True w w'" for w w'
    using fifo_step_inv[OF that] fifo_step_source[OF that(2)] by blast
  show "f_out w @ fifo_flight w = take (f_pos w) (f_in w)" if "fifo_inv w" for w
    using that by (simp add: fifo_inv_def)
  show "prefix (take (f_pos w) (f_in w)) (f_in w)" for w by (rule take_is_prefix)
qed

lemma fifo_start_inv: "0 < cap \<Longrightarrow> fifo_inv (fifo_start d cap)"
  by (simp add: fifo_start_def fifo_inv_def fifo_flight_def)

lemma fifo_child_moves:
  assumes "fcc w = FC_Write d \<or> fcc w = FC_Start \<or> fcc w = FC_Read \<and> (pipe w \<noteq> [] \<or> \<not> writer_open w)"
  shows "\<exists>w'. fifo_step True w w'"
  using assms
proof (elim disjE conjE)
  assume c: "fcc w = FC_Write d"
  let ?rs = "if d = [] then [] else [Some (length d)]"
  have "fifo_c_write ?rs d w = Some (w\<lparr>f_out := f_out w @ d, fcc := FC_Read\<rparr>)"
    by (cases "d = []") (simp_all add: fifo_c_write_def write_all_whole)
  from fifo_step.c_write[OF c this] show ?thesis by (auto split: if_splits)
next
  assume "fcc w = FC_Start"
  then show ?thesis using fifo_step.c_open_out by blast
next
  assume c: "fcc w = FC_Read" and p: "pipe w \<noteq> []"
  then have "fifo_c_read (Some 0) w \<noteq> None" by (auto simp: fifo_c_read_def file_read_def)
  then obtain w' where "fifo_c_read (Some 0) w = Some w'" by blast
  from fifo_step.c_read[OF c this] show ?thesis by auto
next
  assume c: "fcc w = FC_Read" and p: "\<not> writer_open w"
  then have "fifo_c_read (Some 0) w \<noteq> None" by (auto simp: fifo_c_read_def file_read_def)
  then obtain w' where "fifo_c_read (Some 0) w = Some w'" by blast
  from fifo_step.c_read[OF c this] show ?thesis by auto
qed

lemma fifo_progress:
  assumes "fifo_inv w"
  shows "(fpp w = FP_Done 0 \<and> fcc w = FC_Done 0) \<or> (\<exists>w'. fifo_step True w w')"
proof -
  note I = assms[unfolded fifo_inv_def]
  show ?thesis
  proof (cases "fpp w")
    case FP_Open
    then show ?thesis using I fifo_step.opens[of w] fifo_child_moves[of w] by blast
  next
    case FP_Read
    then show ?thesis using fifo_step.p_read[of w "Some 0"] by auto
  next
    case (FP_Write r)
    have cw: "\<forall>c. fcc w \<noteq> FC_Done c" using I FP_Write by (auto simp: writer_open_def)
    show ?thesis
    proof (cases "r = [] \<or> length (pipe w) < pipe_cap w")
      case True
      then have "fifo_p_write True 0 r w \<noteq> None" using cw by (auto simp: fifo_p_write_def Let_def)
      then obtain w' where "fifo_p_write True 0 r w = Some w'" by blast
      from fifo_step.p_write[OF FP_Write this] show ?thesis by blast
    next
      case False
      then have "pipe w \<noteq> []" using I by auto
      then show ?thesis using fifo_child_moves[of w] cw I FP_Write by (cases "fcc w") auto
    qed
  next
    case FP_Wait
    then have "\<not> writer_open w" by (simp add: writer_open_def)
    then show ?thesis using fifo_child_moves[of w] fifo_step.p_wait[OF FP_Wait] I FP_Wait by (cases "fcc w") auto
  next
    case (FP_Done c)
    then show ?thesis using I by auto
  next
    case FP_Killed
    then show ?thesis using I by simp
  qed
qed

definition fifo_rank :: "fifo_world \<Rightarrow> nat" where
  "fifo_rank w = 8 * (length (f_in w) - f_pos w) + 6 * length (fp_part (fpp w)) + 4 * length (pipe w) +
     2 * length (fc_part (fcc w)) +
     (case fpp w of FP_Open \<Rightarrow> 4 | FP_Read \<Rightarrow> 2 | FP_Write r \<Rightarrow> 3 | FP_Wait \<Rightarrow> 1 | _ \<Rightarrow> 0) +
     (case fcc w of FC_Start \<Rightarrow> 4 | FC_Open \<Rightarrow> 3 | FC_Read \<Rightarrow> 1 | FC_Write d \<Rightarrow> 2 | FC_Done c \<Rightarrow> 0)"

lemma fifo_rank_step:
  assumes "fifo_inv w" "fifo_step True w w'"
  shows "fifo_rank w' < fifo_rank w"
  using assms(2)
proof (cases rule: fifo_step_cases)
  case (p_read choice)
  then obtain d where d: "file_read BUF_SIZE_3 (f_in w) (f_pos w) choice = Some d" by (auto simp: file_read_def)
  have "0 < BUF_SIZE_3" by (simp add: BUF_SIZE_3_def)
  from file_read_result(5)[OF d this] have "f_pos w + length d \<le> length (f_in w)"
    using assms(1) by (simp add: fifo_inv_def)
  moreover from this have "d \<noteq> [] \<Longrightarrow>
      Suc (8 * (length (f_in w) - (f_pos w + length d)) + 6 * length d) < 8 * (length (f_in w) - f_pos w)"
    by (cases d) auto
  ultimately show ?thesis using p_read d by (cases "d = []") (simp_all add: fifo_p_read_def fifo_rank_def)
next
  case (p_write rest n)
  have cw: "\<forall>c. fcc w \<noteq> FC_Done c" using assms(1) p_write by (auto simp: fifo_inv_def writer_open_def)
  show ?thesis
  proof (cases "rest = []")
    case True
    then show ?thesis using p_write by (auto simp: fifo_p_write_def fifo_rank_def)
  next
    case False
    let ?d = "take (min (Suc n) (pipe_cap w - length (pipe w))) rest"
    have w': "w' = w\<lparr>pipe := pipe w @ ?d, fpp := FP_Write (drop (length ?d) rest)\<rparr>" "pipe_cap w - length (pipe w) \<noteq> 0"
      using p_write False cw by (auto simp: fifo_p_write_def Let_def split: if_splits)
    have "0 < length ?d" "length ?d \<le> length rest" using False w'(2) by auto
    then have "6 * (length rest - length ?d) + 4 * length ?d < 6 * length rest" by linarith
    then show ?thesis using p_write(1) by (simp add: w'(1) fifo_rank_def del: length_take)
  qed
next
  case (c_read choice)
  then obtain d where d: "file_read BUF_SIZE_3 (pipe w) 0 choice = Some d" by (auto simp: file_read_def)
  have "0 < BUF_SIZE_3" by (simp add: BUF_SIZE_3_def)
  from file_read_result(5)[OF d this] have "length d \<le> length (pipe w)" by simp
  moreover from this have "d \<noteq> [] \<Longrightarrow> Suc (4 * (length (pipe w) - length d) + 2 * length d) < 4 * length (pipe w)"
    by (cases d) auto
  ultimately show ?thesis using c_read d
    by (cases "d = []") (auto simp: fifo_c_read_def fifo_rank_def split: if_splits)
next
  case (c_write d rs)
  then obtain ok out where wr: "write_all rs d (f_out w) = Some (ok, out)"
    "w' = w\<lparr>f_out := out, fcc := (if ok then FC_Read else FC_Done 1)\<rparr>" by (auto simp: fifo_c_write_def)
  then show ?thesis using c_write by (auto simp: fifo_rank_def)
qed (auto simp: fifo_c_open_out_def fifo_rendezvous_def fifo_p_wait_def fifo_rank_def)

interpretation fifor: bounded_runs "fifo_step True" fifo_inv fifo_rank
  by unfold_locales (fact fifo_step_inv, fact fifo_rank_step)

text \<open>
  C15: The copy through the named pipe is correct and comes to its end: without failing system calls the
  output is a prefix of the input, no run has more than 8 times the length of the file plus 8 steps,
  and a run that cannot be continued has both processes finished with exit code 0 and the output equal
  to the input.
\<close>

theorem fifo_copy_correct:
  assumes "0 < cap"
  shows "((fifo_step True)\<^sup>*\<^sup>* (fifo_start d cap) w \<longrightarrow> prefix (f_out w) d) \<and>
    ((fifo_step True ^^ n) (fifo_start d cap) w \<longrightarrow> n \<le> 8 * length d + 8) \<and>
    ((fifo_step True)\<^sup>*\<^sup>* (fifo_start d cap) w \<and> (\<nexists>w'. fifo_step True w w') \<longrightarrow>
      fpp w = FP_Done 0 \<and> fcc w = FC_Done 0 \<and> f_out w = d)"
proof (rule conjI; (rule conjI)?; rule impI)
  note start = fifo_start_inv[OF assms, of d]
  have d: "f_in (fifo_start d cap) = d" by (simp add: fifo_start_def)
  show "prefix (f_out w) d" if "(fifo_step True)\<^sup>*\<^sup>* (fifo_start d cap) w"
    using fifoc.out_is_prefix[OF that start] d by simp
  have "fifo_rank (fifo_start d cap) = 8 * length d + 8" by (simp add: fifo_rank_def fifo_start_def)
  then show "n \<le> 8 * length d + 8" if "(fifo_step True ^^ n) (fifo_start d cap) w"
    using fifor.run_length[OF that start] by linarith
  show "fpp w = FP_Done 0 \<and> fcc w = FC_Done 0 \<and> f_out w = d"
    if run_stuck: "(fifo_step True)\<^sup>*\<^sup>* (fifo_start d cap) w \<and> (\<nexists>w'. fifo_step True w w')"
  proof -
    note run = conjunct1[OF run_stuck] and stuck = conjunct2[OF run_stuck]
    have I: "fifo_inv w" "f_in w = d" using fifoc.runs[OF run start] d by simp_all
    then have fin: "fpp w = FP_Done 0" "fcc w = FC_Done 0" using fifo_progress stuck by blast+
    then have "f_pos w = length (f_in w)" "fifo_flight w = []" using I(1) by (auto simp: fifo_inv_def fifo_flight_def)
    then show ?thesis using fifoc.complete[OF run start] d fin by simp
  qed
qed

theorem fifo_copy_correct_witness:
  "\<exists>w. (fifo_step True)\<^sup>*\<^sup>* (fifo_start ''ab'' 65536) w \<and> fcc w = FC_Open \<and> prefix (f_out w) ''ab''"
proof -
  let ?w0 = "fifo_start ''ab'' 65536"
  have "fifo_step True ?w0 (?w0\<lparr>fcc := FC_Open\<rparr>)"
    using fifo_step.c_open_out[of ?w0 True] by (simp add: fifo_c_open_out_def fifo_start_def)
  then have r: "(fifo_step True)\<^sup>*\<^sup>* ?w0 (?w0\<lparr>fcc := FC_Open\<rparr>)" by (rule r_into_rtranclp)
  have "(0::nat) < 65536" by simp
  from fifo_copy_correct[OF this] r show ?thesis by (intro exI[of _ "?w0\<lparr>fcc := FC_Open\<rparr>"]) simp
qed

end
