(* ===== verification/Copy_Refinement.thy ===== *)
theory Copy_Refinement
  imports Signal_Copy_Properties Shm_Properties Queue_Properties
begin

text \<open>
  The four programs that copy between processes against one specification: a channel that hands the input
  over in pieces, in order, and never takes back what it has delivered.
\<close>

section \<open>The specification\<close>

text \<open>One step of the channel of an input: the output grows by the next bytes of the input, or stays.\<close>

definition delivers :: "bytes \<Rightarrow> bytes \<Rightarrow> bytes \<Rightarrow> bool" where
  "delivers d before after \<longleftrightarrow> (\<exists>n. after = before @ take n (drop (length before) d) \<and> prefix after d)"

lemma deliversI: "prefix before after \<Longrightarrow> prefix after d \<Longrightarrow> delivers d before after"
proof -
  assume "prefix before after" "prefix after d"
  then obtain e r where "after = before @ e" "d = before @ e @ r" by (auto simp: prefix_def)
  then show ?thesis by (auto simp: delivers_def intro!: exI[of _ "length e"])
qed

text \<open>A copying program whose output only grows; the program and the channel take the same steps.\<close>

locale ordered_copy = copy_protocol +
  assumes grows: "inv w \<Longrightarrow> step w w' \<Longrightarrow> prefix (out w) (out w')"
begin

lemma simulates: "inv w \<Longrightarrow> step w w' \<Longrightarrow> delivers (source w) (out w) (out w')"
  using grows keeps out_is_prefix[OF r_into_rtranclp] by (intro deliversI) blast+

lemma runs_simulate:
  "step\<^sup>*\<^sup>* w0 w \<Longrightarrow> inv w0 \<Longrightarrow> step w w' \<Longrightarrow> delivers (source w0) (out w) (out w')"
  using simulates runs by metis

end

section \<open>The programs\<close>

text \<open>Of the invariants only what they say before the child has opened the output is needed.\<close>

lemma shm_step_grows: "(sc w = SC_Start \<longrightarrow> s_out w = []) \<Longrightarrow> shm_step True w w' \<Longrightarrow> prefix (s_out w) (s_out w')"
  by (auto elim!: shm_step_cases simp: shm_p_wait_def shm_p_read_def shm_p_signal_def shm_p_signal_eof_def
    shm_p_signal_err_def shm_p_close_def shm_c_open_def shm_c_wait_def shm_c_test_def shm_c_write_def
    shm_c_signal_def shm_c_signal_eof_def Let_def split: option.splits prod.splits bool.splits if_splits)

interpretation shmo: ordered_copy "shm_step True" shm_inv s_in "\<lambda>w. take (s_pos w) (s_in w)" shm_flight s_out
  by unfold_locales (rule shm_step_grows, auto simp: shm_inv_def)

lemma write_all_grows: "write_all rs bs out = Some (ok, out') \<Longrightarrow> prefix out out'"
  using write_all_result[of rs bs out ok out'] by auto

lemma mq_write_grows: "mq_c_write rs n w = Some w' \<Longrightarrow> prefix (m_out w) (m_out w')"
  unfolding mq_c_write_def by clarsimp (erule write_all_grows)

lemma mq_step_grows: "(mc w = MC_Start \<longrightarrow> m_out w = []) \<Longrightarrow> mq_step True w w' \<Longrightarrow> prefix (m_out w) (m_out w')"
  by (auto elim!: mq_step_cases intro: mq_write_grows simp: mq_p_read_def mq_p_send_def mq_p_flag_def
    mq_p_send_eof_def mq_c_open_def mq_c_recv_def mq_c_test_def
    split: option.splits if_splits list.splits)

interpretation mqo: ordered_copy "mq_step True" mq_inv m_in "\<lambda>w. take (m_pos w) (m_in w)" mq_flight m_out
  by unfold_locales (rule mq_step_grows, auto simp: mq_inv_def)

lemma fifo_write_grows: "fifo_c_write rs d w = Some w' \<Longrightarrow> prefix (f_out w) (f_out w')"
  unfolding fifo_c_write_def by clarsimp (erule write_all_grows)

lemma fifo_step_grows: "(fcc w = FC_Start \<longrightarrow> f_out w = []) \<Longrightarrow> fifo_step True w w' \<Longrightarrow> prefix (f_out w) (f_out w')"
  by (auto elim!: fifo_step_cases intro: fifo_write_grows simp: fifo_c_open_out_def fifo_rendezvous_def
    fifo_p_read_def fifo_p_write_def fifo_p_wait_def fifo_c_read_def Let_def
    split: option.splits if_splits)

interpretation fifoo: ordered_copy "fifo_step True" fifo_inv f_in "\<lambda>w. take (f_pos w) (f_in w)" fifo_flight f_out
  by unfold_locales (rule fifo_step_grows, auto simp: fifo_inv_def)

lemma write_loop_grows: "write_loop ws bs out = Some (ok, out') \<Longrightarrow> prefix out out'"
  by (induction ws bs out rule: write_loop.induct) (auto dest: append_prefixD)

lemma consumer_grows: "consumer_handler ws ok v s out = Some r \<Longrightarrow> prefix out (o_file r)"
  by (auto simp: consumer_handler_def intro: write_loop_grows split: if_splits option.splits prod.splits)

lemma deliver_consumer_grows: "deliver_consumer ws ok w = Some w' \<Longrightarrow> prefix (fout w) (fout w')"
  unfolding deliver_consumer_def by (clarsimp split: list.splits) (erule consumer_grows)

lemma deliver_producer_out: "deliver_producer cs ok w = Some w' \<Longrightarrow> fout w' = fout w"
  by (auto simp: deliver_producer_def split: list.splits)

lemma signal_step_grows:
  assumes "cpc w = C_Start \<longrightarrow> fout w = []" "copy_step True w w'"
  shows "prefix (fout w) (fout w')"
  using assms(2)
proof (cases rule: copy_step_cases)
  case produce
  then show ?thesis using deliver_producer_out by simp
next
  case consume
  then show ?thesis using deliver_consumer_grows by blast
qed (use assms(1) in \<open>auto simp: child_open_def child_send_def child_check_def parent_store_pid_def parent_check_def\<close>)

interpretation sigo: ordered_copy "copy_step True" "\<lambda>w. copy_inv (fin w) w" fin "\<lambda>w. take (fpos w) (fin w)" pending fout
  by unfold_locales (rule signal_step_grows, auto simp: copy_inv_def)

text \<open>
  C4: The copies through shared memory, a message queue, a named pipe and realtime signals all refine the
  same specification: from the start and as long as no call fails, every step of either process, in any
  interleaving, appends to the output the next bytes of the input or leaves it as it is.  For the message
  queue the input must not contain the letter that begins the end marker.
\<close>
theorem copies_refine_channel:
  "(segment_ok s \<and> (shm_step True)\<^sup>*\<^sup>* (shm_start d s) w1 \<and> shm_step True w1 w1' \<longrightarrow> delivers d (s_out w1) (s_out w1')) \<and>
   (CHR ''E'' \<notin> set d \<and> (mq_step True)\<^sup>*\<^sup>* (mq_start d qm) w2 \<and> mq_step True w2 w2' \<longrightarrow> delivers d (m_out w2) (m_out w2')) \<and>
   (0 < cap \<and> (fifo_step True)\<^sup>*\<^sup>* (fifo_start d cap) w3 \<and> fifo_step True w3 w3' \<longrightarrow> delivers d (f_out w3) (f_out w3')) \<and>
   (copy_start (Some d) a b c e g self f = Some w0 \<and> (copy_step True)\<^sup>*\<^sup>* w0 w4 \<and> copy_step True w4 w4' \<longrightarrow>
      delivers d (fout w4) (fout w4'))"
proof (intro conjI impI)
  show "delivers d (s_out w1) (s_out w1')"
    if "segment_ok s \<and> (shm_step True)\<^sup>*\<^sup>* (shm_start d s) w1 \<and> shm_step True w1 w1'"
    using shmo.runs_simulate[OF _ shm_start_inv, of d s w1 w1'] that by (simp add: shm_start_def)
  show "delivers d (m_out w2) (m_out w2')"
    if "CHR ''E'' \<notin> set d \<and> (mq_step True)\<^sup>*\<^sup>* (mq_start d qm) w2 \<and> mq_step True w2 w2'"
    using mqo.runs_simulate[OF _ mq_start_inv, of d qm w2 w2'] that by (simp add: mq_start_def marker_free_def)
  show "delivers d (f_out w3) (f_out w3')"
    if "0 < cap \<and> (fifo_step True)\<^sup>*\<^sup>* (fifo_start d cap) w3 \<and> fifo_step True w3 w3'"
    using fifoo.runs_simulate[OF _ fifo_start_inv, of d cap w3 w3'] that by (simp add: fifo_start_def)
  show "delivers d (fout w4) (fout w4')"
    if start: "copy_start (Some d) a b c e g self f = Some w0 \<and> (copy_step True)\<^sup>*\<^sup>* w0 w4 \<and> copy_step True w4 w4'"
  proof -
    have "copy_inv d w0" using copy_start_inv start by blast
    then have "fin w0 = d" "copy_inv (fin w0) w0" by (simp_all add: copy_inv_def)
    then show ?thesis using sigo.runs_simulate start by metis
  qed
qed

theorem copies_refine_channel_witness:
  "\<exists>s w1 w2 w3 w0 w4. shm_step True (shm_start ''ab'' s) w1 \<and> delivers ''ab'' [] (s_out w1) \<and>
     mq_step True (mq_start ''ab'' 16384) w2 \<and> delivers ''ab'' [] (m_out w2) \<and>
     fifo_step True (fifo_start ''ab'' 65536) w3 \<and> delivers ''ab'' [] (f_out w3) \<and>
     copy_start (Some ''x'') True True True True True 1 3 = Some w0 \<and> copy_step True w0 w4 \<and> delivers ''x'' (fout w0) (fout w4)"
proof -
  let ?s = "\<lparr>buf_size3 = 0, buffer3 = replicate SHM_SIZE_3 (CHR 0x00), eof = False\<rparr>"
  let ?w1 = "(shm_start ''ab'' ?s)\<lparr>sem0 := 0, sp := SP_Read\<rparr>"
  let ?w2 = "(mq_start ''ab'' 16384)\<lparr>mc := MC_Recv\<rparr>"
  let ?w3 = "(fifo_start ''ab'' 65536)\<lparr>fcc := FC_Open\<rparr>"
  obtain w0 where w0: "copy_start (Some ''x'') True True True True True 1 3 = Some w0"
    using copy_start_example by blast
  let ?w4 = "child_open True 1 4 w0"
  have s1: "shm_step True (shm_start ''ab'' ?s) ?w1"
    by (rule shm_step.p_wait) (simp_all add: shm_start_def shm_p_wait_def sem_wait_def)
  have s2: "mq_step True (mq_start ''ab'' 16384) ?w2"
    using mq_step.c_open[of "mq_start ''ab'' 16384" True] by (simp add: mq_c_open_def mq_start_def)
  have s3: "fifo_step True (fifo_start ''ab'' 65536) ?w3"
    using fifo_step.c_open_out[of "fifo_start ''ab'' 65536" True] by (simp add: fifo_c_open_out_def fifo_start_def)
  from w0 have "cpc w0 = C_Start" by (auto simp: init_world_def elim: copy_start_form)
  then have s4: "copy_step True w0 ?w4" by (rule copy_step.opens)
  note main = copies_refine_channel[of ?s "''ab''" "shm_start ''ab'' ?s" ?w1 16384 "mq_start ''ab'' 16384" ?w2 65536
    "fifo_start ''ab'' 65536" ?w3]
  have "delivers ''ab'' (s_out (shm_start ''ab'' ?s)) (s_out ?w1)" using main s1 segment_new by blast
  then have d1: "delivers ''ab'' [] (s_out ?w1)" by (simp add: shm_start_def)
  have "delivers ''ab'' (m_out (mq_start ''ab'' 16384)) (m_out ?w2)" using main s2 by simp
  then have d2: "delivers ''ab'' [] (m_out ?w2)" by (simp add: mq_start_def)
  have "delivers ''ab'' (f_out (fifo_start ''ab'' 65536)) (f_out ?w3)" using main s3 by simp
  then have d3: "delivers ''ab'' [] (f_out ?w3)" by (simp add: fifo_start_def)
  have d4: "delivers ''x'' (fout w0) (fout ?w4)" using copies_refine_channel w0 s4 by blast
  show ?thesis using s1 s2 s3 s4 d1 d2 d3 d4 w0 by blast
qed

end
