(* ===== verification/Copy_Startup.thy ===== *)
theory Copy_Startup
  imports Prelude
begin

text \<open>
  How the copying programs of \<open>sem_3\<close> and \<open>task_5\<close> start and how they clean up:
  the sequence of calls before the data flows, each with the early return its
  failure takes. IPC objects outlive the process, so what an early return does
  not remove stays in the system; descriptors, mappings and memory go with it.
\<close>

section \<open>Objects and resources\<close>

datatype ipc_object = Segment | SemSet | MsgQueue | FifoNode

text \<open>\<open>ShmId\<close>: \<open>shmid\<close> names the segment (it is -1 before \<open>shmget\<close>).\<close>

datatype resource = InFd | ShmId | Attached | Heap | OutFifo

record startup =
  outcomes :: "bool list"
  objects :: "ipc_object set"
  held :: "resource set"
  invalid_calls :: nat

text \<open>A cleanup call on something the process does not have fails and is counted.\<close>

definition release :: "resource \<Rightarrow> startup \<Rightarrow> startup" where
  "release r s = (if r \<in> held s then s\<lparr>held := held s - {r}\<rparr> else s\<lparr>invalid_calls := Suc (invalid_calls s)\<rparr>)"

definition acquire :: "resource \<Rightarrow> startup \<Rightarrow> startup" where
  "acquire r s = s\<lparr>held := insert r (held s)\<rparr>"

definition create :: "ipc_object \<Rightarrow> startup \<Rightarrow> startup" where
  "create x s = s\<lparr>objects := insert x (objects s)\<rparr>"

definition remove_object :: "ipc_object \<Rightarrow> startup \<Rightarrow> startup" where
  "remove_object x s = s\<lparr>objects := objects s - {x}\<rparr>"

text \<open>\<open>shmctl (shmid, IPC_RMID, ...)\<close>.\<close>

definition remove_segment :: "startup \<Rightarrow> startup" where
  "remove_segment s = (if ShmId \<in> held s then remove_object Segment s
     else s\<lparr>invalid_calls := Suc (invalid_calls s)\<rparr>)"

section \<open>Sequences of calls\<close>

text \<open>
  \<open>Must possible effect cleanup code\<close>: a call that has its effect when it
  succeeds and otherwise cleans up and ends the program with \<open>code\<close>.
  \<open>May effect\<close>: a call whose failure is no error. The next outcome says
  whether the system lets the call succeed (by default it does).
\<close>

datatype call = Must "startup \<Rightarrow> bool" "startup \<Rightarrow> startup" "startup \<Rightarrow> startup" int | May "startup \<Rightarrow> startup"

definition next_outcome :: "startup \<Rightarrow> bool \<times> startup" where
  "next_outcome s = (case outcomes s of [] \<Rightarrow> (True, s) | b # bs \<Rightarrow> (b, s\<lparr>outcomes := bs\<rparr>))"

text \<open>The value \<open>main\<close> returns early with, or \<open>None\<close> when the copying starts.\<close>

fun run_calls :: "call list \<Rightarrow> startup \<Rightarrow> int option \<times> startup" where
  "run_calls [] s = (None, s)"
| "run_calls (Must possible effect cleanup code # cs) s =
     (case next_outcome s of (ok, s1) \<Rightarrow>
        if ok \<and> possible s1 then run_calls cs (effect s1) else (Some code, cleanup s1))"
| "run_calls (May effect # cs) s =
     (case next_outcome s of (ok, s1) \<Rightarrow> run_calls cs (if ok then effect s1 else s1))"

abbreviation must :: "(startup \<Rightarrow> startup) \<Rightarrow> (startup \<Rightarrow> startup) \<Rightarrow> int \<Rightarrow> call" where
  "must \<equiv> Must (\<lambda>_. True)"

section \<open>shm\_main.c\<close>

definition shm_calls :: "call list" where
  "shm_calls =
    [must (acquire InFd) id 1,                                  \<comment> \<open>open\<close>
     must id (release InFd) 1,                                          \<comment> \<open>the two ftok\<close>
     must (acquire ShmId \<circ> create Segment) (release InFd) 1,            \<comment> \<open>shmget\<close>
     must (acquire Attached) (release InFd) 1,                          \<comment> \<open>shmat\<close>
     must (create SemSet) (release InFd \<circ> release Attached) 1,          \<comment> \<open>semget\<close>
     must id (release InFd \<circ> release Attached) 1,                       \<comment> \<open>semctl 0\<close>
     must id (release InFd \<circ> release Attached) 1,                       \<comment> \<open>semctl 1\<close>
     must id id (-1)]                                           \<comment> \<open>fork\<close>"

definition shm_finish :: "startup \<Rightarrow> startup" where
  "shm_finish s = remove_object SemSet (remove_segment (release Attached (release InFd s)))"

section \<open>mq\_main.c\<close>

definition mq_calls :: "call list" where
  "mq_calls =
    [must (acquire InFd) id 1,                                            \<comment> \<open>open\<close>
     must id (release InFd) 1,                                                    \<comment> \<open>ftok\<close>
     must (acquire ShmId \<circ> create Segment) (release InFd) 1,                      \<comment> \<open>shmget\<close>
     must (acquire Attached) (release InFd) 1,                                    \<comment> \<open>shmat\<close>
     must id (release InFd \<circ> remove_segment \<circ> release Attached) 1,                \<comment> \<open>ftok\<close>
     must (create MsgQueue) (release InFd \<circ> remove_segment \<circ> release Attached) 1, \<comment> \<open>msgget\<close>
     must id (release InFd \<circ> remove_object MsgQueue \<circ> remove_segment \<circ> release Attached) 1] \<comment> \<open>fork\<close>"

text \<open>The end of the parent: \<open>n\<close> is the last result of \<open>read\<close>.\<close>

definition mq_finish :: "int \<Rightarrow> startup \<Rightarrow> int \<times> startup" where
  "mq_finish n s = (if n = -1 then (1, release InFd s)
     else (0, remove_object MsgQueue (remove_segment (release Attached (release InFd s)))))"

section \<open>fifo\_main.c\<close>

text \<open>\<open>mknod\<close> fails when the name exists.\<close>

definition fifo_init :: "call list" where
  "fifo_init =
    [must (acquire InFd) id 1,                                          \<comment> \<open>open\<close>
     must (acquire Heap) (release InFd) 1,                              \<comment> \<open>calloc\<close>
     Must (\<lambda>s. FifoNode \<notin> objects s) (create FifoNode)
       (release InFd \<circ> release Heap) 1,                                 \<comment> \<open>mknod\<close>
     must id (release InFd \<circ> release Heap) 1]                           \<comment> \<open>fork\<close>"

text \<open>The parent goes on with its end of the FIFO.\<close>

definition fifo_open :: call where
  "fifo_open = must (acquire OutFifo) (release InFd \<circ> release Heap) 1"

definition fifo_calls :: "call list" where
  "fifo_calls = fifo_init @ [fifo_open]"

text \<open>The ends of the parent: a failed write or read, or the end of the file.\<close>

definition fifo_finish :: "bool \<Rightarrow> startup \<Rightarrow> int \<times> startup" where
  "fifo_finish failed s = (if failed then (1, release Heap (release OutFifo (release InFd s)))
     else (0, release Heap (remove_object FifoNode (release OutFifo (release InFd s)))))"

section \<open>main.c of task\_5\<close>

text \<open>
  What \<open>main\<close> does on every failure from \<open>init_shared_memory\<close> on; that function
  has already closed \<open>fd_in\<close> itself.
\<close>

definition signal_cleanup :: "startup \<Rightarrow> startup" where
  "signal_cleanup = release InFd \<circ> remove_segment \<circ> release Attached"

definition signal_calls :: "call list" where
  "signal_calls =
    [must (acquire InFd) id 1,                                  \<comment> \<open>open\<close>
     must id (release InFd) 1,                                          \<comment> \<open>stat, and a size above 0\<close>
     must id (release InFd) 1,                                          \<comment> \<open>ftok\<close>
     May (remove_object Segment),                                       \<comment> \<open>shmget of an old segment\<close>
     must (acquire ShmId \<circ> create Segment) (signal_cleanup \<circ> release InFd) 1, \<comment> \<open>shmget\<close>
     must (acquire Attached) (signal_cleanup \<circ> release InFd) 1,         \<comment> \<open>shmat\<close>
     must id signal_cleanup 1,                                          \<comment> \<open>sigaction, producer\<close>
     must id signal_cleanup 1,                                          \<comment> \<open>sigaction, consumer\<close>
     must id signal_cleanup 1,                                          \<comment> \<open>sigaction, exit\<close>
     must id signal_cleanup 1]                                          \<comment> \<open>fork\<close>"

section \<open>What is left\<close>

text \<open>A start in which exactly the call number \<open>k\<close> fails, in a process that holds nothing yet.\<close>

definition start :: "bool list \<Rightarrow> startup \<Rightarrow> startup" where
  "start bs s = s\<lparr>outcomes := bs, held := {}, invalid_calls := 0\<rparr>"

definition fail_at :: "nat \<Rightarrow> call list \<Rightarrow> startup \<Rightarrow> int option \<times> startup" where
  "fail_at k cs s = run_calls cs (start (replicate k True @ [False]) s)"

text \<open>The exit status a parent process sees.\<close>

definition exit_status :: "int \<Rightarrow> int" where
  "exit_status code = code mod 256"

lemmas startup_defs = fifo_init_def fifo_open_def release_def acquire_def create_def remove_object_def remove_segment_def
  next_outcome_def start_def fail_at_def

lemma all_less_numeral:
  "(\<forall>k<Suc n. P k) \<longleftrightarrow> P n \<and> (\<forall>k<n. P k)"
  by (auto simp: less_Suc_eq)

lemma shm_failures:
  "\<forall>k<8. fst (fail_at k shm_calls s) = Some (if k = 7 then -1 else 1) \<and>
    objects (snd (fail_at k shm_calls s)) =
      objects s \<union> (if 3 \<le> k then {Segment} else {}) \<union> (if 5 \<le> k then {SemSet} else {})"
  by (simp add: eval_nat_numeral all_less_numeral startup_defs shm_calls_def insert_commute)

lemma mq_failures:
  "\<forall>k<7. fst (fail_at k mq_calls s) = Some 1 \<and>
    objects (snd (fail_at k mq_calls s)) =
      (if k < 3 then objects s else if k = 3 then insert Segment (objects s)
       else if k = 6 then objects s - {Segment, MsgQueue} else objects s - {Segment})"
  by (auto simp add: eval_nat_numeral all_less_numeral startup_defs mq_calls_def)

lemma fifo_failures:
  "FifoNode \<notin> objects s \<Longrightarrow> \<forall>k<5. fst (fail_at k fifo_calls s) = Some 1 \<and>
    objects (snd (fail_at k fifo_calls s)) = (if 3 \<le> k then insert FifoNode (objects s) else objects s)"
  by (simp add: eval_nat_numeral all_less_numeral startup_defs fifo_calls_def)

lemma fifo_blocked:
  "FifoNode \<in> objects s \<Longrightarrow> fst (run_calls fifo_calls (start bs s)) = Some 1 \<and>
    objects (snd (run_calls fifo_calls (start bs s))) = objects s"
  by (auto simp add: startup_defs fifo_calls_def split: list.splits)

lemma signal_failures:
  "\<forall>k<10. k \<noteq> 3 \<longrightarrow> fst (fail_at k signal_calls s) = Some 1 \<and>
    objects (snd (fail_at k signal_calls s)) = (if k < 3 then objects s else objects s - {Segment}) \<and>
    invalid_calls (snd (fail_at k signal_calls s)) = (if k = 4 then 3 else if k = 5 then 2 else 0)"
  by (auto simp add: eval_nat_numeral all_less_numeral startup_defs signal_calls_def signal_cleanup_def)

text \<open>A start in which no call fails, followed by the end of the parent, leaves nothing behind.\<close>

lemma complete_runs:
  "fst (run_calls shm_calls (start [] s)) = None"
  "objects (shm_finish (snd (run_calls shm_calls (start [] s)))) = objects s - {Segment, SemSet}"
  "fst (run_calls mq_calls (start [] s)) = None"
  "objects (snd (mq_finish n (snd (run_calls mq_calls (start [] s))))) =
     (if n = -1 then insert Segment (insert MsgQueue (objects s)) else objects s - {Segment, MsgQueue})"
  "FifoNode \<notin> objects s \<Longrightarrow> fst (run_calls fifo_calls (start [] s)) = None"
  "FifoNode \<notin> objects s \<Longrightarrow> objects (snd (fifo_finish failed (snd (run_calls fifo_calls (start [] s))))) =
     (if failed then insert FifoNode (objects s) else objects s)"
  by (auto simp: startup_defs shm_calls_def mq_calls_def fifo_calls_def shm_finish_def mq_finish_def
      fifo_finish_def)

text \<open>
  C27: What a start that fails leaves in the system, call by call. Shared memory:
  the segment from a failing \<open>shmat\<close> on, the semaphores too from a failing
  \<open>semctl\<close> on, and exit status 255 instead of 1 when \<open>fork\<close> fails. Message
  queue: only a failing \<open>shmat\<close> leaves the segment. Named pipe: a failing
  \<open>fork\<close> or \<open>open\<close> leaves the FIFO, and with the FIFO there every later start
  ends with 1 whatever its calls do. Signal copy: nothing is left, not even an
  older segment, but when \<open>shmget\<close> or \<open>shmat\<close> fails the cleanup makes three or
  two calls on things the process no longer has.
\<close>

theorem failed_start_leaves:
  "(\<forall>k<8. map_option exit_status (fst (fail_at k shm_calls s)) = Some (if k = 7 then 255 else 1) \<and>
     objects (snd (fail_at k shm_calls s)) =
       objects s \<union> (if 3 \<le> k then {Segment} else {}) \<union> (if 5 \<le> k then {SemSet} else {})) \<and>
   (\<forall>k<7. fst (fail_at k mq_calls s) = Some 1 \<and>
     objects (snd (fail_at k mq_calls s)) =
       (if k < 3 then objects s else if k = 3 then insert Segment (objects s)
        else if k = 6 then objects s - {Segment, MsgQueue} else objects s - {Segment})) \<and>
   (FifoNode \<notin> objects s \<longrightarrow> (\<forall>k<5. fst (fail_at k fifo_calls s) = Some 1 \<and>
     objects (snd (fail_at k fifo_calls s)) = (if 3 \<le> k then insert FifoNode (objects s) else objects s))) \<and>
   (FifoNode \<in> objects s \<longrightarrow> fst (run_calls fifo_calls (start bs s)) = Some 1 \<and>
     objects (snd (run_calls fifo_calls (start bs s))) = objects s) \<and>
   (\<forall>k<10. k \<noteq> 3 \<longrightarrow> fst (fail_at k signal_calls s) = Some 1 \<and>
     objects (snd (fail_at k signal_calls s)) = (if k < 3 then objects s else objects s - {Segment}) \<and>
     invalid_calls (snd (fail_at k signal_calls s)) = (if k = 4 then 3 else if k = 5 then 2 else 0))"
proof (intro conjI)
  show "\<forall>k<8. map_option exit_status (fst (fail_at k shm_calls s)) = Some (if k = 7 then 255 else 1) \<and>
     objects (snd (fail_at k shm_calls s)) =
       objects s \<union> (if 3 \<le> k then {Segment} else {}) \<union> (if 5 \<le> k then {SemSet} else {})"
    using shm_failures[of s] by (simp add: exit_status_def)
qed (use mq_failures[of s] fifo_failures[of s] fifo_blocked[of s bs] signal_failures[of s] in blast)+

definition clean_system :: startup where
  "clean_system = \<lparr>outcomes = [], objects = {}, held = {}, invalid_calls = 0\<rparr>"

theorem failed_start_leaves_witness:
  "map_option exit_status (fst (fail_at 7 shm_calls clean_system)) = Some 255 \<and>
   objects (snd (fail_at 7 shm_calls clean_system)) = {Segment, SemSet} \<and>
   objects (snd (fail_at 3 fifo_calls clean_system)) = {FifoNode} \<and>
   fst (run_calls fifo_calls (start [] (snd (fail_at 3 fifo_calls clean_system)))) = Some 1 \<and>
   invalid_calls (snd (fail_at 4 signal_calls clean_system)) = 3"
proof -
  let ?t = "snd (fail_at 3 fifo_calls clean_system)"
  have e: "objects clean_system = {}" by (simp add: clean_system_def)
  note F = failed_start_leaves[of clean_system]
  have t: "objects ?t = {FifoNode}" using F e by simp
  then have "fst (run_calls fifo_calls (start [] ?t)) = Some 1"
    using failed_start_leaves[of ?t "[]"] by simp
  moreover have "map_option exit_status (fst (fail_at 7 shm_calls clean_system)) = Some 255 \<and>
      objects (snd (fail_at 7 shm_calls clean_system)) = {Segment, SemSet}"
    using spec[OF conjunct1[OF F], of 7] e by (simp add: insert_commute)
  moreover have "invalid_calls (snd (fail_at 4 signal_calls clean_system)) = 3"
    using spec[OF conjunct2[OF conjunct2[OF conjunct2[OF conjunct2[OF F]]]], of 4] by simp
  ultimately show ?thesis using t by blast
qed

end
