(* ===== verification/Wire_Format.thy ===== *)
theory Wire_Format
  imports Stdio_Format Complex_Main
begin

text \<open>
  The text format of src/task\_8/homework/utils/src/serializer.c.  A finite double is its rational value,
  \<open>NaN\<close> is the one other value the programs produce; the rounding to the format of the machine is an
  argument \<open>rnd\<close> of every operation that rounds.  Infinities and hexadecimal input are not modelled.
\<close>

section \<open>Doubles\<close>

datatype double = Num rat | NaN

definition dbl_op :: "(rat \<Rightarrow> rat) \<Rightarrow> (rat \<Rightarrow> rat \<Rightarrow> rat) \<Rightarrow> double \<Rightarrow> double \<Rightarrow> double" where
  "dbl_op rnd f a b = (case a of NaN \<Rightarrow> NaN | Num x \<Rightarrow> (case b of NaN \<Rightarrow> NaN | Num y \<Rightarrow> Num (rnd (f x y))))"

definition dadd :: "(rat \<Rightarrow> rat) \<Rightarrow> double \<Rightarrow> double \<Rightarrow> double" where "dadd rnd = dbl_op rnd (+)"
definition dsub :: "(rat \<Rightarrow> rat) \<Rightarrow> double \<Rightarrow> double \<Rightarrow> double" where "dsub rnd = dbl_op rnd (-)"
definition dmul :: "(rat \<Rightarrow> rat) \<Rightarrow> double \<Rightarrow> double \<Rightarrow> double" where "dmul rnd = dbl_op rnd (*)"

text \<open>Of the divisions by zero only that of zero occurs.\<close>

definition ddiv :: "(rat \<Rightarrow> rat) \<Rightarrow> double \<Rightarrow> double \<Rightarrow> double" where
  "ddiv rnd a b = (if b = Num 0 then NaN else dbl_op rnd (/) a b)"

definition of_size :: "(rat \<Rightarrow> rat) \<Rightarrow> nat \<Rightarrow> double" where
  "of_size rnd n = Num (rnd (of_nat n))"

definition dle :: "double \<Rightarrow> double \<Rightarrow> bool" where
  "dle a b = (case a of NaN \<Rightarrow> False | Num x \<Rightarrow> (case b of NaN \<Rightarrow> False | Num y \<Rightarrow> x \<le> y))"

lemma NaN_absorbs [simp]:
  "dadd rnd NaN b = NaN" "dadd rnd a NaN = NaN" "dmul rnd NaN b = NaN" "dmul rnd a NaN = NaN"
  "dsub rnd NaN b = NaN" "dsub rnd a NaN = NaN"
  by (cases a; simp add: dadd_def dmul_def dsub_def dbl_op_def)+

section \<open>Printing and reading\<close>

text \<open>\<open>%.15lf\<close>: the exact value rounded to 15 decimals, ties to even.\<close>

definition round_even :: "rat \<Rightarrow> int" where
  "round_even q = (let f = \<lfloor>q\<rfloor>; r = q - of_int f in
     if r < 1 / 2 then f else if 1 / 2 < r then f + 1 else if even f then f else f + 1)"

definition E15 :: nat where "E15 = 10 ^ 15"

definition scaled15 :: "rat \<Rightarrow> nat" where
  "scaled15 q = nat (round_even (\<bar>q\<bar> * of_nat E15))"

definition dec_pad :: "nat \<Rightarrow> nat \<Rightarrow> string" where
  "dec_pad k n = replicate (k - length (dec_nat n)) (CHR ''0'') @ dec_nat n"

definition print_double :: "double \<Rightarrow> string" where
  "print_double d = (case d of NaN \<Rightarrow> ''nan''
     | Num q \<Rightarrow> (if q < 0 then ''-'' else []) @ dec_nat (scaled15 q div E15) @ ''.'' @ dec_pad 15 (scaled15 q mod E15))"

text \<open>The value that the printed text denotes.\<close>

definition fix15 :: "rat \<Rightarrow> rat" where
  "fix15 q = (if q < 0 then - (of_nat (scaled15 q) / of_nat E15) else of_nat (scaled15 q) / of_nat E15)"

text \<open>An optional exponent; a letter without digits makes the conversion fail.\<close>

definition scan_exponent :: "string \<Rightarrow> (int \<times> string) option" where
  "scan_exponent s =
     (case s of [] \<Rightarrow> Some (0, [])
      | c # t \<Rightarrow> if c \<noteq> CHR ''e'' \<and> c \<noteq> CHR ''E'' then Some (0, s)
          else let neg = (take 1 t = ''-''); u = (if neg \<or> take 1 t = ''+'' then drop 1 t else t);
                   ds = takeWhile c_isdigit u
               in if ds = [] then None
                  else Some (if neg then - int (nat_of_digits 0 ds) else int (nat_of_digits 0 ds), drop (length ds) u))"

definition pow10 :: "int \<Rightarrow> rat" where
  "pow10 e = (if 0 \<le> e then 10 ^ nat e else 1 / 10 ^ nat (- e))"

text \<open>\<open>%lf\<close>.\<close>

definition scan_double :: "(rat \<Rightarrow> rat) \<Rightarrow> string \<Rightarrow> (double \<times> string) option" where
  "scan_double rnd s =
     (let t = skip_space s;
          neg = (take 1 t = ''-'');
          u = (if neg \<or> take 1 t = ''+'' then drop 1 t else t)
      in if take 3 u = ''nan'' then Some (NaN, drop 3 u)
         else let ip = takeWhile c_isdigit u; r = drop (length ip) u;
                  fp = (if take 1 r = ''.'' then takeWhile c_isdigit (drop 1 r) else []);
                  r1 = (if take 1 r = ''.'' then drop (length fp) (drop 1 r) else r)
              in if ip = [] \<and> fp = [] then None
                 else case scan_exponent r1 of None \<Rightarrow> None
                 | Some (e, r2) \<Rightarrow>
                     let v = of_nat (nat_of_digits 0 (ip @ fp)) / 10 ^ length fp * pow10 e
                     in Some (Num (rnd (if neg then - v else v)), r2))"

section \<open>The messages\<close>

record Task =
  x_min :: double
  x_max :: double
  y_min :: double
  y_max :: double
  num_points :: nat

record Result =
  integral_value :: double
  points_inside :: nat
  total_points :: nat

text \<open>\<open>None\<close> where the function returns -1; otherwise the text it leaves in the buffer.\<close>

definition serialize_task :: "Task \<Rightarrow> nat \<Rightarrow> string option" where
  "serialize_task t buffer_size =
     (let s = ''TASK:'' @ print_double (x_min t) @ '':'' @ print_double (x_max t) @ '':'' @ print_double (y_min t) @ '':'' @
        print_double (y_max t) @ '':'' @ dec_nat (num_points t)
      in if buffer_size \<le> length s then None else Some s)"

definition serialize_result :: "Result \<Rightarrow> nat \<Rightarrow> string option" where
  "serialize_result r buffer_size =
     (let s = ''RESULT:'' @ print_double (integral_value r) @ '':'' @ dec_nat (points_inside r) @ '':'' @ dec_nat (total_points r)
      in if buffer_size \<le> length s then None else Some s)"

text \<open>\<open>sscanf\<close> stops at the first conversion or literal that does not match.\<close>

definition scan_double_colon :: "(rat \<Rightarrow> rat) \<Rightarrow> string \<Rightarrow> (double \<times> string) option" where
  "scan_double_colon rnd s = (case scan_double rnd s of None \<Rightarrow> None
     | Some (d, r) \<Rightarrow> map_option (\<lambda>r'. (d, r')) (scan_literal '':'' r))"

definition deserialize_task :: "(rat \<Rightarrow> rat) \<Rightarrow> bytes \<Rightarrow> Task option" where
  "deserialize_task rnd buffer =
     (if \<not> strncmp_eq buffer ''TASK:'' 5 then None
      else case scan_double_colon rnd (drop 5 (cstr buffer)) of None \<Rightarrow> None
      | Some (a, r1) \<Rightarrow> (case scan_double_colon rnd r1 of None \<Rightarrow> None
      | Some (b, r2) \<Rightarrow> (case scan_double_colon rnd r2 of None \<Rightarrow> None
      | Some (c, r3) \<Rightarrow> (case scan_double_colon rnd r3 of None \<Rightarrow> None
      | Some (d, r4) \<Rightarrow> (case scan_size r4 of None \<Rightarrow> None
      | Some (n, r5) \<Rightarrow> Some \<lparr>x_min = a, x_max = b, y_min = c, y_max = d, num_points = n\<rparr>)))))"

definition deserialize_result :: "(rat \<Rightarrow> rat) \<Rightarrow> bytes \<Rightarrow> Result option" where
  "deserialize_result rnd buffer =
     (if \<not> strncmp_eq buffer ''RESULT:'' 7 then None
      else case scan_double_colon rnd (drop 7 (cstr buffer)) of None \<Rightarrow> None
      | Some (a, r1) \<Rightarrow> (case scan_size r1 of None \<Rightarrow> None
      | Some (i, r2) \<Rightarrow> (case scan_literal '':'' r2 of None \<Rightarrow> None
      | Some r3 \<Rightarrow> (case scan_size r3 of None \<Rightarrow> None
      | Some (n, r4) \<Rightarrow> Some \<lparr>integral_value = a, points_inside = i, total_points = n\<rparr>))))"

end
