(* ===== verification/Integral_Server.thy ===== *)
theory Integral_Server
  imports Wire_Format Getopt Kernel
begin

text \<open>
  The server of src/task\_8/homework: tcp\_server.c computes the integral of one task, udp\_discovery.c answers
  discovery requests, server\_main.c reads the options.  \<open>exp\<close> and \<open>rand_r\<close> are arguments.
\<close>

section \<open>Constants of the protocol\<close>

definition UDP_DISCOVERY_PORT :: nat where "UDP_DISCOVERY_PORT = 8123"
definition TCP_TASK_PORT :: nat where "TCP_TASK_PORT = 8125"
definition DISCOVERY_REQUEST :: string where "DISCOVERY_REQUEST = ''MONTE_CARLO_DISCOVERY''"
definition DISCOVERY_RESPONSE :: string where "DISCOVERY_RESPONSE = ''MONTE_CARLO_READY''"
definition BUFFER_SIZE_8 :: nat where "BUFFER_SIZE_8 = 4096"
definition RAND_MAX :: nat where "RAND_MAX = 2147483647"

type_synonym in_addr = "nat list"

record ServerInfo =
  addr :: in_addr
  port :: nat

section \<open>One task\<close>

text \<open>What the C library provides: rounding, \<open>exp\<close> on finite arguments and \<open>rand_r\<close>.\<close>

record libm =
  l_rnd :: "rat \<Rightarrow> rat"
  l_exp :: "rat \<Rightarrow> rat"
  l_rand :: "nat \<Rightarrow> nat \<times> nat"

definition dexp :: "libm \<Rightarrow> double \<Rightarrow> double" where
  "dexp m x = (case x of NaN \<Rightarrow> NaN | Num q \<Rightarrow> Num (l_exp m q))"

text \<open>A random coordinate between two bounds.\<close>

definition random_in :: "libm \<Rightarrow> nat \<Rightarrow> double \<Rightarrow> double \<Rightarrow> double" where
  "random_in m r lo hi = dadd (l_rnd m) lo
     (dmul (l_rnd m) (ddiv (l_rnd m) (of_size (l_rnd m) r) (of_size (l_rnd m) RAND_MAX)) (dsub (l_rnd m) hi lo))"

fun count_points :: "libm \<Rightarrow> Task \<Rightarrow> nat \<Rightarrow> nat \<Rightarrow> nat \<Rightarrow> nat" where
  "count_points m t seed 0 inside = inside"
| "count_points m t seed (Suc n) inside =
     (let (r1, s1) = l_rand m seed; (r2, s2) = l_rand m s1;
          x = random_in m r1 (x_min t) (x_max t); y = random_in m r2 (y_min t) (y_max t)
      in count_points m t s2 n (if dle y (dexp m x) then Suc inside else inside))"

definition run_task :: "libm \<Rightarrow> nat \<Rightarrow> Task \<Rightarrow> Result" where
  "run_task m seed t =
     (let area = dmul (l_rnd m) (dsub (l_rnd m) (x_max t) (x_min t)) (dsub (l_rnd m) (y_max t) (y_min t));
          inside = count_points m t seed (num_points t) 0
      in \<lparr>integral_value = ddiv (l_rnd m) (dmul (l_rnd m) area (of_size (l_rnd m) inside)) (of_size (l_rnd m) (num_points t)),
          points_inside = inside, total_points = num_points t\<rparr>)"

text \<open>
  \<open>handle_client\<close>: the result of its one \<open>read\<close>, at most \<open>BUFFER_SIZE_8 - 1\<close> bytes, to the bytes it writes.
\<close>

definition handle_client :: "libm \<Rightarrow> nat \<Rightarrow> bytes option \<Rightarrow> bytes option" where
  "handle_client m time recv = (case recv of None \<Rightarrow> None
     | Some b \<Rightarrow> (case deserialize_task (l_rnd m) (take (BUFFER_SIZE_8 - 1) b @ [NUL]) of None \<Rightarrow> None
     | Some t \<Rightarrow> map_option (\<lambda>s. s @ [NUL]) (serialize_result (run_task m time t) BUFFER_SIZE_8)))"

section \<open>The loops\<close>

text \<open>
  \<open>start_tcp_task_server\<close>: \<open>None\<close> where it returns -1, otherwise the descriptors it hands to threads, one for
  every successful \<open>accept\<close>.
\<close>

definition start_tcp_task_server :: "bool \<Rightarrow> bool \<Rightarrow> bool \<Rightarrow> bool \<Rightarrow> fd list \<Rightarrow> fd list option" where
  "start_tcp_task_server socket_ok reuse_ok bind_ok listen_ok accepts =
     (if socket_ok \<and> reuse_ok \<and> bind_ok \<and> listen_ok then Some (filter (\<lambda>f. 0 \<le> f) accepts) else None)"

definition udp_answer :: "bytes \<Rightarrow> bytes option" where
  "udp_answer datagram =
     (if cstr (take 255 datagram @ [NUL]) = DISCOVERY_REQUEST then Some DISCOVERY_RESPONSE else None)"

text \<open>\<open>start_udp_discovery_server\<close>: the received datagrams with their senders to the answers sent.\<close>

definition start_udp_discovery_server ::
    "bool \<Rightarrow> bool \<Rightarrow> bool \<Rightarrow> (bytes \<times> in_addr) option list \<Rightarrow> (bytes \<times> in_addr) list option" where
  "start_udp_discovery_server socket_ok reuse_ok bind_ok rs =
     (if socket_ok \<and> reuse_ok \<and> bind_ok
      then Some (List.map_filter (\<lambda>r. case r of None \<Rightarrow> None | Some (d, from) \<Rightarrow> map_option (\<lambda>a. (a, from)) (udp_answer d)) rs)
      else None)"

section \<open>The options\<close>

definition server_options :: optspec where
  "server_options c = (if c = CHR ''p'' then Some True else if c = CHR ''h'' then Some False else None)"

text \<open>\<open>strtol\<close> in base 10; no digits give 0.\<close>

definition strtol :: "string \<Rightarrow> int" where
  "strtol s = (case scan_signed s of None \<Rightarrow> 0
     | Some (neg, v, _) \<Rightarrow> max (- 9223372036854775808) (min 9223372036854775807 (if neg then - int v else int v)))"

text \<open>The exit code of \<open>main\<close> where it ends early, otherwise the port to serve on.\<close>

fun server_args :: "(char \<times> string) list \<Rightarrow> nat \<Rightarrow> int + nat" where
  "server_args [] tcp_port = Inr tcp_port"
| "server_args ((c, arg) # os) tcp_port =
     (if c = CHR ''p'' then
        let p = strtol arg in if p \<le> 0 \<or> 65535 < p then Inl 1 else server_args os (nat p)
      else if c = CHR ''h'' then Inl 0 else Inl 1)"

text \<open>The flags tell whether the logger opens and the two threads of the server start.\<close>

definition integral_server_main :: "bool \<Rightarrow> bool \<Rightarrow> bool \<Rightarrow> string list \<Rightarrow> int + nat" where
  "integral_server_main logger_ok udp_thread_ok tcp_thread_ok args =
     (if \<not> logger_ok then Inl 1
      else case server_args (getopt server_options args) TCP_TASK_PORT of
        Inl r \<Rightarrow> Inl r
      | Inr tcp_port \<Rightarrow> if udp_thread_ok \<and> tcp_thread_ok then Inr tcp_port else Inl 1)"

end
