(* ===== verification/Integral_Client.thy ===== *)
theory Integral_Client
  imports Integral_Server
begin

text \<open>
  The client of src/task\_8/homework: config.c reads the options (the task-8 side of its unresolved merge
  conflicts), udp\_discovery.c finds servers, client.c splits the integral into strips, tcp\_client.c sends
  one strip to a server.
\<close>

definition MAX_SERVERS :: nat where "MAX_SERVERS = 64"
definition DEFAULT_POINTS_PER_RECTANGLE :: nat where "DEFAULT_POINTS_PER_RECTANGLE = 10000000"
definition DEFAULT_TIMEOUT :: int where "DEFAULT_TIMEOUT = 2"

record ClientConfig =
  use_broadcast :: bool
  server_list :: "ServerInfo list"
  num_rectangles_sqrt :: int
  points_per_rectangle :: nat
  timeout :: int
  cx_min :: double
  cx_max :: double
  cy_min :: double
  cy_max :: double

section \<open>Addresses\<close>

text \<open>The dotted quads \<open>inet_pton\<close> accepts: four numbers below 256 without leading zeros.\<close>

fun split_on :: "char \<Rightarrow> string \<Rightarrow> string \<Rightarrow> string list" where
  "split_on sep acc [] = [rev acc]"
| "split_on sep acc (c # cs) = (if c = sep then rev acc # split_on sep [] cs else split_on sep (c # acc) cs)"

definition octet :: "string \<Rightarrow> nat option" where
  "octet s = (if s \<noteq> [] \<and> list_all c_isdigit s \<and> length s \<le> 3 \<and> (hd s = CHR ''0'' \<longrightarrow> length s = 1) \<and>
       nat_of_digits 0 s < 256
     then Some (nat_of_digits 0 s) else None)"

definition inet_pton :: "string \<Rightarrow> in_addr option" where
  "inet_pton s = (let ps = map octet (split_on (CHR ''.'') [] s) in
     if length ps = 4 \<and> None \<notin> set ps then Some (map the ps) else None)"

definition parse_ip_port :: "string \<Rightarrow> (in_addr \<times> nat) option" where
  "parse_ip_port input =
     (let buf = take 127 (cstr input) in
      case strchr_split (CHR '':'') buf of
        Some (host, port_str) \<Rightarrow>
          let p = strtol port_str in
          if p \<le> 0 \<or> 65535 < p then None else map_option (\<lambda>a. (a, nat p)) (inet_pton host)
      | None \<Rightarrow> map_option (\<lambda>a. (a, TCP_TASK_PORT)) (inet_pton buf))"

section \<open>The list of addresses\<close>

record IPList =
  ip_addresses :: "string list"
  capacity :: nat

definition create_iplist :: IPList where
  "create_iplist = \<lparr>ip_addresses = [], capacity = 4\<rparr>"

definition add_ip :: "IPList \<Rightarrow> string \<Rightarrow> IPList" where
  "add_ip l ip = l\<lparr>capacity := (if capacity l \<le> length (ip_addresses l) then 2 * capacity l else capacity l),
     ip_addresses := ip_addresses l @ [ip]\<rparr>"

fun collect_ips :: "string list \<Rightarrow> IPList \<Rightarrow> IPList" where
  "collect_ips [] l = l"
| "collect_ips (a # as) l = (if take 1 a = ''-'' then l else collect_ips as (add_ip l a))"

fun add_servers :: "string list \<Rightarrow> ServerInfo list \<Rightarrow> ServerInfo list option" where
  "add_servers [] ss = Some ss"
| "add_servers (ip # ips) ss =
     (if MAX_SERVERS \<le> length ss then Some ss
      else case parse_ip_port ip of None \<Rightarrow> None
      | Some (a, p) \<Rightarrow> add_servers ips (ss @ [\<lparr>addr = a, port = p\<rparr>]))"

definition parse_ip_addresses_from_args :: "string list \<Rightarrow> ClientConfig \<Rightarrow> ClientConfig option" where
  "parse_ip_addresses_from_args operands cfg =
     map_option (\<lambda>ss. cfg\<lparr>server_list := ss\<rparr>)
       (add_servers (ip_addresses (collect_ips operands create_iplist)) (server_list cfg))"

section \<open>The options\<close>

definition client_options :: optspec where
  "client_options c = (if c \<in> {CHR ''b'', CHR ''h''} then Some False
     else if c \<in> {CHR ''i'', CHR ''n'', CHR ''p'', CHR ''t''} then Some True else None)"

text \<open>\<open>atoll\<close> cut to 64 bits without sign.\<close>

definition atoll_size :: "string \<Rightarrow> nat" where
  "atoll_size s = nat (strtol s mod 18446744073709551616)"

text \<open>The return value where the loop returns, otherwise the configuration and the argument of \<open>-i\<close>.\<close>

fun client_opts :: "(char \<times> string) list \<Rightarrow> ClientConfig \<Rightarrow> string option \<Rightarrow> int + (ClientConfig \<times> string option)" where
  "client_opts [] cfg ip = Inr (cfg, ip)"
| "client_opts ((c, arg) # os) cfg ip =
     (if c = CHR ''b'' then client_opts os (cfg\<lparr>use_broadcast := True\<rparr>) ip
      else if c = CHR ''i'' then client_opts os (cfg\<lparr>use_broadcast := False\<rparr>) (Some arg)
      else if c = CHR ''p'' then
        let n = atoll_size arg in if n = 0 then Inl (-1) else client_opts os (cfg\<lparr>points_per_rectangle := n\<rparr>) ip
      else if c = CHR ''t'' then
        let n = atoi arg in if n \<le> 0 then Inl (-1) else client_opts os (cfg\<lparr>timeout := n\<rparr>) ip
      else if c = CHR ''h'' then Inl 1 else Inl (-1))"

definition default_config :: "libm \<Rightarrow> ClientConfig" where
  "default_config m = \<lparr>use_broadcast = True, server_list = [], num_rectangles_sqrt = 0,
     points_per_rectangle = DEFAULT_POINTS_PER_RECTANGLE, timeout = DEFAULT_TIMEOUT,
     cx_min = Num 0, cx_max = Num 1, cy_min = Num 0, cy_max = dexp m (Num 1)\<rparr>"

text \<open>The operands are the words that getopt leaves over, in order.\<close>

definition parse_arguments :: "libm \<Rightarrow> string list \<Rightarrow> string list \<Rightarrow> int + ClientConfig" where
  "parse_arguments m args operands =
     (case client_opts (getopt client_options args) (default_config m) None of
        Inl r \<Rightarrow> Inl r
      | Inr (cfg, None) \<Rightarrow> Inr cfg
      | Inr (cfg, Some ip) \<Rightarrow>
          (case parse_ip_port ip of None \<Rightarrow> Inl (-1)
           | Some (a, p) \<Rightarrow>
               (case parse_ip_addresses_from_args operands (cfg\<lparr>server_list := server_list cfg @ [\<lparr>addr = a, port = p\<rparr>]\<rparr>) of
                  None \<Rightarrow> Inl (-1)
                | Some cfg1 \<Rightarrow> if server_list cfg1 = [] then Inl (-1) else Inr cfg1)))"

section \<open>Discovery\<close>

text \<open>The loop over the results of \<open>recvfrom\<close>; it ends at an error, which a time-out is.\<close>

fun discover_loop :: "(bytes \<times> in_addr) option list \<Rightarrow> ServerInfo list \<Rightarrow> ServerInfo list" where
  "discover_loop [] ss = ss"
| "discover_loop (r # rs) ss =
     (if MAX_SERVERS \<le> length ss then ss
      else case r of None \<Rightarrow> ss
      | Some (d, from) \<Rightarrow>
          if strncmp_eq (take 255 d @ [NUL]) DISCOVERY_RESPONSE (length DISCOVERY_RESPONSE) \<and>
             \<not> list_ex (\<lambda>s. addr s = from) ss
          then discover_loop rs (ss @ [\<lparr>addr = from, port = TCP_TASK_PORT\<rparr>])
          else discover_loop rs ss)"

definition discover_servers_udp ::
    "bool \<Rightarrow> bool \<Rightarrow> bool \<Rightarrow> bool \<Rightarrow> (bytes \<times> in_addr) option list \<Rightarrow> ServerInfo list option" where
  "discover_servers_udp socket_ok broadcast_ok timeout_ok send_ok rs =
     (if socket_ok \<and> broadcast_ok \<and> timeout_ok \<and> send_ok then Some (discover_loop rs []) else None)"

definition discover_servers :: "ServerInfo list option \<Rightarrow> ClientConfig \<Rightarrow> int \<times> ClientConfig" where
  "discover_servers found cfg =
     (if use_broadcast cfg
      then case found of None \<Rightarrow> (-1, cfg\<lparr>server_list := []\<rparr>)
        | Some ss \<Rightarrow> (if ss = [] then -1 else int (length ss), cfg\<lparr>server_list := ss\<rparr>)
      else (int (length (server_list cfg)), cfg))"

definition validate_server_count :: "ClientConfig \<Rightarrow> int" where
  "validate_server_count cfg = (if server_list cfg = [] then -1 else 0)"

section \<open>The strips\<close>

text \<open>The network: a server and a request to the bytes that the one \<open>read\<close> returns, or no connection.\<close>

type_synonym network = "ServerInfo \<Rightarrow> bytes \<Rightarrow> bytes option"

definition server_port :: "ServerInfo \<Rightarrow> nat" where
  "server_port s = (if port s = 0 then TCP_TASK_PORT else port s)"

definition send_task_to_server :: "libm \<Rightarrow> network \<Rightarrow> ServerInfo \<Rightarrow> Task \<Rightarrow> Result option" where
  "send_task_to_server m net s t =
     (case serialize_task t BUFFER_SIZE_8 of None \<Rightarrow> None
      | Some msg \<Rightarrow> (case net (s\<lparr>port := server_port s\<rparr>) (msg @ [NUL]) of None \<Rightarrow> None
      | Some reply \<Rightarrow> deserialize_result (l_rnd m) (take (BUFFER_SIZE_8 - 1) reply @ [NUL])))"

definition strip_task :: "libm \<Rightarrow> ClientConfig \<Rightarrow> nat \<Rightarrow> Task" where
  "strip_task m cfg i =
     (let n = length (server_list cfg);
          width = ddiv (l_rnd m) (dsub (l_rnd m) (cx_max cfg) (cx_min cfg)) (of_size (l_rnd m) n);
          lo = dadd (l_rnd m) (cx_min cfg) (dmul (l_rnd m) (of_size (l_rnd m) i) width)
      in \<lparr>x_min = lo, x_max = (if Suc i = n then cx_max cfg else dadd (l_rnd m) lo width),
          y_min = cy_min cfg, y_max = cy_max cfg,
          num_points = points_per_rectangle cfg div n + (if i < points_per_rectangle cfg mod n then 1 else 0)\<rparr>)"

record TaskJob =
  j_server :: ServerInfo
  j_task :: Task
  j_result :: Result
  j_status :: int

definition task_worker :: "libm \<Rightarrow> network \<Rightarrow> TaskJob \<Rightarrow> TaskJob" where
  "task_worker m net job = (case send_task_to_server m net (j_server job) (j_task job) of
     None \<Rightarrow> job\<lparr>j_status := -1\<rparr>
   | Some res \<Rightarrow> job\<lparr>j_result := res, j_status := 0\<rparr>)"

definition strip_job :: "libm \<Rightarrow> ClientConfig \<Rightarrow> nat \<Rightarrow> TaskJob" where
  "strip_job m cfg i = \<lparr>j_server = server_list cfg ! i, j_task = strip_task m cfg i,
     j_result = \<lparr>integral_value = Num 0, points_inside = 0, total_points = 0\<rparr>, j_status = -1\<rparr>"

text \<open>
  The jobs in the order of the strips once their threads have been joined; \<open>threads\<close> tells for every strip
  whether its thread was created.  No two threads touch the same job.
\<close>

definition strip_results :: "libm \<Rightarrow> network \<Rightarrow> (nat \<Rightarrow> bool) \<Rightarrow> ClientConfig \<Rightarrow> TaskJob list" where
  "strip_results m net threads cfg =
     map (\<lambda>i. if threads i then task_worker m net (strip_job m cfg i) else strip_job m cfg i)
       [0..<length (server_list cfg)]"

definition add_result :: "libm \<Rightarrow> double \<Rightarrow> TaskJob \<Rightarrow> double" where
  "add_result m acc j = (if j_status j = 0 then dadd (l_rnd m) acc (integral_value (j_result j)) else acc)"

definition compute_integral_distributed :: "libm \<Rightarrow> network \<Rightarrow> (nat \<Rightarrow> bool) \<Rightarrow> ClientConfig \<Rightarrow> double" where
  "compute_integral_distributed m net threads cfg =
     foldl (add_result m) (Num 0) (strip_results m net threads cfg)"

text \<open>The program: the exit code and the integral it prints.\<close>

definition integral_client_main ::
    "libm \<Rightarrow> network \<Rightarrow> (nat \<Rightarrow> bool) \<Rightarrow> bool \<Rightarrow> string list \<Rightarrow> string list \<Rightarrow> ServerInfo list option \<Rightarrow> int \<times> double option" where
  "integral_client_main m net threads logger_ok args operands found =
     (if \<not> logger_ok then (1, None)
      else case parse_arguments m args operands of
        Inl r \<Rightarrow> (if 0 < r then 0 else 1, None)
      | Inr cfg \<Rightarrow> (case discover_servers found cfg of (n, cfg1) \<Rightarrow>
          if n \<le> 0 \<or> validate_server_count cfg1 < 0 then (1, None)
          else (0, Some (compute_integral_distributed m net threads cfg1))))"

end
