(* ===== verification/Wire_Codec.thy ===== *)
theory Wire_Codec
  imports Wire_Format
begin

text \<open>
  Reading back what was printed: the conversions of \<^theory_text>\<open>Wire_Format\<close>, stated as a codec that the messages use
  field by field, and the lengths of the printed texts.
\<close>

section \<open>A field and the text after it\<close>

text \<open>
  A printer and a scanner of one conversion: scanning a printed field in front of a text that cannot
  belong to it gives the field, as the format keeps it, and that text.
\<close>

locale field_codec =
  fixes print_field :: "'a \<Rightarrow> string"
    and scan_field :: "string \<Rightarrow> ('a \<times> string) option"
    and kept :: "'a \<Rightarrow> 'a"
    and ok :: "'a \<Rightarrow> bool"
    and ends :: "string \<Rightarrow> bool"
  assumes scan_print: "ok x \<Longrightarrow> ends r \<Longrightarrow> scan_field (print_field x @ r) = Some (kept x, r)"
    and print_clean: "ok x \<Longrightarrow> nonul (print_field x)"
    and ends_colon: "ends ('':'' @ r)"
begin

lemma scan_before_colon: "ok x \<Longrightarrow> scan_field (print_field x @ '':'' @ r) = Some (kept x, '':'' @ r)"
  by (rule scan_print) (simp_all only: ends_colon)

end

section \<open>Digits\<close>

lemma nat_of_digits_acc: "nat_of_digits acc ds = acc * 10 ^ length ds + nat_of_digits 0 ds"
proof (induction ds arbitrary: acc)
  case (Cons c cs)
  show ?case using Cons[of "10 * acc + digit_val c"] Cons[of "digit_val c"] by (simp add: algebra_simps)
qed simp

lemma nat_of_digits_zeros: "nat_of_digits 0 (replicate k (CHR ''0'') @ ds) = nat_of_digits 0 ds"
proof (induction k)
  case (Suc k)
  have "digit_val (CHR ''0'') = 0" by (simp add: digit_val_def digits_def)
  then show ?case using Suc by simp
qed simp

lemma dec_pad_facts:
  assumes "n < 10 ^ k" "0 < k"
  shows "length (dec_pad k n) = k" "\<forall>c\<in>set (dec_pad k n). c_isdigit c" "nat_of_digits 0 (dec_pad k n) = n"
proof -
  have "length (dec_nat n) \<le> k" by (rule dec_nat_length[OF assms])
  then show "length (dec_pad k n) = k" by (simp add: dec_pad_def)
  have "c_isdigit (CHR ''0'')" by (simp add: c_isdigit_def digits_def)
  then show "\<forall>c\<in>set (dec_pad k n). c_isdigit c" using dec_nat_digits[of n] by (auto simp: dec_pad_def)
  show "nat_of_digits 0 (dec_pad k n) = n" by (simp add: dec_pad_def nat_of_digits_zeros)
qed

lemma E15_pos: "0 < E15" by (simp add: E15_def)

lemma frac_facts:
  "length (dec_pad 15 (n mod E15)) = 15" "\<forall>c\<in>set (dec_pad 15 (n mod E15)). c_isdigit c"
  "nat_of_digits 0 (dec_nat (n div E15) @ dec_pad 15 (n mod E15)) = n"
proof -
  have lt: "n mod E15 < 10 ^ 15" using E15_pos by (metis E15_def mod_less_divisor)
  note p = dec_pad_facts[OF lt]
  show len: "length (dec_pad 15 (n mod E15)) = 15" and "\<forall>c\<in>set (dec_pad 15 (n mod E15)). c_isdigit c" using p by simp_all
  have "nat_of_digits 0 (dec_nat (n div E15) @ dec_pad 15 (n mod E15)) =
      n div E15 * 10 ^ 15 + nat_of_digits 0 (dec_pad 15 (n mod E15))"
    using nat_of_digits_acc[of "n div E15" "dec_pad 15 (n mod E15)"] len by (simp add: nat_of_digits_append)
  also have "\<dots> = n div E15 * E15 + n mod E15" using p(3) by (simp add: E15_def)
  finally show "nat_of_digits 0 (dec_nat (n div E15) @ dec_pad 15 (n mod E15)) = n" by simp
qed

section \<open>Doubles\<close>

definition kept15 :: "(rat \<Rightarrow> rat) \<Rightarrow> double \<Rightarrow> double" where
  "kept15 rnd d = (case d of NaN \<Rightarrow> NaN | Num q \<Rightarrow> Num (rnd (fix15 q)))"

definition ends_double :: "string \<Rightarrow> bool" where
  "ends_double r \<longleftrightarrow> stops_digits r \<and> take 1 r \<noteq> ''e'' \<and> take 1 r \<noteq> ''E''"

lemma scan_exponent_none: "ends_double r \<Longrightarrow> scan_exponent r = Some (0, r)"
  by (cases r) (auto simp: scan_exponent_def ends_double_def)

text \<open>The unsigned part.\<close>

lemma scan_fixed:
  fixes n :: nat
  assumes "ends_double r"
  defines "u \<equiv> dec_nat (n div E15) @ ''.'' @ dec_pad 15 (n mod E15) @ r"
  shows "take 3 u \<noteq> ''nan''" "takeWhile c_isdigit u = dec_nat (n div E15)"
    "drop (length (dec_nat (n div E15))) u = ''.'' @ dec_pad 15 (n mod E15) @ r"
    "takeWhile c_isdigit (dec_pad 15 (n mod E15) @ r) = dec_pad 15 (n mod E15)"
proof -
  have "c_isdigit (hd u)" unfolding u_def by (rule dec_nat_hd)
  then show "take 3 u \<noteq> ''nan''" by (cases u) (auto simp: c_isdigit_def digits_def)
  show "takeWhile c_isdigit u = dec_nat (n div E15)"
    unfolding u_def using dec_nat_digits by (intro takeWhile_digits_append) (auto simp: c_isdigit_def digits_def)
  show "drop (length (dec_nat (n div E15))) u = ''.'' @ dec_pad 15 (n mod E15) @ r" by (simp add: u_def)
  show "takeWhile c_isdigit (dec_pad 15 (n mod E15) @ r) = dec_pad 15 (n mod E15)"
    using frac_facts(2) assms(1) by (intro takeWhile_digits_append) (auto simp: ends_double_def)
qed

lemma scan_print_double:
  assumes "ends_double r"
  shows "scan_double rnd (print_double d @ r) = Some (kept15 rnd d, r)"
proof (cases d)
  case NaN
  then show ?thesis by (simp add: print_double_def scan_double_def skip_space_def c_isspace_def kept15_def)
next
  case (Num q)
  let ?n = "scaled15 q"
  let ?u = "dec_nat (?n div E15) @ ''.'' @ dec_pad 15 (?n mod E15) @ r"
  note f = scan_fixed[OF assms, of ?n] and g = frac_facts[of ?n]
  have v: "of_nat (nat_of_digits 0 (dec_nat (?n div E15) @ dec_pad 15 (?n mod E15))) / 10 ^ 15 * pow10 0 = of_nat ?n / (of_nat E15 :: rat)"
    unfolding g(3) by (simp add: pow10_def E15_def)
  have sp: "skip_space ?u = ?u" using dec_nat_hd by (intro skip_space_nonspace) (simp add: isdigit_not_space)
  note sg = take1_dec_nat[of "?n div E15" "''.'' @ dec_pad 15 (?n mod E15) @ r"]
  show ?thesis
  proof (cases "q < 0")
    case True
    have t: "print_double d @ r = CHR ''-'' # ?u" using Num True by (simp add: print_double_def)
    have "skip_space (CHR ''-'' # ?u) = CHR ''-'' # ?u" by (simp add: skip_space_def c_isspace_def)
    then show ?thesis unfolding t
      using f g(1) v scan_exponent_none[OF assms] Num True
      by (simp add: scan_double_def Let_def kept15_def fix15_def)
  next
    case False
    have t: "print_double d @ r = ?u" using Num False by (simp add: print_double_def)
    show ?thesis unfolding t
      using f g(1) v sg sp scan_exponent_none[OF assms] Num False
      by (simp add: scan_double_def Let_def kept15_def fix15_def)
  qed
qed

lemma print_double_clean: "nonul (print_double d)"
proof -
  have "nonul (dec_pad 15 (n mod E15))" for n
    using frac_facts(2)[of n] by (auto simp: nonul_def dest: isdigit_not_sign)
  then show ?thesis by (auto simp: print_double_def split: double.splits)
qed

interpretation lf: field_codec print_double "scan_double rnd" "kept15 rnd" "\<lambda>_. True" ends_double
  by unfold_locales (auto simp: scan_print_double print_double_clean ends_double_def c_isdigit_def digits_def)

interpretation zu: field_codec dec_nat scan_size "\<lambda>n. n" "\<lambda>n. n \<le> size_max" stops_digits
  by unfold_locales (auto simp: scan_size_dec_nat c_isdigit_def digits_def)

section \<open>Lengths\<close>

lemma round_even_le: "of_int (round_even q) \<le> q + 1"
proof -
  have "round_even q \<le> \<lfloor>q\<rfloor> + 1" by (simp add: round_even_def Let_def)
  then have "of_int (round_even q) \<le> (of_int (\<lfloor>q\<rfloor> + 1) :: rat)" by (simp only: of_int_le_iff)
  also have "\<dots> \<le> q + 1" by simp
  finally show ?thesis .
qed

lemma scaled15_bound:
  assumes "\<bar>q\<bar> < 10 ^ k"
  shows "scaled15 q div E15 \<le> 10 ^ k"
proof -
  let ?x = "\<bar>q\<bar> * of_nat E15"
  have "of_int (round_even ?x) \<le> ?x + 1" by (rule round_even_le)
  also have "?x \<le> 10 ^ k * of_nat E15" using assms by (intro mult_right_mono) auto
  finally have "of_int (round_even ?x) \<le> (of_int (10 ^ k * int E15 + 1) :: rat)" by simp
  then have "round_even ?x \<le> 10 ^ k * int E15 + 1" by (simp only: of_int_le_iff)
  then have "scaled15 q \<le> 10 ^ k * E15 + 1" unfolding scaled15_def by (simp add: nat_le_iff)
  then have "scaled15 q div E15 \<le> (10 ^ k * E15 + 1) div E15" by (rule div_le_mono)
  also have "\<dots> = 10 ^ k" using E15_pos by (simp add: E15_def)
  finally show ?thesis .
qed

lemma print_double_length:
  assumes "\<And>q. d = Num q \<Longrightarrow> \<bar>q\<bar> < 10 ^ k"
  shows "length (print_double d) \<le> k + 18"
proof (cases d)
  case (Num q)
  have "scaled15 q div E15 < 10 ^ Suc k" using scaled15_bound[OF assms[OF Num]] by (simp add: le_less_trans)
  then have "length (dec_nat (scaled15 q div E15)) \<le> Suc k" by (rule dec_nat_length) simp
  then show ?thesis using frac_facts(1)[of "scaled15 q"] by (simp add: Num print_double_def)
qed (simp add: print_double_def)

end
