(* ===== verification/Integral_Properties.thy ===== *)
theory Integral_Properties
  imports Integral_Client Wire_Codec
begin

text \<open>
  Properties of the distributed integral: the wire format, discovery, the distribution of the points and
  what client and server compute together.
\<close>

section \<open>The wire format\<close>

definition magnitude :: "nat \<Rightarrow> double \<Rightarrow> bool" where
  "magnitude k d \<longleftrightarrow> (\<forall>q. d = Num q \<longrightarrow> \<bar>q\<bar> < 10 ^ k)"

definition kept_task :: "(rat \<Rightarrow> rat) \<Rightarrow> Task \<Rightarrow> Task" where
  "kept_task rnd t = \<lparr>x_min = kept15 rnd (x_min t), x_max = kept15 rnd (x_max t), y_min = kept15 rnd (y_min t),
     y_max = kept15 rnd (y_max t), num_points = num_points t\<rparr>"

definition kept_result :: "(rat \<Rightarrow> rat) \<Rightarrow> Result \<Rightarrow> Result" where
  "kept_result rnd r = r\<lparr>integral_value := kept15 rnd (integral_value r)\<rparr>"

lemma scan_double_colon_print:
  "scan_double_colon rnd (print_double d @ '':'' @ r) = Some (kept15 rnd d, r)"
  using lf.scan_before_colon[of rnd d r] by (simp add: scan_double_colon_def del: append_Cons)

lemma cstr_terminated: "nonul s \<Longrightarrow> cstr (s @ NUL # junk) = s"
  unfolding cstr_def nonul_def by (intro takeWhile_stop) auto

definition task_text :: "Task \<Rightarrow> string" where
  "task_text t = ''TASK:'' @ print_double (x_min t) @ '':'' @ print_double (x_max t) @ '':'' @ print_double (y_min t) @ '':'' @
     print_double (y_max t) @ '':'' @ dec_nat (num_points t)"

definition result_text :: "Result \<Rightarrow> string" where
  "result_text r = ''RESULT:'' @ print_double (integral_value r) @ '':'' @ dec_nat (points_inside r) @ '':'' @ dec_nat (total_points r)"

lemma texts_clean [simp]: "nonul (task_text t)" "nonul (result_text r)"
  by (simp_all add: task_text_def result_text_def print_double_clean)

lemma serialize_text:
  "serialize_task t n = (if n \<le> length (task_text t) then None else Some (task_text t))"
  "serialize_result r n = (if n \<le> length (result_text r) then None else Some (result_text r))"
  by (simp_all add: serialize_task_def task_text_def serialize_result_def result_text_def Let_def)

text \<open>Everything of the text but the last number, and what follows it.\<close>

definition task_front :: "Task \<Rightarrow> string" where
  "task_front t = ''TASK:'' @ print_double (x_min t) @ '':'' @ print_double (x_max t) @ '':'' @ print_double (y_min t) @ '':'' @
     print_double (y_max t) @ '':''"

lemma task_text_front: "task_text t = task_front t @ dec_nat (num_points t)"
  by (simp add: task_text_def task_front_def)

lemma deserialize_front:
  assumes "scan_size ds = Some (n, r)" "nonul ds"
  shows "deserialize_task rnd ((task_front t @ ds) @ NUL # junk) = Some ((kept_task rnd t)\<lparr>num_points := n\<rparr>)"
proof -
  have c: "cstr ((task_front t @ ds) @ NUL # junk) = task_front t @ ds"
    using assms(2) by (intro cstr_terminated) (simp add: task_front_def print_double_clean)
  have p: "strncmp_eq ((task_front t @ ds) @ NUL # junk) ''TASK:'' 5"
    unfolding strncmp_eq_def c by (simp add: task_front_def cstr_def)
  have d: "drop 5 (task_front t @ ds) = print_double (x_min t) @ '':'' @ print_double (x_max t) @ '':'' @
      print_double (y_min t) @ '':'' @ print_double (y_max t) @ '':'' @ ds"
    by (simp add: task_front_def)
  show ?thesis unfolding deserialize_task_def c d
    using p by (simp add: scan_double_colon_print assms(1) kept_task_def del: append_Cons)
qed

lemma print_double_magnitude: "magnitude k d \<Longrightarrow> length (print_double d) \<le> k + 18"
  by (rule print_double_length) (simp add: magnitude_def)

lemma size_length: "n \<le> size_max \<Longrightarrow> length (dec_nat n) \<le> 20"
  by (rule dec_nat_length) (simp_all add: size_max_def)

lemma round_even_error: "\<bar>of_int (round_even q) - q\<bar> \<le> 1 / 2"
proof -
  define r where "r = q - of_int \<lfloor>q\<rfloor>"
  have r: "0 \<le> r" "r < 1" unfolding r_def by linarith+
  have "of_int (round_even q) - q = - r \<and> r \<le> 1 / 2 \<or> of_int (round_even q) - q = 1 - r \<and> 1 / 2 \<le> r"
    unfolding round_even_def Let_def r_def[symmetric] by (auto simp: r_def)
  then show ?thesis using r by auto
qed

lemma fix15_error: "\<bar>fix15 q - q\<bar> \<le> 1 / (2 * of_nat E15)"
proof -
  let ?x = "\<bar>q\<bar> * of_nat E15"
  have e: "(0 :: rat) < of_nat E15" using E15_pos by simp
  have "0 \<le> \<lfloor>?x\<rfloor>" by simp
  then have "0 \<le> round_even ?x" unfolding round_even_def Let_def by auto
  then have n: "of_nat (scaled15 q) = (of_int (round_even ?x) :: rat)" by (simp add: scaled15_def)
  have "\<bar>of_nat (scaled15 q) / of_nat E15 - \<bar>q\<bar>\<bar> = \<bar>of_int (round_even ?x) - ?x\<bar> / of_nat E15"
    unfolding n using e by (simp add: field_simps abs_divide flip: abs_mult)
  also have "\<dots> \<le> (1 / 2) / of_nat E15" using round_even_error e by (intro divide_right_mono) auto
  finally have b: "\<bar>of_nat (scaled15 q) / of_nat E15 - \<bar>q\<bar>\<bar> \<le> 1 / (2 * of_nat E15)" by simp
  show ?thesis
  proof (cases "q < 0")
    case True
    then have "fix15 q - q = - (of_nat (scaled15 q) / of_nat E15 - \<bar>q\<bar>)" by (simp add: fix15_def)
    then show ?thesis using b by (simp only: abs_minus_cancel)
  next
    case False
    then show ?thesis using b by (simp add: fix15_def)
  qed
qed

lemma task_roundtrip:
  assumes "magnitude 309 (x_min t)" "magnitude 309 (x_max t)" "magnitude 309 (y_min t)" "magnitude 309 (y_max t)"
    and "num_points t \<le> size_max"
  shows "serialize_task t BUFFER_SIZE_8 = Some (task_text t)"
    and "deserialize_task rnd (task_text t @ NUL # junk) = Some (kept_task rnd t)"
    and "length (task_text t) < BUFFER_SIZE_8 - 1"
proof -
  have "length (task_text t) < BUFFER_SIZE_8 - 1"
    using assms(1-4)[THEN print_double_magnitude] size_length[OF assms(5)]
    by (simp add: task_text_def BUFFER_SIZE_8_def)
  then show "serialize_task t BUFFER_SIZE_8 = Some (task_text t)" "length (task_text t) < BUFFER_SIZE_8 - 1"
    by (simp_all add: serialize_text)
  show "deserialize_task rnd (task_text t @ NUL # junk) = Some (kept_task rnd t)"
    using deserialize_front[OF scan_size_dec_nat[of "[]" "num_points t"]] assms(5)
    by (simp add: task_text_front kept_task_def)
qed

lemma result_roundtrip:
  assumes "magnitude 309 (integral_value r)" "points_inside r \<le> size_max" "total_points r \<le> size_max"
  shows "serialize_result r BUFFER_SIZE_8 = Some (result_text r)"
    and "deserialize_result rnd (result_text r @ NUL # junk) = Some (kept_result rnd r)"
    and "length (result_text r) < BUFFER_SIZE_8 - 1"
proof -
  have "length (result_text r) < BUFFER_SIZE_8 - 1"
    using assms(1)[THEN print_double_magnitude] assms(2,3)[THEN size_length]
    by (simp add: result_text_def BUFFER_SIZE_8_def)
  then show "serialize_result r BUFFER_SIZE_8 = Some (result_text r)" "length (result_text r) < BUFFER_SIZE_8 - 1"
    by (simp_all add: serialize_text)
  have c: "cstr (result_text r @ NUL # junk) = result_text r" by (rule cstr_terminated) simp
  have p: "strncmp_eq (result_text r @ NUL # junk) ''RESULT:'' 7"
    unfolding strncmp_eq_def c by (simp add: result_text_def cstr_def)
  have d: "drop 7 (result_text r) = print_double (integral_value r) @ '':'' @ dec_nat (points_inside r) @ '':'' @
      dec_nat (total_points r)"
    by (simp add: result_text_def)
  have "scan_size (dec_nat (total_points r)) = Some (total_points r, [])"
    using scan_size_dec_nat[of "[]"] assms(3) by simp
  then show "deserialize_result rnd (result_text r @ NUL # junk) = Some (kept_result rnd r)"
    unfolding deserialize_result_def c d
    using p zu.scan_before_colon[OF assms(2), of "dec_nat (total_points r)"]
    by (simp add: scan_double_colon_print kept_result_def scan_literal_def del: append_Cons)
qed

text \<open>
  C7: Tasks and results survive the wire: with coordinates below \<open>10 ^ 309\<close>, which finite doubles are, and
  counts that fit 64 bits, the text fits the buffer of 4096 bytes, and reading it back, whatever follows
  its terminating zero, gives the same counts and every coordinate rounded to 15 decimals and then to
  a double; the first rounding moves it by at most half a unit of the last printed decimal.
\<close>

theorem wire_roundtrip:
  assumes "magnitude 309 (x_min t)" "magnitude 309 (x_max t)" "magnitude 309 (y_min t)" "magnitude 309 (y_max t)"
    and "num_points t \<le> size_max"
    and "magnitude 309 (integral_value r)" "points_inside r \<le> size_max" "total_points r \<le> size_max"
  shows "(\<exists>s. serialize_task t BUFFER_SIZE_8 = Some s \<and> deserialize_task rnd (s @ NUL # junk) = Some (kept_task rnd t)) \<and>
    (\<exists>s. serialize_result r BUFFER_SIZE_8 = Some s \<and> deserialize_result rnd (s @ NUL # junk) = Some (kept_result rnd r)) \<and>
    (\<forall>q. \<bar>fix15 q - q\<bar> \<le> 1 / (2 * of_nat E15))"
  using task_roundtrip[OF assms(1-5)] result_roundtrip[OF assms(6-8)] fix15_error by blast

theorem wire_roundtrip_witness:
  "\<exists>s. serialize_task \<lparr>x_min = Num 0, x_max = Num (1 / 2), y_min = Num (- 3), y_max = NaN, num_points = 7\<rparr> BUFFER_SIZE_8 = Some s"
proof -
  let ?t = "\<lparr>x_min = Num 0, x_max = Num (1 / 2), y_min = Num (- 3), y_max = NaN, num_points = 7\<rparr>"
  let ?r = "\<lparr>integral_value = NaN, points_inside = 0, total_points = 0\<rparr>"
  have "(1::rat) < 10 ^ 309" by (rule one_less_power) simp_all
  moreover have "(3::rat) < 10 ^ 309" using power_increasing[of 1 309 "10::rat"] by simp
  ultimately have m: "magnitude 309 (Num 0)" "magnitude 309 (Num (1 / 2))" "magnitude 309 (Num (- 3))" "magnitude 309 NaN"
    by (auto simp: magnitude_def)
  show ?thesis using wire_roundtrip[of ?t ?r "\<lambda>x. x" "[]"] m by (auto simp: size_max_def)
qed

section \<open>A message cut short\<close>

lemma dec_nat_take:
  assumes "0 < j" "j \<le> length (dec_nat n)"
  shows "take j (dec_nat n) = dec_nat (n div 10 ^ (length (dec_nat n) - j))"
  using assms
proof (induction n arbitrary: j rule: dec_nat.induct)
  case (1 n)
  show ?case
  proof (cases "j = length (dec_nat n)")
    case False
    have big: "\<not> n < 10" using 1(2,3) False by (subst (asm) (1 2) dec_nat.simps) auto
    then have eq: "dec_nat n = dec_nat (n div 10) @ [digit_char (n mod 10)]" by (subst dec_nat.simps) simp
    then have j: "j \<le> length (dec_nat (n div 10))" using 1(3) False by simp
    have "take j (dec_nat n) = take j (dec_nat (n div 10))" using eq j by simp
    also have "\<dots> = dec_nat (n div 10 div 10 ^ (length (dec_nat (n div 10)) - j))"
      by (rule 1(1)[OF big 1(2) j])
    also have "n div 10 div 10 ^ (length (dec_nat (n div 10)) - j) = n div 10 ^ (length (dec_nat n) - j)"
      using eq j by (simp add: Suc_diff_le div_mult2_eq)
    finally show ?thesis .
  qed simp
qed

text \<open>
  The server reads once and does not look for the end of a message: if only part of the last number
  arrives with that read, the task is accepted with the leading digits as the number of points, so that
  a tenth or less of the points is computed and reported without any error.
\<close>

theorem truncated_task_accepted:
  assumes "num_points t \<le> size_max" "0 < j" "j \<le> length (dec_nat (num_points t))"
  shows "deserialize_task rnd (take (length (task_front t) + j) (task_text t) @ [NUL]) =
    Some ((kept_task rnd t)\<lparr>num_points := num_points t div 10 ^ (length (dec_nat (num_points t)) - j)\<rparr>)"
proof -
  let ?n = "num_points t" and ?lost = "length (dec_nat (num_points t)) - j"
  have "take (length (task_front t) + j) (task_text t) = task_front t @ take j (dec_nat ?n)"
    by (simp add: task_text_front)
  then have t: "take (length (task_front t) + j) (task_text t) = task_front t @ dec_nat (?n div 10 ^ ?lost)"
    using dec_nat_take[OF assms(2,3)] by simp
  have "?n div 10 ^ ?lost \<le> size_max" using assms(1) div_le_dividend le_trans by blast
  then have "scan_size (dec_nat (?n div 10 ^ ?lost)) = Some (?n div 10 ^ ?lost, [])"
    using scan_size_dec_nat[of "[]" "?n div 10 ^ ?lost"] by simp
  from deserialize_front[OF this, of rnd t "[]"] show ?thesis unfolding t by simp
qed

theorem truncated_task_accepted_witness:
  "\<exists>msg t. deserialize_task (\<lambda>x. x) (msg @ [NUL]) = Some t \<and> num_points t = 12"
proof -
  let ?t = "\<lparr>x_min = Num 0, x_max = Num 1, y_min = Num 0, y_max = Num 1, num_points = 1234\<rparr>"
  have d: "dec_nat 1234 = ''1234''" by code_simp
  show ?thesis using truncated_task_accepted[of ?t 2 "\<lambda>x. x"] by (fastforce simp: d size_max_def)
qed

section \<open>Discovery\<close>

definition responders :: "(bytes \<times> in_addr) option list \<Rightarrow> in_addr set" where
  "responders rs = {from. \<exists>d. Some (d, from) \<in> set (takeWhile (\<lambda>r. r \<noteq> None) rs) \<and>
     strncmp_eq (take 255 d @ [NUL]) DISCOVERY_RESPONSE (length DISCOVERY_RESPONSE)}"

lemma responders_simps:
  "responders [] = {}" "responders (None # rs) = {}"
  "responders (Some (d, from) # rs) = (if strncmp_eq (take 255 d @ [NUL]) DISCOVERY_RESPONSE (length DISCOVERY_RESPONSE)
     then {from} else {}) \<union> responders rs"
  by (auto simp: responders_def)

definition found_ok :: "ServerInfo list \<Rightarrow> bool" where
  "found_ok ss \<longleftrightarrow> distinct (map addr ss) \<and> length ss \<le> MAX_SERVERS \<and> (\<forall>s\<in>set ss. port s = TCP_TASK_PORT)"

lemma discover_loop_ok:
  "found_ok ss \<Longrightarrow> found_ok (discover_loop rs ss) \<and>
    set (map addr (discover_loop rs ss)) \<subseteq> set (map addr ss) \<union> responders rs \<and>
    (length (discover_loop rs ss) < MAX_SERVERS \<longrightarrow> set (map addr (discover_loop rs ss)) = set (map addr ss) \<union> responders rs)"
proof (induction rs ss rule: discover_loop.induct)
  case (2 r rs ss)
  show ?case
  proof (cases "MAX_SERVERS \<le> length ss \<or> r = None")
    case True
    then show ?thesis using 2(3) by (auto simp: responders_simps found_ok_def)
  next
    case False
    then obtain d src where r: "r = Some (d, src)" by auto
    let ?new = "strncmp_eq (take 255 d @ [NUL]) DISCOVERY_RESPONSE (length DISCOVERY_RESPONSE) \<and> \<not> list_ex (\<lambda>s. addr s = src) ss"
    show ?thesis
    proof (cases ?new)
      case True
      have "found_ok (ss @ [\<lparr>addr = src, port = TCP_TASK_PORT\<rparr>])"
        using 2(3) True False by (auto simp: found_ok_def list_ex_iff)
      from 2(1)[OF _ r refl True this] show ?thesis using False r True by (auto simp: responders_simps)
    next
      case new: False
      from 2(2)[OF _ r refl new 2(3)] show ?thesis
        using False r new by (auto simp: responders_simps list_ex_iff split: if_splits)
    qed
  qed
qed (simp add: responders_simps)

text \<open>
  C39: Discovery yields a list without double addresses, at most 64 long, all with the standard port, of
  servers that answered before the first error or time-out; when the list is not full it has all of
  them.
\<close>

theorem discovery_exact:
  assumes "discover_servers_udp a b c e rs = Some ss"
  shows "distinct (map addr ss) \<and> length ss \<le> MAX_SERVERS \<and> (\<forall>s\<in>set ss. port s = TCP_TASK_PORT) \<and>
    set (map addr ss) \<subseteq> responders rs \<and> (length ss < MAX_SERVERS \<longrightarrow> set (map addr ss) = responders rs)"
proof -
  have ss: "ss = discover_loop rs []" using assms by (auto simp: discover_servers_udp_def split: if_splits)
  have "found_ok []" by (simp add: found_ok_def)
  from discover_loop_ok[OF this, of rs] show ?thesis by (simp add: ss found_ok_def)
qed

theorem discovery_exact_witness:
  "set (map addr (discover_loop [Some (DISCOVERY_RESPONSE, [10, 0, 0, 1]), Some (''x'', [10, 0, 0, 2]), None] [])) = {[10, 0, 0, 1]}"
proof -
  let ?rs = "[Some (DISCOVERY_RESPONSE, [10, 0, 0, 1]), Some (''x'', [10, 0, 0, 2]), None]"
  have r: "responders ?rs = {[10, 0, 0, 1]}"
    by (simp add: responders_simps strncmp_eq_def DISCOVERY_RESPONSE_def cstr_def)
  have "length (discover_loop ?rs []) \<le> 2" by (simp add: MAX_SERVERS_def)
  moreover have "discover_servers_udp True True True True ?rs = Some (discover_loop ?rs [])"
    by (simp add: discover_servers_udp_def)
  ultimately show ?thesis using discovery_exact[of True True True True ?rs "discover_loop ?rs []"] r
    by (simp only: MAX_SERVERS_def)
qed

section \<open>The strips\<close>

lemma sum_shares: "r \<le> n \<Longrightarrow> (\<Sum>i<n. q + (if i < r then 1 else 0)) = n * q + (r :: nat)"
proof -
  assume "r \<le> n"
  then have "{..<n} \<inter> {i. i < r} = {..<r}" by auto
  then show ?thesis by (simp add: sum.distrib sum.If_cases)
qed

text \<open>
  C40: The strips share out exactly the points asked for, no two strips differing by more than one point;
  the last strip ends where the range ends, and if arithmetic were exact the strips would cover the
  range without gaps or overlaps.
\<close>

theorem strips_cover:
  assumes "server_list cfg \<noteq> []"
  shows "(\<Sum>i<length (server_list cfg). num_points (strip_task m cfg i)) = points_per_rectangle cfg \<and>
    (\<forall>i<length (server_list cfg). \<forall>j<length (server_list cfg).
       num_points (strip_task m cfg i) \<le> num_points (strip_task m cfg j) + 1) \<and>
    x_max (strip_task m cfg (length (server_list cfg) - 1)) = cx_max cfg \<and>
    (l_rnd m = (\<lambda>x. x) \<and> cx_min cfg = Num a \<and> cx_max cfg = Num b \<longrightarrow>
       x_min (strip_task m cfg 0) = Num a \<and>
       (\<forall>i. Suc i < length (server_list cfg) \<longrightarrow> x_max (strip_task m cfg i) = x_min (strip_task m cfg (Suc i))))"
proof (intro conjI allI impI)
  let ?n = "length (server_list cfg)" and ?p = "points_per_rectangle cfg"
  have n: "0 < ?n" using assms by simp
  have "(\<Sum>i<?n. num_points (strip_task m cfg i)) = (\<Sum>i<?n. ?p div ?n + (if i < ?p mod ?n then 1 else 0))"
    by (simp add: strip_task_def Let_def)
  also have "\<dots> = ?n * (?p div ?n) + ?p mod ?n" using n by (intro sum_shares) (simp add: less_imp_le)
  finally show "(\<Sum>i<?n. num_points (strip_task m cfg i)) = ?p" by simp
  show "num_points (strip_task m cfg i) \<le> num_points (strip_task m cfg j) + 1" for i j
    by (simp add: strip_task_def Let_def)
  show "x_max (strip_task m cfg (?n - 1)) = cx_max cfg" using n by (simp add: strip_task_def Let_def)
next
  assume e: "l_rnd m = (\<lambda>x. x) \<and> cx_min cfg = Num a \<and> cx_max cfg = Num b"
  let ?n = "length (server_list cfg)"
  have w: "ddiv (l_rnd m) (dsub (l_rnd m) (cx_max cfg) (cx_min cfg)) (of_size (l_rnd m) ?n) = Num ((b - a) / of_nat ?n)"
    using e assms by (simp add: ddiv_def dsub_def dbl_op_def of_size_def)
  show "x_min (strip_task m cfg 0) = Num a"
    using e w by (simp add: strip_task_def Let_def dadd_def dmul_def dbl_op_def of_size_def)
  show "x_max (strip_task m cfg i) = x_min (strip_task m cfg (Suc i))" if "Suc i < ?n" for i
    using e w that by (simp add: strip_task_def Let_def dadd_def dmul_def dbl_op_def of_size_def algebra_simps add_divide_distrib diff_divide_distrib)
qed

definition two_servers :: ClientConfig where
  "two_servers = \<lparr>use_broadcast = False, server_list = [\<lparr>addr = [], port = 1\<rparr>, \<lparr>addr = [], port = 2\<rparr>],
     num_rectangles_sqrt = 0, points_per_rectangle = 7, timeout = 2, cx_min = Num 0, cx_max = Num 1,
     cy_min = Num 0, cy_max = Num 1\<rparr>"

theorem strips_cover_witness:
  "\<exists>m. l_rnd m = (\<lambda>x. x) \<and> (\<Sum>i<2. num_points (strip_task m two_servers i)) = 7 \<and>
     x_max (strip_task m two_servers 0) = x_min (strip_task m two_servers 1)"
proof -
  let ?m = "\<lparr>l_rnd = (\<lambda>x. x), l_exp = (\<lambda>x. x), l_rand = (\<lambda>s. (s, s))\<rparr> :: libm"
  show ?thesis
    by (rule exI[of _ ?m]) (use strips_cover[of two_servers ?m 0 1] in \<open>simp add: two_servers_def numeral_2_eq_2\<close>)
qed

section \<open>Client and servers together\<close>

text \<open>A network that delivers whole messages between the client and servers that run \<open>handle_client\<close>.\<close>

definition honest :: "libm \<Rightarrow> nat \<Rightarrow> network" where
  "honest m time = (\<lambda>s request. handle_client m time (Some request))"

definition server_result :: "libm \<Rightarrow> nat \<Rightarrow> Task \<Rightarrow> Result" where
  "server_result m time t = run_task m time (kept_task (l_rnd m) t)"

definition task_ok :: "Task \<Rightarrow> bool" where
  "task_ok t \<longleftrightarrow> magnitude 309 (x_min t) \<and> magnitude 309 (x_max t) \<and> magnitude 309 (y_min t) \<and> magnitude 309 (y_max t) \<and>
     num_points t \<le> size_max"

lemma count_points_le: "count_points m t seed n inside \<le> n + inside"
proof (induction n arbitrary: seed inside)
  case (Suc n)
  show ?case
  proof (cases "l_rand m seed")
    case (Pair r1 s1)
    then show ?thesis using Suc[of _ inside] Suc[of _ "Suc inside"]
      by (auto simp: Let_def le_SucI split: prod.splits)
  qed
qed simp

lemma whole_read: "length s < BUFFER_SIZE_8 - 1 \<Longrightarrow> take (BUFFER_SIZE_8 - 1) (s @ [NUL]) @ [NUL] = s @ NUL # [NUL]"
  by (simp add: BUFFER_SIZE_8_def)

lemma honest_reply:
  assumes "task_ok t" "magnitude 309 (integral_value (server_result m time t))"
  shows "send_task_to_server m (honest m time) s t = Some (kept_result (l_rnd m) (server_result m time t))"
proof -
  let ?r = "server_result m time t"
  note tk = task_roundtrip[OF _ _ _ _ _, of t]
  have t: "serialize_task t BUFFER_SIZE_8 = Some (task_text t)" "length (task_text t) < BUFFER_SIZE_8 - 1"
    "deserialize_task (l_rnd m) (task_text t @ NUL # [NUL]) = Some (kept_task (l_rnd m) t)"
    using task_roundtrip assms(1) by (simp_all add: task_ok_def)
  have "num_points t \<le> size_max" using assms(1) by (simp add: task_ok_def)
  moreover have "points_inside ?r \<le> num_points t" "total_points ?r = num_points t"
    using count_points_le[of m "kept_task (l_rnd m) t" time "num_points t" 0]
    by (simp_all add: server_result_def run_task_def kept_task_def Let_def)
  ultimately have "points_inside ?r \<le> size_max" "total_points ?r \<le> size_max" by simp_all
  note r = result_roundtrip[OF assms(2) this]
  have "honest m time sv (task_text t @ [NUL]) = Some (result_text ?r @ [NUL])" for sv
    using t whole_read[OF t(2)] r(1) by (simp add: honest_def handle_client_def server_result_def)
  then show ?thesis
    using t(1) r(2)[of "l_rnd m" "[NUL]"] whole_read[OF r(3)] by (simp add: send_task_to_server_def)
qed

lemma foldl_NaN: "foldl (\<lambda>acc i. dadd rnd acc (f i)) NaN is = NaN"
  by (induction "is") simp_all

lemma distributed_sum:
  assumes "\<forall>i<length (server_list cfg). threads i \<and> task_ok (strip_task m cfg i) \<and>
      magnitude 309 (integral_value (server_result m time (strip_task m cfg i)))"
  shows "compute_integral_distributed m (honest m time) threads cfg =
      foldl (\<lambda>acc i. dadd (l_rnd m) acc (kept15 (l_rnd m) (integral_value (server_result m time (strip_task m cfg i)))))
        (Num 0) [0..<length (server_list cfg)]"
proof -
  have "strip_results m (honest m time) threads cfg =
      map (\<lambda>i. (strip_job m cfg i)\<lparr>j_result := kept_result (l_rnd m) (server_result m time (strip_task m cfg i)),
        j_status := 0\<rparr>) [0..<length (server_list cfg)]"
    using assms honest_reply by (auto simp: strip_results_def task_worker_def strip_job_def)
  then show ?thesis by (simp add: compute_integral_distributed_def foldl_map add_result_def kept_result_def)
qed

text \<open>
  C17: When every server answers, the client's result is the sum, in the order of the strips, of what the
  servers compute for the strips they were sent, with coordinates and estimates as the wire keeps them.
  When there are more servers than points the result is not a number: the last strip gets no points,
  and its server divides zero by zero.
\<close>

theorem distributed_result:
  assumes "\<forall>i<length (server_list cfg). threads i \<and> task_ok (strip_task m cfg i) \<and>
      magnitude 309 (integral_value (server_result m time (strip_task m cfg i)))"
  shows "compute_integral_distributed m (honest m time) threads cfg =
      foldl (\<lambda>acc i. dadd (l_rnd m) acc (kept15 (l_rnd m) (integral_value (server_result m time (strip_task m cfg i)))))
        (Num 0) [0..<length (server_list cfg)] \<and>
    (l_rnd m 0 = 0 \<and> points_per_rectangle cfg < length (server_list cfg) \<longrightarrow>
      compute_integral_distributed m (honest m time) threads cfg = NaN)"
proof -
  let ?n = "length (server_list cfg)"
  let ?v = "\<lambda>i. kept15 (l_rnd m) (integral_value (server_result m time (strip_task m cfg i)))"
  note eq = distributed_sum[OF assms]
  have "foldl (\<lambda>acc i. dadd (l_rnd m) acc (?v i)) (Num 0) [0..<?n] = NaN"
    if z: "l_rnd m 0 = 0" and few: "points_per_rectangle cfg < ?n"
  proof -
    obtain k where k: "?n = Suc k" using few by (cases ?n) auto
    have "num_points (strip_task m cfg k) = 0" using few k by (simp add: strip_task_def Let_def)
    then have "?v k = NaN"
      using z by (simp add: server_result_def run_task_def kept_task_def of_size_def ddiv_def kept15_def Let_def)
    then show ?thesis by (simp add: k)
  qed
  with eq show ?thesis by simp
qed

lemma exact_one: "magnitude 309 (Num 0)" "magnitude 309 (Num 1)" "magnitude 309 NaN"
proof -
  have "(1::rat) < 10 ^ 309" by (rule one_less_power) simp_all
  then show "magnitude 309 (Num 0)" "magnitude 309 (Num 1)" "magnitude 309 NaN" by (simp_all add: magnitude_def)
qed

theorem distributed_result_witness:
  "\<exists>m cfg. compute_integral_distributed m (honest m 0) (\<lambda>_. True) cfg = NaN \<and> points_per_rectangle cfg = 0"
proof -
  let ?m = "\<lparr>l_rnd = \<lambda>x. x, l_exp = \<lambda>x. x, l_rand = \<lambda>s. (s, s)\<rparr>"
  let ?cfg = "\<lparr>use_broadcast = False, server_list = [\<lparr>addr = [], port = 8125\<rparr>], num_rectangles_sqrt = 0,
    points_per_rectangle = 0, timeout = 2, cx_min = Num 0, cx_max = Num 1, cy_min = Num 0, cy_max = Num 1\<rparr>"
  have t: "strip_task ?m ?cfg 0 = \<lparr>x_min = Num 0, x_max = Num 1, y_min = Num 0, y_max = Num 1, num_points = 0\<rparr>"
    by (simp add: strip_task_def dadd_def dmul_def dbl_op_def of_size_def ddiv_def dsub_def)
  have v: "integral_value (server_result ?m 0 (strip_task ?m ?cfg 0)) = NaN"
    unfolding t by (simp add: server_result_def run_task_def kept_task_def of_size_def ddiv_def Let_def)
  have "\<forall>i<length (server_list ?cfg). True \<and> task_ok (strip_task ?m ?cfg i) \<and>
      magnitude 309 (integral_value (server_result ?m 0 (strip_task ?m ?cfg i)))"
    using exact_one v t by (simp add: task_ok_def)
  from conjunct2[OF distributed_result[OF this]]
  have "compute_integral_distributed ?m (honest ?m 0) (\<lambda>_. True) ?cfg = NaN" by (rule mp) simp
  then show ?thesis by (intro exI[of _ ?m] exI[of _ ?cfg]) simp
qed

end
