(* ===== verification/Integral_Typing.thy ===== *)
theory Integral_Typing
  imports Integral_Client
begin

text \<open>
  The C types of the distributed integral's client as predicates on the model: which values the fields of
  a configuration, of a server's address and of a job can have, whatever the command line and the
  network.  The struct types alone promise less: a port of 0 or an empty server list is a value of them.
\<close>

section \<open>Well-typed values\<close>

definition ip_typed :: "in_addr \<Rightarrow> bool" where
  "ip_typed a \<longleftrightarrow> length a = 4 \<and> (\<forall>x\<in>set a. x < 256)"

definition server_typed :: "ServerInfo \<Rightarrow> bool" where
  "server_typed s \<longleftrightarrow> ip_typed (addr s) \<and> 1 \<le> port s \<and> port s \<le> 65535"

definition config_typed :: "ClientConfig \<Rightarrow> bool" where
  "config_typed cfg \<longleftrightarrow> (\<forall>s\<in>set (server_list cfg). server_typed s) \<and> length (server_list cfg) \<le> MAX_SERVERS \<and>
     1 \<le> points_per_rectangle cfg \<and> points_per_rectangle cfg \<le> size_max \<and>
     1 \<le> timeout cfg \<and> timeout cfg \<le> 2147483647 \<and> (use_broadcast cfg \<or> server_list cfg \<noteq> [])"

definition job_typed :: "TaskJob \<Rightarrow> bool" where
  "job_typed j \<longleftrightarrow> server_typed (j_server j) \<and> num_points (j_task j) \<le> size_max \<and>
     j_status j \<in> {-1, 0}"

definition senders_typed :: "(bytes \<times> in_addr) option list \<Rightarrow> bool" where
  "senders_typed rs \<longleftrightarrow> (\<forall>d a. Some (d, a) \<in> set rs \<longrightarrow> ip_typed a)"

lemma config_typed_update:
  "config_typed (cfg\<lparr>server_list := ss\<rparr>) \<longleftrightarrow> (\<forall>s\<in>set ss. server_typed s) \<and> length ss \<le> MAX_SERVERS \<and>
     1 \<le> points_per_rectangle cfg \<and> points_per_rectangle cfg \<le> size_max \<and>
     1 \<le> timeout cfg \<and> timeout cfg \<le> 2147483647 \<and> (use_broadcast cfg \<or> ss \<noteq> [])"
  by (simp add: config_typed_def)

section \<open>Addresses\<close>

lemma octet_small: "octet s = Some n \<Longrightarrow> n < 256"
  by (auto simp: octet_def split: if_splits)

lemma inet_pton_typed: "inet_pton s = Some a \<Longrightarrow> ip_typed a"
proof -
  assume a: "inet_pton s = Some a"
  let ?ps = "map octet (split_on (CHR ''.'') [] s)"
  from a have ps: "length ?ps = 4" "None \<notin> set ?ps" "a = map the ?ps"
    unfolding inet_pton_def Let_def by (metis option.distinct(1) option.inject)+
  have "x < 256" if x: "x \<in> set a" for x
  proof -
    from x ps(3) obtain y where y: "y \<in> set ?ps" "x = the y" unfolding ps(3) set_map by blast
    with ps(2) have "y \<noteq> None" by metis
    with y obtain t where "octet t = Some x" by auto
    then show ?thesis by (rule octet_small)
  qed
  with ps show ?thesis by (simp only: ip_typed_def length_map) blast
qed

lemma parse_ip_port_typed: "parse_ip_port s = Some (a, p) \<Longrightarrow> ip_typed a \<and> 1 \<le> p \<and> p \<le> 65535"
  by (auto simp: parse_ip_port_def Let_def TCP_TASK_PORT_def dest: inet_pton_typed split: option.splits if_splits)

lemma add_servers_typed:
  assumes "add_servers ips ss = Some ts" "\<forall>s\<in>set ss. server_typed s" "length ss \<le> MAX_SERVERS"
  shows "(\<forall>s\<in>set ts. server_typed s) \<and> length ts \<le> MAX_SERVERS \<and> (ss \<noteq> [] \<longrightarrow> ts \<noteq> [])"
  using assms
proof (induction ips arbitrary: ss)
  case (Cons ip ips)
  show ?case
  proof (cases "MAX_SERVERS \<le> length ss")
    case False
    with Cons.prems(1) obtain a p where ap: "parse_ip_port ip = Some (a, p)"
        "add_servers ips (ss @ [\<lparr>addr = a, port = p\<rparr>]) = Some ts"
      by (auto split: option.splits)
    have "server_typed \<lparr>addr = a, port = p\<rparr>"
      using parse_ip_port_typed[OF ap(1)] by (simp add: server_typed_def)
    with Cons.IH[OF ap(2)] Cons.prems False show ?thesis by auto
  qed (use Cons.prems in simp)
qed simp

section \<open>Options\<close>

lemma strtol_int_range: "strtol_int i \<le> 2147483647"
  using pos_mod_bound[of 4294967296 "max (- 9223372036854775808) (min 9223372036854775807 i) + 2147483648"]
  unfolding strtol_int_def Let_def by linarith

lemma atoi_range: "atoi s \<le> 2147483647"
  by (auto simp: atoi_def scan_int_def strtol_int_range split: option.splits)

lemma atoll_size_range: "atoll_size s \<le> size_max"
proof -
  have "nat (strtol s mod 18446744073709551616) < 18446744073709551616"
    using pos_mod_bound[of 18446744073709551616 "strtol s"] pos_mod_sign[of 18446744073709551616 "strtol s"] by linarith
  then show ?thesis by (simp add: atoll_size_def size_max_def)
qed

lemma client_opts_typed:
  assumes "client_opts os cfg ip = Inr (cfg', ip')" "config_typed (cfg\<lparr>use_broadcast := True\<rparr>)" "use_broadcast cfg \<or> ip \<noteq> None"
  shows "config_typed (cfg'\<lparr>use_broadcast := True\<rparr>) \<and> (use_broadcast cfg' \<or> ip' \<noteq> None) \<and> server_list cfg' = server_list cfg"
  using assms
proof (induction os cfg ip rule: client_opts.induct)
  case (2 c arg os cfg ip)
  show ?case
  proof (cases "c = CHR ''b'' \<or> c = CHR ''i'' \<or> c = CHR ''p'' \<or> c = CHR ''t''")
    case True
    then consider (b) "c = CHR ''b''" | (i) "c = CHR ''i''" | (p) "c = CHR ''p''" | (t) "c = CHR ''t''" by blast
    then show ?thesis
    proof cases
      case b
      with 2(1) 2(5-7) show ?thesis by simp
    next
      case i
      with 2(2) 2(5-7) show ?thesis by (simp add: config_typed_def)
    next
      case p
      with 2(5) have n: "atoll_size arg \<noteq> 0"
          "client_opts os (cfg\<lparr>points_per_rectangle := atoll_size arg\<rparr>) ip = Inr (cfg', ip')"
        by (auto simp: Let_def split: if_splits)
      from 2(3) p n 2(6,7) show ?thesis using atoll_size_range[of arg] by (simp add: config_typed_def)
    next
      case t
      with 2(5) have n: "\<not> atoi arg \<le> 0" "client_opts os (cfg\<lparr>timeout := atoi arg\<rparr>) ip = Inr (cfg', ip')"
        by (auto simp: Let_def split: if_splits)
      from 2(4) t n 2(6,7) show ?thesis using atoi_range[of arg] by (simp add: config_typed_def)
    qed
  qed (use 2(5) in \<open>auto split: if_splits\<close>)
qed simp

lemma default_config_typed: "config_typed (default_config m)" "server_list (default_config m) = []"
  "use_broadcast (default_config m)" "(default_config m)\<lparr>use_broadcast := True\<rparr> = default_config m"
  by (simp_all add: default_config_def config_typed_def DEFAULT_POINTS_PER_RECTANGLE_def DEFAULT_TIMEOUT_def
      size_max_def)

lemma parse_arguments_typed:
  assumes "parse_arguments m args operands = Inr cfg"
  shows "config_typed cfg"
proof -
  from assms obtain c ip where o: "client_opts (getopt client_options args) (default_config m) None = Inr (c, ip)"
    by (auto simp: parse_arguments_def split: sum.splits)
  from client_opts_typed[OF this]
  have T: "config_typed (c\<lparr>use_broadcast := True\<rparr>)" "use_broadcast c \<or> ip \<noteq> None" "server_list c = []"
    by (simp_all add: default_config_typed)
  show ?thesis
  proof (cases ip)
    case None
    with assms o have "cfg = c" by (simp add: parse_arguments_def)
    moreover from T None have "c\<lparr>use_broadcast := True\<rparr> = c" by simp
    ultimately show ?thesis using T by simp
  next
    case (Some w)
    with assms o obtain a p ts where p: "parse_ip_port w = Some (a, p)"
        "add_servers (ip_addresses (collect_ips operands create_iplist)) (server_list c @ [\<lparr>addr = a, port = p\<rparr>]) = Some ts"
        "cfg = c\<lparr>server_list := ts\<rparr>"
      by (auto simp: parse_arguments_def parse_ip_addresses_from_args_def split: option.splits if_splits)
    have "\<forall>s\<in>set [\<lparr>addr = a, port = p\<rparr>]. server_typed s"
      using parse_ip_port_typed[OF p(1)] by (simp add: server_typed_def)
    with add_servers_typed[OF p(2)] T show ?thesis
      unfolding p(3) config_typed_update by (simp add: MAX_SERVERS_def config_typed_def)
  qed
qed

section \<open>Discovery and the jobs\<close>

lemma discover_loop_typed:
  assumes "senders_typed rs" "\<forall>s\<in>set ss. server_typed s" "length ss \<le> MAX_SERVERS"
  shows "(\<forall>s\<in>set (discover_loop rs ss). server_typed s) \<and> length (discover_loop rs ss) \<le> MAX_SERVERS"
  using assms
proof (induction rs ss rule: discover_loop.induct)
  case (2 r rs ss)
  show ?case
  proof (cases "MAX_SERVERS \<le> length ss \<or> r = None")
    case False
    then obtain d a where r: "r = Some (d, a)" by auto
    have a: "server_typed \<lparr>addr = a, port = TCP_TASK_PORT\<rparr>" and rs: "senders_typed rs"
      using 2(3) r by (auto simp: senders_typed_def server_typed_def TCP_TASK_PORT_def)
    from 2(1)[OF _ r refl _ rs] 2(2)[OF _ r refl _ rs] 2(4,5) a False r show ?thesis by auto
  qed (use 2 in auto)
qed simp

lemma discovered_typed:
  assumes "config_typed cfg" "senders_typed rs" "discover_servers (discover_servers_udp a b c e rs) cfg = (n, cfg1)" "0 < n"
  shows "config_typed cfg1 \<and> server_list cfg1 \<noteq> [] \<and> n = int (length (server_list cfg1))"
proof (cases "use_broadcast cfg")
  case True
  with assms(3,4) obtain ss where ss: "discover_servers_udp a b c e rs = Some ss" "ss \<noteq> []"
      "cfg1 = cfg\<lparr>server_list := ss\<rparr>" "n = int (length ss)"
    by (auto simp: discover_servers_def split: option.splits if_splits)
  have "ss = discover_loop rs []" using ss(1) by (auto simp: discover_servers_udp_def split: if_splits)
  with discover_loop_typed[OF assms(2), of "[]"] ss assms(1) show ?thesis
    by (simp add: config_typed_def)
next
  case False
  with assms show ?thesis by (auto simp: discover_servers_def)
qed

lemma strip_share_le: "0 < k \<Longrightarrow> i < k \<Longrightarrow> n div k + (if i < n mod k then 1 else 0) \<le> (n :: nat)"
proof -
  assume k: "0 < k" "i < k"
  show ?thesis
  proof (cases "i < n mod k")
    case True
    have "n div k \<le> k * (n div k)" using k(1) by (cases k) auto
    moreover have "k * (n div k) + n mod k = n" by simp
    ultimately have "n div k + 1 \<le> n" using True by linarith
    with True show ?thesis by simp
  qed simp
qed

lemma strip_results_typed:
  assumes "config_typed cfg" "j \<in> set (strip_results m net threads cfg)"
  shows "job_typed j"
proof -
  let ?n = "length (server_list cfg)"
  from assms(2) obtain i where i: "i < ?n"
      "j = (if threads i then task_worker m net (strip_job m cfg i) else strip_job m cfg i)"
    by (auto simp: strip_results_def)
  have "num_points (strip_task m cfg i) \<le> points_per_rectangle cfg"
  proof -
    have "0 < ?n" using i(1) by (rule le_less_trans[OF le0])
    from strip_share_le[OF this i(1), of "points_per_rectangle cfg"] show ?thesis
      by (simp only: strip_task_def Let_def Task.simps)
  qed
  with assms(1) have "num_points (strip_task m cfg i) \<le> size_max" by (simp add: config_typed_def)
  moreover have "server_typed (server_list cfg ! i)" using assms(1) i(1) by (auto simp: config_typed_def)
  ultimately have "job_typed (strip_job m cfg i)" by (simp add: job_typed_def strip_job_def)
  moreover have "job_typed k \<Longrightarrow> job_typed (task_worker m net k)" for k
    by (auto simp: job_typed_def task_worker_def split: option.splits)
  ultimately show ?thesis using i(2) by simp
qed

text \<open>
  C26: Whatever the command line says and whichever servers answer, the client only works with well-typed
  data: a configuration it accepts has between 1 and 18446744073709551615 points, a positive 32-bit time-out,
  at most 64 servers, each a dotted quad of bytes with a port from 1 to 65535; after discovery has found
  servers there is at least one, and every job the threads leave is for such a server, asks for no more
  points than a 64-bit number holds and has status 0 or -1.
\<close>

theorem client_data_typed:
  assumes "parse_arguments m args operands = Inr cfg" "senders_typed rs"
    and "discover_servers (discover_servers_udp a b c e rs) cfg = (n, cfg1)" "0 < n"
  shows "config_typed cfg \<and> config_typed cfg1 \<and> server_list cfg1 \<noteq> [] \<and> n = int (length (server_list cfg1)) \<and>
    list_all job_typed (strip_results m net threads cfg1)"
  using parse_arguments_typed[OF assms(1)] discovered_typed[OF _ assms(2-4)] strip_results_typed[of cfg1]
  by (simp add: list_all_iff)

theorem client_data_typed_witness:
  "\<exists>m cfg. parse_arguments m [''-i'', ''10.0.0.1:80'', ''-p'', ''7''] [] = Inr cfg \<and> config_typed cfg \<and>
     server_list cfg = [\<lparr>addr = [10, 0, 0, 1], port = 80\<rparr>] \<and>
     list_all job_typed (strip_results m (\<lambda>_ _. None) (\<lambda>_. True) cfg)"
proof -
  let ?m = "\<lparr>l_rnd = \<lambda>x. x, l_exp = \<lambda>x. x, l_rand = \<lambda>s. (s, s)\<rparr>"
  let ?a = "parse_arguments ?m [''-i'', ''10.0.0.1:80'', ''-p'', ''7''] []"
  have o: "getopt client_options [''-i'', ''10.0.0.1:80'', ''-p'', ''7''] =
      [(CHR ''i'', ''10.0.0.1:80''), (CHR ''p'', ''7'')]"
    by (simp add: client_options_def)
  have v: "parse_ip_port ''10.0.0.1:80'' = Some ([10, 0, 0, 1], 80)" "atoll_size ''7'' = 7"
    by code_simp+
  have "case ?a of Inr cfg \<Rightarrow> \<not> use_broadcast cfg \<and> server_list cfg = [\<lparr>addr = [10, 0, 0, 1], port = 80\<rparr>] | _ \<Rightarrow> False"
    using v by (simp del: getopt.simps add: parse_arguments_def o parse_ip_addresses_from_args_def create_iplist_def default_config_def)
  then obtain cfg where a: "?a = Inr cfg" and c: "\<not> use_broadcast cfg"
      "server_list cfg = [\<lparr>addr = [10, 0, 0, 1], port = 80\<rparr>]" by (auto split: sum.splits)
  have "discover_servers (discover_servers_udp True True True True []) cfg = (1, cfg)"
    using c by (simp add: discover_servers_def)
  moreover have "senders_typed []" by (simp add: senders_typed_def)
  ultimately show ?thesis
    using client_data_typed[OF a, of "[]" True True True True 1 cfg "\<lambda>_ _. None" "\<lambda>_. True"] a c by auto
qed

end
