(* ===== verification/Duplex.thy ===== *)
theory Duplex
  imports Fd_Table
begin

text \<open>
  src/sem\_2: a file is meant to be copied through a child process that echoes what it reads from one pipe into
  another.  Descriptors are numbers in a table, so that what a call reaches is decided by what the
  number refers to when the call is made.
\<close>

section \<open>Descriptors and system calls\<close>

datatype dend = DTerm nat | DirectR | DirectW | BackR | BackW | InFile | OutFile

type_synonym dtab = "dend fdtab"

text \<open>The contents of the two pipes, the rest of parent.txt and what has been written to child.txt.\<close>

record dworld =
  d_tab :: dtab
  direct_buf :: bytes
  back_buf :: bytes
  in_rest :: bytes
  out_text :: bytes

datatype io = IoErr | IoBlocks | IoData bytes

text \<open>\<open>read\<close>: an empty pipe blocks as long as its write end is open somewhere, \<open>writers\<close>.\<close>

definition dread :: "bool \<Rightarrow> fd \<Rightarrow> nat \<Rightarrow> dworld \<Rightarrow> io \<times> dworld" where
  "dread writers f n w = (case map_of (d_tab w) f of
     Some InFile \<Rightarrow> (IoData (take n (in_rest w)), w\<lparr>in_rest := drop n (in_rest w)\<rparr>)
   | Some DirectR \<Rightarrow> if direct_buf w = [] then (if writers then IoBlocks else IoData [], w)
       else (IoData (take n (direct_buf w)), w\<lparr>direct_buf := drop n (direct_buf w)\<rparr>)
   | Some BackR \<Rightarrow> if back_buf w = [] then (if writers then IoBlocks else IoData [], w)
       else (IoData (take n (back_buf w)), w\<lparr>back_buf := drop n (back_buf w)\<rparr>)
   | _ \<Rightarrow> (IoErr, w))"

text \<open>\<open>write\<close>: -1 for a descriptor that is closed or not open for writing.\<close>

definition dwrite :: "fd \<Rightarrow> bytes \<Rightarrow> dworld \<Rightarrow> int \<times> dworld" where
  "dwrite f d w = (case map_of (d_tab w) f of
     Some OutFile \<Rightarrow> (int (length d), w\<lparr>out_text := out_text w @ d\<rparr>)
   | Some DirectW \<Rightarrow> (int (length d), w\<lparr>direct_buf := direct_buf w @ d\<rparr>)
   | Some BackW \<Rightarrow> (int (length d), w\<lparr>back_buf := back_buf w @ d\<rparr>)
   | _ \<Rightarrow> (-1, w))"

section \<open>The pipe object\<close>

definition MAX_BUF_SIZE :: nat where "MAX_BUF_SIZE = 65536"

record DuplexPipe =
  dp_data :: bytes
  fd_direct :: "fd \<times> fd"
  fd_back :: "fd \<times> fd"
  dp_len :: nat

text \<open>
  The results of \<open>pipe\<close>, \<open>fork\<close> and \<open>open\<close>.  \<open>None\<close> stands for a null pointer; the descriptors of the
  first pipe stay open when the second cannot be made.
\<close>

record calls =
  pipe1_ok :: bool
  pipe2_ok :: bool
  fork_ok :: bool
  in_ok :: bool
  out_ok :: bool

definition CreateDuplexPipe :: "calls \<Rightarrow> nat \<Rightarrow> dtab \<Rightarrow> DuplexPipe option \<times> dtab" where
  "CreateDuplexPipe c buffer_size t =
     (if \<not> pipe1_ok c then (None, t)
      else case fd_open DirectR t of (r1, t1) \<Rightarrow> (case fd_open DirectW t1 of (w1, t2) \<Rightarrow>
        (if \<not> pipe2_ok c then (None, t2)
         else case fd_open BackR t2 of (r2, t3) \<Rightarrow> (case fd_open BackW t3 of (w2, t4) \<Rightarrow>
           (Some \<lparr>dp_data = replicate buffer_size (CHR 0x00), fd_direct = (r1, w1), fd_back = (r2, w2), dp_len = 0\<rparr>, t4)))))"

definition CloseParentPipes :: "DuplexPipe \<Rightarrow> dtab \<Rightarrow> dtab" where
  "CloseParentPipes p t = fd_close (snd (fd_back p)) (fd_close (fst (fd_direct p)) t)"

definition CloseChildPipes :: "DuplexPipe \<Rightarrow> dtab \<Rightarrow> dtab" where
  "CloseChildPipes p t = fd_close (fst (fd_back p)) (fd_close (snd (fd_direct p)) t)"

definition CloseAllPipes :: "DuplexPipe \<Rightarrow> dtab \<Rightarrow> dtab" where
  "CloseAllPipes p t = fd_close (snd (fd_back p)) (fd_close (fst (fd_back p))
     (fd_close (snd (fd_direct p)) (fd_close (fst (fd_direct p)) t)))"

definition DestroyDuplexPipe :: "DuplexPipe \<Rightarrow> dtab \<Rightarrow> dtab" where
  "DestroyDuplexPipe p t = CloseAllPipes p t"

definition ReadDuplex :: "bool \<Rightarrow> DuplexPipe \<Rightarrow> dworld \<Rightarrow> io \<times> DuplexPipe \<times> dworld" where
  "ReadDuplex writers p w = (case dread writers (fst (fd_direct p)) MAX_BUF_SIZE w of
     (IoData d, w1) \<Rightarrow> (IoData d, p\<lparr>dp_data := d @ drop (length d) (dp_data p)\<rparr>, w1)
   | (r, w1) \<Rightarrow> (r, p, w1))"

definition WriteDuplex :: "DuplexPipe \<Rightarrow> dworld \<Rightarrow> int \<times> dworld" where
  "WriteDuplex p w = dwrite (snd (fd_back p)) (take (dp_len p) (dp_data p)) w"

section \<open>The two processes\<close>

text \<open>
  The child's loop with fuel; the result of \<open>snd\<close> is not looked at.  \<open>None\<close> stands for a call that never
  returns, or for too little fuel.
\<close>

fun child_loop :: "nat \<Rightarrow> bool \<Rightarrow> DuplexPipe \<Rightarrow> dworld \<Rightarrow> (DuplexPipe \<times> dworld) option" where
  "child_loop 0 writers p w = None"
| "child_loop (Suc k) writers p w =
     (case ReadDuplex writers p w of
        (IoBlocks, _) \<Rightarrow> None
      | (IoErr, p1, w1) \<Rightarrow> Some (p1, w1)
      | (IoData d, p1, w1) \<Rightarrow>
          if d = [] then Some (p1, w1)
          else let p2 = p1\<lparr>dp_len := length d\<rparr> in child_loop k writers p2 (snd (WriteDuplex p2 w1)))"

definition run_child :: "nat \<Rightarrow> bool \<Rightarrow> DuplexPipe \<Rightarrow> dworld \<Rightarrow> dworld option" where
  "run_child k writers p w =
     map_option (\<lambda>(p1, w1). w1\<lparr>d_tab := CloseAllPipes p1 (d_tab w1)\<rparr>)
       (child_loop k writers p (w\<lparr>d_tab := CloseChildPipes p (d_tab w)\<rparr>))"

text \<open>The parent's loop.  \<open>writers\<close>: a write end of the first pipe is open, the parent's own one.\<close>

fun parent_loop :: "nat \<Rightarrow> fd \<Rightarrow> fd \<Rightarrow> DuplexPipe \<Rightarrow> dworld \<Rightarrow> (DuplexPipe \<times> dworld) option" where
  "parent_loop 0 fin fout p w = None"
| "parent_loop (Suc k) fin fout p w =
     (case dread True fin MAX_BUF_SIZE w of
        (IoBlocks, _) \<Rightarrow> None
      | (IoErr, w1) \<Rightarrow> Some (p, w1)
      | (IoData d, w1) \<Rightarrow>
          if d = [] then Some (p, w1)
          else let p1 = p\<lparr>dp_data := d @ drop (length d) (dp_data p), dp_len := length d\<rparr> in
            case WriteDuplex p1 w1 of (n, w2) \<Rightarrow>
              if n \<noteq> int (length d) then Some (p1, w2)
              else case ReadDuplex True p1 w2 of
                (IoBlocks, _) \<Rightarrow> None
              | (IoErr, p3, w3) \<Rightarrow> Some (p3, w3)
              | (IoData e, p3, w3) \<Rightarrow>
                  if length e \<noteq> length d then Some (p3, w3)
                  else parent_loop k fin fout p3 (snd (dwrite fout (take (length d) (dp_data p3)) w3)))"

text \<open>The parent's part of \<open>Run\<close>; each file can be opened or not.\<close>

definition run_parent :: "nat \<Rightarrow> calls \<Rightarrow> DuplexPipe \<Rightarrow> dworld \<Rightarrow> dworld option" where
  "run_parent k c p w =
     (let w1 = w\<lparr>d_tab := CloseParentPipes p (d_tab w)\<rparr> in
      if \<not> in_ok c then Some w1
      else case fd_open InFile (d_tab w1) of (fin, t2) \<Rightarrow>
        if \<not> out_ok c then Some (w1\<lparr>d_tab := fd_close fin t2\<rparr>)
        else case fd_open OutFile t2 of (fout, t3) \<Rightarrow>
          map_option (\<lambda>(p1, w2). w2\<lparr>d_tab := fd_close fout (fd_close fin (CloseAllPipes p1 (d_tab w2)))\<rparr>)
            (parent_loop k fin fout p (w1\<lparr>d_tab := t3, out_text := []\<rparr>)))"

text \<open>
  The whole program on an input file: the pipes, the parent, and the child once the parent has closed its
  ends, which is what the child's first \<open>read\<close> waits for when nothing was sent.  The result is the exit
  code, the parent's state at its end and the child's, if there is one.
\<close>

definition duplex_main :: "nat \<Rightarrow> calls \<Rightarrow> dtab \<Rightarrow> bytes \<Rightarrow> (int \<times> dworld \<times> dworld option) option" where
  "duplex_main k c t input = (case CreateDuplexPipe c 65536 t of (q, t4) \<Rightarrow>
     let w = \<lparr>d_tab = t4, direct_buf = [], back_buf = [], in_rest = input, out_text = []\<rparr> in
     case q of None \<Rightarrow> Some (1, w, None)
     | Some p \<Rightarrow>
       if \<not> fork_ok c then Some (0, w\<lparr>d_tab := DestroyDuplexPipe p (d_tab w)\<rparr>, None)
       else (case run_parent k c p w of None \<Rightarrow> None
         | Some w1 \<Rightarrow> (case run_child k False p (w\<lparr>direct_buf := direct_buf w1\<rparr>) of None \<Rightarrow> None
           | Some w2 \<Rightarrow> Some (0, w1\<lparr>d_tab := DestroyDuplexPipe p (d_tab w1)\<rparr>, Some w2))))"

end
