(* ===== verification/Duplex_Properties.thy ===== *)
theory Duplex_Properties
  imports Duplex
begin

text \<open>
  What the program really copies: the parent closes the ends it needs and the files it opens next get the
  numbers of these ends, so that it copies the file to itself, past the child, and loses its tail for
  some lengths.
\<close>

section \<open>The descriptors\<close>

lemma open_lowest: "fd_open e t = (lowest_free (map fst t), (lowest_free (map fst t), e) # t)"
  by (simp add: fd_open_def Let_def)

lemma keys_close: "set (map fst (fd_close f t)) = set (map fst t) - {f}"
  by (auto simp: fd_close_def)

lemma lowest_below: "0 \<le> i \<Longrightarrow> i < lowest_free used \<Longrightarrow> i \<in> set used"
  using lowest_free_least by force

lemma remove_two: "A = {d, c, b, a} \<union> S \<Longrightarrow> a \<notin> S \<Longrightarrow> d \<notin> S \<Longrightarrow> b \<noteq> a \<Longrightarrow> c \<noteq> a \<Longrightarrow> d \<noteq> b \<Longrightarrow> d \<noteq> c
  \<Longrightarrow> A - {a} - {d} = S \<union> {b, c}"
  by blast

text \<open>The four descriptors of the pipes, and what the parent's \<open>open\<close> calls return.\<close>

lemma create_reopen:
  assumes "CreateDuplexPipe c n t = (Some p, t4)"
  shows
    "fd_open InFile (CloseParentPipes p t4) = (fst (fd_direct p), (fst (fd_direct p), InFile) # CloseParentPipes p t4)"
    "fd_open OutFile ((fst (fd_direct p), InFile) # CloseParentPipes p t4) = (snd (fd_back p),
      (snd (fd_back p), OutFile) # (fst (fd_direct p), InFile) # CloseParentPipes p t4)"
    "fst (fd_direct p) \<noteq> snd (fd_back p)"
    "map_of (CloseChildPipes p t4) (fst (fd_direct p)) = Some DirectR"
proof -
  let ?a = "lowest_free (map fst t)"
  let ?t1 = "(?a, DirectR) # t"
  let ?b = "lowest_free (map fst ?t1)"
  let ?t2 = "(?b, DirectW) # ?t1"
  let ?c = "lowest_free (map fst ?t2)"
  let ?t3 = "(?c, BackR) # ?t2"
  let ?d = "lowest_free (map fst ?t3)"
  have p: "fd_direct p = (?a, ?b)" "fd_back p = (?c, ?d)" "t4 = (?d, BackW) # ?t3"
    using assms by (auto simp: CreateDuplexPipe_def open_lowest split: if_splits)
  note fa = lowest_free_fresh[of "map fst t"] and fb = lowest_free_fresh[of "map fst ?t1"]
    and fc = lowest_free_fresh[of "map fst ?t2"] and fd = lowest_free_fresh[of "map fst ?t3"]
  have ne: "?b \<noteq> ?a" "?c \<noteq> ?a" "?c \<noteq> ?b" "?d \<noteq> ?a" "?d \<noteq> ?b" "?d \<noteq> ?c" using fb fc fd by auto
  have keys: "set (map fst (CloseParentPipes p t4)) = set (map fst t) \<union> {?b, ?c}"
    unfolding CloseParentPipes_def keys_close p(1,2) fst_conv snd_conv
  proof (rule remove_two)
    show "set (map fst t4) = {?d, ?c, ?b, ?a} \<union> set (map fst t)" unfolding p(3) by simp
    show "?a \<notin> set (map fst t)" "?d \<notin> set (map fst t)" using fa fd by simp_all
  qed (use ne in simp_all)
  have a: "lowest_free (map fst (CloseParentPipes p t4)) = ?a"
  proof (rule lowest_free_eq)
    show "0 \<le> ?a" using fa by simp
    show "?a \<notin> set (map fst (CloseParentPipes p t4))" unfolding keys using fa ne by auto
    show "i \<in> set (map fst (CloseParentPipes p t4))" if "0 \<le> i" "i < ?a" for i
      unfolding keys using lowest_below[OF that] by simp
  qed
  have "set (map fst ((?a, InFile) # CloseParentPipes p t4)) = set (map fst ?t3)" using keys by auto
  then have d: "lowest_free (map fst ((?a, InFile) # CloseParentPipes p t4)) = ?d" by (rule lowest_free_cong)
  show "fd_open InFile (CloseParentPipes p t4) = (fst (fd_direct p), (fst (fd_direct p), InFile) # CloseParentPipes p t4)"
    unfolding open_lowest a by (simp add: p(1))
  show "fd_open OutFile ((fst (fd_direct p), InFile) # CloseParentPipes p t4) = (snd (fd_back p),
      (snd (fd_back p), OutFile) # (fst (fd_direct p), InFile) # CloseParentPipes p t4)"
    unfolding open_lowest p(1,2) fst_conv snd_conv d ..
  show "fst (fd_direct p) \<noteq> snd (fd_back p)" using ne p(1,2) by simp
  show "map_of (CloseChildPipes p t4) (fst (fd_direct p)) = Some DirectR"
    using ne p by (simp add: CloseChildPipes_def)
qed

section \<open>The copy\<close>

text \<open>The bytes of a file that reach the output, for a buffer of \<open>m\<close> bytes.\<close>

definition self_copied :: "nat \<Rightarrow> bytes \<Rightarrow> bytes" where
  "self_copied m f = (if odd (length f div m) then take (length f div m * m) f else f)"

lemma self_copied_steps:
  assumes "0 < m"
  shows "length f \<le> m \<Longrightarrow> self_copied m f = f"
    "m \<le> length f \<Longrightarrow> length (take m (drop m f)) < m \<Longrightarrow> self_copied m f = take m f"
    "m \<le> length f \<Longrightarrow> length (take m (drop m f)) = m \<Longrightarrow>
      self_copied m f = take m f @ take m (drop m f) @ self_copied m (drop (2 * m) f)"
proof -
  show "self_copied m f = f" if "length f \<le> m"
    using that assms by (cases "length f = m") (auto simp: self_copied_def)
  show "self_copied m f = take m f" if "m \<le> length f" "length (take m (drop m f)) < m"
  proof -
    have "length f div m = 1" using that assms by (intro div_nat_eqI) auto
    then show ?thesis by (simp add: self_copied_def)
  qed
  show "self_copied m f = take m f @ take m (drop m f) @ self_copied m (drop (2 * m) f)"
    if "m \<le> length f" "length (take m (drop m f)) = m"
  proof -
    have "2 * m \<le> length f" using that by auto
    then obtain r where r: "length f = r + 2 * m" by (metis le_Suc_ex add.commute)
    have q: "length f div m = r div m + 2" using assms by (simp add: r)
    have dr: "length (drop (2 * m) f) = r" by (simp add: r)
    have split: "take (k + 2 * m) f = take m f @ take m (drop m f) @ take k (drop (2 * m) f)" for k
    proof -
      have "k + 2 * m = m + (m + k)" by simp
      then show ?thesis by (simp only: take_add drop_drop mult_2)
    qed
    show ?thesis
    proof (cases "odd (r div m)")
      case True
      have "length f div m * m = r div m * m + 2 * m" unfolding q by (simp add: algebra_simps)
      then have "take (length f div m * m) f = take m f @ take m (drop m f) @ take (r div m * m) (drop (2 * m) f)"
        by (simp only: split)
      moreover have "odd (length f div m)" using True q by simp
      ultimately show ?thesis unfolding self_copied_def dr by (simp only: True not_False_eq_True if_True)
    next
      case False
      then have ev: "odd (length f div m) = False" using q by simp
      have "f = take m f @ take m (drop m f) @ drop (2 * m) f" using split[of r] by (simp add: r)
      then show ?thesis unfolding self_copied_def dr by (simp only: False ev if_False)
    qed
  qed
qed

text \<open>The parent's loop when its two ends have become the two files.\<close>

lemma parent_loop_self:
  assumes "map_of (d_tab w) (fst (fd_direct p)) = Some InFile" "map_of (d_tab w) (snd (fd_back p)) = Some OutFile"
    and "length (in_rest w) < k"
  shows "\<exists>p1 rest. parent_loop k (fst (fd_direct p)) (snd (fd_back p)) p w =
      Some (p1, w\<lparr>in_rest := rest, out_text := out_text w @ self_copied MAX_BUF_SIZE (in_rest w)\<rparr>) \<and>
    fd_direct p1 = fd_direct p \<and> fd_back p1 = fd_back p"
  using assms
proof (induction k arbitrary: p w)
  case 0
  then show ?case by simp
next
  case (Suc k)
  let ?m = MAX_BUF_SIZE
  have m: "0 < ?m" by (simp add: MAX_BUF_SIZE_def)
  define f where "f = in_rest w"
  define d where "d = take ?m f"
  define e where "e = take ?m (drop ?m f)"
  note ends = Suc.prems(1,2)
  show ?case
  proof (cases "f = []")
    case True
    then have "self_copied ?m (in_rest w) = []" using m by (simp add: self_copied_def f_def)
    then show ?thesis using True m ends by (auto simp: dread_def f_def)
  next
    case ne: False
    then have d: "d \<noteq> []" "length d \<le> ?m" using m by (auto simp: d_def)
    have rw: "dread True (fst (fd_direct q)) ?m v = (IoData (take ?m (in_rest v)), v\<lparr>in_rest := drop ?m (in_rest v)\<rparr>)"
      "dwrite (snd (fd_back q)) b v = (int (length b), v\<lparr>out_text := out_text v @ b\<rparr>)"
      if "fd_direct q = fd_direct p" "fd_back q = fd_back p" "d_tab v = d_tab w" for q v b
      using that ends by (simp_all add: dread_def dwrite_def)
    show ?thesis
    proof (cases "length e = length d")
      case False
      have "self_copied ?m f = d"
      proof (cases "length f \<le> ?m")
        case True
        then show ?thesis using self_copied_steps(1)[OF m] by (simp add: d_def)
      next
        case big: False
        then have "length e < ?m" using False by (auto simp: d_def e_def)
        then show ?thesis using self_copied_steps(2)[OF m, of f] big by (simp add: d_def e_def)
      qed
      then show ?thesis using False d
        by (simp add: exI[of _ "drop (?m + ?m) f"] Let_def rw WriteDuplex_def ReadDuplex_def f_def[symmetric] d_def[symmetric] e_def[symmetric])
    next
      case True
      have big: "?m \<le> length f" "length e = ?m"
        using True d(1) by (auto simp: d_def e_def min_def split: if_splits)
      let ?p = "p\<lparr>dp_len := length d, dp_data := e @ drop (length d) (dp_data p)\<rparr>"
      let ?w = "w\<lparr>in_rest := drop (2 * ?m) f, out_text := out_text w @ d @ e\<rparr>"
      have step: "parent_loop (Suc k) (fst (fd_direct p)) (snd (fd_back p)) p w =
          parent_loop k (fst (fd_direct p)) (snd (fd_back p)) ?p ?w"
        using True d
        by (simp add: Let_def rw WriteDuplex_def ReadDuplex_def f_def[symmetric] d_def[symmetric] e_def[symmetric] mult_2)
      have len: "length (in_rest ?w) < k" using Suc.prems(3) big(1) m by (simp add: f_def)
      have "\<exists>p1 rest. parent_loop k (fst (fd_direct ?p)) (snd (fd_back ?p)) ?p ?w =
        Some (p1, ?w\<lparr>in_rest := rest, out_text := out_text ?w @ self_copied ?m (in_rest ?w)\<rparr>) \<and>
        fd_direct p1 = fd_direct ?p \<and> fd_back p1 = fd_back ?p"
        by (rule Suc.IH) (use ends len in simp_all)
      moreover have "self_copied ?m f = d @ e @ self_copied ?m (drop (2 * ?m) f)"
        using self_copied_steps(3)[OF m big(1)] big(2) by (simp add: d_def e_def)
      ultimately show ?thesis unfolding step by (simp add: f_def[symmetric])
    qed
  qed
qed

text \<open>
  C21: As long as the calls succeed, the program ends for every file and every descriptor table it starts
  with, with exit code 0: both pipes are left empty, and the
  output is the file, except that the bytes after the last full buffer are lost when the file has an odd
  number of full buffers of 65536 bytes.
\<close>
theorem duplex_copy:
  assumes "length input < k" "pipe1_ok c" "pipe2_ok c" "fork_ok c" "in_ok c" "out_ok c"
  shows "\<exists>w1 w2. duplex_main k c t input = Some (0, w1, Some w2) \<and>
     direct_buf w1 = [] \<and> back_buf w1 = [] \<and> back_buf w2 = [] \<and>
     out_text w1 = (if odd (length input div 65536) then take (length input div 65536 * 65536) input else input)"
proof -
  obtain p t4 where create: "CreateDuplexPipe c 65536 t = (Some p, t4)"
    using assms(2,3) by (simp add: CreateDuplexPipe_def open_lowest)
  note re = create_reopen[OF create]
  let ?tab = "(snd (fd_back p), OutFile) # (fst (fd_direct p), InFile) # CloseParentPipes p t4"
  let ?w = "\<lparr>d_tab = ?tab, direct_buf = [], back_buf = [], in_rest = input, out_text = []\<rparr>"
  obtain p1 rest where loop: "parent_loop k (fst (fd_direct p)) (snd (fd_back p)) p ?w =
      Some (p1, ?w\<lparr>in_rest := rest, out_text := self_copied MAX_BUF_SIZE input\<rparr>)"
    using parent_loop_self[of ?w p k] assms(1) re(3) by auto
  have parent: "\<exists>tb. run_parent k c p \<lparr>d_tab = t4, direct_buf = [], back_buf = [], in_rest = input, out_text = []\<rparr> =
      Some (?w\<lparr>d_tab := tb, in_rest := rest, out_text := self_copied MAX_BUF_SIZE input\<rparr>)"
    using assms(5,6) loop by (simp add: run_parent_def Let_def re(1,2))
  obtain k' where k: "k = Suc k'" using assms(1) by (cases k) auto
  have child: "run_child k False p \<lparr>d_tab = t4, direct_buf = [], back_buf = [], in_rest = input, out_text = []\<rparr> =
      Some \<lparr>d_tab = CloseAllPipes p (CloseChildPipes p t4), direct_buf = [], back_buf = [], in_rest = input, out_text = []\<rparr>"
    using re(4) by (simp add: run_child_def k ReadDuplex_def dread_def)
  show ?thesis
    using create parent child assms(4) by (auto simp: duplex_main_def Let_def self_copied_def MAX_BUF_SIZE_def)
qed

lemma duplex_copy_witness:
  "\<exists>w1 w2. duplex_main 3 \<lparr>pipe1_ok = True, pipe2_ok = True, fork_ok = True, in_ok = True, out_ok = True\<rparr>
     [(0, DTerm 0), (1, DTerm 1), (2, DTerm 2)] ''ab'' = Some (0, w1, Some w2) \<and> out_text w1 = ''ab''"
  using duplex_copy[of "''ab''" 3 "\<lparr>pipe1_ok = True, pipe2_ok = True, fork_ok = True, in_ok = True, out_ok = True\<rparr>"
    "[(0, DTerm 0), (1, DTerm 1), (2, DTerm 2)]"] by (simp, blast)

end
