(* ===== verification/Monte_Carlo.thy ===== *)
theory Monte_Carlo
  imports Integral_Server Bounded_Runs "HOL-Library.Word"
begin

text \<open>
  src/sem\_4: a Monte Carlo estimate of an integral by one thread for each cell of a square grid.  The
  threads add the hits they have counted to one counter under a mutex; they run as a step relation in
  which the addition is a load and a store.
\<close>

section \<open>Data of the threads\<close>

definition TOTAL_POINTS :: nat where "TOTAL_POINTS = 10000000"

record PthreadData =
  t_func :: "double \<Rightarrow> double"
  t_x_min :: double
  t_x_max :: double
  t_y_min :: double
  t_y_max :: double
  t_seed :: "32 word"
  t_points :: nat
  t_core :: int

text \<open>
  What the program is given: the mathematical library, the time at each thread's creation, the number of
  processors, the result of setting the affinity to one of them, and how many threads can be made.
\<close>

record mc_env =
  e_libm :: libm
  e_now :: "nat \<Rightarrow> 32 word"
  e_cores :: int
  e_affinity :: "int \<Rightarrow> int"
  e_threads :: nat

text \<open>The arguments of \<open>CalculateIntegral\<close> apart from the number of threads.\<close>

record mc_args =
  a_func :: "double \<Rightarrow> double"
  a_x_min :: double
  a_x_max :: double
  a_y_min :: double
  a_y_max :: double

definition ExponentialFunc :: "mc_env \<Rightarrow> double \<Rightarrow> double" where
  "ExponentialFunc e x = dexp (e_libm e) x"

definition set_this_thread_to_core :: "mc_env \<Rightarrow> int \<Rightarrow> int" where
  "set_this_thread_to_core e core_num =
     (if core_num < 0 \<or> e_cores e \<le> core_num then -1 else e_affinity e core_num)"

text \<open>The counting loop, for the number of points that are left.\<close>

fun count_hits :: "libm \<Rightarrow> PthreadData \<Rightarrow> nat \<Rightarrow> nat \<Rightarrow> 64 word \<Rightarrow> 64 word" where
  "count_hits m d seed 0 local_count = local_count"
| "count_hits m d seed (Suc n) local_count =
     (let (r1, s1) = l_rand m seed; (r2, s2) = l_rand m s1;
          x = random_in m r1 (t_x_min d) (t_x_max d); y = random_in m r2 (t_y_min d) (t_y_max d)
      in count_hits m d s2 n (if dle y (t_func d x) then local_count + 1 else local_count))"

text \<open>A thread up to the mutex: \<open>None\<close> when it cannot be put on its core and returns.\<close>

definition MonteCarloThread :: "mc_env \<Rightarrow> PthreadData \<Rightarrow> 64 word option" where
  "MonteCarloThread e d = (if set_this_thread_to_core e (t_core d) \<noteq> 0 then None
     else Some (count_hits (e_libm e) d (unat (t_seed d)) (t_points d) 0))"

text \<open>The cell in row \<open>i\<close> and column \<open>j\<close> of the grid.\<close>

definition cell_data :: "mc_env \<Rightarrow> mc_args \<Rightarrow> int \<Rightarrow> int \<Rightarrow> int \<Rightarrow> PthreadData" where
  "cell_data e a n i j =
     (let r = l_rnd (e_libm e);
          scale_step = ddiv r (Num 1) (of_size r (nat n));
          x_step = dmul r (dsub r (a_x_max a) (a_x_min a)) scale_step;
          y_step = dmul r (dsub r (a_y_max a) (a_y_min a)) scale_step;
          index = i * n + j
      in \<lparr>t_func = a_func a,
          t_x_min = dadd r (a_x_min a) (dmul r (of_size r (nat i)) x_step),
          t_x_max = dadd r (a_x_min a) (dmul r (of_size r (nat (i + 1))) x_step),
          t_y_min = dadd r (a_y_min a) (dmul r (of_size r (nat j)) y_step),
          t_y_max = dadd r (a_y_min a) (dmul r (of_size r (nat (j + 1))) y_step),
          t_seed = e_now e (nat index) + word_of_int index,
          t_points = TOTAL_POINTS div nat (n * n),
          t_core = index\<rparr>)"

section \<open>The threads\<close>

text \<open>Where a thread is; it keeps its own count, and while it adds the value it has loaded.\<close>

datatype mc_thread = T_New | T_Start | T_Lock "64 word" | T_Load "64 word" | T_Store "64 word" "64 word" | T_Unlock | T_Done

datatype mc_main = M_Create nat | M_Join nat | M_Done

record mc_world =
  mc_counter :: "64 word"
  mc_mutex :: "nat option"
  mc_data :: "nat \<Rightarrow> PthreadData option"
  mc_threads :: "mc_thread list"
  mc_pc :: mc_main

text \<open>
  The start of the two loops.  \<open>None\<close> is undefined behaviour: the square overflows, there is a division
  by zero, or the second loop waits for threads that the first one did not make, which it does not for
  a negative root and cannot beyond the number of threads there can be.
\<close>

definition mc_start :: "mc_env \<Rightarrow> int \<Rightarrow> mc_world option" where
  "mc_start e n = (if n \<le> 0 \<or> 2 ^ 31 \<le> n * n \<or> int (e_threads e) < n * n then None
     else Some \<lparr>mc_counter = 0, mc_mutex = None, mc_data = Map.empty,
       mc_threads = replicate (nat (n * n)) T_New, mc_pc = M_Create 0\<rparr>)"

definition set_thread :: "nat \<Rightarrow> mc_thread \<Rightarrow> mc_world \<Rightarrow> mc_world" where
  "set_thread i t w = w\<lparr>mc_threads := (mc_threads w)[i := t]\<rparr>"

text \<open>One turn of the creating loop and one of the joining loop.\<close>

definition mc_create :: "mc_env \<Rightarrow> mc_args \<Rightarrow> int \<Rightarrow> nat \<Rightarrow> mc_world \<Rightarrow> mc_world" where
  "mc_create e a n k w = (set_thread k T_Start w)\<lparr>
     mc_data := (mc_data w)(k \<mapsto> cell_data e a n (int k div n) (int k mod n)),
     mc_pc := (if Suc k < length (mc_threads w) then M_Create (Suc k) else M_Join 0)\<rparr>"

definition mc_join :: "nat \<Rightarrow> mc_world \<Rightarrow> mc_world" where
  "mc_join k w = w\<lparr>mc_pc := (if Suc k < length (mc_threads w) then M_Join (Suc k) else M_Done)\<rparr>"

definition mc_count :: "mc_env \<Rightarrow> nat \<Rightarrow> PthreadData \<Rightarrow> mc_world \<Rightarrow> mc_world" where
  "mc_count e i d w = set_thread i (case MonteCarloThread e d of None \<Rightarrow> T_Done | Some l \<Rightarrow> T_Lock l) w"

inductive mc_step :: "mc_env \<Rightarrow> mc_args \<Rightarrow> int \<Rightarrow> mc_world \<Rightarrow> mc_world \<Rightarrow> bool" for e a n where
  create: "mc_pc w = M_Create k \<Longrightarrow> mc_step e a n w (mc_create e a n k w)"
| join: "mc_pc w = M_Join k \<Longrightarrow> k < length (mc_threads w) \<Longrightarrow> mc_threads w ! k = T_Done \<Longrightarrow> mc_step e a n w (mc_join k w)"
| count: "i < length (mc_threads w) \<Longrightarrow> mc_threads w ! i = T_Start \<Longrightarrow> mc_data w i = Some d \<Longrightarrow>
    mc_step e a n w (mc_count e i d w)"
| lock: "i < length (mc_threads w) \<Longrightarrow> mc_threads w ! i = T_Lock l \<Longrightarrow> mc_mutex w = None \<Longrightarrow>
    mc_step e a n w (set_thread i (T_Load l) (w\<lparr>mc_mutex := Some i\<rparr>))"
| load: "i < length (mc_threads w) \<Longrightarrow> mc_threads w ! i = T_Load l \<Longrightarrow>
    mc_step e a n w (set_thread i (T_Store l (mc_counter w)) w)"
| store: "i < length (mc_threads w) \<Longrightarrow> mc_threads w ! i = T_Store l v \<Longrightarrow>
    mc_step e a n w (set_thread i T_Unlock (w\<lparr>mc_counter := v + l\<rparr>))"
| unlock: "i < length (mc_threads w) \<Longrightarrow> mc_threads w ! i = T_Unlock \<Longrightarrow>
    mc_step e a n w (set_thread i T_Done (w\<lparr>mc_mutex := None\<rparr>))"

inductive_cases mc_step_elim: "mc_step e a n w w'"

lemmas mc_step_cases [consumes 1, case_names create join count lock load store unlock] = mc_step_elim

section \<open>Result\<close>

definition mc_estimate :: "mc_env \<Rightarrow> mc_args \<Rightarrow> 64 word \<Rightarrow> double" where
  "mc_estimate e a c = (let r = l_rnd (e_libm e) in
     ddiv r (dmul r (dmul r (dsub r (a_x_max a) (a_x_min a)) (dsub r (a_y_max a) (a_y_min a))) (of_size r (unat c)))
       (of_size r TOTAL_POINTS))"

text \<open>The possible results of a call, for all the orders in which the threads can run.\<close>

inductive CalculateIntegral :: "mc_env \<Rightarrow> mc_args \<Rightarrow> int \<Rightarrow> double \<Rightarrow> bool" for e a n where
  "mc_start e n = Some w \<Longrightarrow> (mc_step e a n)\<^sup>*\<^sup>* w w' \<Longrightarrow> mc_pc w' = M_Done \<Longrightarrow>
     CalculateIntegral e a n (mc_estimate e a (mc_counter w'))"

definition exp_args :: "mc_env \<Rightarrow> mc_args" where
  "exp_args e = \<lparr>a_func = ExponentialFunc e, a_x_min = Num 0, a_x_max = Num 1, a_y_min = Num 0,
     a_y_max = ExponentialFunc e (Num 1)\<rparr>"

text \<open>\<open>main\<close>: the number that was read, if one was, to the exit code and the printed result.\<close>

inductive monte_carlo_main :: "mc_env \<Rightarrow> int option \<Rightarrow> int \<times> double option \<Rightarrow> bool" for e where
  "monte_carlo_main e None (1, None)"
| "CalculateIntegral e (exp_args e) n r \<Longrightarrow> monte_carlo_main e (Some n) (0, Some r)"

inductive_simps monte_carlo_main_simps: "monte_carlo_main e None r" "monte_carlo_main e (Some n) r"

end
