(* ===== verification/Monte_Carlo_Properties.thy ===== *)
theory Monte_Carlo_Properties
  imports Monte_Carlo
begin

text \<open>
  What the threads of src/sem\_4 compute in every order they can run in: the invariant of the step relation,
  and from it the one possible result.
\<close>

section \<open>The share of a thread\<close>

definition grid_cell :: "mc_env \<Rightarrow> mc_args \<Rightarrow> int \<Rightarrow> nat \<Rightarrow> PthreadData" where
  "grid_cell e a n i = cell_data e a n (int i div n) (int i mod n)"

definition share :: "mc_env \<Rightarrow> mc_args \<Rightarrow> int \<Rightarrow> nat \<Rightarrow> 64 word option" where
  "share e a n i = MonteCarloThread e (grid_cell e a n i)"

definition share0 :: "mc_env \<Rightarrow> mc_args \<Rightarrow> int \<Rightarrow> nat \<Rightarrow> 64 word" where
  "share0 e a n i = (case share e a n i of None \<Rightarrow> 0 | Some l \<Rightarrow> l)"

text \<open>What has been added for a thread so far, and what its state says about its count.\<close>

fun added :: "64 word \<Rightarrow> mc_thread \<Rightarrow> 64 word" where
  "added s T_Unlock = s" | "added s T_Done = s" | "added s _ = 0"

fun thread_ok :: "64 word option \<Rightarrow> 64 word \<Rightarrow> mc_thread \<Rightarrow> bool" where
  "thread_ok s c (T_Lock l) = (s = Some l)" | "thread_ok s c (T_Load l) = (s = Some l)"
| "thread_ok s c (T_Store l v) = (s = Some l \<and> v = c)" | "thread_ok s c _ = True"

fun inside :: "mc_thread \<Rightarrow> bool" where
  "inside (T_Load l) = True" | "inside (T_Store l v) = True" | "inside T_Unlock = True" | "inside _ = False"

fun main_ok :: "mc_main \<Rightarrow> mc_thread list \<Rightarrow> bool" where
  "main_ok (M_Create k) ts = (k < length ts \<and> (\<forall>i<length ts. ts ! i = T_New \<longleftrightarrow> k \<le> i))"
| "main_ok (M_Join k) ts = (k < length ts \<and> T_New \<notin> set ts \<and> (\<forall>i<k. ts ! i = T_Done))"
| "main_ok M_Done ts = (\<forall>i<length ts. ts ! i = T_Done)"

definition mc_inv :: "mc_env \<Rightarrow> mc_args \<Rightarrow> int \<Rightarrow> mc_world \<Rightarrow> bool" where
  "mc_inv e a n w \<longleftrightarrow>
     length (mc_threads w) = nat (n * n) \<and> main_ok (mc_pc w) (mc_threads w) \<and>
     (\<forall>i<nat (n * n). mc_threads w ! i \<noteq> T_New \<longrightarrow> mc_data w i = Some (grid_cell e a n i)) \<and>
     (\<forall>i<nat (n * n). inside (mc_threads w ! i) \<longleftrightarrow> mc_mutex w = Some i) \<and>
     (\<forall>i. mc_mutex w = Some i \<longrightarrow> i < nat (n * n)) \<and>
     (\<forall>i<nat (n * n). thread_ok (share e a n i) (mc_counter w) (mc_threads w ! i)) \<and>
     mc_counter w = (\<Sum>i<nat (n * n). added (share0 e a n i) (mc_threads w ! i))"

text \<open>A step of one thread keeps the invariant under what a thread's step does to the rest.\<close>

lemma thread_step_inv:
  assumes "mc_inv e a n w" "i < length (mc_threads w)" "mc_threads w ! i \<noteq> T_New" "mc_threads w ! i \<noteq> T_Done" "t \<noteq> T_New"
    and "mc_mutex w = m \<or> mc_mutex w \<in> {None, Some i} \<and> m \<in> {None, Some i}" "inside t \<longleftrightarrow> m = Some i"
    and "c = mc_counter w \<or> inside (mc_threads w ! i)" "thread_ok (share e a n i) c t"
    and "c = mc_counter w - added (share0 e a n i) (mc_threads w ! i) + added (share0 e a n i) t"
  shows "mc_inv e a n (set_thread i t (w\<lparr>mc_mutex := m, mc_counter := c\<rparr>))"
proof -
  let ?ts = "mc_threads w" and ?N = "nat (n * n)"
  note I = assms(1)[unfolded mc_inv_def]
  have len: "length ?ts = ?N" using I by blast
  have mo: "main_ok (mc_pc w) ?ts" using I by blast
  have main: "main_ok (mc_pc w) (?ts[i := t])"
  proof (cases "mc_pc w")
    case (M_Create k)
    then show ?thesis using I assms(2,3,5) by (auto simp: nth_list_update)
  next
    case (M_Join k)
    have "T_New \<notin> set (?ts[i := t])" using I M_Join assms(5) set_update_subset_insert[of ?ts i t] by auto
    moreover have "i \<ge> k" by (rule ccontr) (use mo M_Join assms(4) in auto)
    ultimately show ?thesis using I M_Join by (auto simp: nth_list_update)
  next
    case M_Done
    then show ?thesis using I assms(2,4) by auto
  qed
  have oks: "thread_ok (share e a n j) c (?ts[i := t] ! j)" if "j < ?N" for j
  proof (cases "j = i")
    case False
    have ok: "thread_ok (share e a n j) (mc_counter w) (?ts ! j)" using I that by blast
    show ?thesis
    proof (cases "c = mc_counter w")
      case True
      then show ?thesis using ok False by simp
    next
      case changed: False
      then have "mc_mutex w = Some i" using assms(2,8) I len by simp
      then have "\<not> inside (?ts ! j)" using I that False by auto
      then show ?thesis using ok False by (cases "?ts ! j") auto
    qed
  qed (use assms(2,9) in simp)
  have sum: "c = (\<Sum>j<?N. added (share0 e a n j) (?ts[i := t] ! j))"
    using sum_update[OF assms(2), of "\<lambda>j. added (share0 e a n j)" t] assms(10) I unfolding len by simp
  have insides: "inside (?ts[i := t] ! j) \<longleftrightarrow> m = Some j" if "j < ?N" for j
    using I that assms(2,6,7) by (cases "j = i") auto
  have mutex: "\<forall>j. m = Some j \<longrightarrow> j < ?N" using I assms(2,6) len by auto
  have data: "mc_data w j = Some (grid_cell e a n j)" if "j < ?N" "?ts[i := t] ! j \<noteq> T_New" for j
    using I that assms(2,3) by (cases "j = i") auto
  show ?thesis unfolding mc_inv_def using len main oks sum insides mutex data by (simp add: set_thread_def)
qed

lemma create_inv:
  assumes "mc_inv e a n w" "mc_pc w = M_Create k"
  shows "mc_inv e a n (mc_create e a n k w)"
proof -
  let ?ts = "mc_threads w" and ?N = "nat (n * n)"
  note I = assms(1)[unfolded mc_inv_def]
  have len: "length ?ts = ?N" and mo: "main_ok (M_Create k) ?ts" using I assms(2) by auto
  have k: "k < length ?ts" "?ts ! k = T_New" using mo by auto
  have sum: "mc_counter w = (\<Sum>j<?N. added (share0 e a n j) (?ts[k := T_Start] ! j))"
    using sum_update[OF k(1), of "\<lambda>j. added (share0 e a n j)" T_Start] I unfolding len by (simp add: k(2))
  have main: "main_ok (if Suc k < length ?ts then M_Create (Suc k) else M_Join 0) (?ts[k := T_Start])"
    using mo by (auto simp: nth_list_update set_conv_nth split: if_splits)
  have not_inside: "mc_mutex w \<noteq> Some k" using I k len by (metis inside.simps(4))
  have each: "inside (?ts[k := T_Start] ! j) \<longleftrightarrow> mc_mutex w = Some j"
    "thread_ok (share e a n j) (mc_counter w) (?ts[k := T_Start] ! j)"
    "?ts[k := T_Start] ! j \<noteq> T_New \<longrightarrow> ((mc_data w)(k \<mapsto> grid_cell e a n k)) j = Some (grid_cell e a n j)"
    if "j < ?N" for j
    using I that k(1) not_inside by (cases "j = k"; simp)+
  show ?thesis
    unfolding mc_inv_def using len main sum each I
    by (simp add: mc_create_def set_thread_def grid_cell_def[symmetric])
qed

lemma mc_inv_step:
  assumes "mc_inv e a n w" "mc_step e a n w w'"
  shows "mc_inv e a n w'"
  using assms(2)
proof (cases rule: mc_step_cases)
  case (create k)
  then show ?thesis using create_inv[OF assms(1)] by simp
next
  case (join k)
  have "main_ok (mc_pc (mc_join k w)) (mc_threads w)"
  proof (cases "Suc k < length (mc_threads w)")
    case False
    then have "\<forall>i<length (mc_threads w). i < k \<or> i = k" using join(3) by auto
    then show ?thesis using assms(1) join False by (auto simp: mc_inv_def mc_join_def)
  qed (use assms(1) join in \<open>auto simp: mc_inv_def mc_join_def less_Suc_eq\<close>)
  then show ?thesis using assms(1) unfolding mc_inv_def join(1) by (elim conjE, intro conjI) (simp_all add: mc_join_def)
next
  case (count i d)
  let ?t = "case MonteCarloThread e d of None \<Rightarrow> T_Done | Some l \<Rightarrow> T_Lock l"
  have d: "MonteCarloThread e d = share e a n i" "\<not> inside (mc_threads w ! i)" "mc_mutex w \<noteq> Some i"
    using assms(1) count by (auto simp: mc_inv_def share_def)
  have "mc_inv e a n (set_thread i ?t (w\<lparr>mc_mutex := mc_mutex w, mc_counter := mc_counter w\<rparr>))"
    using d count(3) by (intro thread_step_inv[OF assms(1) count(2)]) (auto simp: share0_def split: option.splits)
  then show ?thesis by (simp add: count(1) mc_count_def)
next
  case (lock i l)
  have "share e a n i = Some l" using assms(1) lock by (auto simp: mc_inv_def)
  then have "mc_inv e a n (set_thread i (T_Load l) (w\<lparr>mc_mutex := Some i, mc_counter := mc_counter w\<rparr>))"
    using lock(3,4) by (intro thread_step_inv[OF assms(1) lock(2)]) auto
  then show ?thesis by (simp add: lock(1))
next
  case (load i l)
  have "share e a n i = Some l" "mc_mutex w = Some i" using assms(1) load by (auto simp: mc_inv_def)
  then have "mc_inv e a n (set_thread i (T_Store l (mc_counter w)) (w\<lparr>mc_mutex := mc_mutex w, mc_counter := mc_counter w\<rparr>))"
    using load(3) by (intro thread_step_inv[OF assms(1) load(2)]) auto
  then show ?thesis by (simp add: load(1))
next
  case (store i l v)
  have "thread_ok (share e a n i) (mc_counter w) (mc_threads w ! i)" "inside (mc_threads w ! i) \<longleftrightarrow> mc_mutex w = Some i"
    using assms(1) store(2) by (auto simp: mc_inv_def)
  then have s: "share e a n i = Some l" "v = mc_counter w" "mc_mutex w = Some i" using store(3) by auto
  then have "mc_inv e a n (set_thread i T_Unlock (w\<lparr>mc_mutex := mc_mutex w, mc_counter := v + l\<rparr>))"
    using store(3) by (intro thread_step_inv[OF assms(1) store(2)]) (auto simp: share0_def)
  then show ?thesis by (simp add: store(1))
next
  case (unlock i)
  have "mc_mutex w = Some i" using assms(1) unlock by (auto simp: mc_inv_def)
  then have "mc_inv e a n (set_thread i T_Done (w\<lparr>mc_mutex := None, mc_counter := mc_counter w\<rparr>))"
    using unlock(3) by (intro thread_step_inv[OF assms(1) unlock(2)]) auto
  then show ?thesis by (simp add: unlock(1))
qed

section \<open>Termination\<close>

fun thread_rank :: "mc_thread \<Rightarrow> nat" where
  "thread_rank T_New = 5" | "thread_rank T_Start = 5" | "thread_rank (T_Lock l) = 4" | "thread_rank (T_Load l) = 3"
| "thread_rank (T_Store l v) = 2" | "thread_rank T_Unlock = 1" | "thread_rank T_Done = 0"

fun main_rank :: "nat \<Rightarrow> mc_main \<Rightarrow> nat" where
  "main_rank N (M_Create k) = 2 * N - k" | "main_rank N (M_Join k) = N - k" | "main_rank N M_Done = 0"

definition mc_rank :: "mc_world \<Rightarrow> nat" where
  "mc_rank w = main_rank (length (mc_threads w)) (mc_pc w) + sum_list (map thread_rank (mc_threads w))"

lemma rank_set_thread:
  assumes "i < length ts"
  shows "sum_list (map thread_rank (ts[i := t])) + thread_rank (ts ! i) = sum_list (map thread_rank ts) + thread_rank t"
proof -
  have "thread_rank (ts ! i) \<le> sum_list (map thread_rank ts)"
    using assms member_le_sum_list[of "thread_rank (ts ! i)" "map thread_rank ts"] by simp
  then show ?thesis using assms by (simp add: map_update sum_list_update)
qed

lemma mc_rank_step:
  assumes "mc_inv e a n w" "mc_step e a n w w'"
  shows "mc_rank w' < mc_rank w"
  using assms(2)
proof (cases rule: mc_step_cases)
  case (create k)
  then have "k < length (mc_threads w)" "mc_threads w ! k = T_New" using assms(1) by (auto simp: mc_inv_def)
  then show ?thesis using create rank_set_thread[of k "mc_threads w" T_Start]
    by (auto simp: mc_rank_def mc_create_def set_thread_def)
next
  case (join k)
  then show ?thesis by (auto simp: mc_rank_def mc_join_def)
next
  case (count i d)
  then show ?thesis
    using rank_set_thread[OF count(2), of "case MonteCarloThread e d of None \<Rightarrow> T_Done | Some l \<Rightarrow> T_Lock l"]
    by (cases "MonteCarloThread e d") (simp_all add: mc_rank_def mc_count_def set_thread_def)
next
  case (lock i l)
  then show ?thesis using rank_set_thread[OF lock(2), of "T_Load l"] by (simp add: mc_rank_def set_thread_def)
next
  case (load i l)
  then show ?thesis using rank_set_thread[OF load(2), of "T_Store l (mc_counter w)"] by (simp add: mc_rank_def set_thread_def)
next
  case (store i l v)
  then show ?thesis using rank_set_thread[OF store(2), of T_Unlock] by (simp add: mc_rank_def set_thread_def)
next
  case (unlock i)
  then show ?thesis using rank_set_thread[OF unlock(2), of T_Done] by (simp add: mc_rank_def set_thread_def)
qed

interpretation mcr: bounded_runs "mc_step e a n" "mc_inv e a n" mc_rank
  by unfold_locales (fact mc_inv_step, fact mc_rank_step)

text \<open>Nobody waits for ever: as long as \<open>main\<close> has not finished some thread can run.\<close>

lemma mc_progress:
  assumes "mc_inv e a n w" "\<nexists>v. mc_step e a n w v"
  shows "mc_pc w = M_Done"
proof (cases "mc_pc w")
  case (M_Create k)
  then show ?thesis using assms(2) mc_step.create by blast
next
  case (M_Join k)
  note I = assms(1)[unfolded mc_inv_def]
  have ts: "k < length (mc_threads w)" "T_New \<notin> set (mc_threads w)" using I M_Join by auto
  have thread: "mc_threads w ! i \<in> {T_Done} \<union> range T_Lock" "mc_mutex w \<noteq> None \<or> mc_threads w ! i = T_Done"
    if i: "i < length (mc_threads w)" for i
  proof -
    have "mc_threads w ! i \<noteq> T_New" using ts(2) i nth_mem by metis
    then show "mc_threads w ! i \<in> {T_Done} \<union> range T_Lock" "mc_mutex w \<noteq> None \<or> mc_threads w ! i = T_Done"
      using assms(2) I i mc_step.count[OF i] mc_step.load[OF i] mc_step.store[OF i] mc_step.unlock[OF i] mc_step.lock[OF i]
      by (cases "mc_threads w ! i"; fastforce)+
  qed
  have "mc_mutex w = None"
  proof (rule ccontr)
    assume "mc_mutex w \<noteq> None"
    then obtain i where i: "mc_mutex w = Some i" by auto
    then have "inside (mc_threads w ! i)" "i < length (mc_threads w)" using I by auto
    then show False using thread(1)[of i] by auto
  qed
  then have "mc_threads w ! k = T_Done" using thread(2)[OF ts(1)] by simp
  then show ?thesis using assms(2) mc_step.join[OF M_Join ts(1)] by blast
qed

section \<open>The result\<close>

definition calls_defined :: "mc_env \<Rightarrow> int \<Rightarrow> bool" where
  "calls_defined e n \<longleftrightarrow> 0 < n \<and> n * n < 2 ^ 31 \<and> n * n \<le> int (e_threads e)"

lemma mc_start_inv: "mc_start e n = Some w \<Longrightarrow> mc_inv e a n w \<and> mc_rank w = 7 * nat (n * n)"
  by (auto simp: mc_start_def mc_inv_def mc_rank_def sum_list_replicate split: if_splits)

lemma mc_start_defined: "(\<exists>w. mc_start e n = Some w) \<longleftrightarrow> calls_defined e n"
  by (auto simp: mc_start_def calls_defined_def)

lemma mc_done_counter:
  assumes "mc_inv e a n w" "mc_pc w = M_Done"
  shows "mc_counter w = (\<Sum>i<nat (n * n). share0 e a n i)"
proof -
  have "(\<Sum>i<nat (n * n). added (share0 e a n i) (mc_threads w ! i)) = (\<Sum>i<nat (n * n). share0 e a n i)"
    using assms by (intro sum.cong) (auto simp: mc_inv_def)
  then show ?thesis using assms(1) by (simp add: mc_inv_def)
qed

lemma result_unique:
  "CalculateIntegral e a n r \<longleftrightarrow>
     calls_defined e n \<and> r = mc_estimate e a (\<Sum>i<nat (n * n). share0 e a n i)" (is "?l \<longleftrightarrow> ?r")
proof
  assume ?l
  then obtain w w' where run: "mc_start e n = Some w" "(mc_step e a n)\<^sup>*\<^sup>* w w'" "mc_pc w' = M_Done"
    and r: "r = mc_estimate e a (mc_counter w')" by (auto elim: CalculateIntegral.cases)
  have "mc_inv e a n w'" using mcr.inv_runs[OF run(2)] mc_start_inv[OF run(1)] by blast
  then show ?r using r mc_done_counter[OF _ run(3)] mc_start_defined run(1) by metis
next
  assume R: ?r
  then obtain w where w: "mc_start e n = Some w" using mc_start_defined by blast
  obtain w' where w': "(mc_step e a n)\<^sup>*\<^sup>* w w'" "mc_inv e a n w'" "\<nexists>v. mc_step e a n w' v"
    using mcr.ends mc_start_inv[OF w] by blast
  have fin: "mc_pc w' = M_Done" using mc_progress[OF w'(2,3)] .
  then show ?l
    using CalculateIntegral.intros[OF w w'(1) fin] R mc_done_counter[OF w'(2) fin] by simp
qed

lemma count_hits_le: "unat (count_hits m d s k c) \<le> unat c + k"
proof (induction k arbitrary: s c)
  case (Suc k)
  have "unat (c + 1) \<le> unat c + 1" by (simp add: unat_word_ariths)
  then have "unat (count_hits m d s' k (c + 1)) \<le> unat c + Suc k" for s' using Suc[of s' "c + 1"] by simp
  moreover have "unat (count_hits m d s' k c) \<le> unat c + Suc k" for s' using Suc[of s' c] by simp
  ultimately show ?case by (simp add: Let_def split: prod.splits)
qed simp

lemma grid_cell_core: "0 < n \<Longrightarrow> t_core (grid_cell e a n i) = int i"
  by (simp add: grid_cell_def cell_data_def Let_def)

lemma grid_cell_points: "t_points (grid_cell e a n i) = TOTAL_POINTS div nat (n * n)"
  by (simp add: grid_cell_def cell_data_def Let_def)

lemma share_le: "unat (share0 e a n i) \<le> TOTAL_POINTS div nat (n * n)"
  using count_hits_le[of "e_libm e" "grid_cell e a n i" _ _ 0]
  by (simp add: share0_def share_def MonteCarloThread_def grid_cell_points)

lemma share_no_core: "0 < n \<Longrightarrow> e_cores e \<le> int i \<Longrightarrow> share0 e a n i = 0"
  by (simp add: share0_def share_def MonteCarloThread_def set_this_thread_to_core_def grid_cell_core)

lemma shares_le:
  assumes "0 < n"
  shows "(\<Sum>i<nat (n * n). unat (share0 e a n i)) \<le> min (nat (n * n)) (nat (e_cores e)) * (TOTAL_POINTS div nat (n * n))"
proof -
  let ?N = "nat (n * n)" and ?c = "nat (e_cores e)"
  have "(\<Sum>i<?N. unat (share0 e a n i)) = (\<Sum>i<min ?N ?c. unat (share0 e a n i))"
    using share_no_core[OF assms] by (intro sum.mono_neutral_right) auto
  also have "\<dots> \<le> of_nat (card {..<min ?N ?c}) * (TOTAL_POINTS div ?N)"
    by (rule sum_bounded_above) (rule share_le)
  finally show ?thesis by simp
qed

lemma shares_unat:
  assumes "0 < n"
  shows "unat (\<Sum>i<nat (n * n). share0 e a n i) = (\<Sum>i<nat (n * n). unat (share0 e a n i))"
proof -
  let ?N = "nat (n * n)"
  have "min ?N (nat (e_cores e)) * (TOTAL_POINTS div ?N) \<le> ?N * (TOTAL_POINTS div ?N)" by simp
  also have "\<dots> \<le> TOTAL_POINTS" by simp
  finally have "(\<Sum>i<?N. unat (share0 e a n i)) < 2 ^ 64"
    using shares_le[OF assms, of e a] by (simp add: TOTAL_POINTS_def)
  then have "unat (word_of_nat (\<Sum>i<?N. unat (share0 e a n i)) :: 64 word) = (\<Sum>i<?N. unat (share0 e a n i))"
    by (simp add: unat_of_nat take_bit_nat_eq_self del: of_nat_sum)
  then show ?thesis by (simp add: of_nat_sum)
qed

text \<open>
  C6: In whatever order the threads run, a call ends after at most seven steps for each thread, without a
  deadlock, and it has exactly one possible result: the one computed from the sum of all the hits that the
  threads counted, none of them lost.  Threads beyond the number of processors count nothing, so that with
  fewer processors than threads the result is too small by their cells.
\<close>
theorem integral_of_all_hits:
  "(CalculateIntegral e a n r \<longleftrightarrow> 0 < n \<and> n * n < 2 ^ 31 \<and> n * n \<le> int (e_threads e) \<and>
      r = mc_estimate e a (\<Sum>i<nat (n * n). share0 e a n i)) \<and>
   (mc_start e n = Some w \<and> (mc_step e a n ^^ k) w w' \<longrightarrow>
      k \<le> 7 * nat (n * n) \<and> ((\<nexists>v. mc_step e a n w' v) \<longrightarrow> mc_pc w' = M_Done)) \<and>
   (0 < n \<longrightarrow> unat (\<Sum>i<nat (n * n). share0 e a n i) = (\<Sum>i<nat (n * n). unat (share0 e a n i)) \<and>
      (\<Sum>i<nat (n * n). unat (share0 e a n i)) \<le> min (nat (n * n)) (nat (e_cores e)) * (TOTAL_POINTS div nat (n * n)))"
proof (intro conjI impI)
  show "CalculateIntegral e a n r \<longleftrightarrow> 0 < n \<and> n * n < 2 ^ 31 \<and> n * n \<le> int (e_threads e) \<and>
      r = mc_estimate e a (\<Sum>i<nat (n * n). share0 e a n i)"
    unfolding result_unique calls_defined_def by blast
  assume run: "mc_start e n = Some w \<and> (mc_step e a n ^^ k) w w'"
  have inv: "mc_inv e a n w" and rank: "mc_rank w = 7 * nat (n * n)" using run mc_start_inv by blast+
  show "k \<le> 7 * nat (n * n)" using mcr.run_length[OF _ inv] run rank by fastforce
  show "mc_pc w' = M_Done" if "\<nexists>v. mc_step e a n w' v"
    using mc_progress[OF mcr.inv_runs[OF relpowp_runs inv] that] run by blast
next
  assume "0 < n"
  from shares_unat[OF this] shares_le[OF this]
  show "unat (\<Sum>i<nat (n * n). share0 e a n i) = (\<Sum>i<nat (n * n). unat (share0 e a n i))"
    "(\<Sum>i<nat (n * n). unat (share0 e a n i)) \<le> min (nat (n * n)) (nat (e_cores e)) * (TOTAL_POINTS div nat (n * n))"
    by blast+
qed

definition unit_libm :: libm where
  "unit_libm = \<lparr>l_rnd = (\<lambda>q. q), l_exp = (\<lambda>q. 1 + q), l_rand = (\<lambda>s. (s, s + 1))\<rparr>"

text \<open>Four threads on one processor: the counter stays below a quarter of the points.\<close>

theorem integral_of_all_hits_witness:
  "\<exists>e w w'. mc_start e 2 = Some w \<and> mc_step e (exp_args e) 2 w w' \<and> (1::nat) \<le> 7 * nat (2 * 2) \<and>
     (\<Sum>i<nat (2 * 2). unat (share0 e (exp_args e) 2 i)) \<le> 2500000 \<and>
     CalculateIntegral e (exp_args e) 2 (mc_estimate e (exp_args e) (\<Sum>i<nat (2 * 2). share0 e (exp_args e) 2 i))"
proof -
  let ?e = "\<lparr>e_libm = unit_libm, e_now = (\<lambda>_. 7), e_cores = 1, e_affinity = (\<lambda>_. 0), e_threads = 100\<rparr>"
  obtain w where w: "mc_start ?e 2 = Some w" "mc_pc w = M_Create 0" by (simp add: mc_start_def)
  have step: "mc_step ?e (exp_args ?e) 2 w (mc_create ?e (exp_args ?e) 2 0 w)" using w(2) by (rule mc_step.create)
  note main = integral_of_all_hits[of ?e "exp_args ?e" 2 _ w 1 "mc_create ?e (exp_args ?e) 2 0 w"]
  have "(1::nat) \<le> 7 * nat (2 * 2)" using main w(1) step by simp
  moreover have "(\<Sum>i<nat (2 * 2). unat (share0 ?e (exp_args ?e) 2 i)) \<le> 2500000" using main by (simp add: TOTAL_POINTS_def)
  moreover have "CalculateIntegral ?e (exp_args ?e) 2
      (mc_estimate ?e (exp_args ?e) (\<Sum>i<nat (2 * 2). share0 ?e (exp_args ?e) 2 i))"
    using main by simp
  ultimately show ?thesis using w(1) step by blast
qed

end
