(* ===== verification/Logger.thy ===== *)
theory Logger
  imports CString Stdio_Format
begin

text \<open>
  The logger of which src/task\_6, src/task\_7 and src/task\_8 have a copy each: a level, one output and a static
  buffer for the message.  The copies differ in where a record gets its final newline from.
\<close>

section \<open>Levels and state\<close>

datatype LogLevel = LOGL_DEBUG | LOGL_INFO | LOGL_WARN | LOGL_ERROR

fun level_value :: "LogLevel \<Rightarrow> int" where
  "level_value LOGL_DEBUG = 100" | "level_value LOGL_INFO = 200" | "level_value LOGL_WARN = 250" | "level_value LOGL_ERROR = 300"

text \<open>C compares the values of the enumeration.\<close>

instantiation LogLevel :: linorder
begin
definition less_eq_LogLevel :: "LogLevel \<Rightarrow> LogLevel \<Rightarrow> bool" where "less_eq_LogLevel a b = (level_value a \<le> level_value b)"
definition less_LogLevel :: "LogLevel \<Rightarrow> LogLevel \<Rightarrow> bool" where "less_LogLevel a b = (level_value a < level_value b)"
instance
proof
  fix a b :: LogLevel
  show "a \<le> b \<Longrightarrow> b \<le> a \<Longrightarrow> a = b" by (cases a; cases b) (simp_all add: less_eq_LogLevel_def)
qed (auto simp: less_eq_LogLevel_def less_LogLevel_def)
end

datatype OutputMode = COLOR_MODE | DEFAULT_MODE

datatype log_copy = Task6 | Task7 | Task8

datatype log_sink = Stdout | LogFile path

record logger =
  levelLogger :: LogLevel
  logFile :: "log_sink option"
  color_mode :: OutputMode
  serv_lines :: bytes
  written :: string

definition SIZE_BUFFER :: nat where "SIZE_BUFFER = 8192"

text \<open>The static initial values; \<open>written\<close> is what the current output has received.\<close>

definition no_lines :: bytes where "no_lines = replicate SIZE_BUFFER NUL"

definition initial_logger :: logger where
  "initial_logger = \<lparr>levelLogger = LOGL_DEBUG, logFile = None, color_mode = DEFAULT_MODE, serv_lines = no_lines, written = []\<rparr>"

text \<open>\<open>fopen\<close> truncates the file if it succeeds.\<close>

definition LoggerInit :: "bool \<Rightarrow> LogLevel \<Rightarrow> path \<Rightarrow> OutputMode \<Rightarrow> logger \<Rightarrow> int \<times> logger" where
  "LoggerInit fopen_ok level log_file_name mode s =
     (let s1 = s\<lparr>levelLogger := level, color_mode := mode\<rparr> in
      if mode = COLOR_MODE then (0, s1\<lparr>logFile := Some Stdout, written := []\<rparr>)
      else if fopen_ok then (0, s1\<lparr>logFile := Some (LogFile log_file_name), written := []\<rparr>)
      else (-1, s1\<lparr>logFile := None\<rparr>))"

definition LoggerDeinit :: "logger \<Rightarrow> logger" where
  "LoggerDeinit s = s\<lparr>logFile := None\<rparr>"

definition shouldLog :: "LogLevel \<Rightarrow> logger \<Rightarrow> bool" where
  "shouldLog level s = (levelLogger s \<le> level)"

section \<open>Colours\<close>

definition ESC :: char where "ESC = CHR 0x1B"
definition COLOR_RED :: string where "COLOR_RED = ESC # ''[31m''"
definition COLOR_YELLOW :: string where "COLOR_YELLOW = ESC # ''[33m''"
definition COLOR_GREEN :: string where "COLOR_GREEN = ESC # ''[32m''"
definition COLOR_CYAN :: string where "COLOR_CYAN = ESC # ''[36m''"
definition COLOR_RESET :: string where "COLOR_RESET = ESC # ''[0m''"

definition ColorLogMsg :: "LogLevel \<Rightarrow> logger \<Rightarrow> string" where
  "ColorLogMsg level s = (let colored = (color_mode s = COLOR_MODE) in
     case level of
       LOGL_DEBUG \<Rightarrow> if colored then COLOR_GREEN @ ''[DEBUG]'' @ COLOR_RESET else ''[DEBUG]''
     | LOGL_INFO \<Rightarrow> if colored then COLOR_CYAN @ ''[INFO]'' @ COLOR_RESET else ''[INFO]''
     | LOGL_WARN \<Rightarrow> if colored then COLOR_YELLOW @ ''[WARN]'' @ COLOR_RESET else ''[WARN]''
     | LOGL_ERROR \<Rightarrow> if colored then COLOR_RED @ ''[ERROR]'' @ COLOR_RESET else ''[ERROR]'')"

text \<open>
  The regular expression \<open>ESC [ [0-9;]* m\<close> at the start of a text: the length of the match.  \<open>regexec\<close> is the
  first position where it matches, as the start and the end of the match.
\<close>

definition code_char :: "char \<Rightarrow> bool" where
  "code_char c = (c \<in> set ''0123456789;'')"

definition match_here :: "string \<Rightarrow> nat option" where
  "match_here s = (case s of c1 # c2 # t \<Rightarrow>
       if c1 = ESC \<and> c2 = CHR ''['' then
         (case dropWhile code_char t of c # _ \<Rightarrow> if c = CHR ''m'' then Some (length (takeWhile code_char t) + 3) else None
          | [] \<Rightarrow> None)
       else None
     | _ \<Rightarrow> None)"

fun regexec :: "string \<Rightarrow> (nat \<times> nat) option" where
  "regexec s = (case match_here s of Some n \<Rightarrow> Some (0, n)
     | None \<Rightarrow> (case s of [] \<Rightarrow> None | _ # t \<Rightarrow> map_option (\<lambda>(so, eo). (Suc so, Suc eo)) (regexec t)))"

declare regexec.simps [simp del]

text \<open>\<open>memmove\<close> within one buffer.\<close>

definition memmove :: "nat \<Rightarrow> nat \<Rightarrow> nat \<Rightarrow> bytes \<Rightarrow> bytes" where
  "memmove dst src n b = take dst b @ take n (drop src b) @ drop (dst + n) b"

text \<open>
  The loop over the matches; \<open>src\<close> and \<open>dst\<close> are offsets into the buffer.  The fuel is the number of turns,
  \<open>None\<close> when it is used up.
\<close>

fun ansi_loop :: "nat \<Rightarrow> nat \<Rightarrow> nat \<Rightarrow> bytes \<Rightarrow> bytes option" where
  "ansi_loop 0 src dst b = None"
| "ansi_loop (Suc k) src dst b = (case regexec (cstr (drop src b)) of
     Some (so, eo) \<Rightarrow> ansi_loop k (src + eo) (dst + so) (memmove dst src so b)
   | None \<Rightarrow> Some (memmove dst src (length (cstr (drop src b)) + 1) b))"

definition RemoveAnsiCodes :: "bytes \<Rightarrow> bytes option" where
  "RemoveAnsiCodes b = ansi_loop (Suc (length b)) 0 0 b"

section \<open>Records\<close>

text \<open>\<open>fprintf\<close>: undefined, \<open>None\<close>, on a null file.\<close>

definition log_print :: "string \<Rightarrow> logger \<Rightarrow> logger option" where
  "log_print t s = (if logFile s = None then None else Some (s\<lparr>written := written s @ t\<rparr>))"

text \<open>\<open>vsnprintf\<close> into the cleared buffer.\<close>

definition fill_lines :: "string \<Rightarrow> bytes" where
  "fill_lines text = (let t = take (SIZE_BUFFER - 1) text in t @ replicate (SIZE_BUFFER - length t) NUL)"

definition log_header :: "string \<Rightarrow> LogLevel \<Rightarrow> string \<Rightarrow> nat \<Rightarrow> string \<Rightarrow> logger \<Rightarrow> string" where
  "log_header time_info level fl line func s =
     (if color_mode s = COLOR_MODE
      then COLOR_YELLOW @ ''['' @ time_info @ '']'' @ COLOR_RESET @ ColorLogMsg level s @
        COLOR_CYAN @ ''['' @ fl @ '':'' @ dec_nat line @ '':'' @ func @ '']: '' @ COLOR_RESET
      else ''['' @ time_info @ '']'' @ ColorLogMsg level s @ ''['' @ fl @ '':'' @ dec_nat line @ '':'' @ func @ '']: '')"

text \<open>\<open>text\<close> is the formatted message; without a file only the user is told.\<close>

definition log_begin :: "string \<Rightarrow> LogLevel \<Rightarrow> string \<Rightarrow> nat \<Rightarrow> string \<Rightarrow> string \<Rightarrow> logger \<Rightarrow> logger option" where
  "log_begin time_info level fl line func text s =
     (if logFile s = None then Some s
      else case (if color_mode s \<noteq> COLOR_MODE then RemoveAnsiCodes (fill_lines text) else Some (fill_lines text)) of
        None \<Rightarrow> None
      | Some b \<Rightarrow> log_print (log_header time_info level fl line func s) (s\<lparr>serv_lines := b\<rparr>))"

definition log_msg :: "log_copy \<Rightarrow> logger \<Rightarrow> logger option" where
  "log_msg c s = log_print (NL # cstr (serv_lines s) @ (if c = Task7 then [NL] else [])) s"

definition log_end :: "logger \<Rightarrow> logger" where
  "log_end s = s\<lparr>serv_lines := no_lines\<rparr>"

text \<open>The macro \<open>LOG\<close>: the level guards \<open>log_begin\<close> only; task 8 adds the newline to the format.\<close>

definition LOG :: "log_copy \<Rightarrow> string \<Rightarrow> LogLevel \<Rightarrow> string \<Rightarrow> nat \<Rightarrow> string \<Rightarrow> string \<Rightarrow> logger \<Rightarrow> logger option" where
  "LOG c time_info level fl line func text s =
     (case (if shouldLog level s then log_begin time_info level fl line func (text @ (if c = Task8 then [NL] else [])) s
            else Some s) of
        None \<Rightarrow> None
      | Some s1 \<Rightarrow> map_option log_end (log_msg c s1))"

section \<open>Threads that log\<close>

record log_entry =
  e_time :: string
  e_level :: LogLevel
  e_file :: string
  e_line :: nat
  e_func :: string
  e_text :: string

definition write_entry :: "log_copy \<Rightarrow> log_entry \<Rightarrow> logger \<Rightarrow> logger option" where
  "write_entry c e = LOG c (e_time e) (e_level e) (e_file e) (e_line e) (e_func e) (e_text e)"

text \<open>
  The macro is three calls, and the message waits in a static buffer between the first and the second; the state of a thread is the
  call it makes next, for the first of the entries it still has to write.
\<close>

datatype log_phase = At_Begin | At_Msg | At_End

record log_thread =
  todo :: "log_entry list"
  phase :: log_phase

text \<open>What each call appends, and for which thread: the header of an entry, or a line with what is in the buffer.\<close>

datatype log_piece = Header nat log_entry | Line nat string

record log_world =
  the_logger :: logger
  log_threads :: "log_thread list"
  pieces :: "log_piece list"

text \<open>
  One call of thread \<open>i\<close>, as a whole; \<open>None\<close> where it is undefined.  A thread that has nothing left to write does not take part.
\<close>

definition log_turn :: "log_copy \<Rightarrow> nat \<Rightarrow> log_world \<Rightarrow> log_world option" where
  "log_turn c i w =
     (if \<not> i < length (log_threads w) then Some w
      else case todo (log_threads w ! i) of
        [] \<Rightarrow> Some w
      | e # es \<Rightarrow> let s = the_logger w; go = (\<lambda>t. (log_threads w)[i := t]) in
         (case phase (log_threads w ! i) of
            At_Begin \<Rightarrow>
              if shouldLog (e_level e) s
              then map_option (\<lambda>s'. \<lparr>the_logger = s', log_threads = go \<lparr>todo = e # es, phase = At_Msg\<rparr>, pieces = pieces w @ [Header i e]\<rparr>)
                (log_begin (e_time e) (e_level e) (e_file e) (e_line e) (e_func e) (e_text e @ (if c = Task8 then [NL] else [])) s)
              else Some (w\<lparr>log_threads := go \<lparr>todo = e # es, phase = At_Msg\<rparr>\<rparr>)
          | At_Msg \<Rightarrow> map_option (\<lambda>s'. \<lparr>the_logger = s', log_threads = go \<lparr>todo = e # es, phase = At_End\<rparr>,
                pieces = pieces w @ [Line i (cstr (serv_lines s))]\<rparr>) (log_msg c s)
          | At_End \<Rightarrow> Some (w\<lparr>the_logger := log_end s, log_threads := go \<lparr>todo = es, phase = At_Begin\<rparr>\<rparr>)))"

text \<open>The threads in any order of their calls.\<close>

definition log_turns :: "log_copy \<Rightarrow> nat list \<Rightarrow> log_world \<Rightarrow> log_world option" where
  "log_turns c is = ofold (log_turn c) is"

text \<open>
  What the programs log with.  \<open>main\<close> opens the log first and returns 1 when it cannot be opened.
\<close>

record log_setup =
  ls_copy :: log_copy
  ls_level :: LogLevel
  ls_file :: path

definition log_start :: "log_setup \<Rightarrow> bool \<Rightarrow> log_entry list list \<Rightarrow> int + log_world" where
  "log_start p fopen_ok ts = (case LoggerInit fopen_ok (ls_level p) (ls_file p) DEFAULT_MODE initial_logger of (r, s) \<Rightarrow>
     if r \<noteq> 0 then Inl 1
     else Inr \<lparr>the_logger = s, log_threads = map (\<lambda>es. \<lparr>todo = es, phase = At_Begin\<rparr>) ts, pieces = []\<rparr>)"

definition backup_log :: log_setup where
  "backup_log = \<lparr>ls_copy = Task6, ls_level = LOGL_DEBUG, ls_file = ''debug.log''\<rparr>"

definition server_log :: log_setup where
  "server_log = \<lparr>ls_copy = Task7, ls_level = LOGL_INFO, ls_file = ''server.log''\<rparr>"

definition client_log :: log_setup where
  "client_log = \<lparr>ls_copy = Task7, ls_level = LOGL_INFO, ls_file = ''client.log''\<rparr>"

definition integral_server_log :: log_setup where
  "integral_server_log = \<lparr>ls_copy = Task8, ls_level = LOGL_DEBUG, ls_file = ''server.log''\<rparr>"

definition integral_client_log :: log_setup where
  "integral_client_log = \<lparr>ls_copy = Task8, ls_level = LOGL_DEBUG, ls_file = ''client.log''\<rparr>"

end
