(* ===== verification/Logger_Properties.thy ===== *)
theory Logger_Properties
  imports Logger
begin

text \<open>
  The logger: removing colours in place against a definition on strings, and what a record leaves in the
  output.
\<close>

section \<open>Removing colours\<close>

lemma match_here_range: "match_here s = Some n \<Longrightarrow> 0 < n \<and> n \<le> length s"
proof -
  assume "match_here s = Some n"
  then obtain c1 c2 t u where t: "s = c1 # c2 # t" "n = length (takeWhile code_char t) + 3" "dropWhile code_char t = CHR ''m'' # u"
    unfolding match_here_def by (simp split: list.splits if_splits)
  have "length (takeWhile code_char t) + length (dropWhile code_char t) = length t"
    by (metis length_append takeWhile_dropWhile_id)
  then show ?thesis using t by simp
qed

lemma match_here_Nil [simp]: "match_here [] = None"
  by (simp add: match_here_def)

text \<open>The reference: a text without the colour codes in it.\<close>

function without_codes :: "string \<Rightarrow> string" where
  "without_codes s = (case match_here s of Some n \<Rightarrow> without_codes (drop n s)
     | None \<Rightarrow> (case s of [] \<Rightarrow> [] | c # t \<Rightarrow> c # without_codes t))"
  by pat_completeness auto
termination
  by (relation "measure length") (auto dest: match_here_range)

declare without_codes.simps [simp del]

lemma regexec_range: "regexec s = Some (so, eo) \<Longrightarrow> so < eo \<and> eo \<le> length s"
proof (induction s arbitrary: so eo)
  case Nil
  then show ?case by (simp add: regexec.simps[of "[]"])
next
  case (Cons c s)
  then show ?case using match_here_range[of "c # s"]
    by (cases "match_here (c # s)") (auto simp: regexec.simps[of "c # s"])
qed

lemma without_codes_regexec:
  "without_codes s = (case regexec s of None \<Rightarrow> s | Some (so, eo) \<Rightarrow> take so s @ without_codes (drop eo s))"
proof (induction s)
  case Nil
  then show ?case by (simp add: regexec.simps[of "[]"] without_codes.simps[of "[]"])
next
  case (Cons c s)
  show ?case
  proof (cases "match_here (c # s)")
    case None
    then show ?thesis using Cons
      by (simp add: regexec.simps[of "c # s"] without_codes.simps[of "c # s"] split: option.splits)
  qed (simp add: regexec.simps[of "c # s"] without_codes.simps[of "c # s"])
qed

text \<open>Moving a piece of a buffer to its left.\<close>

lemma memmove_left:
  assumes "dst \<le> src" "src + n \<le> length b"
  shows "length (memmove dst src n b) = length b"
    "take (dst + n) (memmove dst src n b) = take dst b @ take n (drop src b)"
    "dst + n \<le> k \<Longrightarrow> drop k (memmove dst src n b) = drop k b"
  using assms by (simp_all add: memmove_def drop_append)

lemma cstr_split: "NUL \<in> set b \<Longrightarrow> \<exists>r. b = cstr b @ NUL # r"
  by (induction b) (auto simp: cstr_def)

lemma cstr_cut: "k \<le> length (cstr b) \<Longrightarrow> take k b = take k (cstr b) \<and> cstr (drop k b) = drop k (cstr b)"
proof (induction b arbitrary: k)
  case (Cons c b)
  then show ?case by (cases k; cases "c = NUL") (simp_all add: cstr_def)
qed (simp add: cstr_def)

lemma cstr_nonul_append: "nonul a \<Longrightarrow> cstr (a @ NUL # r) = a"
  unfolding cstr_def nonul_def by (intro takeWhile_stop) auto

lemma ansi_loop_result:
  assumes "dst \<le> src" "src \<le> length b" "NUL \<in> set (drop src b)" "nonul (take dst b)" "length b - src < k"
  shows "\<exists>b'. ansi_loop k src dst b = Some b' \<and> length b' = length b \<and>
    cstr b' = take dst b @ without_codes (cstr (drop src b)) \<and> NUL \<in> set b'"
  using assms
proof (induction k arbitrary: src dst b)
  case (Suc k)
  let ?s = "cstr (drop src b)"
  obtain r where r: "drop src b = ?s @ NUL # r" using cstr_split[OF Suc.prems(3)] by blast
  then have len: "length ?s + 1 + length r = length b - src" by (metis add.assoc length_append length_drop length_Cons Suc_eq_plus1 add.commute)
  show ?case
  proof (cases "regexec ?s")
    case None
    let ?b = "memmove dst src (length ?s + 1) b"
    have fits: "src + (length ?s + 1) \<le> length b" using len Suc.prems(2) by simp
    have piece: "take (length ?s + 1) (drop src b) = ?s @ [NUL]" by (subst r) simp
    have "?b = (take dst b @ ?s @ [NUL]) @ drop (dst + (length ?s + 1)) ?b"
      using memmove_left(2)[OF Suc.prems(1) fits] unfolding piece by (metis append_take_drop_id)
    then have "?b = (take dst b @ ?s) @ NUL # drop (dst + (length ?s + 1)) ?b" by simp
    moreover have "nonul (take dst b @ ?s)" using Suc.prems(4) by simp
    ultimately have "cstr ?b = take dst b @ ?s" "NUL \<in> set ?b"
      by (metis cstr_nonul_append, metis in_set_conv_decomp)
    then show ?thesis using None memmove_left(1)[OF Suc.prems(1) fits]
      by (simp add: without_codes_regexec[of ?s])
  next
    case (Some m)
    obtain so eo where m: "m = (so, eo)" by force
    let ?b = "memmove dst src so b"
    have range: "so < eo" "eo \<le> length ?s" using regexec_range Some m by blast+
    have fits: "src + so \<le> length b" using range len Suc.prems(2) by simp
    note mv = memmove_left[OF Suc.prems(1) fits]
    have rest: "drop (src + eo) ?b = drop (src + eo) b" by (rule mv(3)) (use range(1) Suc.prems(1) in simp)
    have front: "take (dst + so) ?b = take dst b @ take so ?s"
      using mv(2) cstr_cut[of so "drop src b"] range by simp
    have tail: "cstr (drop (src + eo) b) = drop eo ?s"
      using cstr_cut[of eo "drop src b"] range(2) by (simp add: add.commute)
    have "drop (src + eo) b = drop eo ?s @ NUL # r"
      by (metis add.commute append_eq_append_conv_if drop_append drop_drop r range(2) diff_is_0_eq drop0)
    then have "NUL \<in> set (drop (src + eo) ?b)" unfolding rest by simp
    moreover have "nonul (take (dst + so) ?b)" unfolding front using Suc.prems(4) by (auto intro: nonul_take)
    ultimately have "\<exists>b'. ansi_loop k (src + eo) (dst + so) ?b = Some b' \<and> length b' = length ?b \<and>
        cstr b' = take (dst + so) ?b @ without_codes (cstr (drop (src + eo) ?b)) \<and> NUL \<in> set b'"
      using range Suc.prems(1,2,5) len mv(1) by (intro Suc.IH) simp_all
    then show ?thesis using Some m mv(1) by (simp add: without_codes_regexec[of ?s] rest front tail)
  qed
qed simp

lemma regexec_no_escape: "ESC \<notin> set s \<Longrightarrow> regexec s = None"
proof (induction s)
  case (Cons c s)
  then have "match_here (c # s) = None" by (cases s) (auto simp: match_here_def)
  then show ?case using Cons by (simp add: regexec.simps[of "c # s"])
qed (simp add: regexec.simps[of "[]"])

lemma without_codes_plain: "ESC \<notin> set s \<Longrightarrow> without_codes s = s"
  by (simp add: without_codes_regexec[of s] regexec_no_escape)

text \<open>
  C23: Removing the colours in place, by moving the pieces between the codes to the left within the buffer,
  ends within one turn for each byte, keeps the size of the buffer and leaves in it the string without its
  colour codes; a string without escape characters is left as it is.
\<close>
theorem ansi_removed_in_place:
  assumes "NUL \<in> set b"
  shows "\<exists>b'. RemoveAnsiCodes b = Some b' \<and> length b' = length b \<and> cstr b' = without_codes (cstr b) \<and>
    (ESC \<notin> set (cstr b) \<longrightarrow> cstr b' = cstr b)"
proof -
  obtain b' where "RemoveAnsiCodes b = Some b'" "length b' = length b" "cstr b' = without_codes (cstr b)"
    using ansi_loop_result[of 0 0 b "Suc (length b)"] assms by (auto simp: RemoveAnsiCodes_def)
  then show ?thesis using without_codes_plain by auto
qed

theorem ansi_removed_in_place_witness:
  "\<exists>b'. RemoveAnsiCodes (ESC # ''[31mred'' @ ESC # ''[0m!'' @ [NUL]) = Some b' \<and> cstr b' = ''red!''"
proof -
  let ?b = "ESC # ''[31mred'' @ ESC # ''[0m!'' @ [NUL]"
  have "without_codes (cstr ?b) = ''red!''" by code_simp
  moreover have "NUL \<in> set ?b" by simp
  ultimately show ?thesis using ansi_removed_in_place[of ?b] by auto
qed

text \<open>One pass is not enough when removing a code makes a new one.\<close>

lemma ansi_code_can_remain: "without_codes (ESC # ESC # ''[0m[0m'') = ESC # ''[0m''"
  by code_simp

section \<open>A record\<close>

text \<open>What becomes of a message: cut to the buffer, and without colours in a file.\<close>

definition message :: "string \<Rightarrow> logger \<Rightarrow> string" where
  "message text s = (let t = take (SIZE_BUFFER - 1) text in if color_mode s = COLOR_MODE then t else without_codes t)"

lemma fill_lines_text: "nonul text \<Longrightarrow> cstr (fill_lines text) = take (SIZE_BUFFER - 1) text \<and> NUL \<in> set (fill_lines text)"
proof -
  assume t: "nonul text"
  let ?t = "take (SIZE_BUFFER - 1) text"
  have "SIZE_BUFFER - length ?t = Suc (SIZE_BUFFER - length ?t - 1)" by (simp add: SIZE_BUFFER_def)
  then have "fill_lines text = ?t @ NUL # replicate (SIZE_BUFFER - length ?t - 1) NUL"
    unfolding fill_lines_def Let_def by (metis replicate_Suc)
  then show ?thesis using cstr_nonul_append[OF nonul_take[OF t]] by simp
qed

lemma log_begin_result:
  assumes "logFile s \<noteq> None" "nonul text"
  shows "\<exists>b. log_begin time_info level fl line func text s =
      Some (s\<lparr>serv_lines := b, written := written s @ log_header time_info level fl line func s\<rparr>) \<and>
    cstr b = message text s"
proof -
  note fill = fill_lines_text[OF assms(2)]
  obtain b' where b': "RemoveAnsiCodes (fill_lines text) = Some b'" "cstr b' = without_codes (take (SIZE_BUFFER - 1) text)"
    using ansi_loop_result[of 0 0 "fill_lines text" "Suc (length (fill_lines text))"] fill
    by (auto simp: RemoveAnsiCodes_def)
  show ?thesis
    using assms(1) b' fill by (cases "color_mode s = COLOR_MODE") (auto simp: log_begin_def log_print_def message_def Let_def)
qed

lemma cstr_no_lines: "cstr no_lines = []"
  by (simp add: no_lines_def cstr_def)

text \<open>
  A record with an output open and the buffer clear: a message whose level is high enough
  appends its header, a new line and the message, cut to the buffer and in a file without colours; a message
  that is filtered out still appends the new line (two of them in the copy of task 7).  The buffer is
  clear again afterwards.  Without an output the same call is undefined, as it prints to a null file.
\<close>

lemma log_record:
  assumes "nonul text" "serv_lines s = no_lines"
  shows "(logFile s = None \<longrightarrow> LOG c time_info level fl line func text s = None) \<and>
    (logFile s \<noteq> None \<longrightarrow> LOG c time_info level fl line func text s =
       Some (s\<lparr>written := written s @
         (if levelLogger s \<le> level
          then log_header time_info level fl line func s @ NL # message (text @ (if c = Task8 then [NL] else [])) s
          else [NL]) @ (if c = Task7 then [NL] else [])\<rparr>))"
proof (rule conjI; rule impI)
  assume "logFile s = None"
  then show "LOG c time_info level fl line func text s = None"
    by (simp add: LOG_def log_begin_def log_msg_def log_print_def)
next
  assume open_file: "logFile s \<noteq> None"
  let ?text = "text @ (if c = Task8 then [NL] else [])"
  have "nonul ?text" using assms(1) by simp
  from log_begin_result[OF open_file this, of time_info level fl line func] obtain b where
    b: "log_begin time_info level fl line func ?text s =
      Some (s\<lparr>serv_lines := b, written := written s @ log_header time_info level fl line func s\<rparr>)" "cstr b = message ?text s"
    by blast
  have same: "s\<lparr>written := x, serv_lines := no_lines\<rparr> = s\<lparr>written := x\<rparr>" for x using assms(2) by (cases s) simp
  show "LOG c time_info level fl line func text s = Some (s\<lparr>written := written s @
      (if levelLogger s \<le> level
       then log_header time_info level fl line func s @ NL # message ?text s
       else [NL]) @ (if c = Task7 then [NL] else [])\<rparr>)"
  proof (cases "levelLogger s \<le> level")
    case True
    then show ?thesis using b open_file same by (simp add: LOG_def shouldLog_def log_msg_def log_print_def log_end_def)
  next
    case False
    then show ?thesis using open_file assms(2) same
      by (simp add: LOG_def shouldLog_def log_msg_def log_print_def log_end_def cstr_no_lines)
  qed
qed

section \<open>The log of several threads\<close>

text \<open>What an entry is made of, in a file.\<close>

definition entry_header :: "log_entry \<Rightarrow> string" where
  "entry_header e = ''['' @ e_time e @ '']'' @ (case e_level e of LOGL_DEBUG \<Rightarrow> ''[DEBUG]'' | LOGL_INFO \<Rightarrow> ''[INFO]'' | LOGL_WARN \<Rightarrow> ''[WARN]''
          | LOGL_ERROR \<Rightarrow> ''[ERROR]'') @ ''['' @ e_file e @ '':'' @ dec_nat (e_line e) @ '':'' @ e_func e @ '']: ''"

definition entry_message :: "log_copy \<Rightarrow> log_entry \<Rightarrow> string" where
  "entry_message c e = without_codes (take (SIZE_BUFFER - 1) (e_text e @ (if c = Task8 then [NL] else [])))"

definition line_text :: "log_copy \<Rightarrow> string \<Rightarrow> string" where
  "line_text c t = NL # t @ (if c = Task7 then [NL] else [])"

fun piece_text :: "log_copy \<Rightarrow> log_piece \<Rightarrow> string" where
  "piece_text c (Header i e) = entry_header e"
| "piece_text c (Line i t) = line_text c t"

definition entry_text :: "log_copy \<Rightarrow> LogLevel \<Rightarrow> log_entry \<Rightarrow> string" where
  "entry_text c level e = (if level \<le> e_level e then entry_header e @ line_text c (entry_message c e) else line_text c [])"

fun headers_of :: "nat \<Rightarrow> log_piece list \<Rightarrow> log_entry list" where
  "headers_of i [] = []"
| "headers_of i (Header j e # ps) = (if j = i then e # headers_of i ps else headers_of i ps)"
| "headers_of i (Line j t # ps) = headers_of i ps"

fun lines_of :: "nat \<Rightarrow> log_piece list \<Rightarrow> string list" where
  "lines_of i [] = []"
| "lines_of i (Line j t # ps) = (if j = i then t # lines_of i ps else lines_of i ps)"
| "lines_of i (Header j e # ps) = lines_of i ps"

text \<open>The message of the last header, if any: all that a line can hold.\<close>

fun last_message :: "log_copy \<Rightarrow> string \<Rightarrow> log_piece list \<Rightarrow> string" where
  "last_message c m [] = m"
| "last_message c m (Header i e # ps) = last_message c (entry_message c e) ps"
| "last_message c m (Line i t # ps) = last_message c m ps"

fun lines_fresh :: "log_copy \<Rightarrow> string \<Rightarrow> log_piece list \<Rightarrow> bool" where
  "lines_fresh c m [] = True"
| "lines_fresh c m (Header i e # ps) = lines_fresh c (entry_message c e) ps"
| "lines_fresh c m (Line i t # ps) = ((t = [] \<or> t = m) \<and> lines_fresh c m ps)"

lemma headers_of_append [simp]: "headers_of i (ps @ qs) = headers_of i ps @ headers_of i qs"
  by (induction i ps rule: headers_of.induct) simp_all

lemma lines_of_append [simp]: "lines_of i (ps @ qs) = lines_of i ps @ lines_of i qs"
  by (induction i ps rule: lines_of.induct) simp_all

lemma last_message_append [simp]: "last_message c m (ps @ qs) = last_message c (last_message c m ps) qs"
  by (induction c m ps rule: last_message.induct) simp_all

lemma lines_fresh_append [simp]: "lines_fresh c m (ps @ qs) \<longleftrightarrow> lines_fresh c m ps \<and> lines_fresh c (last_message c m ps) qs"
  by (induction c m ps rule: lines_fresh.induct) simp_all

text \<open>What is so after any calls.  Thread \<open>i\<close> has finished the first \<open>k\<close> of its entries.\<close>

definition thread_at :: "LogLevel \<Rightarrow> log_piece list \<Rightarrow> nat \<Rightarrow> log_entry list \<Rightarrow> log_thread \<Rightarrow> bool" where
  "thread_at level ps i es t \<longleftrightarrow> (\<exists>k. k \<le> length es \<and> todo t = drop k es \<and> (phase t \<noteq> At_Begin \<longrightarrow> k < length es) \<and>
     headers_of i ps = filter (\<lambda>e. level \<le> e_level e) (take (if phase t = At_Begin then k else Suc k) es) \<and>
     length (lines_of i ps) = (if phase t = At_End then Suc k else k))"

definition log_ok :: "log_setup \<Rightarrow> log_entry list list \<Rightarrow> log_world \<Rightarrow> bool" where
  "log_ok p ts w \<longleftrightarrow> levelLogger (the_logger w) = ls_level p \<and> color_mode (the_logger w) = DEFAULT_MODE \<and>
     logFile (the_logger w) \<noteq> None \<and> length (log_threads w) = length ts \<and>
     written (the_logger w) = concat (map (piece_text (ls_copy p)) (pieces w)) \<and>
     (cstr (serv_lines (the_logger w)) = [] \<or> cstr (serv_lines (the_logger w)) = last_message (ls_copy p) [] (pieces w)) \<and>
     lines_fresh (ls_copy p) [] (pieces w) \<and>
     (\<forall>i<length ts. thread_at (ls_level p) (pieces w) i (ts ! i) (log_threads w ! i))"

lemma header_file: "color_mode s = DEFAULT_MODE \<Longrightarrow>
    log_header (e_time e) (e_level e) (e_file e) (e_line e) (e_func e) s = entry_header e"
  by (cases "e_level e") (simp_all add: log_header_def ColorLogMsg_def entry_header_def)

lemma begin_entry:
  assumes "logFile s \<noteq> None" "color_mode s = DEFAULT_MODE" "nonul (e_text e)"
  shows "\<exists>b. log_begin (e_time e) (e_level e) (e_file e) (e_line e) (e_func e) (e_text e @ (if c = Task8 then [NL] else [])) s =
      Some (s\<lparr>serv_lines := b, written := written s @ entry_header e\<rparr>) \<and> cstr b = entry_message c e"
proof -
  have "nonul (e_text e @ (if c = Task8 then [NL] else []))" using assms(3) by simp
  from log_begin_result[OF assms(1) this, of "e_time e" "e_level e" "e_file e" "e_line e" "e_func e"]
  show ?thesis unfolding header_file[OF assms(2)] using assms(2) by (simp add: entry_message_def message_def Let_def)
qed

text \<open>The other threads do not see a piece of thread \<open>i\<close>.\<close>

lemma thread_at_other:
  assumes "thread_at l ps j es t" "headers_of j qs = []" "lines_of j qs = []"
  shows "thread_at l (ps @ qs) j es t"
  using assms by (simp add: thread_at_def)

lemma log_turn_ok:
  assumes "log_ok p ts w" "\<forall>es\<in>set ts. \<forall>e\<in>set es. nonul (e_text e)"
  shows "\<exists>w'. log_turn (ls_copy p) i w = Some w' \<and> log_ok p ts w'"
proof (cases "i < length ts \<and> todo (log_threads w ! i) \<noteq> []")
  case False
  then have "log_turn (ls_copy p) i w = Some w" using assms(1) by (auto simp: log_turn_def log_ok_def)
  then show ?thesis using assms(1) by simp
next
  case True
  let ?s = "the_logger w" and ?t = "log_threads w ! i" and ?c = "ls_copy p" and ?es = "ts ! i"
  note W = assms(1)[unfolded log_ok_def]
  have i: "i < length (log_threads w)" using True W by simp
  have "thread_at (ls_level p) (pieces w) i ?es ?t" using True W by blast
  then obtain k where k: "todo ?t = drop k ?es"
    "headers_of i (pieces w) = filter (\<lambda>e. ls_level p \<le> e_level e) (take (if phase ?t = At_Begin then k else Suc k) ?es)"
    "length (lines_of i (pieces w)) = (if phase ?t = At_End then Suc k else k)" by (auto simp: thread_at_def)
  have kl: "k < length ?es" using True k(1) by (metis drop_all not_le)
  let ?e = "?es ! k"
  have td: "todo ?t = ?e # drop (Suc k) ?es" using k(1) kl by (simp add: Cons_nth_drop_Suc)
  have tk: "take (Suc k) ?es = take k ?es @ [?e]" using kl by (rule take_Suc_conv_app_nth)
  have nn: "nonul (e_text ?e)" using assms(2) True kl by (meson nth_mem)
  have others: "log_ok p ts w'"
    if "log_threads w' = (log_threads w)[i := t']" "pieces w' = pieces w @ qs" "thread_at (ls_level p) (pieces w @ qs) i ?es t'"
      "\<And>j. j \<noteq> i \<Longrightarrow> headers_of j qs = [] \<and> lines_of j qs = []"
      "levelLogger (the_logger w') = levelLogger ?s" "color_mode (the_logger w') = color_mode ?s" "logFile (the_logger w') = logFile ?s"
      "written (the_logger w') = written ?s @ concat (map (piece_text ?c) qs)"
      "cstr (serv_lines (the_logger w')) = [] \<or> cstr (serv_lines (the_logger w')) = last_message ?c [] (pieces w @ qs)"
      "lines_fresh ?c (last_message ?c [] (pieces w)) qs" for w' t' qs
  proof -
    have "thread_at (ls_level p) (pieces w') j (ts ! j) (log_threads w' ! j)" if j: "j < length ts" for j
    proof (cases "j = i")
      case True
      then show ?thesis using that i by (simp add: \<open>log_threads w' = _\<close> \<open>pieces w' = _\<close>)
         (use \<open>thread_at (ls_level p) (pieces w @ qs) i ?es t'\<close> in simp)
    next
      case False
      then show ?thesis using W j \<open>log_threads w' = _\<close> \<open>pieces w' = _\<close> \<open>\<And>j. j \<noteq> i \<Longrightarrow> _\<close>[OF False]
        by (simp add: thread_at_other)
    qed
    with W that(1,2,5-10) show ?thesis unfolding log_ok_def by simp
  qed
  show ?thesis
  proof (cases "phase ?t")
    case At_Begin
    show ?thesis
    proof (cases "ls_level p \<le> e_level ?e")
      case True
      obtain b where b: "log_begin (e_time ?e) (e_level ?e) (e_file ?e) (e_line ?e) (e_func ?e)
          (e_text ?e @ (if ?c = Task8 then [NL] else [])) ?s = Some (?s\<lparr>serv_lines := b, written := written ?s @ entry_header ?e\<rparr>)"
        "cstr b = entry_message ?c ?e" using begin_entry[OF _ _ nn, of ?s ?c] W by blast
      let ?w = "\<lparr>the_logger = ?s\<lparr>serv_lines := b, written := written ?s @ entry_header ?e\<rparr>,
        log_threads = (log_threads w)[i := \<lparr>todo = ?e # drop (Suc k) ?es, phase = At_Msg\<rparr>], pieces = pieces w @ [Header i ?e]\<rparr>"
      have "log_turn ?c i w = Some ?w" using b(1) td At_Begin True i W by (simp add: log_turn_def Let_def shouldLog_def)
      moreover have "log_ok p ts ?w"
      proof (rule others[where qs = "[Header i ?e]"])
        show "thread_at (ls_level p) (pieces w @ [Header i ?e]) i ?es \<lparr>todo = ?e # drop (Suc k) ?es, phase = At_Msg\<rparr>"
          using k(2,3) At_Begin True kl td k(1) tk unfolding thread_at_def by (intro exI[of _ k]) simp
      qed (use b(2) in simp_all)
      ultimately show ?thesis by blast
    next
      case False
      let ?w = "w\<lparr>log_threads := (log_threads w)[i := \<lparr>todo = ?e # drop (Suc k) ?es, phase = At_Msg\<rparr>]\<rparr>"
      have "log_turn ?c i w = Some ?w" using td At_Begin False i W by (simp add: log_turn_def Let_def shouldLog_def)
      moreover have "log_ok p ts ?w"
      proof (rule others[where qs = "[]"])
        show "thread_at (ls_level p) (pieces w @ []) i ?es \<lparr>todo = ?e # drop (Suc k) ?es, phase = At_Msg\<rparr>"
          using k(2,3) At_Begin False kl td k(1) tk unfolding thread_at_def by (intro exI[of _ k]) simp
      qed (use W in simp_all)
      ultimately show ?thesis by blast
    qed
  next
    case At_Msg
    let ?w = "\<lparr>the_logger = ?s\<lparr>written := written ?s @ line_text ?c (cstr (serv_lines ?s))\<rparr>,
      log_threads = (log_threads w)[i := \<lparr>todo = ?e # drop (Suc k) ?es, phase = At_End\<rparr>], pieces = pieces w @ [Line i (cstr (serv_lines ?s))]\<rparr>"
    have "log_turn ?c i w = Some ?w" using td At_Msg i W by (simp add: log_turn_def Let_def log_msg_def log_print_def line_text_def)
    moreover have "log_ok p ts ?w"
    proof (rule others[where qs = "[Line i (cstr (serv_lines ?s))]"])
      show "thread_at (ls_level p) (pieces w @ [Line i (cstr (serv_lines ?s))]) i ?es \<lparr>todo = ?e # drop (Suc k) ?es, phase = At_End\<rparr>"
        using k(2,3) At_Msg kl td k(1) unfolding thread_at_def by (intro exI[of _ k]) simp
    qed (use W in simp_all)
    ultimately show ?thesis by blast
  next
    case At_End
    let ?w = "w\<lparr>the_logger := log_end ?s, log_threads := (log_threads w)[i := \<lparr>todo = drop (Suc k) ?es, phase = At_Begin\<rparr>]\<rparr>"
    have "log_turn ?c i w = Some ?w" using td At_End i by (simp add: log_turn_def Let_def)
    moreover have "log_ok p ts ?w"
    proof (rule others[where qs = "[]"])
      show "thread_at (ls_level p) (pieces w @ []) i ?es \<lparr>todo = drop (Suc k) ?es, phase = At_Begin\<rparr>"
        using k(2,3) At_End kl unfolding thread_at_def by (intro exI[of _ "Suc k"]) simp
    qed (simp_all add: log_end_def cstr_no_lines)
    ultimately show ?thesis by blast
  qed
qed

lemma log_turns_ok:
  "log_ok p ts w \<Longrightarrow> \<forall>es\<in>set ts. \<forall>e\<in>set es. nonul (e_text e) \<Longrightarrow>
    \<exists>w'. log_turns (ls_copy p) is w = Some w' \<and> log_ok p ts w'"
proof (induction "is" arbitrary: w)
  case (Cons i "is")
  then obtain v where v: "log_turn (ls_copy p) i w = Some v" "log_ok p ts v" using log_turn_ok by blast
  from Cons.IH[OF v(2) Cons.prems(2)] v(1) show ?case by (simp add: log_turns_def)
qed (simp add: log_turns_def)

lemma log_start_result:
  "log_start p True ts = Inr \<lparr>the_logger = initial_logger\<lparr>levelLogger := ls_level p, logFile := Some (LogFile (ls_file p))\<rparr>,
     log_threads = map (\<lambda>es. \<lparr>todo = es, phase = At_Begin\<rparr>) ts, pieces = []\<rparr>"
  by (simp add: log_start_def LoggerInit_def initial_logger_def Let_def)

lemma log_start_ok: "log_start p True ts = Inr w \<Longrightarrow> log_ok p ts w"
  by (auto simp: log_start_result log_ok_def thread_at_def initial_logger_def cstr_no_lines intro: exI[of _ 0])

text \<open>Entries that are written one after the other, and the order in which the threads of \<open>is\<close> write theirs.\<close>

fun in_order :: "nat list \<Rightarrow> log_entry list list \<Rightarrow> log_entry list" where
  "in_order [] ts = []"
| "in_order (i # is) ts = (if i < length ts \<and> ts ! i \<noteq> [] then hd (ts ! i) # in_order is (ts[i := tl (ts ! i)]) else in_order is ts)"

lemma log_three_turns:
  assumes "logFile (the_logger w) \<noteq> None" "color_mode (the_logger w) = DEFAULT_MODE" "serv_lines (the_logger w) = no_lines"
    and "i < length (log_threads w)" "log_threads w ! i = \<lparr>todo = e # es, phase = At_Begin\<rparr>" "nonul (e_text e)"
  shows "\<exists>w'. log_turns c [i, i, i] w = Some w' \<and> log_threads w' = (log_threads w)[i := \<lparr>todo = es, phase = At_Begin\<rparr>] \<and>
    the_logger w' = (the_logger w)\<lparr>written := written (the_logger w) @ entry_text c (levelLogger (the_logger w)) e\<rparr>"
proof (cases "levelLogger (the_logger w) \<le> e_level e")
  case True
  obtain b where b: "log_begin (e_time e) (e_level e) (e_file e) (e_line e) (e_func e) (e_text e @ (if c = Task8 then [NL] else [])) (the_logger w) =
      Some ((the_logger w)\<lparr>serv_lines := b, written := written (the_logger w) @ entry_header e\<rparr>)" "cstr b = entry_message c e"
    using begin_entry[OF assms(1,2,6)] by blast
  have same: "(the_logger w)\<lparr>written := x, serv_lines := no_lines\<rparr> = (the_logger w)\<lparr>written := x\<rparr>" for x
    using assms(3) by (cases "the_logger w") simp
  show ?thesis using assms(1,4,5) True b same
    by (simp add: log_turns_def log_turn_def Let_def shouldLog_def log_msg_def log_print_def log_end_def entry_text_def line_text_def)
next
  case False
  have same: "(the_logger w)\<lparr>written := x, serv_lines := no_lines\<rparr> = (the_logger w)\<lparr>written := x\<rparr>" for x
    using assms(3) by (cases "the_logger w") simp
  show ?thesis using assms(1,3,4,5) False same
    by (simp add: log_turns_def log_turn_def Let_def shouldLog_def log_msg_def log_print_def log_end_def entry_text_def line_text_def cstr_no_lines)
qed

text \<open>The three turns are the macro.\<close>

lemma write_entry_result:
  assumes "nonul (e_text e)" "serv_lines s = no_lines" "logFile s \<noteq> None" "color_mode s = DEFAULT_MODE"
  shows "write_entry c e s = Some (s\<lparr>written := written s @ entry_text c (levelLogger s) e\<rparr>)"
  using log_record[OF assms(1,2), of c "e_time e" "e_level e" "e_file e" "e_line e" "e_func e"] assms(3,4) header_file[OF assms(4)]
  by (simp add: write_entry_def entry_text_def line_text_def entry_message_def message_def Let_def)

corollary log_turns_are_LOG:
  assumes "logFile (the_logger w) \<noteq> None" "color_mode (the_logger w) = DEFAULT_MODE" "serv_lines (the_logger w) = no_lines"
    and "i < length (log_threads w)" "log_threads w ! i = \<lparr>todo = e # es, phase = At_Begin\<rparr>" "nonul (e_text e)"
  shows "\<exists>w'. log_turns c [i, i, i] w = Some w' \<and> write_entry c e (the_logger w) = Some (the_logger w')"
proof -
  obtain w' where "log_turns c [i, i, i] w = Some w'"
    "the_logger w' = (the_logger w)\<lparr>written := written (the_logger w) @ entry_text c (levelLogger (the_logger w)) e\<rparr>"
    using log_three_turns[OF assms] by blast
  with write_entry_result[OF assms(6,3,1,2), of c] show ?thesis by (intro exI[of _ w']) simp
qed

lemma log_uninterrupted:
  assumes "logFile (the_logger w) \<noteq> None" "color_mode (the_logger w) = DEFAULT_MODE" "serv_lines (the_logger w) = no_lines"
    and "log_threads w = map (\<lambda>es. \<lparr>todo = es, phase = At_Begin\<rparr>) ts" "\<forall>es\<in>set ts. \<forall>e\<in>set es. nonul (e_text e)"
  shows "\<exists>w'. log_turns c (concat (map (\<lambda>i. [i, i, i]) is)) w = Some w' \<and>
    written (the_logger w') = written (the_logger w) @ concat (map (entry_text c (levelLogger (the_logger w))) (in_order is ts))"
  using assms
proof (induction "is" arbitrary: w ts)
  case Nil
  then show ?case by (simp add: log_turns_def)
next
  case (Cons i "is")
  show ?case
  proof (cases "i < length ts \<and> ts ! i \<noteq> []")
    case True
    then obtain e es where e: "ts ! i = e # es" by (cases "ts ! i") auto
    have "nonul (e_text e)" using Cons.prems(5) True e by (metis list.set_intros(1) nth_mem)
    with log_three_turns[OF Cons.prems(1-3), of i e es c] True Cons.prems(4) e obtain v where
      v: "log_turns c [i, i, i] w = Some v" "log_threads v = (log_threads w)[i := \<lparr>todo = es, phase = At_Begin\<rparr>]"
        "the_logger v = (the_logger w)\<lparr>written := written (the_logger w) @ entry_text c (levelLogger (the_logger w)) e\<rparr>" by auto
    have "log_threads v = map (\<lambda>es. \<lparr>todo = es, phase = At_Begin\<rparr>) (ts[i := es])" using v(2) Cons.prems(4) by (simp add: map_update)
    moreover have "\<forall>es\<in>set (ts[i := es]). \<forall>e\<in>set es. nonul (e_text e)"
      using Cons.prems(5) True e by (fastforce dest: set_update_subset_insert[THEN subsetD] nth_mem)
    ultimately obtain w' where "log_turns c (concat (map (\<lambda>i. [i, i, i]) is)) v = Some w'"
      "written (the_logger w') = written (the_logger v) @ concat (map (entry_text c (levelLogger (the_logger v))) (in_order is (ts[i := es])))"
      using Cons.IH[of v "ts[i := es]"] Cons.prems v(3) by auto
    with v True e show ?thesis by (auto simp: log_turns_def split: option.splits)
  next
    case False
    then have "log_turn c i w = Some w" using Cons.prems(4) by (auto simp: log_turn_def)
    then have "log_turns c (concat (map (\<lambda>i. [i, i, i]) (i # is))) w = log_turns c (concat (map (\<lambda>i. [i, i, i]) is)) w"
      by (simp add: log_turns_def)
    with Cons.IH[OF Cons.prems] False show ?thesis by auto
  qed
qed

text \<open>
  C22: The log of a program whose threads share it, where each of the three calls of a record is made as a whole.  In any order of
  the calls none is undefined while the log is open, and the file holds their pieces: for each thread the headers of its records of at least the set level, in its
  order and none lost, and one line for each record.  A line holds the message, without colour codes and cut to the buffer, of the last header before it, or nothing: messages of
  other threads' records can be lost or appear twice.  When no record is interrupted each header is followed by its own message.
  If the log cannot be opened the program ends with 1.
\<close>

theorem threads_log:
  assumes "\<forall>es\<in>set ts. \<forall>e\<in>set es. nonul (e_text e)"
  shows "log_start p False ts = Inl 1 \<and>
    (\<exists>w0 w. log_start p True ts = Inr w0 \<and> log_turns (ls_copy p) is w0 = Some w \<and>
      written (the_logger w) = concat (map (piece_text (ls_copy p)) (pieces w)) \<and> lines_fresh (ls_copy p) [] (pieces w) \<and>
      (\<forall>i<length ts. \<exists>k\<le>length (ts ! i). todo (log_threads w ! i) = drop k (ts ! i) \<and>
        headers_of i (pieces w) = filter (\<lambda>e. ls_level p \<le> e_level e) (take (if phase (log_threads w ! i) = At_Begin then k else Suc k) (ts ! i)) \<and>
        length (lines_of i (pieces w)) = (if phase (log_threads w ! i) = At_End then Suc k else k)) \<and>
      (\<forall>js. is = concat (map (\<lambda>i. [i, i, i]) js) \<longrightarrow>
        written (the_logger w) = concat (map (entry_text (ls_copy p) (ls_level p)) (in_order js ts))))"
proof -
  obtain w0 where w0: "log_start p True ts = Inr w0" by (simp add: log_start_result)
  obtain w where w: "log_turns (ls_copy p) is w0 = Some w" "log_ok p ts w"
    using log_turns_ok[OF log_start_ok[OF w0] assms] by blast
  have "written (the_logger w) = concat (map (entry_text (ls_copy p) (ls_level p)) (in_order js ts))"
    if "is = concat (map (\<lambda>i. [i, i, i]) js)" for js
  proof -
    have f: "the_logger w0 = initial_logger\<lparr>levelLogger := ls_level p, logFile := Some (LogFile (ls_file p))\<rparr>"
      "log_threads w0 = map (\<lambda>es. \<lparr>todo = es, phase = At_Begin\<rparr>) ts" using w0 by (auto simp: log_start_result)
    from log_uninterrupted[of w0 ts "ls_copy p" js, OF _ _ _ f(2) assms] w(1) that show ?thesis
      by (simp add: f(1) initial_logger_def)
  qed
  moreover have "log_start p False ts = Inl 1" by (simp add: log_start_def LoggerInit_def Let_def)
  ultimately show ?thesis using w0 w unfolding log_ok_def thread_at_def by blast
qed

text \<open>The server's log of task 7 with a message it filters out.\<close>

theorem threads_log_witness:
  "\<exists>w0 w. log_start server_log True [[\<lparr>e_time = ''now'', e_level = LOGL_DEBUG, e_file = ''server.c'', e_line = 7,
      e_func = ''main'', e_text = ''hello''\<rparr>]] = Inr w0 \<and> log_turns Task7 [0, 0, 0] w0 = Some w \<and> written (the_logger w) = [NL, NL]"
proof -
  let ?e = "\<lparr>e_time = ''now'', e_level = LOGL_DEBUG, e_file = ''server.c'', e_line = 7, e_func = ''main'', e_text = ''hello''\<rparr>"
  have n: "\<forall>es\<in>set [[?e]]. \<forall>e\<in>set es. nonul (e_text e)" by simp
  have t: "concat (map (entry_text (ls_copy server_log) (ls_level server_log)) (in_order [0] [[?e]])) = [NL, NL]"
    by (simp add: server_log_def entry_text_def line_text_def less_eq_LogLevel_def)
  from threads_log[OF n, of server_log "[0, 0, 0]"] obtain w0 w where
    w: "log_start server_log True [[?e]] = Inr w0" "log_turns (ls_copy server_log) [0, 0, 0] w0 = Some w"
      "\<forall>js. [0, 0, 0] = concat (map (\<lambda>i. [i, i, i]) js) \<longrightarrow>
        written (the_logger w) = concat (map (entry_text (ls_copy server_log) (ls_level server_log)) (in_order js [[?e]]))"
    by blast
  from w(3)[rule_format, of "[0]"] t have "written (the_logger w) = [NL, NL]" by simp
  with w(1,2) show ?thesis by (intro exI[of _ w0] exI[of _ w]) (simp add: server_log_def)
qed

text \<open>
  The buffer of the message is shared: when two threads log at the same time, one message can be lost
  behind the header of the other.
\<close>

lemma log_records_mixed:
  assumes "nonul text" "nonul text'" "serv_lines s = no_lines" "logFile s \<noteq> None"
  shows "\<exists>s1 s2 s3. log_begin t l f n g text s = Some s1 \<and> log_begin t' l' f' n' g' text' s1 = Some s2 \<and> log_msg Task7 s2 = Some s3 \<and>
    map_option written (log_msg Task7 (log_end s3)) = Some (written s @ log_header t l f n g s @ log_header t' l' f' n' g' s @
      NL # message text' s @ [NL, NL, NL])"
proof -
  from log_begin_result[OF assms(4,1), of t l f n g] obtain b where
    b: "log_begin t l f n g text s = Some (s\<lparr>serv_lines := b, written := written s @ log_header t l f n g s\<rparr>)" by blast
  let ?s1 = "s\<lparr>serv_lines := b, written := written s @ log_header t l f n g s\<rparr>"
  have "logFile ?s1 \<noteq> None" using assms(4) by simp
  from log_begin_result[OF this assms(2), of t' l' f' n' g'] obtain b' where
    b': "log_begin t' l' f' n' g' text' ?s1 = Some (?s1\<lparr>serv_lines := b', written := written ?s1 @ log_header t' l' f' n' g' ?s1\<rparr>)"
      "cstr b' = message text' ?s1" by blast
  have h: "log_header t' l' f' n' g' ?s1 = log_header t' l' f' n' g' s" "message text' ?s1 = message text' s"
    by (simp_all add: log_header_def ColorLogMsg_def message_def)
  show ?thesis using b b' h assms(4) by (simp add: log_msg_def log_print_def log_end_def cstr_no_lines)
qed

end
