(* ===== verification/Producer_Consumer.thy ===== *)
theory Producer_Consumer
  imports Bounded_Runs
begin

text \<open>
  src/sem\_4/examples/producer-cons.c: two producers and four consumers over a counter of items, one mutex,
  two condition variables and a flag that the main thread or a SIGINT handler clears.  The flag and the
  counter are also read without the mutex; each such read is a step of its own.
\<close>

section \<open>State\<close>

definition K_PRODUCERS :: nat where "K_PRODUCERS = 2"
definition N_CONSUMERS :: nat where "N_CONSUMERS = 4"
definition ITEMS_SIZE :: int where "ITEMS_SIZE = 5"
definition MAX_ITEMS_PER_PRODUCER :: nat where "MAX_ITEMS_PER_PRODUCER = 100000"

text \<open>
  Where a producer is, with its \<open>count\<close>: \<open>P_Wait\<close> sleeps in \<open>pthread_cond_wait\<close>, \<open>P_Woken\<close> is to take the
  mutex again there.
\<close>

datatype prod_pc = P_New | P_Test nat | P_Lock nat | P_Loop nat | P_Wait nat | P_Woken nat | P_Decide nat
  | P_Put nat | P_Signal nat | P_Unlock nat | P_Quit nat | P_Done nat

datatype cons_pc = C_New | C_Test | C_Test_Buffer | C_Lock | C_Loop | C_Wait | C_Woken | C_Take | C_Signal
  | C_Unlock | C_Done

datatype pc_main = M_CreateP nat | M_Handler | M_CreateC nat | M_JoinP nat | M_Stop | M_JoinC nat | M_Exit | M_Done

text \<open>The threads, and how far a SIGINT handler that runs on one of them is.\<close>

datatype tid = Prod nat | Cons nat | Main

datatype handler_pc = H_Flag | H_Lock | H_Produce | H_Consume | H_Unlock

record pc_world =
  buffer :: int
  running :: bool
  items_produced :: int
  items_consumed :: int
  mutex :: "tid option"
  producers :: "prod_pc list"
  consumers :: "cons_pc list"
  main_pc :: pc_main
  handlers :: "tid \<Rightarrow> handler_pc option"

definition pc_start :: pc_world where
  "pc_start = \<lparr>buffer = 0, running = True, items_produced = 0, items_consumed = 0, mutex = None,
     producers = replicate K_PRODUCERS P_New, consumers = replicate N_CONSUMERS C_New,
     main_pc = M_CreateP 0, handlers = Map.empty\<rparr>"

definition set_p :: "nat \<Rightarrow> prod_pc \<Rightarrow> pc_world \<Rightarrow> pc_world" where
  "set_p i p w = w\<lparr>producers := (producers w)[i := p]\<rparr>"

definition set_c :: "nat \<Rightarrow> cons_pc \<Rightarrow> pc_world \<Rightarrow> pc_world" where
  "set_c j c w = w\<lparr>consumers := (consumers w)[j := c]\<rparr>"

section \<open>A producer and a consumer\<close>

text \<open>\<open>None\<close>: the thread is blocked, has ended, or is at the \<open>pthread_cond_signal\<close> below.\<close>

fun producer :: "nat \<Rightarrow> prod_pc \<Rightarrow> pc_world \<Rightarrow> pc_world option" where
  "producer i (P_Test n) w =
     Some (set_p i (if running w \<and> n < MAX_ITEMS_PER_PRODUCER then P_Lock n else P_Done n) w)"
| "producer i (P_Lock n) w =
     (if mutex w = None then Some (set_p i (P_Loop n) (w\<lparr>mutex := Some (Prod i)\<rparr>)) else None)"
| "producer i (P_Woken n) w =
     (if mutex w = None then Some (set_p i (P_Loop n) (w\<lparr>mutex := Some (Prod i)\<rparr>)) else None)"
| "producer i (P_Loop n) w =
     (if ITEMS_SIZE \<le> buffer w \<and> running w then Some (set_p i (P_Wait n) (w\<lparr>mutex := None\<rparr>))
      else Some (set_p i (P_Decide n) w))"
| "producer i (P_Decide n) w = Some (set_p i (if \<not> running w then P_Quit n else P_Put n) w)"
| "producer i (P_Put n) w =
     Some (set_p i (P_Signal (Suc n)) (w\<lparr>buffer := buffer w + 1, items_produced := items_produced w + 1\<rparr>))"
| "producer i (P_Unlock n) w = Some (set_p i (P_Test n) (w\<lparr>mutex := None\<rparr>))"
| "producer i (P_Quit n) w = Some (set_p i (P_Done n) (w\<lparr>mutex := None\<rparr>))"
| "producer i _ w = None"

fun consumer :: "nat \<Rightarrow> cons_pc \<Rightarrow> pc_world \<Rightarrow> pc_world option" where
  "consumer j C_Test w = Some (set_c j (if running w then C_Lock else C_Test_Buffer) w)"
| "consumer j C_Test_Buffer w = Some (set_c j (if 0 < buffer w then C_Lock else C_Done) w)"
| "consumer j C_Lock w =
     (if mutex w = None then Some (set_c j C_Loop (w\<lparr>mutex := Some (Cons j)\<rparr>)) else None)"
| "consumer j C_Woken w =
     (if mutex w = None then Some (set_c j C_Loop (w\<lparr>mutex := Some (Cons j)\<rparr>)) else None)"
| "consumer j C_Loop w =
     (if buffer w = 0 \<and> running w then Some (set_c j C_Wait (w\<lparr>mutex := None\<rparr>)) else Some (set_c j C_Take w))"
| "consumer j C_Take w =
     (if 0 < buffer w
      then Some (set_c j C_Signal (w\<lparr>buffer := buffer w - 1, items_consumed := items_consumed w + 1\<rparr>))
      else Some (set_c j C_Unlock w))"
| "consumer j C_Unlock w = Some (set_c j C_Test (w\<lparr>mutex := None\<rparr>))"
| "consumer j _ w = None"

fun p_done :: "prod_pc \<Rightarrow> bool" where "p_done (P_Done n) = True" | "p_done _ = False"

section \<open>The main thread\<close>

text \<open>
  \<open>main\<close> when its calls succeed; a thread it cannot create ends the process with 1 (\<open>M_Exit\<close>).
\<close>

fun main_thread :: "pc_main \<Rightarrow> pc_world \<Rightarrow> pc_world option" where
  "main_thread (M_CreateP k) w = Some ((set_p k (P_Test 0) w)\<lparr>main_pc :=
     (if Suc k < K_PRODUCERS then M_CreateP (Suc k) else M_Handler)\<rparr>)"
| "main_thread M_Handler w = Some (w\<lparr>main_pc := M_CreateC 0\<rparr>)"
| "main_thread (M_CreateC k) w = Some ((set_c k C_Test w)\<lparr>main_pc :=
     (if Suc k < N_CONSUMERS then M_CreateC (Suc k) else M_JoinP 0)\<rparr>)"
| "main_thread (M_JoinP k) w = (if p_done (producers w ! k)
     then Some (w\<lparr>main_pc := (if Suc k < K_PRODUCERS then M_JoinP (Suc k) else M_Stop)\<rparr>) else None)"
| "main_thread M_Stop w = Some (w\<lparr>running := False, main_pc := M_JoinC 0\<rparr>)"
| "main_thread (M_JoinC k) w = (if consumers w ! k = C_Done
     then Some (w\<lparr>main_pc := (if Suc k < N_CONSUMERS then M_JoinC (Suc k) else M_Done)\<rparr>) else None)"
| "main_thread _ w = None"

fun creating :: "pc_main \<Rightarrow> bool" where
  "creating (M_CreateP k) = True" | "creating (M_CreateC k) = True" | "creating _ = False"

section \<open>Steps\<close>

text \<open>A thread runs while the process exists and no handler has interrupted it.\<close>

definition alive :: "pc_world \<Rightarrow> bool" where
  "alive w \<longleftrightarrow> main_pc w \<noteq> M_Exit \<and> main_pc w \<noteq> M_Done"

definition free :: "tid \<Rightarrow> pc_world \<Rightarrow> bool" where
  "free t w \<longleftrightarrow> alive w \<and> handlers w t = None"

text \<open>
  The threads without signals.  \<open>pthread_cond_signal\<close> wakes one of the threads that wait, if there is one.
\<close>

inductive pc_thread :: "pc_world \<Rightarrow> pc_world \<Rightarrow> bool" where
  producer: "free (Prod i) w \<Longrightarrow> i < K_PRODUCERS \<Longrightarrow> producer i (producers w ! i) w = Some w' \<Longrightarrow> pc_thread w w'"
| consumer: "free (Cons j) w \<Longrightarrow> j < N_CONSUMERS \<Longrightarrow> consumer j (consumers w ! j) w = Some w' \<Longrightarrow> pc_thread w w'"
| wake_consumer: "free (Prod i) w \<Longrightarrow> i < K_PRODUCERS \<Longrightarrow> producers w ! i = P_Signal n \<Longrightarrow> j < N_CONSUMERS \<Longrightarrow>
    consumers w ! j = C_Wait \<Longrightarrow> pc_thread w (set_p i (P_Unlock n) (set_c j C_Woken w))"
| wake_no_consumer: "free (Prod i) w \<Longrightarrow> i < K_PRODUCERS \<Longrightarrow> producers w ! i = P_Signal n \<Longrightarrow>
    C_Wait \<notin> set (consumers w) \<Longrightarrow> pc_thread w (set_p i (P_Unlock n) w)"
| wake_producer: "free (Cons j) w \<Longrightarrow> j < N_CONSUMERS \<Longrightarrow> consumers w ! j = C_Signal \<Longrightarrow> i < K_PRODUCERS \<Longrightarrow>
    producers w ! i = P_Wait n \<Longrightarrow> pc_thread w (set_c j C_Unlock (set_p i (P_Woken n) w))"
| wake_no_producer: "free (Cons j) w \<Longrightarrow> j < N_CONSUMERS \<Longrightarrow> consumers w ! j = C_Signal \<Longrightarrow>
    (\<forall>p\<in>set (producers w). \<forall>n. p \<noteq> P_Wait n) \<Longrightarrow> pc_thread w (set_c j C_Unlock w)"
| main: "free Main w \<Longrightarrow> main_thread (main_pc w) w = Some w' \<Longrightarrow> pc_thread w w'"
| no_thread: "free Main w \<Longrightarrow> creating (main_pc w) \<Longrightarrow> pc_thread w (w\<lparr>main_pc := M_Exit\<rparr>)"

text \<open>Waits may also return without a signal.\<close>

inductive pc_spurious :: "pc_world \<Rightarrow> pc_world \<Rightarrow> bool" where
  producer: "alive w \<Longrightarrow> i < K_PRODUCERS \<Longrightarrow> producers w ! i = P_Wait n \<Longrightarrow> pc_spurious w (set_p i (P_Woken n) w)"
| consumer: "alive w \<Longrightarrow> j < N_CONSUMERS \<Longrightarrow> consumers w ! j = C_Wait \<Longrightarrow> pc_spurious w (set_c j C_Woken w)"

text \<open>
  \<open>handle_signal\<close> on thread \<open>t\<close>.  Its mutex is the same one: when the interrupted thread has it, the call
  of \<open>pthread_mutex_lock\<close> waits for ever.
\<close>

fun wake_p :: "prod_pc \<Rightarrow> prod_pc" where "wake_p (P_Wait n) = P_Woken n" | "wake_p p = p"
fun wake_c :: "cons_pc \<Rightarrow> cons_pc" where "wake_c C_Wait = C_Woken" | "wake_c c = c"

fun handle_signal :: "tid \<Rightarrow> handler_pc \<Rightarrow> pc_world \<Rightarrow> pc_world option" where
  "handle_signal t H_Flag w = Some (w\<lparr>running := False, handlers := (handlers w)(t \<mapsto> H_Lock)\<rparr>)"
| "handle_signal t H_Lock w =
     (if mutex w = None then Some (w\<lparr>mutex := Some t, handlers := (handlers w)(t \<mapsto> H_Produce)\<rparr>) else None)"
| "handle_signal t H_Produce w =
     Some (w\<lparr>producers := map wake_p (producers w), handlers := (handlers w)(t \<mapsto> H_Consume)\<rparr>)"
| "handle_signal t H_Consume w =
     Some (w\<lparr>consumers := map wake_c (consumers w), handlers := (handlers w)(t \<mapsto> H_Unlock)\<rparr>)"
| "handle_signal t H_Unlock w = Some (w\<lparr>mutex := None, handlers := (handlers w)(t := None)\<rparr>)"

text \<open>The threads there are: SIGINT can be delivered to each of them.\<close>

fun exists_thread :: "tid \<Rightarrow> pc_world \<Rightarrow> bool" where
  "exists_thread (Prod i) w =
     (i < K_PRODUCERS \<and> producers w ! i \<noteq> P_New \<and> \<not> p_done (producers w ! i))"
| "exists_thread (Cons j) w = (j < N_CONSUMERS \<and> consumers w ! j \<noteq> C_New \<and> consumers w ! j \<noteq> C_Done)"
| "exists_thread Main w = True"

fun handler_installed :: "pc_main \<Rightarrow> bool" where
  "handler_installed (M_CreateP k) = False" | "handler_installed M_Handler = False" | "handler_installed _ = True"

inductive pc_signal :: "pc_world \<Rightarrow> pc_world \<Rightarrow> bool" where
  sigint: "free t w \<Longrightarrow> exists_thread t w \<Longrightarrow> handler_installed (main_pc w) \<Longrightarrow>
    pc_signal w (w\<lparr>handlers := (handlers w)(t \<mapsto> H_Flag)\<rparr>)"
| handler: "alive w \<Longrightarrow> handlers w t = Some h \<Longrightarrow>
    handle_signal t h w = Some w' \<Longrightarrow> pc_signal w w'"

definition pc_step :: "pc_world \<Rightarrow> pc_world \<Rightarrow> bool" where
  "pc_step w w' \<longleftrightarrow> pc_thread w w' \<or> pc_spurious w w' \<or> pc_signal w w'"

definition pc_quiet :: "pc_world \<Rightarrow> pc_world \<Rightarrow> bool" where
  "pc_quiet w w' \<longleftrightarrow> pc_thread w w' \<or> pc_spurious w w'"

inductive_cases pc_thread_cases [consumes 1, case_names producer consumer wake_consumer wake_no_consumer
    wake_producer wake_no_producer main no_thread]: "pc_thread w w'"
inductive_cases pc_spurious_cases [consumes 1, case_names producer consumer]: "pc_spurious w w'"
inductive_cases pc_signal_cases [consumes 1, case_names sigint handler]: "pc_signal w w'"

end
