(* ===== verification/Producer_Consumer_Properties.thy ===== *)
theory Producer_Consumer_Properties
  imports Producer_Consumer
begin

text \<open>
  What holds of the producers and consumers in every interleaving, with SIGINT and spurious wake-ups, and the
  two ways in which the program does not end.
\<close>

section \<open>The invariant\<close>

fun p_count :: "prod_pc \<Rightarrow> nat" where
  "p_count P_New = 0" | "p_count (P_Test n) = n" | "p_count (P_Lock n) = n" | "p_count (P_Loop n) = n"
| "p_count (P_Wait n) = n" | "p_count (P_Woken n) = n" | "p_count (P_Decide n) = n" | "p_count (P_Put n) = n"
| "p_count (P_Signal n) = n" | "p_count (P_Unlock n) = n" | "p_count (P_Quit n) = n" | "p_count (P_Done n) = n"

fun p_crit :: "prod_pc \<Rightarrow> bool" where
  "p_crit (P_Loop n) = True" | "p_crit (P_Decide n) = True" | "p_crit (P_Put n) = True"
| "p_crit (P_Signal n) = True" | "p_crit (P_Unlock n) = True" | "p_crit (P_Quit n) = True" | "p_crit _ = False"

fun c_crit :: "cons_pc \<Rightarrow> bool" where
  "c_crit C_Loop = True" | "c_crit C_Take = True" | "c_crit C_Signal = True" | "c_crit C_Unlock = True"
| "c_crit _ = False"

fun h_crit :: "handler_pc option \<Rightarrow> bool" where
  "h_crit (Some H_Produce) = True" | "h_crit (Some H_Consume) = True" | "h_crit (Some H_Unlock) = True"
| "h_crit _ = False"

text \<open>A thread has the mutex by itself, or the handler on it has it.\<close>

fun t_crit :: "tid \<Rightarrow> pc_world \<Rightarrow> bool" where
  "t_crit (Prod i) w = (i < K_PRODUCERS \<and> p_crit (producers w ! i))"
| "t_crit (Cons j) w = (j < N_CONSUMERS \<and> c_crit (consumers w ! j))"
| "t_crit Main w = False"

fun p_ok :: "int \<Rightarrow> bool \<Rightarrow> prod_pc \<Rightarrow> bool" where
  "p_ok b r (P_Lock n) = (n < MAX_ITEMS_PER_PRODUCER)" | "p_ok b r (P_Loop n) = (n < MAX_ITEMS_PER_PRODUCER)"
| "p_ok b r (P_Wait n) = (n < MAX_ITEMS_PER_PRODUCER)" | "p_ok b r (P_Woken n) = (n < MAX_ITEMS_PER_PRODUCER)"
| "p_ok b r (P_Decide n) = (n < MAX_ITEMS_PER_PRODUCER \<and> (r \<longrightarrow> b < ITEMS_SIZE))"
| "p_ok b r (P_Put n) = (n < MAX_ITEMS_PER_PRODUCER \<and> b < ITEMS_SIZE)"
| "p_ok b r p = (p_count p \<le> MAX_ITEMS_PER_PRODUCER)"

fun main_ok :: "pc_main \<Rightarrow> prod_pc list \<Rightarrow> cons_pc list \<Rightarrow> bool" where
  "main_ok (M_CreateP k) ps cs = (k < K_PRODUCERS \<and> (\<forall>i<K_PRODUCERS. ps ! i = P_New \<longleftrightarrow> k \<le> i) \<and> (\<forall>j<N_CONSUMERS. cs ! j = C_New))"
| "main_ok M_Handler ps cs = (\<forall>j<N_CONSUMERS. cs ! j = C_New)"
| "main_ok (M_CreateC k) ps cs = (k < N_CONSUMERS \<and> (\<forall>j<N_CONSUMERS. cs ! j = C_New \<longleftrightarrow> k \<le> j))"
| "main_ok (M_JoinP k) ps cs = (k < K_PRODUCERS \<and> (\<forall>i<k. p_done (ps ! i)))"
| "main_ok M_Stop ps cs = (\<forall>i<K_PRODUCERS. p_done (ps ! i))"
| "main_ok (M_JoinC k) ps cs = (k < N_CONSUMERS \<and> (\<forall>i<K_PRODUCERS. p_done (ps ! i)) \<and> (\<forall>j<k. cs ! j = C_Done))"
| "main_ok M_Done ps cs = ((\<forall>i<K_PRODUCERS. p_done (ps ! i)) \<and> (\<forall>j<N_CONSUMERS. cs ! j = C_Done))"
| "main_ok M_Exit ps cs = True"

definition pc_inv :: "pc_world \<Rightarrow> bool" where
  "pc_inv w \<longleftrightarrow> length (producers w) = K_PRODUCERS \<and> length (consumers w) = N_CONSUMERS \<and>
     0 \<le> buffer w \<and> buffer w \<le> ITEMS_SIZE \<and> items_produced w = items_consumed w + buffer w \<and>
     items_produced w = (\<Sum>p\<leftarrow>producers w. int (p_count p)) \<and>
     (\<forall>t. t_crit t w \<or> h_crit (handlers w t) \<longleftrightarrow> mutex w = Some t) \<and>
     (\<forall>t. \<not> (t_crit t w \<and> h_crit (handlers w t))) \<and>
     (\<forall>i<K_PRODUCERS. p_ok (buffer w) (running w) (producers w ! i)) \<and>
     main_ok (main_pc w) (producers w) (consumers w)"

lemma pc_inv_parts:
  assumes "pc_inv w"
  shows inv_lengths: "length (producers w) = K_PRODUCERS" "length (consumers w) = N_CONSUMERS"
    and inv_buffer: "0 \<le> buffer w" "buffer w \<le> ITEMS_SIZE" "items_produced w = items_consumed w + buffer w"
    and inv_sum: "items_produced w = (\<Sum>p\<leftarrow>producers w. int (p_count p))"
    and inv_mutex: "t_crit t w \<or> h_crit (handlers w t) \<longleftrightarrow> mutex w = Some t"
    and inv_once: "\<not> (t_crit t w \<and> h_crit (handlers w t))"
    and inv_p_ok: "i < K_PRODUCERS \<Longrightarrow> p_ok (buffer w) (running w) (producers w ! i)"
    and inv_main: "main_ok (main_pc w) (producers w) (consumers w)"
  using assms unfolding pc_inv_def by blast+

lemma main_ok_mono:
  assumes "main_ok m ps cs"
    and "\<forall>i<K_PRODUCERS. (ps' ! i = P_New \<longleftrightarrow> ps ! i = P_New) \<and> (p_done (ps ! i) \<longrightarrow> p_done (ps' ! i))"
    and "\<forall>j<N_CONSUMERS. (cs' ! j = C_New \<longleftrightarrow> cs ! j = C_New) \<and> (cs ! j = C_Done \<longrightarrow> cs' ! j = C_Done)"
  shows "main_ok m ps' cs'"
  using assms by (cases m) auto

lemma p_ok_mono:
  "p_ok b r p \<Longrightarrow> (r' \<longrightarrow> r) \<Longrightarrow> b' \<le> b \<Longrightarrow> p_ok b' r' p"
  by (cases p) auto

lemma p_ok_outside: "p_ok b r p \<Longrightarrow> \<not> p_crit p \<Longrightarrow> p_ok b' r' p"
  by (cases p) auto

lemma sum_list_add_at: "i < length xs \<Longrightarrow> sum_list (xs[i := xs ! i + d]) = sum_list xs + (d :: int)"
proof (induction xs arbitrary: i)
  case (Cons x xs)
  then show ?case by (cases i) auto
qed simp

section \<open>Steps of one thread keep it\<close>

lemma producer_keeps:
  assumes inv: "pc_inv w" and i: "i < K_PRODUCERS" "handlers w (Prod i) = None"
    and p: "producers w ! i \<noteq> P_New" "\<not> p_done (producers w ! i)" "p \<noteq> P_New"
    and m: "p_crit p \<longleftrightarrow> m = Some (Prod i)" "m = mutex w \<or> mutex w \<in> {None, Some (Prod i)} \<and> m \<in> {None, Some (Prod i)}"
    and d: "int (p_count p) = int (p_count (producers w ! i)) + d" "d = 0 \<or> p_crit (producers w ! i)"
    and b: "0 \<le> buffer w + d" "buffer w + d \<le> ITEMS_SIZE" "p_ok (buffer w + d) (running w) p"
  shows "pc_inv (set_p i p (w\<lparr>buffer := buffer w + d, items_produced := items_produced w + d, mutex := m\<rparr>))"
proof -
  let ?w = "set_p i p (w\<lparr>buffer := buffer w + d, items_produced := items_produced w + d, mutex := m\<rparr>)"
  let ?ps = "producers w"
  note I = pc_inv_parts[OF inv]
  have len: "i < length ?ps" using I(1) i by simp
  have nth: "producers ?w ! k = (if k = i then p else ?ps ! k)" if "k < K_PRODUCERS" for k
    using that I(1) by (auto simp: set_p_def nth_list_update)
  have crit: "t_crit t ?w = (if t = Prod i then p_crit p else t_crit t w)" for t
    using i(1) by (cases t) (auto simp: nth, simp_all add: set_p_def)
  have h: "\<not> h_crit (handlers w (Prod i))" using i(2) by simp
  show ?thesis unfolding pc_inv_def
  proof (intro conjI allI impI)
    show "items_produced ?w = (\<Sum>p\<leftarrow>producers ?w. int (p_count p))"
      using I(6) d(1) len sum_list_add_at[of i "map (\<lambda>p. int (p_count p)) ?ps" d] by (simp add: set_p_def map_update)
    show "t_crit t ?w \<or> h_crit (handlers ?w t) \<longleftrightarrow> mutex ?w = Some t" for t
    proof (cases "t = Prod i")
      case True
      with h m(1) show ?thesis by (simp add: crit) (simp add: set_p_def)
    next
      case False
      with m(2) I(7)[of t] show ?thesis by (auto simp: crit) (auto simp: set_p_def)
    qed
    show "\<not> (t_crit t ?w \<and> h_crit (handlers ?w t))" for t
      using I(8)[of t] h by (auto simp: crit) (auto simp: set_p_def)
    show "p_ok (buffer ?w) (running ?w) (producers ?w ! k)" if k: "k < K_PRODUCERS" for k
    proof (cases "k = i \<or> d = 0")
      case True
      with b(3) I(9)[OF k] show ?thesis by (auto simp: nth[OF k]) (auto simp: set_p_def)
    next
      case False
      with d(2) I(7)[of "Prod i"] i(1) have "mutex w = Some (Prod i)" by simp
      with False I(7)[of "Prod k"] k have "\<not> p_crit (?ps ! k)" by auto
      with False I(9)[OF k] show ?thesis by (auto simp: nth[OF k] intro: p_ok_outside)
    qed
    show "main_ok (main_pc ?w) (producers ?w) (consumers ?w)"
    proof (rule main_ok_mono)
      show "main_ok (main_pc ?w) ?ps (consumers w)" using I(10) by (simp add: set_p_def)
      show "\<forall>k<K_PRODUCERS. (producers ?w ! k = P_New \<longleftrightarrow> ?ps ! k = P_New) \<and> (p_done (?ps ! k) \<longrightarrow> p_done (producers ?w ! k))"
        using p by (auto simp: nth)
      show "\<forall>j<N_CONSUMERS. (consumers ?w ! j = C_New \<longleftrightarrow> consumers w ! j = C_New) \<and> (consumers w ! j = C_Done \<longrightarrow> consumers ?w ! j = C_Done)"
        by (simp add: set_p_def)
    qed
  qed (use I b in \<open>simp_all add: set_p_def\<close>)
qed

lemma consumer_keeps:
  assumes inv: "pc_inv w" and j: "j < N_CONSUMERS" "handlers w (Cons j) = None"
    and c: "consumers w ! j \<noteq> C_New" "consumers w ! j \<noteq> C_Done" "c \<noteq> C_New"
    and m: "c_crit c \<longleftrightarrow> m = Some (Cons j)" "m = mutex w \<or> mutex w \<in> {None, Some (Cons j)} \<and> m \<in> {None, Some (Cons j)}"
    and b: "0 \<le> d" "d \<le> buffer w"
  shows "pc_inv (set_c j c (w\<lparr>buffer := buffer w - d, items_consumed := items_consumed w + d, mutex := m\<rparr>))"
proof -
  let ?w = "set_c j c (w\<lparr>buffer := buffer w - d, items_consumed := items_consumed w + d, mutex := m\<rparr>)"
  let ?cs = "consumers w"
  note I = pc_inv_parts[OF inv]
  have nth: "consumers ?w ! k = (if k = j then c else ?cs ! k)" if "k < N_CONSUMERS" for k
    using that I(2) by (auto simp: set_c_def nth_list_update)
  have crit: "t_crit t ?w = (if t = Cons j then c_crit c else t_crit t w)" for t
    using j(1) by (cases t) (auto simp: nth, simp_all add: set_c_def)
  have h: "\<not> h_crit (handlers w (Cons j))" using j(2) by simp
  show ?thesis unfolding pc_inv_def
  proof (intro conjI allI impI)
    show "t_crit t ?w \<or> h_crit (handlers ?w t) \<longleftrightarrow> mutex ?w = Some t" for t
    proof (cases "t = Cons j")
      case True
      with h m(1) show ?thesis by (simp add: crit) (simp add: set_c_def)
    next
      case False
      with m(2) I(7)[of t] show ?thesis by (auto simp: crit) (auto simp: set_c_def)
    qed
    show "\<not> (t_crit t ?w \<and> h_crit (handlers ?w t))" for t
      using I(8)[of t] h by (auto simp: crit) (auto simp: set_c_def)
    show "p_ok (buffer ?w) (running ?w) (producers ?w ! k)" if k: "k < K_PRODUCERS" for k
      using p_ok_mono[OF I(9)[OF k]] b by (simp add: set_c_def)
    show "main_ok (main_pc ?w) (producers ?w) (consumers ?w)"
    proof (rule main_ok_mono)
      show "main_ok (main_pc ?w) (producers w) ?cs" using I(10) by (simp add: set_c_def)
      show "\<forall>k<N_CONSUMERS. (consumers ?w ! k = C_New \<longleftrightarrow> ?cs ! k = C_New) \<and> (?cs ! k = C_Done \<longrightarrow> consumers ?w ! k = C_Done)"
        using c by (auto simp: nth)
      show "\<forall>i<K_PRODUCERS. (producers ?w ! i = P_New \<longleftrightarrow> producers w ! i = P_New) \<and> (p_done (producers w ! i) \<longrightarrow> p_done (producers ?w ! i))"
        by (simp add: set_c_def)
    qed
  qed (use I b in \<open>simp_all add: set_c_def\<close>)
qed

lemma owner:
  assumes "pc_inv w" "handlers w t = None"
  shows "t_crit t w \<longleftrightarrow> mutex w = Some t"
  using inv_mutex[OF assms(1), of t] assms(2) by simp

lemma producer_moves:
  assumes "pc_inv w" "i < K_PRODUCERS" "handlers w (Prod i) = None"
    and "producers w ! i \<noteq> P_New" "\<not> p_done (producers w ! i)" "p \<noteq> P_New"
    and "p_crit p = p_crit (producers w ! i)" "p_count p = p_count (producers w ! i)" "p_ok (buffer w) (running w) p"
  shows "pc_inv (set_p i p w)"
proof -
  have "p_crit p \<longleftrightarrow> mutex w = Some (Prod i)" using owner[OF assms(1,3)] assms(2,7) by simp
  with producer_keeps[OF assms(1-6), of "mutex w" 0] assms(8,9) inv_buffer(1,2)[OF assms(1)]
  show ?thesis by simp
qed

lemma consumer_moves:
  assumes "pc_inv w" "j < N_CONSUMERS" "handlers w (Cons j) = None"
    and "consumers w ! j \<noteq> C_New" "consumers w ! j \<noteq> C_Done" "c \<noteq> C_New" "c_crit c = c_crit (consumers w ! j)"
  shows "pc_inv (set_c j c w)"
proof -
  have "c_crit c \<longleftrightarrow> mutex w = Some (Cons j)" using owner[OF assms(1,3)] assms(2,7) by simp
  with consumer_keeps[OF assms(1-6), of "mutex w" 0] inv_buffer(1)[OF assms(1)] show ?thesis by simp
qed

lemma producer_inv:
  assumes inv: "pc_inv w" and f: "free (Prod i) w" and i: "i < K_PRODUCERS"
    and s: "producer i (producers w ! i) w = Some w'"
  shows "pc_inv w'"
proof -
  have h: "handlers w (Prod i) = None" using f by (simp add: free_def)
  note keep = producer_keeps[OF inv i h] and move = producer_moves[OF inv i h]
    and ok = inv_p_ok[OF inv i] and b = inv_buffer(1,2)[OF inv]
  have o: "p_crit (producers w ! i) \<longleftrightarrow> mutex w = Some (Prod i)" using owner[OF inv h] i by simp
  show ?thesis
  proof (cases "producers w ! i")
    case (P_Test n)
    with s ok move[of "P_Lock n"] move[of "P_Done n"] show ?thesis by (auto split: if_splits)
  next
    case (P_Lock n)
    with s o ok b keep[of "P_Loop n" "Some (Prod i)" 0] show ?thesis by (auto split: if_splits)
  next
    case (P_Woken n)
    with s o ok b keep[of "P_Loop n" "Some (Prod i)" 0] show ?thesis by (auto split: if_splits)
  next
    case (P_Loop n)
    with s o ok b keep[of "P_Wait n" None 0] move[of "P_Decide n"] show ?thesis by (auto split: if_splits)
  next
    case (P_Decide n)
    with s ok move[of "P_Quit n"] move[of "P_Put n"] show ?thesis by (auto split: if_splits)
  next
    case (P_Put n)
    have m: "mutex w = Some (Prod i)" using o P_Put by simp
    then have "w\<lparr>buffer := buffer w + 1, items_produced := items_produced w + 1, mutex := Some (Prod i)\<rparr>
        = w\<lparr>buffer := buffer w + 1, items_produced := items_produced w + 1\<rparr>" by (cases w) simp
    with P_Put s ok b m keep[of "P_Signal (Suc n)" "Some (Prod i)" 1] show ?thesis by simp
  next
    case (P_Unlock n)
    with s o ok b keep[of "P_Test n" None 0] show ?thesis by auto
  next
    case (P_Quit n)
    with s o ok b keep[of "P_Done n" None 0] show ?thesis by auto
  qed (use s in auto)
qed

lemma consumer_inv:
  assumes inv: "pc_inv w" and f: "free (Cons j) w" and j: "j < N_CONSUMERS"
    and s: "consumer j (consumers w ! j) w = Some w'"
  shows "pc_inv w'"
proof -
  have h: "handlers w (Cons j) = None" using f by (simp add: free_def)
  note keep = consumer_keeps[OF inv j h] and move = consumer_moves[OF inv j h] and b = inv_buffer(1)[OF inv]
  have o: "c_crit (consumers w ! j) \<longleftrightarrow> mutex w = Some (Cons j)" using owner[OF inv h] j by simp
  show ?thesis
  proof (cases "consumers w ! j")
    case C_Test
    with s move[of C_Lock] move[of C_Test_Buffer] show ?thesis by (auto split: if_splits)
  next
    case C_Test_Buffer
    with s move[of C_Lock] move[of C_Done] show ?thesis by (auto split: if_splits)
  next
    case C_Lock
    with s o b keep[of C_Loop "Some (Cons j)" 0] show ?thesis by (auto split: if_splits)
  next
    case C_Woken
    with s o b keep[of C_Loop "Some (Cons j)" 0] show ?thesis by (auto split: if_splits)
  next
    case C_Loop
    with s o b keep[of C_Wait None 0] move[of C_Take] show ?thesis by (auto split: if_splits)
  next
    case C_Take
    have m: "mutex w = Some (Cons j)" using o C_Take by simp
    then have "w\<lparr>buffer := buffer w - 1, items_consumed := items_consumed w + 1, mutex := Some (Cons j)\<rparr>
        = w\<lparr>buffer := buffer w - 1, items_consumed := items_consumed w + 1\<rparr>" by (cases w) simp
    with C_Take s b m keep[of C_Signal "Some (Cons j)" 1] move[of C_Unlock] show ?thesis by (auto split: if_splits)
  next
    case C_Unlock
    with s o b keep[of C_Test None 0] show ?thesis by auto
  qed (use s in auto)
qed

text \<open>Changes of program counters that neither take nor give the mutex, of the flag and of the main thread.\<close>

definition same_p :: "prod_pc \<Rightarrow> prod_pc \<Rightarrow> bool" where
  "same_p p q \<longleftrightarrow> p_count q = p_count p \<and> p_crit q = p_crit p \<and>
     (\<forall>b r. p_ok b r p \<longrightarrow> p_ok b r q)"

lemma inv_replace:
  assumes inv: "pc_inv w" and r: "r \<longrightarrow> running w" and main: "main_ok m ps cs"
    and p: "length ps = K_PRODUCERS" "\<forall>i<K_PRODUCERS. same_p (producers w ! i) (ps ! i)"
    and c: "length cs = N_CONSUMERS" "\<forall>j<N_CONSUMERS. c_crit (cs ! j) = c_crit (consumers w ! j)"
  shows "pc_inv (w\<lparr>running := r, producers := ps, consumers := cs, main_pc := m\<rparr>)"
proof -
  let ?w = "w\<lparr>running := r, producers := ps, consumers := cs, main_pc := m\<rparr>"
  note I = pc_inv_parts[OF inv]
  have crit: "t_crit t ?w = t_crit t w" for t using p c by (cases t) (auto simp: same_p_def)
  have "map (\<lambda>p. int (p_count p)) ps = map (\<lambda>p. int (p_count p)) (producers w)"
    using p(1,2) I(1) by (intro nth_equalityI) (auto simp: same_p_def)
  then have sum: "(\<Sum>p\<leftarrow>ps. int (p_count p)) = (\<Sum>p\<leftarrow>producers w. int (p_count p))" by simp
  have ok: "p_ok (buffer w) r (ps ! i)" if "i < K_PRODUCERS" for i
    using p_ok_mono[of "buffer w" "running w" "ps ! i" r "buffer w"] I(9)[OF that] p(2) that r
    by (auto simp: same_p_def)
  show ?thesis unfolding pc_inv_def
  proof (intro conjI allI impI)
    show "t_crit t ?w \<or> h_crit (handlers ?w t) \<longleftrightarrow> mutex ?w = Some t" for t using I(7)[of t] by (simp add: crit)
    show "\<not> (t_crit t ?w \<and> h_crit (handlers ?w t))" for t using I(8)[of t] by (simp add: crit)
    show "items_produced ?w = (\<Sum>p\<leftarrow>producers ?w. int (p_count p))" using I(6) sum by simp
  qed (use I(3,4) p(1) c(1) ok main I(5) in simp_all)
qed

lemma same_p_refl [simp]: "same_p p p" by (simp add: same_p_def)
lemma same_p_wake [simp]: "same_p (P_Wait n) (P_Woken n)" "same_p p (wake_p p)"
  by (simp add: same_p_def, cases p) (simp_all add: same_p_def)
lemma same_p_new [simp]: "same_p P_New (P_Test 0)" by (simp add: same_p_def)
lemma wake_simps [simp]: "wake_p p = P_New \<longleftrightarrow> p = P_New" "p_done (wake_p p) = p_done p"
  "wake_c c = C_New \<longleftrightarrow> c = C_New" "wake_c c = C_Done \<longleftrightarrow> c = C_Done" "c_crit (wake_c c) = c_crit c"
  by (cases p, simp_all)+ (cases c, simp_all)+

lemma inv_wake_p: "pc_inv w \<Longrightarrow> i < K_PRODUCERS \<Longrightarrow> producers w ! i = P_Wait n \<Longrightarrow> pc_inv (set_p i (P_Woken n) w)"
  using inv_replace[of w "running w" "main_pc w" "(producers w)[i := P_Woken n]" "consumers w"] inv_lengths[of w]
    main_ok_mono[OF inv_main, of w "(producers w)[i := P_Woken n]" "consumers w"]
  by (simp add: set_p_def nth_list_update)

lemma inv_wake_c: "pc_inv w \<Longrightarrow> j < N_CONSUMERS \<Longrightarrow> consumers w ! j = C_Wait \<Longrightarrow> pc_inv (set_c j C_Woken w)"
  using inv_replace[of w "running w" "main_pc w" "producers w" "(consumers w)[j := C_Woken]"] inv_lengths[of w]
    main_ok_mono[OF inv_main, of w "producers w" "(consumers w)[j := C_Woken]"]
  by (simp add: set_c_def nth_list_update)

lemma inv_main_pc: "pc_inv w \<Longrightarrow> r \<longrightarrow> running w \<Longrightarrow> main_ok m (producers w) (consumers w) \<Longrightarrow> pc_inv (w\<lparr>running := r, main_pc := m\<rparr>)"
  using inv_replace[of w r m "producers w" "consumers w"] inv_lengths[of w] by simp

lemma main_thread_inv:
  assumes inv: "pc_inv w" and s: "main_thread (main_pc w) w = Some w'"
  shows "pc_inv w'"
proof -
  note I = inv_main[OF inv] and L = inv_lengths[OF inv] and keep = inv_main_pc[OF inv, of "running w"]
  show ?thesis
  proof (cases "main_pc w")
    case (M_CreateP k)
    let ?m = "if Suc k < K_PRODUCERS then M_CreateP (Suc k) else M_Handler"
    have "main_ok ?m ((producers w)[k := P_Test 0]) (consumers w)"
      using I L M_CreateP by (auto simp: nth_list_update Suc_le_eq le_less)
    with inv_replace[OF inv, of "running w" ?m "(producers w)[k := P_Test 0]" "consumers w"] s M_CreateP I L
    show ?thesis by (auto simp: set_p_def nth_list_update)
  next
    case (M_CreateC k)
    let ?m = "if Suc k < N_CONSUMERS then M_CreateC (Suc k) else M_JoinP 0"
    have "main_ok ?m (producers w) ((consumers w)[k := C_Test])"
      using I L M_CreateC by (auto simp: nth_list_update Suc_le_eq le_less K_PRODUCERS_def)
    with inv_replace[OF inv, of "running w" ?m "producers w" "(consumers w)[k := C_Test]"] s M_CreateC I L
    show ?thesis by (auto simp: set_c_def nth_list_update)
  next
    case M_Handler
    with s I keep[of "M_CreateC 0"] show ?thesis by (simp add: N_CONSUMERS_def)
  next
    case (M_JoinP k)
    have "i < Suc k" if "\<not> Suc k < K_PRODUCERS" "i < K_PRODUCERS" for i using that by simp
    with s I M_JoinP keep[of "M_JoinP (Suc k)"] keep[of M_Stop] show ?thesis
      by (auto simp: less_Suc_eq split: if_splits)
  next
    case M_Stop
    with s I inv_main_pc[OF inv, of False "M_JoinC 0"] show ?thesis by (simp add: N_CONSUMERS_def)
  next
    case (M_JoinC k)
    have "j < Suc k" if "\<not> Suc k < N_CONSUMERS" "j < N_CONSUMERS" for j using that by simp
    with s I M_JoinC keep[of "M_JoinC (Suc k)"] keep[of M_Done] show ?thesis
      by (auto simp: less_Suc_eq split: if_splits)
  qed (use s in auto)
qed

lemma pc_thread_inv:
  assumes "pc_thread w w'" "pc_inv w" shows "pc_inv w'"
  using assms(1)
proof (cases rule: pc_thread_cases)
  case (wake_consumer i n j)
  let ?v = "set_c j C_Woken w"
  have v: "pc_inv ?v" using wake_consumer assms(2) by (intro inv_wake_c)
  have "pc_inv (set_p i (P_Unlock n) ?v)"
    using inv_p_ok[OF assms(2), of i] wake_consumer by (intro producer_moves[OF v]) (auto simp: set_c_def free_def)
  with wake_consumer show ?thesis by simp
next
  case (wake_no_consumer i n)
  then show ?thesis
    using inv_p_ok[OF assms(2), of i] producer_moves[OF assms(2), of i "P_Unlock n"] by (auto simp: free_def)
next
  case (wake_producer j i n)
  let ?v = "set_p i (P_Woken n) w"
  have v: "pc_inv ?v" using wake_producer assms(2) by (intro inv_wake_p)
  have "pc_inv (set_c j C_Unlock ?v)"
    using wake_producer by (intro consumer_moves[OF v]) (auto simp: set_p_def free_def)
  with wake_producer show ?thesis by simp
next
  case (wake_no_producer j)
  then show ?thesis using consumer_moves[OF assms(2), of j C_Unlock] by (auto simp: free_def)
next
  case no_thread
  then show ?thesis using inv_main_pc[OF assms(2), of "running w" M_Exit] by simp
qed (use assms(2) in \<open>auto intro: producer_inv consumer_inv main_thread_inv\<close>)

lemma pc_spurious_inv: "pc_spurious w w' \<Longrightarrow> pc_inv w \<Longrightarrow> pc_inv w'"
  by (cases rule: pc_spurious_cases) (auto intro: inv_wake_p inv_wake_c)

section \<open>Signals keep it\<close>

text \<open>A handler that moves from \<open>h\<close> to \<open>h'\<close>, with or without the mutex.\<close>

lemma handler_moves:
  assumes inv: "pc_inv w" and m: "h_crit h' \<longleftrightarrow> m = Some t \<and> \<not> t_crit t w"
      "m = mutex w \<or> \<not> t_crit t w \<and> mutex w \<in> {None, Some t} \<and> m \<in> {None, Some t}"
  shows "pc_inv (w\<lparr>mutex := m, handlers := (handlers w)(t := h')\<rparr>)"
proof -
  let ?w = "w\<lparr>mutex := m, handlers := (handlers w)(t := h')\<rparr>"
  note I = pc_inv_parts[OF inv]
  have crit: "t_crit u ?w = t_crit u w" for u by (cases u) simp_all
  show ?thesis unfolding pc_inv_def
  proof (intro conjI allI impI)
    show "t_crit u ?w \<or> h_crit (handlers ?w u) \<longleftrightarrow> mutex ?w = Some u" for u
      using I(7)[of u] m by (auto simp: crit)
    show "\<not> (t_crit u ?w \<and> h_crit (handlers ?w u))" for u
      using I(8)[of u] m by (auto simp: crit)
    show "items_produced ?w = (\<Sum>p\<leftarrow>producers ?w. int (p_count p))" using I(6) by simp
  qed (use I(1-5,9,10) in simp_all)
qed

lemma pc_signal_inv:
  assumes "pc_signal w w'" "pc_inv w" shows "pc_inv w'"
  using assms(1)
proof (cases rule: pc_signal_cases)
  case (sigint t)
  then have h: "handlers w t = None" by (simp add: free_def)
  have "pc_inv (w\<lparr>mutex := mutex w, handlers := (handlers w)(t := Some H_Flag)\<rparr>)"
    using owner[OF assms(2) h] by (intro handler_moves[OF assms(2)]) auto
  with sigint show ?thesis by simp
next
  case (handler t h)
  note I = pc_inv_parts[OF assms(2)]
  show ?thesis
  proof (cases h)
    case H_Flag
    let ?v = "w\<lparr>running := False\<rparr>"
    have "w\<lparr>running := False, main_pc := main_pc w\<rparr> = ?v" by (cases w) simp
    then have v: "pc_inv ?v" using inv_main_pc[OF assms(2) _ I(10), of False] by simp
    have crit: "t_crit t ?v = t_crit t w" by (cases t) simp_all
    have "pc_inv (?v\<lparr>mutex := mutex ?v, handlers := (handlers ?v)(t := Some H_Lock)\<rparr>)"
      using I(7)[of t] handler H_Flag crit by (intro handler_moves[OF v]) auto
    with handler H_Flag show ?thesis by simp
  next
    case H_Lock
    have "mutex w = None" "w' = w\<lparr>mutex := Some t, handlers := (handlers w)(t \<mapsto> H_Produce)\<rparr>"
      using handler H_Lock by (auto split: if_splits)
    moreover have "\<not> t_crit t w" using I(7)[of t] calculation(1) by simp
    ultimately show ?thesis by (auto intro!: handler_moves[OF assms(2)])
  next
    case H_Produce
    let ?v = "w\<lparr>running := running w, producers := map wake_p (producers w), consumers := consumers w, main_pc := main_pc w\<rparr>"
    have v: "pc_inv ?v"
      using I(1,2) by (intro inv_replace[OF assms(2)] main_ok_mono[OF I(10)]) auto
    have crit: "t_crit t ?v = t_crit t w" using I(1) same_p_wake(2) by (cases t) (auto simp: same_p_def)
    have "pc_inv (?v\<lparr>mutex := mutex ?v, handlers := (handlers ?v)(t := Some H_Consume)\<rparr>)"
      using I(7,8)[of t] handler H_Produce crit by (intro handler_moves[OF v]) auto
    with handler H_Produce show ?thesis by simp
  next
    case H_Consume
    let ?v = "w\<lparr>running := running w, producers := producers w, consumers := map wake_c (consumers w), main_pc := main_pc w\<rparr>"
    have v: "pc_inv ?v"
      using I(1,2) by (intro inv_replace[OF assms(2)] main_ok_mono[OF I(10)]) auto
    have crit: "t_crit t ?v = t_crit t w" using I(2) by (cases t) auto
    have "pc_inv (?v\<lparr>mutex := mutex ?v, handlers := (handlers ?v)(t := Some H_Unlock)\<rparr>)"
      using I(7,8)[of t] handler H_Consume crit by (intro handler_moves[OF v]) auto
    with handler H_Consume show ?thesis by simp
  next
    case H_Unlock
    have "pc_inv (w\<lparr>mutex := None, handlers := (handlers w)(t := None)\<rparr>)"
      using I(7,8)[of t] handler H_Unlock by (intro handler_moves[OF assms(2)]) auto
    with handler H_Unlock show ?thesis by simp
  qed
qed

lemma pc_start_inv: "pc_inv pc_start"
proof -
  have t: "\<not> t_crit t pc_start" for t by (cases t) (simp_all add: pc_start_def)
  have "(\<Sum>p\<leftarrow>replicate k P_New. int (p_count p)) = 0" for k by (induction k) auto
  then show ?thesis
    unfolding pc_inv_def using t by (simp add: pc_start_def K_PRODUCERS_def ITEMS_SIZE_def)
qed

lemma pc_step_inv: "pc_step w w' \<Longrightarrow> pc_inv w \<Longrightarrow> pc_inv w'"
  unfolding pc_step_def using pc_thread_inv pc_spurious_inv pc_signal_inv by blast

lemma pc_runs_inv: "pc_step\<^sup>*\<^sup>* pc_start w \<Longrightarrow> pc_inv w"
  by (induction rule: rtranclp_induct) (auto intro: pc_start_inv pc_step_inv)

section \<open>Runs without SIGINT\<close>

fun p_full :: "prod_pc \<Rightarrow> bool" where
  "p_full (P_Done n) = (n = MAX_ITEMS_PER_PRODUCER)" | "p_full (P_Quit n) = False" | "p_full _ = True"

text \<open>A consumer only ends, or looks at the buffer without the mutex, when the flag is cleared.\<close>

definition quiet_inv :: "pc_world \<Rightarrow> bool" where
  "quiet_inv w \<longleftrightarrow> pc_inv w \<and> (running w \<or> (\<forall>i<K_PRODUCERS. p_done (producers w ! i))) \<and>
     (\<forall>i<K_PRODUCERS. p_full (producers w ! i)) \<and>
     (\<forall>j<N_CONSUMERS. consumers w ! j \<in> {C_Test_Buffer, C_Done} \<longrightarrow> \<not> running w) \<and>
     (\<forall>j<N_CONSUMERS. consumers w ! j = C_Done \<longrightarrow> buffer w = 0)"

lemma quiet_inv_parts:
  assumes "quiet_inv w"
  shows "pc_inv w" "running w \<or> (\<forall>i<K_PRODUCERS. p_done (producers w ! i))"
    "i < K_PRODUCERS \<Longrightarrow> p_full (producers w ! i)"
    "j < N_CONSUMERS \<Longrightarrow> consumers w ! j \<in> {C_Test_Buffer, C_Done} \<Longrightarrow> \<not> running w"
    "j < N_CONSUMERS \<Longrightarrow> consumers w ! j = C_Done \<Longrightarrow> buffer w = 0"
  using assms unfolding quiet_inv_def by blast+

lemma quiet_producer:
  assumes q: "quiet_inv w" and i: "i < K_PRODUCERS" "\<not> p_done (producers w ! i)"
    and w': "pc_inv w'" "consumers w' = consumers w" "running w' = running w" "producers w' = (producers w)[i := p]"
    and p: "p_full p"
  shows "quiet_inv w'"
proof -
  note Q = quiet_inv_parts[OF q]
  have r: "running w" using Q(2) i by blast
  have "p_full (producers w' ! k)" if "k < K_PRODUCERS" for k
    using Q(3)[OF that] p inv_lengths(1)[OF Q(1)] w'(4) that by (cases "k = i") simp_all
  moreover have "consumers w ! j \<notin> {C_Test_Buffer, C_Done}" if "j < N_CONSUMERS" for j
    using Q(4)[OF that] r by blast
  ultimately show ?thesis using w' r unfolding quiet_inv_def by auto
qed

lemma quiet_consumer:
  assumes q: "quiet_inv w" and j: "j < N_CONSUMERS"
    and w': "pc_inv w'" "producers w' = producers w" "running w' = running w" "consumers w' = (consumers w)[j := c]"
      "buffer w' = buffer w \<or> 0 < buffer w"
    and c: "c \<in> {C_Test_Buffer, C_Done} \<longrightarrow> \<not> running w" "c = C_Done \<longrightarrow> buffer w' = 0"
  shows "quiet_inv w'"
proof -
  note Q = quiet_inv_parts[OF q]
  have len: "length (consumers w) = N_CONSUMERS" using inv_lengths(2)[OF Q(1)] .
  have nth: "consumers w' ! k = (if k = j then c else consumers w ! k)" if "k < N_CONSUMERS" for k
    using that len w'(4) by (simp add: nth_list_update)
  have "consumers w' ! k \<in> {C_Test_Buffer, C_Done} \<longrightarrow> \<not> running w'"
      "consumers w' ! k = C_Done \<longrightarrow> buffer w' = 0" if k: "k < N_CONSUMERS" for k
    using Q(4,5)[OF k] c w'(3,5) by (auto simp: nth[OF k])
  then show ?thesis using w'(1-3) Q(2,3) unfolding quiet_inv_def by simp
qed

lemma producer_next:
  assumes "producer i (producers w ! i) w = Some w'" "p_full (producers w ! i)"
    "p_ok (buffer w) (running w) (producers w ! i)" "running w"
  shows "\<not> p_done (producers w ! i) \<and> consumers w' = consumers w \<and> running w' = running w \<and>
    (\<exists>p. producers w' = (producers w)[i := p] \<and> p_full p)"
  using assms by (cases "producers w ! i") (auto simp: set_p_def split: if_splits)

lemma consumer_next:
  assumes "consumer j (consumers w ! j) w = Some w'"
    and "consumers w ! j \<in> {C_Test_Buffer, C_Done} \<longrightarrow> \<not> running w" "0 \<le> buffer w"
  shows "producers w' = producers w \<and> running w' = running w \<and> (buffer w' = buffer w \<or> 0 < buffer w) \<and>
    (\<exists>c. consumers w' = (consumers w)[j := c] \<and> (c \<in> {C_Test_Buffer, C_Done} \<longrightarrow> \<not> running w) \<and>
       (c = C_Done \<longrightarrow> buffer w' = 0))"
  using assms by (cases "consumers w ! j") (auto simp: set_c_def split: if_splits)

lemma producer_not_done: "producer i p w = Some w' \<Longrightarrow> \<not> p_done p"
  by (cases p) auto

lemma quiet_main:
  assumes q: "quiet_inv w" and s: "main_thread (main_pc w) w = Some w'"
  shows "quiet_inv w'"
proof -
  note Q = quiet_inv_parts[OF q]
  have v: "pc_inv w'" using main_thread_inv[OF Q(1) s] .
  note I = inv_main[OF Q(1)] and L = inv_lengths[OF Q(1)]
  show ?thesis
  proof (cases "main_pc w")
    case (M_CreateP k)
    have k: "k < K_PRODUCERS" "producers w ! k = P_New" using I M_CreateP by auto
    have "producers w' = (producers w)[k := P_Test 0]" "consumers w' = consumers w" "running w' = running w"
      using s M_CreateP by (auto simp: set_p_def)
    with k v show ?thesis by (intro quiet_producer[OF q k(1), of w' "P_Test 0"]) simp_all
  next
    case (M_CreateC k)
    have k: "k < N_CONSUMERS" using I M_CreateC by auto
    have "producers w' = producers w" "consumers w' = (consumers w)[k := C_Test]" "running w' = running w" "buffer w' = buffer w"
      using s M_CreateC by (auto simp: set_c_def)
    with k v show ?thesis by (intro quiet_consumer[OF q k, of w' C_Test]) simp_all
  next
    case M_Stop
    then show ?thesis using q s v I unfolding quiet_inv_def by auto
  qed (use q s v in \<open>auto simp: quiet_inv_def split: if_splits\<close>)
qed

lemma quiet_wake_p:
  assumes "quiet_inv w" "i < K_PRODUCERS" "producers w ! i = P_Wait n"
  shows "quiet_inv (set_p i (P_Woken n) w)"
  using inv_wake_p[OF quiet_inv_parts(1)[OF assms(1)] assms(2,3)] assms(3)
  by (intro quiet_producer[OF assms(1,2), of _ "P_Woken n"]) (simp_all add: set_p_def)

lemma quiet_wake_c:
  assumes "quiet_inv w" "j < N_CONSUMERS" "consumers w ! j = C_Wait"
  shows "quiet_inv (set_c j C_Woken w)"
  using inv_wake_c[OF quiet_inv_parts(1)[OF assms(1)] assms(2,3)]
  by (intro quiet_consumer[OF assms(1,2), of _ C_Woken]) (simp_all add: set_c_def)

lemma quiet_thread:
  assumes "pc_thread w w'" "quiet_inv w" shows "quiet_inv w'"
proof -
  note Q = quiet_inv_parts[OF assms(2)]
  have v: "pc_inv w'" by (rule pc_thread_inv[OF assms(1) Q(1)])
  from assms(1) show ?thesis
  proof (cases rule: pc_thread_cases)
    case (producer i)
    have r: "running w" using Q(2) producer producer_not_done by blast
    from producer_next[OF producer(3) Q(3)[OF producer(2)] inv_p_ok[OF Q(1) producer(2)] r] v
    show ?thesis using quiet_producer[OF assms(2) producer(2)] by blast
  next
    case (consumer j)
    have c: "consumers w ! j \<in> {C_Test_Buffer, C_Done} \<longrightarrow> \<not> running w" using Q(4)[OF consumer(2)] by blast
    from consumer_next[OF consumer(3) c inv_buffer(1)[OF Q(1)]] v
    show ?thesis using quiet_consumer[OF assms(2) consumer(2)] by blast
  next
    case (wake_consumer i n j)
    have "quiet_inv (set_c j C_Woken w)" using wake_consumer assms(2) by (intro quiet_wake_c)
    from quiet_producer[OF this wake_consumer(3), of w' "P_Unlock n"] v wake_consumer
    show ?thesis by (simp add: set_p_def set_c_def)
  next
    case (wake_no_consumer i n)
    with quiet_producer[OF assms(2), of i w' "P_Unlock n"] v show ?thesis by (simp add: set_p_def)
  next
    case (wake_producer j i n)
    have "quiet_inv (set_p i (P_Woken n) w)" using wake_producer assms(2) by (intro quiet_wake_p)
    from quiet_consumer[OF this wake_producer(3), of w' C_Unlock] v wake_producer
    show ?thesis by (simp add: set_p_def set_c_def)
  next
    case (wake_no_producer j)
    with quiet_consumer[OF assms(2), of j w' C_Unlock] v show ?thesis by (simp add: set_c_def)
  next
    case main
    then show ?thesis using quiet_main[OF assms(2)] by blast
  next
    case no_thread
    with assms(2) v show ?thesis by (simp add: quiet_inv_def)
  qed
qed

lemma quiet_runs: "pc_quiet\<^sup>*\<^sup>* pc_start w \<Longrightarrow> quiet_inv w"
proof (induction rule: rtranclp_induct)
  case base
  show ?case using pc_start_inv by (simp add: quiet_inv_def pc_start_def K_PRODUCERS_def N_CONSUMERS_def less_Suc_eq)
next
  case (step v w)
  from step(2) consider "pc_thread v w" | "pc_spurious v w" by (auto simp: pc_quiet_def)
  then show ?case
  proof cases
    case 2
    then show ?thesis using step(3) by (cases rule: pc_spurious_cases) (auto intro: quiet_wake_p quiet_wake_c)
  qed (use step(3) quiet_thread in blast)
qed

section \<open>Schedules\<close>

text \<open>A step that is chosen by naming the thread, and for a signal the thread it wakes.\<close>

datatype act = A_P nat | A_C nat | A_Wake nat nat | A_No_Wake nat | A_Main

fun p_waits :: "prod_pc \<Rightarrow> bool" where "p_waits (P_Wait n) = True" | "p_waits _ = False"

fun act_step :: "act \<Rightarrow> pc_world \<Rightarrow> pc_world option" where
  "act_step (A_P i) w = (if free (Prod i) w \<and> i < K_PRODUCERS then producer i (producers w ! i) w else None)"
| "act_step (A_C j) w = (if free (Cons j) w \<and> j < N_CONSUMERS then consumer j (consumers w ! j) w else None)"
| "act_step (A_Wake i j) w = (case producers w ! i of
     P_Signal n \<Rightarrow> if free (Prod i) w \<and> i < K_PRODUCERS \<and> j < N_CONSUMERS \<and> consumers w ! j = C_Wait
       then Some (set_p i (P_Unlock n) (set_c j C_Woken w)) else None
   | _ \<Rightarrow> None)"
| "act_step (A_No_Wake j) w = (if free (Cons j) w \<and> j < N_CONSUMERS \<and> consumers w ! j = C_Signal \<and>
     \<not> list_ex p_waits (producers w) then Some (set_c j C_Unlock w) else None)"
| "act_step A_Main w = (if free Main w then main_thread (main_pc w) w else None)"

lemma act_step_thread: "act_step a w = Some w' \<Longrightarrow> pc_thread w w'"
  by (cases a) (fastforce intro: pc_thread.intros simp: list_ex_iff split: prod_pc.splits if_splits)+

lemma schedule_runs: "ofold act_step as w = Some w' \<Longrightarrow> pc_thread\<^sup>*\<^sup>* w w'"
  by (induction as arbitrary: w)
     (auto split: option.splits intro: converse_rtranclp_into_rtranclp dest: act_step_thread)

text \<open>Both producers are about to produce, all consumers wait.\<close>

definition waiting :: "nat \<Rightarrow> nat \<Rightarrow> pc_world" where
  "waiting a b = \<lparr>buffer = 0, running = True, items_produced = int a + int b, items_consumed = int a + int b,
     mutex = None, producers = [P_Test a, P_Test b], consumers = [C_Wait, C_Wait, C_Wait, C_Wait],
     main_pc = M_JoinP 0, handlers = Map.empty\<rparr>"

definition one_item :: "nat \<Rightarrow> act list" where
  "one_item i = [A_P i, A_P i, A_P i, A_P i, A_P i, A_Wake i 0, A_P i, A_C 0, A_C 0, A_C 0, A_No_Wake 0, A_C 0, A_C 0, A_C 0, A_C 0]"

lemmas schedule_simps = free_def alive_def set_p_def set_c_def K_PRODUCERS_def N_CONSUMERS_def ITEMS_SIZE_def

lemma start_waiting:
  "ofold act_step (replicate 7 A_Main @ concat (map (\<lambda>j. replicate 3 (A_C j)) [0, 1, 2, 3])) pc_start = Some (waiting 0 0)"
  by (simp add: schedule_simps pc_start_def waiting_def eval_nat_numeral)

lemma one_item_run:
  "a < MAX_ITEMS_PER_PRODUCER \<Longrightarrow> ofold act_step (one_item 0) (waiting a b) = Some (waiting (Suc a) b)"
  "b < MAX_ITEMS_PER_PRODUCER \<Longrightarrow> ofold act_step (one_item 1) (waiting a b) = Some (waiting a (Suc b))"
  by (simp_all add: schedule_simps one_item_def waiting_def eval_nat_numeral)

lemma waiting_reached:
  "a \<le> MAX_ITEMS_PER_PRODUCER \<Longrightarrow> b \<le> MAX_ITEMS_PER_PRODUCER \<Longrightarrow> pc_thread\<^sup>*\<^sup>* pc_start (waiting a b)"
proof (induction a)
  case 0
  then show ?case
  proof (induction b)
    case 0
    show ?case using schedule_runs[OF start_waiting] .
  next
    case (Suc b)
    then show ?case using schedule_runs[OF one_item_run(2)[of b 0]] by (auto intro: rtranclp_trans)
  qed
next
  case (Suc a)
  then show ?case using schedule_runs[OF one_item_run(1)[of a b]] by (auto intro: rtranclp_trans)
qed

definition hung :: pc_world where
  "hung = (waiting MAX_ITEMS_PER_PRODUCER MAX_ITEMS_PER_PRODUCER)\<lparr>running := False, main_pc := M_JoinC 0,
     producers := [P_Done MAX_ITEMS_PER_PRODUCER, P_Done MAX_ITEMS_PER_PRODUCER]\<rparr>"

lemma hung_run:
  "ofold act_step [A_P 0, A_P 1, A_Main, A_Main, A_Main] (waiting MAX_ITEMS_PER_PRODUCER MAX_ITEMS_PER_PRODUCER) = Some hung"
  by (simp add: schedule_simps waiting_def hung_def)

lemma hung_reached: "pc_thread\<^sup>*\<^sup>* pc_start hung"
  using waiting_reached[of MAX_ITEMS_PER_PRODUCER MAX_ITEMS_PER_PRODUCER] schedule_runs[OF hung_run]
  by (auto intro: rtranclp_trans)

lemma two_producers: "i < K_PRODUCERS \<Longrightarrow> i = 0 \<or> i = 1"
  by (auto simp: K_PRODUCERS_def)

lemma four_consumers: "j < N_CONSUMERS \<Longrightarrow> j = 0 \<or> j = 1 \<or> j = 2 \<or> j = 3"
  by (auto simp: N_CONSUMERS_def)

lemma hung_parts:
  "i < K_PRODUCERS \<Longrightarrow> producers hung ! i = P_Done MAX_ITEMS_PER_PRODUCER"
  "j < N_CONSUMERS \<Longrightarrow> consumers hung ! j = C_Wait" "main_pc hung = M_JoinC 0"
  by (auto simp: hung_def waiting_def dest!: two_producers four_consumers)

lemma hung_stuck: "\<not> pc_thread hung w"
proof
  assume "pc_thread hung w"
  then show False
    by (cases rule: pc_thread_cases) (auto simp: hung_parts N_CONSUMERS_def)
qed

section \<open>The handler on the thread that has the mutex\<close>

definition self_locked :: "pc_world \<Rightarrow> bool" where
  "self_locked w \<longleftrightarrow> pc_inv w \<and> mutex w = Some (Prod 0) \<and> handlers w (Prod 0) = Some H_Lock \<and> producers w ! 0 = P_Loop 0"

lemma self_locked_parts:
  assumes "self_locked w"
  shows "pc_inv w" "mutex w = Some (Prod 0)" "handlers w (Prod 0) = Some H_Lock" "producers w ! 0 = P_Loop 0"
    "t \<noteq> Prod 0 \<Longrightarrow> \<not> t_crit t w" "t \<noteq> Prod 0 \<Longrightarrow> \<not> h_crit (handlers w t)" "\<not> free (Prod 0) w"
  using assms inv_mutex[of w t] by (auto simp: self_locked_def free_def)

lemma outside_producer:
  assumes "producer i p w = Some w'" "\<not> p_crit p" "mutex w \<noteq> None"
  shows "\<exists>q. w' = set_p i q w"
  using assms by (cases p) auto

lemma outside_consumer:
  assumes "consumer j c w = Some w'" "\<not> c_crit c" "mutex w \<noteq> None"
  shows "\<exists>q. w' = set_c j q w"
  using assms by (cases c) auto

lemma self_locked_frame:
  "self_locked w \<Longrightarrow> pc_inv w' \<Longrightarrow> mutex w' = mutex w \<Longrightarrow> handlers w' (Prod 0) = handlers w (Prod 0) \<Longrightarrow>
    producers w' ! 0 = producers w ! 0 \<Longrightarrow> self_locked w'"
  by (simp add: self_locked_def)

lemma main_thread_frame:
  assumes "main_thread m w = Some w'" "main_ok m (producers w) (consumers w)" "producers w ! 0 \<noteq> P_New"
  shows "mutex w' = mutex w \<and> handlers w' = handlers w \<and> producers w' ! 0 = producers w ! 0"
  using assms by (cases m) (auto simp: set_p_def set_c_def split: if_splits)

lemma self_locked_step:
  assumes s: "pc_step w w'" and l: "self_locked w"
  shows "self_locked w'"
proof -
  note L = self_locked_parts[OF l]
  have v: "pc_inv w'" by (rule pc_step_inv[OF s L(1)])
  note keep = self_locked_frame[OF l v]
  from s consider "pc_thread w w'" | "pc_spurious w w'" | "pc_signal w w'" by (auto simp: pc_step_def)
  then show ?thesis
  proof cases
    case 1
    then show ?thesis
    proof (cases rule: pc_thread_cases)
      case (producer i)
      have i: "i \<noteq> 0" using producer L(7) by metis
      have "\<not> p_crit (producers w ! i)" using L(5)[of "Prod i"] producer i by simp
      with outside_producer[OF producer(3)] L(2) obtain q where "w' = set_p i q w" by auto
      with i show ?thesis by (intro keep) (simp_all add: set_p_def)
    next
      case (consumer j)
      have "\<not> c_crit (consumers w ! j)" using L(5)[of "Cons j"] consumer by simp
      with outside_consumer[OF consumer(3)] L(2) obtain q where "w' = set_c j q w" by auto
      then show ?thesis by (intro keep) (simp_all add: set_c_def)
    next
      case (wake_consumer i n j)
      then show ?thesis using L(5)[of "Prod i"] L(7) by (cases "i = 0") auto
    next
      case (wake_no_consumer i n)
      then show ?thesis using L(5)[of "Prod i"] L(7) by (cases "i = 0") auto
    next
      case (wake_producer j i n)
      then show ?thesis using L(5)[of "Cons j"] by simp
    next
      case (wake_no_producer j)
      then show ?thesis using L(5)[of "Cons j"] by simp
    next
      case main
      from main_thread_frame[OF main(2) inv_main[OF L(1)]] L(4) show ?thesis by (intro keep) simp_all
    next
      case no_thread
      then show ?thesis by (intro keep) simp_all
    qed
  next
    case 2
    then show ?thesis
    proof (cases rule: pc_spurious_cases)
      case (producer i n)
      then have "i \<noteq> 0" using L(4) by (metis prod_pc.distinct)
      with producer show ?thesis by (intro keep) (simp_all add: set_p_def)
    next
      case (consumer j)
      then show ?thesis by (intro keep) (simp_all add: set_c_def)
    qed
  next
    case 3
    then show ?thesis
    proof (cases rule: pc_signal_cases)
      case (sigint t)
      then have "t \<noteq> Prod 0" using L(7) by metis
      with sigint show ?thesis by (intro keep) simp_all
    next
      case (handler t h)
      show ?thesis
      proof (cases "t = Prod 0")
        case True
        with handler L(2,3) show ?thesis by simp
      next
        case False
        then have "\<not> h_crit (handlers w t)" by (rule L(6))
        with handler L(2) False show ?thesis by (cases h; intro keep) auto
      qed
    qed
  qed
qed

lemma self_locked_runs: "pc_step\<^sup>*\<^sup>* w w' \<Longrightarrow> self_locked w \<Longrightarrow> self_locked w'"
  by (induction rule: rtranclp_induct) (auto intro: self_locked_step)

lemma self_locked_not_done:
  assumes "self_locked w" shows "main_pc w \<noteq> M_Done"
proof
  assume "main_pc w = M_Done"
  then have "\<forall>i<K_PRODUCERS. p_done (producers w ! i)"
    using inv_main[OF self_locked_parts(1)[OF assms]] by simp
  then have "p_done (producers w ! 0)" by (simp add: K_PRODUCERS_def)
  then show False using self_locked_parts(4)[OF assms] by simp
qed

text \<open>SIGINT arrives when the first producer has just taken the mutex.\<close>

lemma self_locked_reached: "\<exists>w. pc_step\<^sup>*\<^sup>* pc_start w \<and> self_locked w"
proof -
  let ?u = "(waiting 0 0)\<lparr>producers := [P_Loop 0, P_Test 0], mutex := Some (Prod 0)\<rparr>"
  let ?f = "?u\<lparr>handlers := (handlers ?u)(Prod 0 \<mapsto> H_Flag)\<rparr>"
  let ?l = "?f\<lparr>running := False, handlers := (handlers ?f)(Prod 0 \<mapsto> H_Lock)\<rparr>"
  have "ofold act_step [A_P 0, A_P 0] (waiting 0 0) = Some ?u"
    by (simp add: schedule_simps waiting_def MAX_ITEMS_PER_PRODUCER_def)
  then have "pc_thread\<^sup>*\<^sup>* pc_start ?u"
    using waiting_reached[of 0 0] schedule_runs by (meson le0 rtranclp_trans)
  then have u: "pc_step\<^sup>*\<^sup>* pc_start ?u"
    by (rule rtranclp_mono[THEN predicate2D, rotated]) (auto simp: pc_step_def)
  have "pc_signal ?u ?f"
    by (rule pc_signal.sigint) (simp_all add: schedule_simps waiting_def)
  moreover have "pc_signal ?f ?l"
    by (rule pc_signal.handler[of _ "Prod 0" H_Flag]) (simp_all add: alive_def waiting_def)
  ultimately have r: "pc_step\<^sup>*\<^sup>* pc_start ?l" using u by (meson pc_step_def rtranclp.rtrancl_into_rtrancl)
  have "self_locked ?l" unfolding self_locked_def using pc_runs_inv[OF r] by (simp add: waiting_def)
  with r show ?thesis by blast
qed

section \<open>A run that ends\<close>

definition finished :: pc_world where
  "finished = hung\<lparr>consumers := [C_Done, C_Done, C_Done, C_Done], main_pc := M_Done\<rparr>"

definition all_woken :: pc_world where
  "all_woken = hung\<lparr>consumers := [C_Woken, C_Woken, C_Woken, C_Woken]\<rparr>"

lemma all_woken_reached: "pc_spurious\<^sup>*\<^sup>* hung all_woken"
proof -
  let ?w = "\<lambda>cs. hung\<lparr>consumers := cs\<rparr>"
  have "pc_spurious hung (?w [C_Woken, C_Wait, C_Wait, C_Wait])"
    using pc_spurious.consumer[of hung 0] by (simp add: schedule_simps hung_def waiting_def)
  moreover have "pc_spurious (?w [C_Woken, C_Wait, C_Wait, C_Wait]) (?w [C_Woken, C_Woken, C_Wait, C_Wait])"
    using pc_spurious.consumer[of "?w [C_Woken, C_Wait, C_Wait, C_Wait]" 1] by (simp add: schedule_simps hung_def)
  moreover have "pc_spurious (?w [C_Woken, C_Woken, C_Wait, C_Wait]) (?w [C_Woken, C_Woken, C_Woken, C_Wait])"
    using pc_spurious.consumer[of "?w [C_Woken, C_Woken, C_Wait, C_Wait]" 2] by (simp add: schedule_simps hung_def)
  moreover have "pc_spurious (?w [C_Woken, C_Woken, C_Woken, C_Wait]) all_woken"
    using pc_spurious.consumer[of "?w [C_Woken, C_Woken, C_Woken, C_Wait]" 3]
    by (simp add: schedule_simps hung_def all_woken_def eval_nat_numeral)
  ultimately show ?thesis by (meson converse_rtranclp_into_rtranclp rtranclp.rtrancl_refl)
qed

lemma finished_run:
  "ofold act_step (concat (map (\<lambda>j. replicate 6 (A_C j)) [0, 1, 2, 3]) @ replicate 4 A_Main) all_woken = Some finished"
  by (simp add: schedule_simps hung_def waiting_def all_woken_def finished_def eval_nat_numeral)

lemma finished_reached: "pc_quiet\<^sup>*\<^sup>* pc_start finished"
proof -
  have t: "pc_quiet\<^sup>*\<^sup>* v w" if "pc_thread\<^sup>*\<^sup>* v w" for v w
    using that by (rule rtranclp_mono[THEN predicate2D, rotated]) (auto simp: pc_quiet_def)
  have s: "pc_quiet\<^sup>*\<^sup>* v w" if "pc_spurious\<^sup>*\<^sup>* v w" for v w
    using that by (rule rtranclp_mono[THEN predicate2D, rotated]) (auto simp: pc_quiet_def)
  from t[OF hung_reached] s[OF all_woken_reached] t[OF schedule_runs[OF finished_run]]
  show ?thesis by (meson rtranclp_trans)
qed

section \<open>Properties\<close>

definition in_critical :: "tid \<Rightarrow> pc_world \<Rightarrow> bool" where
  "in_critical t w \<longleftrightarrow> t_crit t w \<or> h_crit (handlers w t)"

lemma produced_bound:
  assumes "pc_inv w" shows "items_produced w \<le> int (K_PRODUCERS * MAX_ITEMS_PER_PRODUCER)"
proof -
  have le: "p_count p \<le> MAX_ITEMS_PER_PRODUCER" if "p \<in> set (producers w)" for p
  proof -
    have "p_ok (buffer w) (running w) p" using that inv_p_ok[OF assms] inv_lengths(1)[OF assms] by (auto simp: in_set_conv_nth)
    then show ?thesis by (cases p) auto
  qed
  have "(\<Sum>p\<leftarrow>ps. int (p_count p)) \<le> int (length ps * MAX_ITEMS_PER_PRODUCER)"
    if "\<forall>p\<in>set ps. p_count p \<le> MAX_ITEMS_PER_PRODUCER" for ps
    using that by (induction ps) (auto simp: algebra_simps)
  with le show ?thesis using inv_sum[OF assms] inv_lengths(1)[OF assms] by metis
qed

lemma quiet_done:
  assumes "quiet_inv w" "main_pc w = M_Done"
  shows "items_produced w = int (K_PRODUCERS * MAX_ITEMS_PER_PRODUCER) \<and> buffer w = 0"
proof -
  note Q = quiet_inv_parts[OF assms(1)]
  have d: "\<forall>i<K_PRODUCERS. p_done (producers w ! i)" "\<forall>j<N_CONSUMERS. consumers w ! j = C_Done"
    using inv_main[OF Q(1)] assms(2) by auto
  have "producers w = replicate K_PRODUCERS (P_Done MAX_ITEMS_PER_PRODUCER)"
  proof (rule nth_equalityI)
    fix i assume "i < length (producers w)"
    then have i: "i < K_PRODUCERS" using inv_lengths(1)[OF Q(1)] by simp
    have "p_done (producers w ! i)" "p_full (producers w ! i)" using d(1) Q(3) i by auto
    then show "producers w ! i = replicate K_PRODUCERS (P_Done MAX_ITEMS_PER_PRODUCER) ! i"
      using i by (cases "producers w ! i") auto
  qed (simp add: inv_lengths(1)[OF Q(1)])
  then have "items_produced w = int (K_PRODUCERS * MAX_ITEMS_PER_PRODUCER)"
    using inv_sum[OF Q(1)] by (simp add: sum_list_replicate)
  moreover have "buffer w = 0" using Q(5)[of 0] d(2) by (simp add: N_CONSUMERS_def)
  ultimately show ?thesis by blast
qed

text \<open>
  C25: In every interleaving of the producers, the consumers, the main thread and any number of SIGINTs, the
  buffer has between 0 and 5 items, the items produced are the items consumed and those in the buffer, no
  more than 200000 are produced and at most one thread or handler is between locking and unlocking the
  mutex.  When \<open>main\<close> ends without a SIGINT, every item has been produced and consumed.
\<close>

theorem producer_consumer_safe:
  assumes "pc_step\<^sup>*\<^sup>* pc_start w"
  shows "0 \<le> buffer w \<and> buffer w \<le> ITEMS_SIZE \<and> items_produced w = items_consumed w + buffer w \<and>
    items_produced w \<le> int (K_PRODUCERS * MAX_ITEMS_PER_PRODUCER) \<and>
    (\<forall>t u. in_critical t w \<and> in_critical u w \<longrightarrow> t = u) \<and>
    (pc_quiet\<^sup>*\<^sup>* pc_start w \<and> main_pc w = M_Done \<longrightarrow>
      items_produced w = int (K_PRODUCERS * MAX_ITEMS_PER_PRODUCER) \<and> items_consumed w = items_produced w \<and> buffer w = 0)"
proof -
  have inv: "pc_inv w" by (rule pc_runs_inv[OF assms])
  have "in_critical t w \<longleftrightarrow> mutex w = Some t" for t using inv_mutex[OF inv] by (simp add: in_critical_def)
  then show ?thesis
    using inv_buffer[OF inv] produced_bound[OF inv] quiet_done[OF quiet_runs, of w] by auto
qed

theorem producer_consumer_safe_witness:
  "pc_quiet\<^sup>*\<^sup>* pc_start finished \<and> main_pc finished = M_Done \<and> items_consumed finished = 200000 \<and> buffer finished = 0"
proof -
  have "pc_step\<^sup>*\<^sup>* pc_start finished"
    using finished_reached by (rule rtranclp_mono[THEN predicate2D, rotated]) (auto simp: pc_quiet_def pc_step_def)
  from producer_consumer_safe[OF this]
  have "pc_quiet\<^sup>*\<^sup>* pc_start finished \<and> main_pc finished = M_Done \<longrightarrow>
      items_produced finished = int (K_PRODUCERS * MAX_ITEMS_PER_PRODUCER) \<and>
      items_consumed finished = items_produced finished \<and> buffer finished = 0" by blast
  moreover have "main_pc finished = M_Done" by (simp add: finished_def)
  moreover have "int (K_PRODUCERS * MAX_ITEMS_PER_PRODUCER) = 200000"
    by (simp add: K_PRODUCERS_def MAX_ITEMS_PER_PRODUCER_def)
  ultimately show ?thesis using finished_reached by metis
qed

text \<open>
  C34: The program can fail to end in two ways.  Without any signal: all items are produced and consumed, the
  producers have ended and \<open>main\<close> has cleared the flag, but without waking anyone, so that it joins
  consumers that sleep for ever.  With one SIGINT: the handler runs on a thread that has the mutex
  and waits for that mutex, which is then never free again, and \<open>main\<close> never reaches its end.
\<close>

theorem producer_consumer_can_hang:
  "(\<exists>w. pc_thread\<^sup>*\<^sup>* pc_start w \<and> main_pc w = M_JoinC 0 \<and> items_produced w = 200000 \<and> items_consumed w = 200000 \<and>
      (\<nexists>w'. pc_thread w w')) \<and>
   (\<exists>w. pc_step\<^sup>*\<^sup>* pc_start w \<and> handlers w (Prod 0) = Some H_Lock \<and> mutex w = Some (Prod 0) \<and>
      (\<nexists>w'. pc_step\<^sup>*\<^sup>* w w' \<and> main_pc w' = M_Done) \<and> (\<nexists>w'. pc_step\<^sup>*\<^sup>* w w' \<and> mutex w' \<noteq> Some (Prod 0)))"
proof
  have "items_produced hung = 200000 \<and> items_consumed hung = 200000"
    by (simp add: hung_def waiting_def MAX_ITEMS_PER_PRODUCER_def)
  with hung_reached hung_stuck hung_parts(3) show "\<exists>w. pc_thread\<^sup>*\<^sup>* pc_start w \<and> main_pc w = M_JoinC 0 \<and>
      items_produced w = 200000 \<and> items_consumed w = 200000 \<and> (\<nexists>w'. pc_thread w w')" by blast
  obtain w where w: "pc_step\<^sup>*\<^sup>* pc_start w" "self_locked w" using self_locked_reached by blast
  have "main_pc w' \<noteq> M_Done \<and> mutex w' = Some (Prod 0)" if "pc_step\<^sup>*\<^sup>* w w'" for w'
    using self_locked_runs[OF that w(2)] self_locked_not_done self_locked_parts(2) by blast
  with w self_locked_parts(2,3)[OF w(2)]
  show "\<exists>w. pc_step\<^sup>*\<^sup>* pc_start w \<and> handlers w (Prod 0) = Some H_Lock \<and> mutex w = Some (Prod 0) \<and>
      (\<nexists>w'. pc_step\<^sup>*\<^sup>* w w' \<and> main_pc w' = M_Done) \<and> (\<nexists>w'. pc_step\<^sup>*\<^sup>* w w' \<and> mutex w' \<noteq> Some (Prod 0))" by blast
qed

end
