(* ===== verification/Counting.thy ===== *)
theory Counting
  imports Bounded_Runs
begin

text \<open>
  Threads that add to one counter in a loop, from src/sem\_4/examples: 2\_multithread\_counting\_nosync.c without
  a lock, 3\_mutex\_lock.c the same with a mutex, 10\_mutex\_vs\_spinlock.c with a mutex and with a spinlock.  The addition is
  a load and a store.  What each program can print is given exactly.  In the benchmark the macro \<open>NUM_THREADS\<close> is
  taken to be 2; as written its line ends in a remark after a number sign, which is part of the macro.
\<close>

section \<open>The programs\<close>

record cnt_prog =
  c_locked :: bool
  c_loops :: nat
  c_offsets :: "int list"

definition NUM_LOOPS :: nat where "NUM_LOOPS = 1000000"
definition NUM_ITERATIONS :: nat where "NUM_ITERATIONS = 10000000"
definition NUM_THREADS :: nat where "NUM_THREADS = 2"

definition counting_nosync :: cnt_prog where
  "counting_nosync = \<lparr>c_locked = False, c_loops = NUM_LOOPS, c_offsets = [1, -1]\<rparr>"

definition counting_mutex :: cnt_prog where
  "counting_mutex = \<lparr>c_locked = True, c_loops = NUM_LOOPS, c_offsets = [1, -1]\<rparr>"

text \<open>The two halves of the benchmark; both kinds of lock exclude.\<close>

definition benchmark_mutex :: cnt_prog where
  "benchmark_mutex = \<lparr>c_locked = True, c_loops = NUM_ITERATIONS, c_offsets = replicate NUM_THREADS 1\<rparr>"

definition benchmark_spinlock :: cnt_prog where
  "benchmark_spinlock = \<lparr>c_locked = True, c_loops = NUM_ITERATIONS, c_offsets = replicate NUM_THREADS 1\<rparr>"

section \<open>Threads\<close>

text \<open>Where a thread is, with the loop variable and, before the store, the value loaded.\<close>

datatype cnt_pc = R_New | R_Test nat | R_Lock nat | R_Load nat | R_Store nat int | R_Unlock nat | R_End

datatype cnt_main = N_Create nat | N_Join nat | N_Print

record cnt_world =
  cnt_sum :: int
  cnt_mutex :: "nat option"
  cnt_threads :: "cnt_pc list"
  cnt_main :: cnt_main

definition cnt_start :: "cnt_prog \<Rightarrow> cnt_world" where
  "cnt_start p = \<lparr>cnt_sum = 0, cnt_mutex = None, cnt_threads = replicate (length (c_offsets p)) R_New,
     cnt_main = N_Create 0\<rparr>"

definition set_pc :: "nat \<Rightarrow> cnt_pc \<Rightarrow> cnt_world \<Rightarrow> cnt_world" where
  "set_pc k c w = w\<lparr>cnt_threads := (cnt_threads w)[k := c]\<rparr>"

fun cnt_routine :: "cnt_prog \<Rightarrow> nat \<Rightarrow> cnt_pc \<Rightarrow> cnt_world \<Rightarrow> cnt_world option" where
  "cnt_routine p k (R_Test i) w = Some (set_pc k (if i < c_loops p
     then (if c_locked p then R_Lock i else R_Load i) else R_End) w)"
| "cnt_routine p k (R_Lock i) w =
     (if cnt_mutex w = None then Some (set_pc k (R_Load i) (w\<lparr>cnt_mutex := Some k\<rparr>)) else None)"
| "cnt_routine p k (R_Load i) w = Some (set_pc k (R_Store i (cnt_sum w)) w)"
| "cnt_routine p k (R_Store i v) w = Some (set_pc k (if c_locked p then R_Unlock i else R_Test (Suc i))
     (w\<lparr>cnt_sum := v + c_offsets p ! k\<rparr>))"
| "cnt_routine p k (R_Unlock i) w = Some (set_pc k (R_Test (Suc i)) (w\<lparr>cnt_mutex := None\<rparr>))"
| "cnt_routine p k _ w = None"

fun cnt_main_step :: "cnt_prog \<Rightarrow> cnt_main \<Rightarrow> cnt_world \<Rightarrow> cnt_world option" where
  "cnt_main_step p (N_Create k) w = Some ((set_pc k (R_Test 0) w)\<lparr>cnt_main :=
     (if Suc k < length (c_offsets p) then N_Create (Suc k) else N_Join 0)\<rparr>)"
| "cnt_main_step p (N_Join k) w = (if cnt_threads w ! k = R_End
     then Some (w\<lparr>cnt_main := (if Suc k < length (c_offsets p) then N_Join (Suc k) else N_Print)\<rparr>) else None)"
| "cnt_main_step p N_Print w = None"

text \<open>\<open>None\<close> is the main thread.\<close>

fun cnt_turn :: "cnt_prog \<Rightarrow> nat option \<Rightarrow> cnt_world \<Rightarrow> cnt_world option" where
  "cnt_turn p None w = cnt_main_step p (cnt_main w) w"
| "cnt_turn p (Some k) w =
     (if k < length (c_offsets p) then cnt_routine p k (cnt_threads w ! k) w else None)"

inductive cnt_step :: "cnt_prog \<Rightarrow> cnt_world \<Rightarrow> cnt_world \<Rightarrow> bool" for p where
  "cnt_turn p t w = Some w' \<Longrightarrow> cnt_step p w w'"

text \<open>What the program can print.\<close>

inductive cnt_prints :: "cnt_prog \<Rightarrow> int \<Rightarrow> bool" for p where
  "(cnt_step p)\<^sup>*\<^sup>* (cnt_start p) w \<Longrightarrow> cnt_main w = N_Print \<Longrightarrow> cnt_prints p (cnt_sum w)"

text \<open>The benchmark runs its halves one after the other and prints both counters.\<close>

inductive benchmark_main :: "int \<times> int \<Rightarrow> bool" where
  "cnt_prints benchmark_mutex a \<Longrightarrow> cnt_prints benchmark_spinlock b \<Longrightarrow> benchmark_main (a, b)"

inductive_simps benchmark_main_simps: "benchmark_main (a, b)"

section \<open>Every run\<close>

fun turns_done :: "nat \<Rightarrow> cnt_pc \<Rightarrow> nat" where
  "turns_done n R_New = 0" | "turns_done n (R_Test i) = i" | "turns_done n (R_Lock i) = i" | "turns_done n (R_Load i) = i"
| "turns_done n (R_Store i v) = i" | "turns_done n (R_Unlock i) = Suc i" | "turns_done n R_End = n"

fun cnt_crit :: "cnt_pc \<Rightarrow> bool" where
  "cnt_crit (R_Load i) = True" | "cnt_crit (R_Store i v) = True" | "cnt_crit (R_Unlock i) = True" | "cnt_crit _ = False"

fun loaded_ok :: "int \<Rightarrow> cnt_pc \<Rightarrow> bool" where
  "loaded_ok s (R_Store i v) = (v = s)" | "loaded_ok s _ = True"

fun turn_ok :: "nat \<Rightarrow> cnt_pc \<Rightarrow> bool" where
  "turn_ok n (R_Test i) = (i \<le> n)" | "turn_ok n (R_Lock i) = (i < n)" | "turn_ok n (R_Load i) = (i < n)"
| "turn_ok n (R_Store i v) = (i < n)" | "turn_ok n (R_Unlock i) = (i < n)" | "turn_ok n _ = True"

fun cnt_main_ok :: "nat \<Rightarrow> cnt_main \<Rightarrow> cnt_pc list \<Rightarrow> bool" where
  "cnt_main_ok N (N_Create k) ts = (k < N \<and> (\<forall>i<N. ts ! i = R_New \<longleftrightarrow> k \<le> i))"
| "cnt_main_ok N (N_Join k) ts = (\<forall>i<k. ts ! i = R_End)"
| "cnt_main_ok N N_Print ts = (\<forall>i<N. ts ! i = R_End)"

text \<open>What holds with and without the lock.\<close>

definition cnt_base :: "cnt_prog \<Rightarrow> cnt_world \<Rightarrow> bool" where
  "cnt_base p w \<longleftrightarrow> length (cnt_threads w) = length (c_offsets p) \<and>
     cnt_main_ok (length (c_offsets p)) (cnt_main w) (cnt_threads w) \<and>
     (\<forall>k<length (c_offsets p). turn_ok (c_loops p) (cnt_threads w ! k))"

lemma cnt_base_thread:
  assumes "cnt_base p w" "k < length (c_offsets p)" "cnt_threads w ! k \<noteq> R_New" "cnt_threads w ! k \<noteq> R_End"
    and "c \<noteq> R_New" "turn_ok (c_loops p) c"
    and "cnt_threads w' = (cnt_threads w)[k := c]" "cnt_main w' = cnt_main w"
  shows "cnt_base p w'"
proof -
  have nth: "cnt_threads w' ! i = (if i = k then c else cnt_threads w ! i)" if "i < length (c_offsets p)" for i
    using assms that by (simp add: cnt_base_def nth_list_update)
  have "cnt_main_ok (length (c_offsets p)) (cnt_main w) (cnt_threads w')"
  proof (cases "cnt_main w")
    case (N_Join m)
    have "k \<noteq> i" if "i < m" for i using assms(1,4) that N_Join by (auto simp: cnt_base_def)
    then show ?thesis using assms(1,7) N_Join by (auto simp: cnt_base_def)
  qed (use assms nth in \<open>auto simp: cnt_base_def\<close>)
  with assms nth show ?thesis by (auto simp: cnt_base_def)
qed

lemma cnt_base_routine:
  assumes "cnt_base p w" "k < length (c_offsets p)" "cnt_routine p k (cnt_threads w ! k) w = Some w'"
  shows "cnt_base p w'"
proof -
  have t: "turn_ok (c_loops p) (cnt_threads w ! k)" using assms(1,2) by (simp add: cnt_base_def)
  have "\<exists>c. cnt_threads w' = (cnt_threads w)[k := c] \<and> c \<noteq> R_New \<and> turn_ok (c_loops p) c \<and> cnt_main w' = cnt_main w"
    using assms(3) t by (cases "cnt_threads w ! k") (fastforce simp: set_pc_def split: if_splits)+
  moreover have "cnt_threads w ! k \<noteq> R_New" "cnt_threads w ! k \<noteq> R_End" using assms(3) by auto
  ultimately show ?thesis using cnt_base_thread[OF assms(1,2)] by blast
qed

lemma cnt_base_main:
  assumes "cnt_base p w" "cnt_main_step p (cnt_main w) w = Some w'"
  shows "cnt_base p w'"
proof (cases "cnt_main w")
  case (N_Create k)
  have nth: "(cnt_threads w)[k := R_Test 0] ! i = (if i = k then R_Test 0 else cnt_threads w ! i)"
    if "i < length (c_offsets p)" for i using assms(1) that by (auto simp: cnt_base_def nth_list_update)
  from N_Create assms(2) have w': "w' = (set_pc k (R_Test 0) w)\<lparr>cnt_main :=
      (if Suc k < length (c_offsets p) then N_Create (Suc k) else N_Join 0)\<rparr>" by simp
  show ?thesis using assms(1) N_Create unfolding w'
    by (auto simp: cnt_base_def set_pc_def nth Suc_le_eq le_less)
next
  case (N_Join k)
  have "\<forall>i<length (c_offsets p). i < k \<or> i = k" if "\<not> Suc k < length (c_offsets p)" using that by auto
  with N_Join assms show ?thesis by (auto simp: cnt_base_def less_Suc_eq split: if_splits) metis
qed (use assms in simp)

lemma cnt_base_start: "c_offsets p \<noteq> [] \<Longrightarrow> cnt_base p (cnt_start p)"
  by (simp add: cnt_base_def cnt_start_def)

section \<open>With the lock\<close>

definition counted :: "cnt_prog \<Rightarrow> cnt_pc list \<Rightarrow> int" where
  "counted p ts = (\<Sum>k<length ts. c_offsets p ! k * int (turns_done (c_loops p) (ts ! k)))"

definition locked_inv :: "cnt_prog \<Rightarrow> cnt_world \<Rightarrow> bool" where
  "locked_inv p w \<longleftrightarrow> cnt_base p w \<and> cnt_sum w = counted p (cnt_threads w) \<and>
     (\<forall>k<length (c_offsets p). cnt_crit (cnt_threads w ! k) \<longleftrightarrow> cnt_mutex w = Some k) \<and>
     (\<forall>k<length (c_offsets p). loaded_ok (cnt_sum w) (cnt_threads w ! k))"

lemma locked_keeps:
  assumes inv: "locked_inv p w" and k: "k < length (c_offsets p)" and base: "cnt_base p w'"
    and w': "cnt_threads w' = (cnt_threads w)[k := c]"
    and m: "cnt_crit c \<longleftrightarrow> cnt_mutex w' = Some k"
      "cnt_mutex w' = cnt_mutex w \<or> cnt_mutex w \<in> {None, Some k} \<and> cnt_mutex w' \<in> {None, Some k}"
    and s: "cnt_sum w' = cnt_sum w + c_offsets p ! k *
        (int (turns_done (c_loops p) c) - int (turns_done (c_loops p) (cnt_threads w ! k)))"
      "cnt_sum w' = cnt_sum w \<or> cnt_crit (cnt_threads w ! k)" "loaded_ok (cnt_sum w') c"
  shows "locked_inv p w'"
proof -
  have len: "length (cnt_threads w) = length (c_offsets p)" using inv by (simp add: locked_inv_def cnt_base_def)
  have nth: "cnt_threads w' ! i = (if i = k then c else cnt_threads w ! i)" if "i < length (c_offsets p)" for i
    using w' that len by (simp add: nth_list_update)
  have crit: "cnt_crit (cnt_threads w ! i) \<longleftrightarrow> cnt_mutex w = Some i" if "i < length (c_offsets p)" for i
    using inv that by (simp add: locked_inv_def)
  have "cnt_sum w' = counted p (cnt_threads w')"
    using sum_update[of k "cnt_threads w" "\<lambda>j t. c_offsets p ! j * int (turns_done (c_loops p) t)" c] inv k len s(1)
    by (simp add: locked_inv_def counted_def w' algebra_simps)
  moreover have "cnt_crit (cnt_threads w' ! i) \<longleftrightarrow> cnt_mutex w' = Some i" if "i < length (c_offsets p)" for i
    using crit[OF that] m by (auto simp: nth[OF that])
  moreover have "loaded_ok (cnt_sum w') (cnt_threads w' ! i)" if i: "i < length (c_offsets p)" for i
  proof (cases "i = k \<or> cnt_sum w' = cnt_sum w")
    case True
    with inv s(3) i show ?thesis by (auto simp: nth[OF i] locked_inv_def)
  next
    case False
    with s(2) crit[OF k] crit[OF i] have "\<not> cnt_crit (cnt_threads w ! i)" by auto
    with False show ?thesis by (cases "cnt_threads w ! i") (auto simp: nth[OF i])
  qed
  ultimately show ?thesis using base unfolding locked_inv_def by blast
qed

lemma locked_routine:
  assumes inv: "locked_inv p w" and l: "c_locked p" and k: "k < length (c_offsets p)"
    and s: "cnt_routine p k (cnt_threads w ! k) w = Some w'"
  shows "locked_inv p w'"
proof -
  have base: "cnt_base p w'" using cnt_base_routine[OF _ k s] inv by (simp add: locked_inv_def)
  have t: "turn_ok (c_loops p) (cnt_threads w ! k)" using inv k by (simp add: locked_inv_def cnt_base_def)
  have crit: "cnt_crit (cnt_threads w ! k) \<longleftrightarrow> cnt_mutex w = Some k" using inv k by (simp add: locked_inv_def)
  have load: "loaded_ok (cnt_sum w) (cnt_threads w ! k)" using inv k unfolding locked_inv_def by blast
  note keep = locked_keeps[OF inv k base]
  show ?thesis
  proof (cases "cnt_threads w ! k")
    case (R_Test i)
    with s l t crit show ?thesis
      by (intro keep[of "if i < c_loops p then R_Lock i else R_End"]) (auto simp: set_pc_def)
  next
    case (R_Lock i)
    with s l t crit show ?thesis by (intro keep[of "R_Load i"]) (auto simp: set_pc_def split: if_splits)
  next
    case (R_Load i)
    with s l t crit show ?thesis by (intro keep[of "R_Store i (cnt_sum w)"]) (auto simp: set_pc_def)
  next
    case (R_Store i v)
    with s l t crit load show ?thesis by (intro keep[of "R_Unlock i"]) (auto simp: set_pc_def)
  next
    case (R_Unlock i)
    with s l t crit show ?thesis by (intro keep[of "R_Test (Suc i)"]) (auto simp: set_pc_def)
  qed (use s in auto)
qed

lemma locked_main:
  assumes inv: "locked_inv p w" and s: "cnt_main_step p (cnt_main w) w = Some w'"
  shows "locked_inv p w'"
proof -
  have base: "cnt_base p w'" using cnt_base_main[OF _ s] inv by (simp add: locked_inv_def)
  show ?thesis
  proof (cases "cnt_main w")
    case (N_Create k)
    have k: "k < length (c_offsets p)" using inv N_Create by (auto simp: locked_inv_def cnt_base_def)
    have new: "cnt_threads w ! k = R_New" using inv k N_Create by (auto simp: locked_inv_def cnt_base_def)
    then have "cnt_mutex w \<noteq> Some k" using inv k by (auto simp: locked_inv_def)
    with s N_Create new show ?thesis
      by (intro locked_keeps[OF inv k base, of "R_Test 0"]) (auto simp: set_pc_def)
  next
    case (N_Join k)
    with s inv base show ?thesis by (auto simp: locked_inv_def split: if_splits)
  qed (use s in simp)
qed

lemma locked_runs:
  assumes "(cnt_step p)\<^sup>*\<^sup>* (cnt_start p) w" "c_locked p" "c_offsets p \<noteq> []"
  shows "locked_inv p w"
  using assms(1)
proof (induction rule: rtranclp_induct)
  case base
  have "counted p (replicate n R_New) = 0" for n by (simp add: counted_def)
  then show ?case using cnt_base_start[OF assms(3)] by (simp add: locked_inv_def) (simp add: cnt_start_def)
next
  case (step v w)
  from step(2) obtain t where t: "cnt_turn p t v = Some w" by (auto elim: cnt_step.cases)
  show ?case
  proof (cases t)
    case None
    with t locked_main[OF step(3)] show ?thesis by simp
  next
    case (Some k)
    with t locked_routine[OF step(3) assms(2), of k] show ?thesis by (auto split: if_splits)
  qed
qed

lemma locked_prints:
  assumes "c_locked p" "c_offsets p \<noteq> []" "cnt_prints p v"
  shows "v = int (c_loops p) * sum_list (c_offsets p)"
proof -
  from assms(3) obtain w where w: "(cnt_step p)\<^sup>*\<^sup>* (cnt_start p) w" "cnt_main w = N_Print" "v = cnt_sum w"
    by (auto elim: cnt_prints.cases)
  note inv = locked_runs[OF w(1) assms(1,2)]
  have len: "length (cnt_threads w) = length (c_offsets p)" and e: "\<forall>k<length (c_offsets p). cnt_threads w ! k = R_End"
    using inv w(2) by (auto simp: locked_inv_def cnt_base_def)
  have "v = (\<Sum>k<length (c_offsets p). c_offsets p ! k * int (c_loops p))"
    using inv w(3) e len by (simp add: locked_inv_def counted_def)
  also have "\<dots> = (\<Sum>k<length (c_offsets p). c_offsets p ! k) * int (c_loops p)" by (simp add: sum_distrib_right)
  finally show ?thesis by (simp add: sum_list_sum_nth atLeast0LessThan)
qed

section \<open>Without the lock\<close>

definition in_range :: "nat \<Rightarrow> cnt_pc list \<Rightarrow> int \<Rightarrow> bool" where
  "in_range n ts v \<longleftrightarrow> - int (turns_done n (ts ! 1)) \<le> v \<and> v \<le> int (turns_done n (ts ! 0))"

text \<open>What has been stored and what has been loaded lies between the turns of the two threads.\<close>

definition race_inv :: "cnt_prog \<Rightarrow> cnt_world \<Rightarrow> bool" where
  "race_inv p w \<longleftrightarrow> cnt_base p w \<and> in_range (c_loops p) (cnt_threads w) (cnt_sum w) \<and>
     (\<forall>k<2. \<forall>i v. cnt_threads w ! k = R_Store i v \<longrightarrow> in_range (c_loops p) (cnt_threads w) v)"

lemma two_threads: "k < 2 \<Longrightarrow> k = 0 \<or> k = (1 :: nat)"
  by auto

lemma race_keeps:
  assumes inv: "race_inv p w" and k: "k < 2" "c_offsets p = [1, -1]" and base: "cnt_base p w'"
    and w': "cnt_threads w' = (cnt_threads w)[k := c]"
    and t: "turns_done (c_loops p) (cnt_threads w ! k) \<le> turns_done (c_loops p) c"
    and s: "in_range (c_loops p) (cnt_threads w') (cnt_sum w')" "\<forall>i v. c = R_Store i v \<longrightarrow> v = cnt_sum w"
  shows "race_inv p w'"
proof -
  have len: "length (cnt_threads w) = 2" using inv k(2) by (simp add: race_inv_def cnt_base_def)
  have wider: "in_range (c_loops p) (cnt_threads w') v" if "in_range (c_loops p) (cnt_threads w) v" for v
    using that t two_threads[OF k(1)] len by (auto simp: in_range_def w')
  have "in_range (c_loops p) (cnt_threads w') v" if "m < 2" "cnt_threads w' ! m = R_Store i v" for m i v
  proof (cases "m = k")
    case True
    with that s(2) len k(1) inv wider show ?thesis by (auto simp: w' race_inv_def)
  next
    case False
    with that inv wider show ?thesis by (auto simp: w' race_inv_def)
  qed
  with base s(1) show ?thesis unfolding race_inv_def by blast
qed

lemma race_routine:
  assumes inv: "race_inv p w" and l: "\<not> c_locked p" and k: "k < 2" "c_offsets p = [1, -1]"
    and s: "cnt_routine p k (cnt_threads w ! k) w = Some w'"
  shows "race_inv p w'"
proof -
  have base: "cnt_base p w'" using cnt_base_routine[OF _ _ s] inv k by (simp add: race_inv_def)
  have t: "turn_ok (c_loops p) (cnt_threads w ! k)" using inv k by (simp add: race_inv_def cnt_base_def)
  have len: "length (cnt_threads w) = 2" using inv k(2) by (simp add: race_inv_def cnt_base_def)
  have now: "in_range (c_loops p) (cnt_threads w) (cnt_sum w)" using inv unfolding race_inv_def by blast
  have st: "in_range (c_loops p) (cnt_threads w) v" if "cnt_threads w ! k = R_Store i v" for i v
    using inv k(1) that unfolding race_inv_def by blast
  note keep = race_keeps[OF inv k base]
  show ?thesis
  proof (cases "cnt_threads w ! k")
    case (R_Test i)
    with s l t now len two_threads[OF k(1)] show ?thesis
      by (intro keep[of "if i < c_loops p then R_Load i else R_End"]) (auto simp: set_pc_def in_range_def)
  next
    case (R_Lock i)
    with s l t now len two_threads[OF k(1)] show ?thesis
      by (intro keep[of "R_Load i"]) (auto simp: set_pc_def in_range_def split: if_splits)
  next
    case (R_Load i)
    with s l t now len two_threads[OF k(1)] show ?thesis
      by (intro keep[of "R_Store i (cnt_sum w)"]) (auto simp: set_pc_def in_range_def)
  next
    case (R_Store i v)
    with s l t st[OF R_Store] len two_threads[OF k(1)] k(2) show ?thesis
      by (intro keep[of "R_Test (Suc i)"]) (auto simp: set_pc_def in_range_def)
  next
    case (R_Unlock i)
    with s l t now len two_threads[OF k(1)] show ?thesis
      by (intro keep[of "R_Test (Suc i)"]) (auto simp: set_pc_def in_range_def)
  qed (use s in auto)
qed

lemma race_runs:
  assumes "(cnt_step p)\<^sup>*\<^sup>* (cnt_start p) w" "\<not> c_locked p" "c_offsets p = [1, -1]"
  shows "race_inv p w"
  using assms(1)
proof (induction rule: rtranclp_induct)
  case base
  show ?case using cnt_base_start[of p] assms(3) two_threads
    by (auto simp: race_inv_def in_range_def cnt_start_def nth_Cons' split: if_splits)
next
  case (step v w)
  from step(2) obtain t where t: "cnt_turn p t v = Some w" by (auto elim: cnt_step.cases)
  show ?case
  proof (cases t)
    case (Some k)
    with t race_routine[OF step(3) assms(2), of k] assms(3) show ?thesis by (auto split: if_splits)
  next
    case None
    have s: "cnt_main_step p (cnt_main v) v = Some w" using t None by simp
    have base: "cnt_base p w" using cnt_base_main[OF _ s] step(3) by (simp add: race_inv_def)
    show ?thesis
    proof (cases "cnt_main v")
      case (N_Create k)
      have k: "k < 2" "cnt_threads v ! k = R_New" "length (cnt_threads v) = 2"
        using step(3) N_Create assms(3) by (auto simp: race_inv_def cnt_base_def)
      have "in_range (c_loops p) (cnt_threads v) (cnt_sum v)" using step(3) unfolding race_inv_def by blast
      with s N_Create k two_threads[OF k(1)] show ?thesis
        by (intro race_keeps[OF step(3) k(1) assms(3) base, of "R_Test 0"]) (auto simp: set_pc_def in_range_def)
    next
      case (N_Join k)
      with s step(3) base show ?thesis by (auto simp: race_inv_def split: if_splits)
    qed (use s in simp)
  qed
qed

lemma race_prints:
  assumes "\<not> c_locked p" "c_offsets p = [1, -1]" "cnt_prints p v"
  shows "- int (c_loops p) \<le> v \<and> v \<le> int (c_loops p)"
proof -
  from assms(3) obtain w where w: "(cnt_step p)\<^sup>*\<^sup>* (cnt_start p) w" "cnt_main w = N_Print" "v = cnt_sum w"
    by (auto elim: cnt_prints.cases)
  note inv = race_runs[OF w(1) assms(1,2)]
  have "cnt_threads w ! 0 = R_End" "cnt_threads w ! 1 = R_End"
    using inv w(2) assms(2) by (auto simp: race_inv_def cnt_base_def)
  with inv w(3) show ?thesis by (simp add: race_inv_def in_range_def)
qed

section \<open>Runs that give each number\<close>

lemma turns_step: "ofold (cnt_turn p) ts w = Some w' \<Longrightarrow> (cnt_step p)\<^sup>*\<^sup>* w w'"
  by (induction ts arbitrary: w)
     (auto split: option.splits intro: converse_rtranclp_into_rtranclp cnt_step.intros)

text \<open>Thread \<open>k\<close> is at \<open>c\<close> and the other one at \<open>d\<close>, while \<open>main\<close> waits for the first.\<close>

definition two_at :: "nat \<Rightarrow> cnt_pc \<Rightarrow> cnt_pc \<Rightarrow> int \<Rightarrow> cnt_world" where
  "two_at k c d s = \<lparr>cnt_sum = s, cnt_mutex = None, cnt_threads = (if k = 0 then [c, d] else [d, c]), cnt_main = N_Join 0\<rparr>"

definition sign :: "nat \<Rightarrow> int" where "sign k = (if k = 0 then 1 else -1)"

lemma other_turn:
  "c_offsets p = [1, -1] \<Longrightarrow> k < 2 \<Longrightarrow> \<not> c_locked p \<Longrightarrow> i < c_loops p \<Longrightarrow>
    (cnt_step p)\<^sup>*\<^sup>* (two_at k c (R_Test i) s) (two_at k c (R_Test (Suc i)) (s - sign k))"
  by (rule turns_step[of _ "replicate 3 (Some (1 - k))"])
     (use two_threads[of k] in \<open>auto simp: two_at_def set_pc_def sign_def eval_nat_numeral\<close>)

lemma own_turn:
  "c_offsets p = [1, -1] \<Longrightarrow> k < 2 \<Longrightarrow> \<not> c_locked p \<Longrightarrow> i < c_loops p \<Longrightarrow>
    (cnt_step p)\<^sup>*\<^sup>* (two_at k (R_Test i) d s) (two_at k (R_Test (Suc i)) d (s + sign k))"
  by (rule turns_step[of _ "replicate 3 (Some k)"])
     (use two_threads[of k] in \<open>auto simp: two_at_def set_pc_def sign_def eval_nat_numeral\<close>)

lemma other_turns:
  assumes "c_offsets p = [1, -1]" "k < 2" "\<not> c_locked p"
  shows "i + j \<le> c_loops p \<Longrightarrow>
    (cnt_step p)\<^sup>*\<^sup>* (two_at k c (R_Test i) s) (two_at k c (R_Test (i + j)) (s - sign k * int j))"
proof (induction j)
  case (Suc j)
  have "(cnt_step p)\<^sup>*\<^sup>* (two_at k c (R_Test (i + j)) (s - sign k * int j))
      (two_at k c (R_Test (Suc (i + j))) (s - sign k * int j - sign k))"
    using Suc.prems by (intro other_turn[OF assms]) auto
  with Suc show ?case by (auto simp: algebra_simps intro: rtranclp_trans)
qed simp

lemma own_turns:
  assumes "c_offsets p = [1, -1]" "k < 2" "\<not> c_locked p"
  shows "i + j \<le> c_loops p \<Longrightarrow>
    (cnt_step p)\<^sup>*\<^sup>* (two_at k (R_Test i) d s) (two_at k (R_Test (i + j)) d (s + sign k * int j))"
proof (induction j)
  case (Suc j)
  have "(cnt_step p)\<^sup>*\<^sup>* (two_at k (R_Test (i + j)) d (s + sign k * int j))
      (two_at k (R_Test (Suc (i + j))) d (s + sign k * int j + sign k))"
    using Suc.prems by (intro own_turn[OF assms]) auto
  with Suc show ?case by (auto simp: algebra_simps intro: rtranclp_trans)
qed simp

text \<open>The last turn of thread \<open>k\<close> loads, is overtaken by all the remaining turns of the other, and stores.\<close>

lemma overtaken:
  assumes p: "c_offsets p = [1, -1]" "k < 2" "\<not> c_locked p" and v: "v \<le> c_loops p" "0 < c_loops p"
  shows "cnt_prints p (sign k * int v)"
proof -
  let ?n = "c_loops p" and ?g = "sign k"
  let ?l = "?g * (int v - 1)"
  have a: "(cnt_step p)\<^sup>*\<^sup>* (cnt_start p) (two_at k (R_Test 0) (R_Test 0) 0)"
    by (rule turns_step[of _ "[None, None]"]) (use p(1) in \<open>auto simp: cnt_start_def two_at_def set_pc_def\<close>)
  have b: "(cnt_step p)\<^sup>*\<^sup>* (two_at k (R_Test 0) (R_Test 0) 0) (two_at k (R_Test 0) (R_Test (?n - v)) (- ?g * int (?n - v)))"
    using other_turns[OF p, of 0 "?n - v" "R_Test 0" 0] by simp
  have c: "(cnt_step p)\<^sup>*\<^sup>* (two_at k (R_Test 0) (R_Test (?n - v)) (- ?g * int (?n - v)))
      (two_at k (R_Test (?n - 1)) (R_Test (?n - v)) ?l)"
    using own_turns[OF p, of 0 "?n - 1" "R_Test (?n - v)" "- ?g * int (?n - v)"] v by (simp add: of_nat_diff algebra_simps)
  have d: "(cnt_step p)\<^sup>*\<^sup>* (two_at k (R_Test (?n - 1)) (R_Test (?n - v)) ?l)
      (two_at k (R_Store (?n - 1) ?l) (R_Test (?n - v)) ?l)"
    by (rule turns_step[of _ "[Some k, Some k]"]) (use p two_threads[of k] v in \<open>auto simp: two_at_def set_pc_def\<close>)
  have e: "(cnt_step p)\<^sup>*\<^sup>* (two_at k (R_Store (?n - 1) ?l) (R_Test (?n - v)) ?l)
      (two_at k (R_Store (?n - 1) ?l) (R_Test ?n) (?l - ?g * int v))"
    using other_turns[OF p, of "?n - v" v "R_Store (?n - 1) ?l" ?l] v by simp
  have s: "?l + c_offsets p ! k = ?g * int v" using p(1) two_threads[OF p(2)] by (auto simp: sign_def)
  have f: "(cnt_step p)\<^sup>*\<^sup>* (two_at k (R_Store (?n - 1) ?l) (R_Test ?n) (?l - ?g * int v))
      (two_at k (R_Test ?n) (R_Test ?n) (?g * int v))"
    by (rule turns_step[of _ "[Some k]"]) (use p two_threads[OF p(2)] v s in \<open>auto simp: two_at_def set_pc_def\<close>)
  let ?w = "(two_at k R_End R_End (?g * int v))\<lparr>cnt_main := N_Print\<rparr>"
  have g: "(cnt_step p)\<^sup>*\<^sup>* (two_at k (R_Test ?n) (R_Test ?n) (?g * int v)) ?w"
    by (rule turns_step[of _ "[Some 0, Some 1, None, None]"]) (use p two_threads[OF p(2)] in \<open>auto simp: two_at_def set_pc_def\<close>)
  have "(cnt_step p)\<^sup>*\<^sup>* (cnt_start p) ?w"
    using a b c d e f g by (meson rtranclp_trans)
  then have "cnt_prints p (cnt_sum ?w)" by (rule cnt_prints.intros) simp
  then show ?thesis by (simp add: two_at_def)
qed

lemma locked_can_print:
  assumes p: "c_offsets p = [a, b]" "c_locked p"
  shows "cnt_prints p (int (c_loops p) * (a + b))"
proof -
  let ?n = "c_loops p" and ?at = "\<lambda>i. two_at 0 (R_Test i) (R_Test i) (int i * (a + b))"
  have turn: "(cnt_step p)\<^sup>*\<^sup>* (?at i) (?at (Suc i))" if "i < ?n" for i
    by (rule turns_step[of _ "replicate 5 (Some 0) @ replicate 5 (Some 1)"])
       (use p that in \<open>auto simp: two_at_def set_pc_def eval_nat_numeral algebra_simps\<close>)
  have turns: "i \<le> ?n \<Longrightarrow> (cnt_step p)\<^sup>*\<^sup>* (?at 0) (?at i)" for i
  proof (induction i)
    case (Suc i)
    then show ?case using turn[of i] by (meson Suc_le_eq less_imp_le rtranclp_trans)
  qed simp
  have s: "(cnt_step p)\<^sup>*\<^sup>* (cnt_start p) (?at 0)"
    by (rule turns_step[of _ "[None, None]"]) (use p(1) in \<open>auto simp: cnt_start_def two_at_def set_pc_def\<close>)
  let ?w = "(two_at 0 R_End R_End (int ?n * (a + b)))\<lparr>cnt_main := N_Print\<rparr>"
  have g: "(cnt_step p)\<^sup>*\<^sup>* (?at ?n) ?w"
    by (rule turns_step[of _ "[Some 0, Some 1, None, None]"]) (use p in \<open>auto simp: two_at_def set_pc_def\<close>)
  have "(cnt_step p)\<^sup>*\<^sup>* (cnt_start p) ?w"
    using s turns[OF order_refl] g by (meson rtranclp_trans)
  then have "cnt_prints p (cnt_sum ?w)" by (rule cnt_prints.intros) simp
  then show ?thesis by (simp add: two_at_def)
qed

lemma locked_prints_exactly:
  assumes "c_offsets p = [a, b]" "c_locked p"
  shows "{v. cnt_prints p v} = {int (c_loops p) * (a + b)}"
proof (intro equalityI subsetI)
  fix v assume "v \<in> {v. cnt_prints p v}"
  then show "v \<in> {int (c_loops p) * (a + b)}" using locked_prints[OF assms(2), of v] assms(1) by simp
next
  fix v assume "v \<in> {int (c_loops p) * (a + b)}"
  then show "v \<in> {v. cnt_prints p v}" using locked_can_print[OF assms] by simp
qed

lemma race_prints_exactly:
  assumes "c_offsets p = [1, -1]" "\<not> c_locked p" "0 < c_loops p"
  shows "{v. cnt_prints p v} = {- int (c_loops p)..int (c_loops p)}"
proof (intro equalityI subsetI)
  fix v assume "v \<in> {v. cnt_prints p v}"
  then show "v \<in> {- int (c_loops p)..int (c_loops p)}" using race_prints[OF assms(2,1)] by simp
next
  fix v assume v: "v \<in> {- int (c_loops p)..int (c_loops p)}"
  show "v \<in> {v. cnt_prints p v}"
  proof (cases "0 \<le> v")
    case True
    with v overtaken[OF assms(1) _ assms(2), of 0 "nat v"] assms(3) show ?thesis by (simp add: sign_def)
  next
    case False
    with v overtaken[OF assms(1) _ assms(2), of 1 "nat (- v)"] assms(3) show ?thesis by (simp add: sign_def)
  qed
qed

text \<open>
  C30: What the counting programs can print: with the mutex only 0, and 20000000 twice in the benchmark, whose
  threads all count up; without a lock exactly the numbers from -1000000 to 1000000, each of them in
  some order of the threads' loads and stores.
\<close>

theorem counting_results:
  "{v. cnt_prints counting_mutex v} = {0} \<and> {r. benchmark_main r} = {(20000000, 20000000)} \<and>
   {v. cnt_prints counting_nosync v} = {-1000000..1000000}"
proof -
  have "c_offsets benchmark_mutex = [1, 1]" "c_offsets benchmark_spinlock = [1, 1]"
    by (simp_all add: benchmark_mutex_def benchmark_spinlock_def NUM_THREADS_def numeral_2_eq_2)
  moreover have "c_loops benchmark_mutex = 10000000" "c_loops benchmark_spinlock = 10000000"
      "c_locked benchmark_mutex" "c_locked benchmark_spinlock"
    by (simp_all add: benchmark_mutex_def benchmark_spinlock_def NUM_ITERATIONS_def)
  ultimately have "{v. cnt_prints benchmark_mutex v} = {20000000}" "{v. cnt_prints benchmark_spinlock v} = {20000000}"
    using locked_prints_exactly[of benchmark_mutex 1 1] locked_prints_exactly[of benchmark_spinlock 1 1]
    by simp_all
  then have half: "cnt_prints benchmark_mutex v \<longleftrightarrow> v = 20000000" "cnt_prints benchmark_spinlock v \<longleftrightarrow> v = 20000000" for v
    by blast+
  have "benchmark_main r \<longleftrightarrow> r = (20000000, 20000000)" for r
    by (cases r) (simp only: benchmark_main_simps half prod.inject)
  then have "{r. benchmark_main r} = {(20000000, 20000000)}" by blast
  moreover have "{v. cnt_prints counting_mutex v} = {0}"
    using locked_prints_exactly[of counting_mutex 1 "-1"] by (simp add: counting_mutex_def)
  moreover have "{v. cnt_prints counting_nosync v} = {-1000000..1000000}"
    using race_prints_exactly[of counting_nosync] by (simp add: counting_nosync_def NUM_LOOPS_def)
  ultimately show ?thesis by blast
qed

end
