(* ===== verification/Token_Server.thy ===== *)
theory Token_Server
  imports Stdio_Format
begin

text \<open>
  src/sem\_3/examples: mq\_server.c hands out numbers to the clients mq\_client.c through POSIX message queues, one
  for the requests and one for each client.  Any number of clients run beside the server.
\<close>

section \<open>State\<close>

definition MAX_MESSAGES :: nat where "MAX_MESSAGES = 10"

text \<open>A client is about to read from its input, waits for its token, or has ended (with or without removing its queue).\<close>

datatype tok_client = K_New | K_Asking | K_Waiting | K_Exited | K_Bye

text \<open>
  \<open>server_open\<close> counts the descriptors of the server: three standard ones, its own queue, and one for each client's queue it has
  opened.  \<open>got\<close> is what each client has printed.
\<close>

record tok_world =
  token_number :: nat
  server_open :: nat
  server_alive :: bool
  server_queue :: "string list"
  queues :: "string \<rightharpoonup> string list"
  tok_clients :: "nat \<Rightarrow> tok_client"
  got :: "nat \<Rightarrow> string list"

definition tok_start :: tok_world where
  "tok_start = \<lparr>token_number = 1, server_open = 4, server_alive = True, server_queue = [], queues = Map.empty,
     tok_clients = (\<lambda>_. K_New), got = (\<lambda>_. [])\<rparr>"

definition client_queue_name :: "nat \<Rightarrow> string" where
  "client_queue_name p = ''/sp-example-client-'' @ dec_nat p"

section \<open>The server\<close>

text \<open>
  One turn of its loop, once there is a request; \<open>lim\<close> is the number of descriptors the process may have and
  \<open>ok\<close> whether \<open>mq_send\<close> succeeds on a queue that was opened.  The test of \<open>mq_open\<close> is for 1, so that a
  failure goes on to \<open>mq_send\<close>, which fails on the descriptor -1; no descriptor is ever closed.
\<close>

definition server_turn :: "nat \<Rightarrow> bool \<Rightarrow> tok_world \<Rightarrow> tok_world option" where
  "server_turn lim ok w = (case server_queue w of [] \<Rightarrow> None
     | n # q \<Rightarrow> let w1 = w\<lparr>server_queue := q\<rparr> in
         (case queues w n of None \<Rightarrow> Some w1
          | Some ms \<Rightarrow>
              if lim \<le> server_open w then Some w1
              else let w2 = w1\<lparr>server_open := Suc (server_open w)\<rparr> in
                if \<not> ok then Some w2
                else if MAX_MESSAGES \<le> length ms then None
                else Some (w2\<lparr>queues := (queues w)(n \<mapsto> ms @ [dec_nat (token_number w)]),
                       token_number := Suc (token_number w)\<rparr>)))"

section \<open>A client\<close>

definition client_starts :: "nat \<Rightarrow> tok_world \<Rightarrow> tok_world" where
  "client_starts p w = w\<lparr>queues := (queues w)(client_queue_name p \<mapsto>
       (case queues w (client_queue_name p) of None \<Rightarrow> [] | Some ms \<Rightarrow> ms)),
     tok_clients := (tok_clients w)(p := K_Asking)\<rparr>"

definition client_asks :: "nat \<Rightarrow> tok_world \<Rightarrow> tok_world option" where
  "client_asks p w = (if MAX_MESSAGES \<le> length (server_queue w) then None
     else Some (w\<lparr>server_queue := server_queue w @ [client_queue_name p], tok_clients := (tok_clients w)(p := K_Waiting)\<rparr>))"

definition client_receives :: "nat \<Rightarrow> tok_world \<Rightarrow> tok_world option" where
  "client_receives p w = (case queues w (client_queue_name p) of
     Some (m # ms) \<Rightarrow> Some (w\<lparr>queues := (queues w)(client_queue_name p \<mapsto> ms), got := (got w)(p := got w p @ [m]),
       tok_clients := (tok_clients w)(p := K_Asking)\<rparr>)
   | _ \<Rightarrow> None)"

definition client_leaves :: "nat \<Rightarrow> tok_world \<Rightarrow> tok_world" where
  "client_leaves p w = w\<lparr>queues := (queues w)(client_queue_name p := None), tok_clients := (tok_clients w)(p := K_Bye)\<rparr>"

inductive tok_step :: "nat \<Rightarrow> tok_world \<Rightarrow> tok_world \<Rightarrow> bool" for lim where
  serve: "server_alive w \<Longrightarrow> server_turn lim ok w = Some w' \<Longrightarrow> tok_step lim w w'"
| server_exits: "server_alive w \<Longrightarrow> tok_step lim w (w\<lparr>server_alive := False\<rparr>)"
| starts: "tok_clients w p = K_New \<Longrightarrow> tok_step lim w (client_starts p w)"
| asks: "tok_clients w p = K_Asking \<Longrightarrow> client_asks p w = Some w' \<Longrightarrow> tok_step lim w w'"
| receives: "tok_clients w p = K_Waiting \<Longrightarrow> client_receives p w = Some w' \<Longrightarrow> tok_step lim w w'"
| client_fails: "tok_clients w p \<in> {K_Asking, K_Waiting} \<Longrightarrow> tok_step lim w (w\<lparr>tok_clients := (tok_clients w)(p := K_Exited)\<rparr>)"
| start_fails: "tok_clients w p = K_New \<Longrightarrow>
    tok_step lim w ((client_starts p w)\<lparr>tok_clients := (tok_clients w)(p := K_Exited)\<rparr>)"
| leaves: "tok_clients w p = K_Asking \<Longrightarrow> tok_step lim w (client_leaves p w)"

inductive_cases tok_step_cases [consumes 1, case_names serve server_exits starts asks receives client_fails start_fails leaves]:
  "tok_step lim w w'"

section \<open>What the clients get\<close>

lemma name_inj [simp]: "client_queue_name p = client_queue_name q \<longleftrightarrow> p = q"
  by (simp add: client_queue_name_def dec_nat_inj)

text \<open>All that has been sent to a client: what it has printed and what waits in its queue.\<close>

definition pending_tokens :: "nat \<Rightarrow> tok_world \<Rightarrow> string list" where
  "pending_tokens p w = (case queues w (client_queue_name p) of None \<Rightarrow> [] | Some ms \<Rightarrow> ms)"

definition sent_to :: "nat \<Rightarrow> tok_world \<Rightarrow> string list" where
  "sent_to p w = got w p @ pending_tokens p w"

text \<open>
  Every descriptor beyond the first four stands for at most one number; no number is sent twice, to whichever
  client.
\<close>

definition tok_inv :: "nat \<Rightarrow> tok_world \<Rightarrow> bool" where
  "tok_inv lim w \<longleftrightarrow> token_number w + 3 \<le> server_open w \<and> server_open w \<le> max 4 lim \<and>
     (\<forall>n\<in>set (server_queue w). \<exists>p. n = client_queue_name p) \<and>
     (\<forall>p. distinct (sent_to p w) \<and> (\<forall>s\<in>set (sent_to p w). \<exists>n<token_number w. s = dec_nat n)) \<and>
     (\<forall>p q. p \<noteq> q \<longrightarrow> set (sent_to p w) \<inter> set (sent_to q w) = {})"

lemma sent_to_simps [simp]:
  "sent_to p (w\<lparr>server_queue := q\<rparr>) = sent_to p w" "sent_to p (w\<lparr>server_open := k\<rparr>) = sent_to p w"
  "sent_to p (w\<lparr>server_alive := b\<rparr>) = sent_to p w" "sent_to p (w\<lparr>tok_clients := c\<rparr>) = sent_to p w"
  by (simp_all add: sent_to_def pending_tokens_def)

lemma tok_inv_less:
  assumes inv: "tok_inv lim w" and n: "token_number w' = token_number w"
    and o: "server_open w \<le> server_open w'" "server_open w' \<le> max 4 lim"
    and q: "set (server_queue w') \<subseteq> set (server_queue w) \<union> range client_queue_name"
    and s: "\<And>p. sent_to p w' = sent_to p w \<or> sent_to p w' = got w p"
  shows "tok_inv lim w'"
proof -
  have sub: "set (sent_to p w') \<subseteq> set (sent_to p w)" for p using s[of p] by (metis Un_upper1 order_refl sent_to_def set_append)
  have "distinct (sent_to p w')" for p
    using s[of p] inv unfolding tok_inv_def by (metis distinct_append sent_to_def)
  moreover have "\<exists>n<token_number w'. t = dec_nat n" if "t \<in> set (sent_to p w')" for p t
    using that sub[of p] inv n unfolding tok_inv_def by (metis subsetD)
  moreover have "set (sent_to p w') \<inter> set (sent_to r w') = {}" if "p \<noteq> r" for p r
    using that sub[of p] sub[of r] inv unfolding tok_inv_def by blast
  moreover have "\<exists>p. m = client_queue_name p" if "m \<in> set (server_queue w')" for m
    using that q inv unfolding tok_inv_def by blast
  ultimately show ?thesis using inv n o unfolding tok_inv_def by simp
qed

lemma serve_inv:
  assumes inv: "tok_inv lim w" and s: "server_turn lim ok w = Some w'"
  shows "tok_inv lim w'"
proof -
  obtain n q where q: "server_queue w = n # q" using s by (auto simp: server_turn_def split: list.splits)
  have le: "server_open w \<le> max 4 lim" and qs: "\<forall>m\<in>set (server_queue w). \<exists>p. m = client_queue_name p"
    using inv unfolding tok_inv_def by blast+
  show ?thesis
  proof (cases "queues w n")
    case None
    then have w': "w' = w\<lparr>server_queue := q\<rparr>" using s q by (simp add: server_turn_def)
    show ?thesis unfolding w' by (rule tok_inv_less[OF inv]) (use q le in auto)
  next
    case (Some ms)
    consider (full) "lim \<le> server_open w" | (fails) "server_open w < lim" "\<not> ok" | (sent) "server_open w < lim" "ok" by force
    then show ?thesis
    proof cases
      case full
      then have w': "w' = w\<lparr>server_queue := q\<rparr>" using s q Some by (simp add: server_turn_def)
      show ?thesis unfolding w' by (rule tok_inv_less[OF inv]) (use q le in auto)
    next
      case fails
      then have w': "w' = w\<lparr>server_queue := q, server_open := Suc (server_open w)\<rparr>"
        using s q Some by (simp add: server_turn_def)
      show ?thesis unfolding w' by (rule tok_inv_less[OF inv]) (use q fails in auto)
    next
      case sent
      let ?t = "dec_nat (token_number w)"
      have w': "w' = w\<lparr>server_queue := q, server_open := Suc (server_open w), queues := (queues w)(n \<mapsto> ms @ [?t]),
          token_number := Suc (token_number w)\<rparr>"
        using s q Some sent by (simp add: server_turn_def Let_def split: if_splits)
      obtain p where p: "n = client_queue_name p" using qs q by auto
      have st: "sent_to r w' = sent_to r w @ (if r = p then [?t] else [])" for r
        using Some by (simp add: w' sent_to_def pending_tokens_def p)
      have old: "distinct (sent_to r w)" "\<And>t. t \<in> set (sent_to r w) \<Longrightarrow> \<exists>k<token_number w. t = dec_nat k" for r
        using inv unfolding tok_inv_def by blast+
      then have new: "?t \<notin> set (sent_to r w)" for r by (metis dec_nat_inj less_irrefl)
      have disj: "r \<noteq> u \<Longrightarrow> set (sent_to r w) \<inter> set (sent_to u w) = {}" for r u
        using inv unfolding tok_inv_def by blast
      show ?thesis unfolding tok_inv_def
      proof (intro conjI allI impI ballI)
        show "distinct (sent_to r w')" for r using old(1)[of r] new[of r] by (auto simp: st)
        show "\<exists>k<token_number w'. t = dec_nat k" if "t \<in> set (sent_to r w')" for r t
        proof (cases "t = ?t")
          case True
          then show ?thesis by (intro exI[of _ "token_number w"]) (simp add: w')
        next
          case False
          with that have "t \<in> set (sent_to r w)" by (auto simp: st split: if_splits)
          from old(2)[OF this] show ?thesis by (auto simp: w' intro: less_SucI)
        qed
        show "set (sent_to r w') \<inter> set (sent_to u w') = {}" if "r \<noteq> u" for r u
          using disj[OF that] new that by (auto simp: st)
        show "token_number w' + 3 \<le> server_open w'" using inv by (simp add: w' tok_inv_def)
        show "server_open w' \<le> max 4 lim" using sent(1) by (simp add: w')
        show "\<exists>p. m = client_queue_name p" if "m \<in> set (server_queue w')" for m using that qs q by (simp add: w')
      qed
    qed
  qed
qed

lemma tok_step_inv:
  assumes "tok_step lim w w'" "tok_inv lim w"
  shows "tok_inv lim w'"
proof -
  have le: "server_open w \<le> max 4 lim" using assms(2) unfolding tok_inv_def by blast
  note less = tok_inv_less[OF assms(2)]
  from assms(1) show ?thesis
  proof (cases rule: tok_step_cases)
    case (serve ok)
    then show ?thesis using serve_inv[OF assms(2)] by blast
  next
    case (starts p)
    have "sent_to r w' = sent_to r w" for r
      using starts by (auto simp: sent_to_def pending_tokens_def client_starts_def split: option.splits)
    with starts le show ?thesis by (intro less) (auto simp: client_starts_def)
  next
    case (start_fails p)
    have "sent_to r w' = sent_to r w" for r
      using start_fails by (auto simp: sent_to_def pending_tokens_def client_starts_def split: option.splits)
    with start_fails le show ?thesis by (intro less) (auto simp: client_starts_def)
  next
    case (asks p)
    then have w': "w' = w\<lparr>server_queue := server_queue w @ [client_queue_name p], tok_clients := (tok_clients w)(p := K_Waiting)\<rparr>"
      by (simp add: client_asks_def split: if_splits)
    show ?thesis unfolding w' by (rule less) (use le in auto)
  next
    case (receives p)
    then obtain m ms where m: "queues w (client_queue_name p) = Some (m # ms)"
      "w' = w\<lparr>queues := (queues w)(client_queue_name p \<mapsto> ms), got := (got w)(p := got w p @ [m]),
         tok_clients := (tok_clients w)(p := K_Asking)\<rparr>"
      by (auto simp: client_receives_def split: option.splits list.splits)
    have "sent_to r w' = sent_to r w" for r using m by (simp add: sent_to_def pending_tokens_def)
    then show ?thesis by (intro less) (use m le in auto)
  next
    case (leaves p)
    have "sent_to r w' = sent_to r w \<or> sent_to r w' = got w r" for r
      using leaves by (auto simp: sent_to_def pending_tokens_def client_leaves_def)
    then show ?thesis by (intro less) (use leaves le in \<open>auto simp: client_leaves_def\<close>)
  qed (use le in \<open>auto intro: less\<close>)
qed

lemma tok_runs_inv: "(tok_step lim)\<^sup>*\<^sup>* tok_start w \<Longrightarrow> tok_inv lim w"
proof (induction rule: rtranclp_induct)
  case base
  show ?case by (simp add: tok_inv_def tok_start_def sent_to_def pending_tokens_def)
qed (rule tok_step_inv)

section \<open>When the descriptors run out\<close>

definition starved :: "nat \<Rightarrow> nat \<Rightarrow> tok_world \<Rightarrow> bool" where
  "starved lim p w \<longleftrightarrow> lim \<le> server_open w \<and> pending_tokens p w = [] \<and> tok_clients w p \<in> {K_Waiting, K_Exited}"

lemma starved_turn:
  assumes "lim \<le> server_open w" "server_turn lim ok w = Some w'"
  shows "\<exists>q. w' = w\<lparr>server_queue := q\<rparr>"
  using assms by (auto simp: server_turn_def Let_def split: list.splits option.splits)

lemma starved_step:
  assumes "tok_step lim w w'" "starved lim p w"
  shows "starved lim p w' \<and> got w' p = got w p"
  using assms(1)
proof (cases rule: tok_step_cases)
  case (serve ok)
  from starved_turn[OF _ serve(2)] assms(2) obtain q where "w' = w\<lparr>server_queue := q\<rparr>" by (auto simp: starved_def)
  with assms(2) show ?thesis by (simp add: starved_def pending_tokens_def)
next
  case (starts r)
  with assms(2) have "r \<noteq> p" by (auto simp: starved_def)
  with starts assms(2) show ?thesis by (simp add: starved_def pending_tokens_def client_starts_def)
next
  case (start_fails r)
  with assms(2) have "r \<noteq> p" by (auto simp: starved_def)
  with start_fails assms(2) show ?thesis by (simp add: starved_def pending_tokens_def client_starts_def)
next
  case (asks r)
  with assms(2) have "r \<noteq> p" by (auto simp: starved_def)
  with asks assms(2) show ?thesis
    by (auto simp: starved_def pending_tokens_def client_asks_def split: if_splits)
next
  case (receives r)
  have "r \<noteq> p"
  proof
    assume "r = p"
    with receives assms(2) show False
      by (auto simp: starved_def pending_tokens_def client_receives_def split: option.splits list.splits)
  qed
  with receives assms(2) show ?thesis
    by (auto simp: starved_def pending_tokens_def client_receives_def split: option.splits list.splits)
next
  case (leaves r)
  with assms(2) have "r \<noteq> p" by (auto simp: starved_def)
  with leaves assms(2) show ?thesis by (simp add: starved_def pending_tokens_def client_leaves_def)
qed (use assms(2) in \<open>auto simp: starved_def pending_tokens_def\<close>)

lemma starved_runs: "(tok_step lim)\<^sup>*\<^sup>* w w' \<Longrightarrow> starved lim p w \<Longrightarrow> starved lim p w' \<and> got w' p = got w p"
  by (induction rule: rtranclp_induct) (auto dest: starved_step)

text \<open>
  C31: No two clients of the token server get the same number and no client gets one twice, in any
  interleaving; but a server process that may have \<open>lim\<close> descriptors hands out at most \<open>lim - 4\<close>
  numbers in its whole life, because it opens the client's queue anew for each answer and closes none, and
  from then on every client that waits for a number waits for ever.
\<close>

theorem tokens_unique_and_limited:
  assumes "(tok_step lim)\<^sup>*\<^sup>* tok_start w"
  shows "(\<forall>p. distinct (got w p)) \<and> (\<forall>p q. p \<noteq> q \<longrightarrow> set (got w p) \<inter> set (got w q) = {}) \<and>
    token_number w \<le> 1 + (lim - 4) \<and>
    (\<forall>p w'. lim \<le> server_open w \<and> tok_clients w p = K_Waiting \<and> pending_tokens p w = [] \<and> (tok_step lim)\<^sup>*\<^sup>* w w'
      \<longrightarrow> got w' p = got w p)"
proof -
  note inv = tok_runs_inv[OF assms]
  have "distinct (got w p)" for p using inv unfolding tok_inv_def by (metis distinct_append sent_to_def)
  moreover have "set (got w p) \<inter> set (got w q) = {}" if "p \<noteq> q" for p q
    using inv that unfolding tok_inv_def sent_to_def by fastforce
  moreover have "token_number w \<le> 1 + (lim - 4)" using inv unfolding tok_inv_def by linarith
  moreover have "got w' p = got w p" if "lim \<le> server_open w \<and> tok_clients w p = K_Waiting \<and> pending_tokens p w = [] \<and> (tok_step lim)\<^sup>*\<^sup>* w w'" for p w'
    using starved_runs[of lim w w' p] that by (simp add: starved_def)
  ultimately show ?thesis by blast
qed

text \<open>One client and a server that may have five descriptors: the second request stays without an answer.\<close>

definition second_request :: tok_world where
  "second_request = \<lparr>token_number = 2, server_open = 5, server_alive = True, server_queue = [],
     queues = [client_queue_name 1 \<mapsto> []], tok_clients = (\<lambda>_. K_New)(1 := K_Waiting), got = (\<lambda>_. [])(1 := [dec_nat 1])\<rparr>"

lemma second_request_reached: "(tok_step 5)\<^sup>*\<^sup>* tok_start second_request"
proof -
  let ?n = "client_queue_name 1"
  let ?w = "\<lambda>t ss q c g. \<lparr>token_number = t, server_open = ss, server_alive = True, server_queue = q,
     queues = [?n \<mapsto> c], tok_clients = (\<lambda>_. K_New)(1 := g), got = (\<lambda>_. [])\<rparr>"
  let ?v = "\<lambda>q g. (?w 2 5 q [] g)\<lparr>got := (\<lambda>_. [])(1 := [dec_nat 1])\<rparr>"
  have "tok_step 5 tok_start (?w 1 4 [] [] K_Asking)"
    using tok_step.starts[of tok_start 1 5] by (simp add: tok_start_def client_starts_def)
  moreover have "tok_step 5 (?w 1 4 [] [] K_Asking) (?w 1 4 [?n] [] K_Waiting)"
    by (rule tok_step.asks[of _ 1]) (simp_all add: client_asks_def MAX_MESSAGES_def)
  moreover have "tok_step 5 (?w 1 4 [?n] [] K_Waiting) (?w 2 5 [] [dec_nat 1] K_Waiting)"
    by (rule tok_step.serve[of _ _ True]) (simp_all add: server_turn_def MAX_MESSAGES_def eval_nat_numeral)
  moreover have "tok_step 5 (?w 2 5 [] [dec_nat 1] K_Waiting) (?v [] K_Asking)"
    by (rule tok_step.receives[of _ 1]) (simp_all add: client_receives_def)
  moreover have "tok_step 5 (?v [] K_Asking) (?v [?n] K_Waiting)"
    by (rule tok_step.asks[of _ 1]) (simp_all add: client_asks_def MAX_MESSAGES_def)
  moreover have "tok_step 5 (?v [?n] K_Waiting) second_request"
    by (rule tok_step.serve[of _ _ True]) (simp_all add: server_turn_def second_request_def)
  ultimately show ?thesis by (meson converse_rtranclp_into_rtranclp rtranclp.rtrancl_refl)
qed

theorem tokens_unique_and_limited_witness:
  "(tok_step 5)\<^sup>*\<^sup>* tok_start second_request \<and> token_number second_request \<le> 2 \<and> got second_request 1 = [dec_nat 1] \<and>
   (\<nexists>w. (tok_step 5)\<^sup>*\<^sup>* second_request w \<and> got w 1 \<noteq> [dec_nat 1])"
proof -
  note T = tokens_unique_and_limited[OF second_request_reached]
  have s: "server_open second_request = 5" "tok_clients second_request 1 = K_Waiting"
    "pending_tokens 1 second_request = []" "got second_request 1 = [dec_nat 1]"
    by (simp_all add: second_request_def pending_tokens_def)
  have "token_number second_request \<le> 1 + (5 - 4)" using T by blast
  moreover have "got w 1 = [dec_nat 1]" if "(tok_step 5)\<^sup>*\<^sup>* second_request w" for w
    using T[THEN conjunct2, THEN conjunct2, THEN conjunct2, rule_format, of 1 w] that s by simp
  ultimately show ?thesis using second_request_reached s(4) by auto
qed

end
