(* ===== verification/Seq_Pipe.thy ===== *)
theory Seq_Pipe
  imports Shell
begin

text \<open>
  src/sem\_1/examples/10\_exec\_pipes.c: a pipeline that starts a command only when the one before it has ended, with at
  most two pipes at a time.  Its opening remark lists the descriptor numbers of one run; the model computes
  them from the rule of the lowest free number.
\<close>

section \<open>The program\<close>

text \<open>
  \<open>s_pipes\<close> is what each pipe holds, \<open>s_shown\<close> the numbers that the two \<open>printf\<close>s show: both ends of the
  new pipe and \<open>fd_in\<close>.
\<close>

record seq_world =
  s_tab :: ptab
  s_in :: fd
  s_pipes :: "nat \<Rightarrow> bytes"
  s_screen :: bytes
  s_shown :: "(fd \<times> fd \<times> fd) list"

text \<open>
  What the program runs on: \<open>prog\<close> is what a command writes for what it reads (\<open>None\<close> if \<open>execvp\<close> cannot
  find it), \<open>fork_works\<close> whether the fork of each turn succeeds.
\<close>

record seq_env =
  prog :: "argv \<Rightarrow> (bytes \<Rightarrow> bytes) option"
  capacity :: nat
  typed :: bytes
  fork_works :: "nat \<Rightarrow> bool"

definition seq_child :: "bool \<Rightarrow> bool \<Rightarrow> fd \<Rightarrow> fd \<Rightarrow> fd \<Rightarrow> ptab \<Rightarrow> ptab" where
  "seq_child is_first is_last fd_in r w t =
     (let t1 = (if is_first then t else fd_dup2 fd_in 0 t);
          t2 = (if is_last then t1 else fd_dup2 w 1 t1)
      in fd_close r t2)"

text \<open>
  The input ends when no write end is open, in the child or in the waiting parent \<open>t\<close>; nobody reads the
  pipe that the child writes to, so that more than it can hold blocks it.  A command that cannot be executed
  ends with 2.
\<close>

definition child_input :: "seq_env \<Rightarrow> ptab \<Rightarrow> ptab \<Rightarrow> seq_world \<Rightarrow> bytes option" where
  "child_input e tb t s = (case map_of tb 0 of
     Some (PipeR k) \<Rightarrow> if PipeW k \<in> snd ` set tb \<or> PipeW k \<in> snd ` set t then None else Some (s_pipes s k)
   | Some (Term n) \<Rightarrow> Some (typed e)
   | _ \<Rightarrow> Some [])"

definition child_output :: "seq_env \<Rightarrow> ptab \<Rightarrow> bytes \<Rightarrow> seq_world \<Rightarrow> seq_world option" where
  "child_output e tb out s = (case map_of tb 1 of
     Some (PipeW k) \<Rightarrow> if length (s_pipes s k) + length out \<le> capacity e
       then Some (s\<lparr>s_pipes := (s_pipes s)(k := s_pipes s k @ out)\<rparr>) else None
   | Some (Term n) \<Rightarrow> Some (s\<lparr>s_screen := s_screen s @ out\<rparr>)
   | _ \<Rightarrow> Some s)"

definition seq_exec :: "seq_env \<Rightarrow> argv \<Rightarrow> ptab \<Rightarrow> ptab \<Rightarrow> seq_world \<Rightarrow> seq_world option" where
  "seq_exec e a tb t s = (case prog e a of
     None \<Rightarrow> Some s
   | Some f \<Rightarrow> (case child_input e tb t s of None \<Rightarrow> None | Some inp \<Rightarrow> child_output e tb (f inp) s))"

text \<open>How the loop ends; \<open>Waits i\<close>: in the \<open>wait\<close> for command \<open>i\<close>, which never ends.\<close>

datatype seq_end = Returned | Exited int | Waits nat

fun seq_loop :: "seq_env \<Rightarrow> nat \<Rightarrow> argv list \<Rightarrow> seq_world \<Rightarrow> seq_end \<times> seq_world" where
  "seq_loop e i [] s = (Returned, s)"
| "seq_loop e i (a # as) s = (case mk_pipe i (s_tab s) of (r, w, t) \<Rightarrow>
     let s1 = s\<lparr>s_tab := t, s_shown := s_shown s @ [(r, w, s_in s)]\<rparr> in
     if \<not> fork_works e i then (Exited 1, s1)
     else (case seq_exec e a (seq_child (i = 0) (as = []) (s_in s) r w t) t s1 of
         None \<Rightarrow> (Waits i, s1)
       | Some s2 \<Rightarrow> let t1 = fd_close w t in
           seq_loop e (Suc i) as (s2\<lparr>s_tab := (if i = 0 then t1 else fd_close (s_in s) t1), s_in := r\<rparr>)))"

definition std_table :: ptab where "std_table = [(0, Term 0), (1, Term 1), (2, Term 2)]"

definition seq_pipe :: "seq_env \<Rightarrow> argv list \<Rightarrow> seq_end \<times> seq_world" where
  "seq_pipe e cmd = seq_loop e 0 cmd
     \<lparr>s_tab = std_table, s_in = 0, s_pipes = (\<lambda>_. []), s_screen = [], s_shown = []\<rparr>"

definition seq_main :: "seq_env \<Rightarrow> seq_end \<times> seq_world" where
  "seq_main e = seq_pipe e [[''/bin/ls'', ''-ltr'', ''.''], [''grep'', ''rw''], [''grep'', ''1''], [''grep'', ''89'']]"

section \<open>What it computes\<close>

text \<open>The output of every command, each on the output of the one before it.\<close>

definition runs_as :: "seq_env \<Rightarrow> argv \<Rightarrow> bytes \<Rightarrow> bytes" where
  "runs_as e a inp = (case prog e a of None \<Rightarrow> [] | Some f \<Rightarrow> f inp)"

fun outputs :: "seq_env \<Rightarrow> argv list \<Rightarrow> bytes \<Rightarrow> bytes list" where
  "outputs e [] inp = []"
| "outputs e (a # as) inp = runs_as e a inp # outputs e as (runs_as e a inp)"

text \<open>The numbers in each turn.\<close>

definition fd_in_at :: "nat \<Rightarrow> fd" where
  "fd_in_at i = (if i = 0 then 0 else if odd i then 3 else 4)"

definition shown_at :: "nat \<Rightarrow> fd \<times> fd \<times> fd" where
  "shown_at i = (fd_in_at (Suc i), if i = 0 then 4 else 5, fd_in_at i)"

text \<open>How many commands get to their end.\<close>

fun ended :: "nat \<Rightarrow> bytes list \<Rightarrow> nat" where
  "ended cap [] = 0" | "ended cap [x] = 1"
| "ended cap (x # y # ys) = (if length x \<le> cap then Suc (ended cap (y # ys)) else 0)"

lemma ended_le: "ended cap xs \<le> length xs"
  by (induction cap xs rule: ended.induct) auto

lemma length_outputs [simp]: "length (outputs e as inp) = length as"
  by (induction as arbitrary: inp) auto

lemma ended_all: "ended cap xs = length xs \<longleftrightarrow> (\<forall>x\<in>set (butlast xs). length x \<le> cap)"
proof (induction cap xs rule: ended.induct)
  case (3 cap x y ys)
  then show ?case using ended_le[of cap "y # ys"] by auto
qed auto

text \<open>Before turn \<open>i\<close>, when the command before it has left \<open>inp\<close>.\<close>

definition table_at :: "nat \<Rightarrow> ptab" where
  "table_at i = (if i = 0 then std_table else (fd_in_at i, PipeR (i - 1)) # std_table)"

definition seq_stage :: "seq_env \<Rightarrow> nat \<Rightarrow> bytes \<Rightarrow> seq_world \<Rightarrow> bool" where
  "seq_stage e i inp s \<longleftrightarrow> s_tab s = table_at i \<and> s_in s = fd_in_at i \<and>
     (if i = 0 then inp = typed e else s_pipes s (i - 1) = inp) \<and> (\<forall>k\<ge>i. s_pipes s k = [])"

lemma two_parities: "i = 0 \<or> i \<noteq> 0 \<and> odd i \<and> fd_in_at i = 3 \<and> fd_in_at (Suc i) = 4
    \<or> i \<noteq> 0 \<and> even i \<and> fd_in_at i = 4 \<and> fd_in_at (Suc i) = 3"
  by (auto simp: fd_in_at_def)

lemma pipe_numbers:
  "lowest_free [0, 1, 2] = 3" "lowest_free [3, 0, 1, 2] = 4" "lowest_free [4, 0, 1, 2] = 3"
  "lowest_free [4, 3, 0, 1, 2] = 5" "lowest_free [3, 4, 0, 1, 2] = 5"
  by (simp_all add: lowest_free_def upt_rec)

text \<open>The parent's table while the child of turn \<open>i\<close> runs.\<close>

definition write_end :: "nat \<Rightarrow> fd" where "write_end i = (if i = 0 then 4 else 5)"

definition piped_at :: "nat \<Rightarrow> ptab" where
  "piped_at i = (write_end i, PipeW i) # (fd_in_at (Suc i), PipeR i) # table_at i"

lemma mk_pipe_at: "mk_pipe i (table_at i) = (fd_in_at (Suc i), write_end i, piped_at i)"
  using two_parities[of i]
  by (elim disjE conjE) (simp_all add: mk_pipe_def fd_open_def Let_def table_at_def std_table_def write_end_def piped_at_def
    pipe_numbers fd_in_at_def)

lemma shown_at_eq: "shown_at i = (fd_in_at (Suc i), write_end i, fd_in_at i)"
  by (simp add: shown_at_def write_end_def)

lemma exec_at:
  assumes "seq_stage e i inp s" "s1 = s\<lparr>s_tab := t, s_shown := l\<rparr>" "t = piped_at i"
  shows "seq_exec e a (seq_child (i = 0) is_last (fd_in_at i) (fd_in_at (Suc i)) (write_end i) t) t s1 =
    (if is_last then Some (s1\<lparr>s_screen := s_screen s @ runs_as e a inp\<rparr>)
     else if length (runs_as e a inp) \<le> capacity e then Some (s1\<lparr>s_pipes := (s_pipes s)(i := runs_as e a inp)\<rparr>) else None)"
proof -
  let ?tb = "seq_child (i = 0) is_last (fd_in_at i) (fd_in_at (Suc i)) (write_end i) t"
  have i: "child_input e ?tb t s1 = Some inp"
    using two_parities[of i] assms
    by (elim disjE conjE) (auto simp: child_input_def seq_child_def Let_def map_of_dup2 fd_close_def fd_dup2_def
      piped_at_def write_end_def table_at_def std_table_def seq_stage_def fd_in_at_def)
  have o: "map_of ?tb 1 = Some (if is_last then Term 1 else PipeW i)"
    using two_parities[of i] assms(3)
    by (elim disjE conjE) (auto simp: seq_child_def Let_def map_of_dup2 piped_at_def write_end_def table_at_def std_table_def fd_in_at_def)
  have "s_pipes s i = []" using assms(1) by (simp add: seq_stage_def)
  then have "seq_exec e a tb t s1 =
      (if is_last then Some (s1\<lparr>s_screen := s_screen s @ runs_as e a inp\<rparr>)
       else if length (runs_as e a inp) \<le> capacity e then Some (s1\<lparr>s_pipes := (s_pipes s)(i := runs_as e a inp)\<rparr>) else None)"
    if "child_input e tb t s1 = Some inp" "map_of tb 1 = Some (if is_last then Term 1 else PipeW i)" for tb
    using that assms(2)
    by (cases is_last; cases "prog e a") (simp_all add: seq_exec_def runs_as_def child_output_def fun_upd_idem)
  from this[OF i o] show ?thesis .
qed

lemma closes_at:
  "(if i = 0 then fd_close (write_end i) (piped_at i) else fd_close (fd_in_at i) (fd_close (write_end i) (piped_at i)))
    = table_at (Suc i)"
  using two_parities[of i]
  by (elim disjE conjE) (simp_all add: fd_close_def piped_at_def write_end_def table_at_def std_table_def fd_in_at_def)

text \<open>One turn of the loop.\<close>

lemma seq_turn:
  assumes st: "seq_stage e i inp s" and ok: "fork_works e i"
  shows "seq_loop e i (a # as) s =
    (let s1 = s\<lparr>s_tab := piped_at i, s_shown := s_shown s @ [shown_at i]\<rparr>;
         n = (\<lambda>s2. s2\<lparr>s_tab := table_at (Suc i), s_in := fd_in_at (Suc i)\<rparr>) in
     if as = [] then (Returned, n (s1\<lparr>s_screen := s_screen s @ runs_as e a inp\<rparr>))
     else if length (runs_as e a inp) \<le> capacity e
       then seq_loop e (Suc i) as (n (s1\<lparr>s_pipes := (s_pipes s)(i := runs_as e a inp)\<rparr>))
     else (Waits i, s1))"
proof -
  have tab: "s_tab s = table_at i" "s_in s = fd_in_at i" using st by (simp_all add: seq_stage_def)
  note ex = exec_at[OF st refl refl, of a "as = []" "s_shown s @ [shown_at i]"]
  show ?thesis
  proof (cases "as = []")
    case True
    then show ?thesis using ok ex closes_at[of i]
      by (auto simp: mk_pipe_at tab Let_def shown_at_eq[symmetric] cong: if_cong split del: if_split)
  next
    case False
    then show ?thesis using ok ex closes_at[of i]
      by (cases "length (runs_as e a inp) \<le> capacity e")
         (simp_all add: mk_pipe_at tab Let_def shown_at_eq[symmetric] cong: if_cong split del: if_split)
  qed
qed

lemma stage_next:
  "seq_stage e i inp s \<Longrightarrow> seq_stage e (Suc i) out
    (s\<lparr>s_shown := l, s_pipes := (s_pipes s)(i := out), s_tab := table_at (Suc i), s_in := fd_in_at (Suc i)\<rparr>)"
  by (simp add: seq_stage_def)

definition all_ended :: "seq_env \<Rightarrow> argv list \<Rightarrow> bytes \<Rightarrow> bool" where
  "all_ended e as inp \<longleftrightarrow> (\<forall>x\<in>set (butlast (outputs e as inp)). length x \<le> capacity e)"

lemma outputs_nonempty [simp]: "outputs e as inp = [] \<longleftrightarrow> as = []"
  by (cases as) auto

lemma all_ended_Cons: "as \<noteq> [] \<Longrightarrow> all_ended e (a # as) inp \<longleftrightarrow>
    length (runs_as e a inp) \<le> capacity e \<and> all_ended e as (runs_as e a inp)"
  by (simp add: all_ended_def)

lemma ended_Cons: "xs \<noteq> [] \<Longrightarrow> ended cap (x # xs) = (if length x \<le> cap then Suc (ended cap xs) else 0)"
  by (cases xs) auto

lemma seq_loop_runs:
  assumes "seq_stage e i inp s" "\<forall>j. fork_works e j" "as \<noteq> []"
  shows "(let m = ended (capacity e) (outputs e as inp); all = all_ended e as inp in
    fst (seq_loop e i as s) = (if all then Returned else Waits (i + m)) \<and>
    s_screen (snd (seq_loop e i as s)) = s_screen s @ (if all then last (outputs e as inp) else []) \<and>
    s_shown (snd (seq_loop e i as s)) = s_shown s @ map shown_at [i..<i + (if all then m else Suc m)] \<and>
    (all \<longrightarrow> s_tab (snd (seq_loop e i as s)) = table_at (i + m)))"
  using assms(1,3)
proof (induction as arbitrary: i inp s)
  case (Cons a as)
  have ok: "fork_works e i" using assms(2) by blast
  note T = seq_turn[OF Cons.prems(1) ok, of a as]
  show ?case
  proof (cases "as = []")
    case True
    then show ?thesis using T by (simp add: all_ended_def Let_def)
  next
    case ne: False
    let ?o = "runs_as e a inp"
    show ?thesis
    proof (cases "length ?o \<le> capacity e")
      case False
      then show ?thesis using T ne by (simp add: all_ended_Cons ended_Cons Let_def)
    next
      case True
      note IH = Cons.IH[OF stage_next[OF Cons.prems(1)] ne, of ?o "s_shown s @ [shown_at i]"]
      from T ne True have "seq_loop e i (a # as) s = seq_loop e (Suc i) as (s\<lparr>s_shown := s_shown s @ [shown_at i],
          s_pipes := (s_pipes s)(i := ?o), s_tab := table_at (Suc i), s_in := fd_in_at (Suc i)\<rparr>)"
        by (simp add: Let_def del: seq_loop.simps)
      with IH ne True show ?thesis
        by (cases "all_ended e as ?o")
           (simp_all add: all_ended_Cons ended_Cons Let_def upt_conv_Cons del: upt_Suc seq_loop.simps)
    qed
  qed
qed simp

text \<open>
  C28: When every fork succeeds, the program shows in turn after turn the numbers of its opening remark (3 4 0, then 4 5 3
  and 3 5 4 by turns), for any number of commands.  It returns exactly when the output of each command but the
  last fits into a pipe, and then the screen has what the last command makes of the outputs of the ones before,
  and the read end of the last pipe is left open; otherwise it waits for ever for the first command whose output does
  not fit, and the screen stays empty.
\<close>

theorem seq_pipe_runs:
  assumes "cmd \<noteq> []" "\<forall>j. fork_works e j"
  shows "(let m = ended (capacity e) (outputs e cmd (typed e));
      all = (\<forall>x\<in>set (butlast (outputs e cmd (typed e))). length x \<le> capacity e); r = seq_pipe e cmd in
    fst r = (if all then Returned else Waits m) \<and>
    s_screen (snd r) = (if all then last (outputs e cmd (typed e)) else []) \<and>
    s_shown (snd r) = map (\<lambda>i. if i = 0 then (3, 4, 0) else if odd i then (4, 5, 3) else (3, 5, 4))
      [0..<if all then length cmd else Suc m] \<and>
    (all \<longrightarrow> s_tab (snd r) = (if odd (length cmd) then 3 else 4, PipeR (length cmd - 1)) # std_table))"
proof -
  let ?s = "\<lparr>s_tab = std_table, s_in = 0, s_pipes = (\<lambda>_. []), s_screen = [], s_shown = []\<rparr>"
  have "seq_stage e 0 (typed e) ?s" by (simp add: seq_stage_def table_at_def fd_in_at_def)
  note R = seq_loop_runs[OF this assms(2,1)]
  have sh: "shown_at = (\<lambda>i. if i = 0 then (3, 4, 0) else if odd i then (4, 5, 3) else (3, 5, 4))"
    by (auto simp: shown_at_def fd_in_at_def)
  have m: "ended (capacity e) (outputs e cmd (typed e)) = length cmd" if "all_ended e cmd (typed e)"
    using that ended_all[of "capacity e" "outputs e cmd (typed e)"] by (simp add: all_ended_def)
  have t: "table_at (length cmd) = (if odd (length cmd) then 3 else 4, PipeR (length cmd - 1)) # std_table"
    using assms(1) by (simp add: table_at_def fd_in_at_def)
  show ?thesis
  proof (cases "all_ended e cmd (typed e)")
    case True
    with R m[OF True] t show ?thesis by (simp add: seq_pipe_def Let_def sh flip: all_ended_def)
  next
    case False
    with R show ?thesis by (simp add: seq_pipe_def Let_def sh flip: all_ended_def del: upt_Suc)
  qed
qed

text \<open>Two commands that copy, with pipes for three bytes: two bytes get through, four do not.\<close>

theorem seq_pipe_runs_witness:
  "(let e = \<lparr>prog = (\<lambda>_. Some id), capacity = 3, typed = ''ab'', fork_works = (\<lambda>_. True)\<rparr> in
     fst (seq_pipe e [[''cat''], [''cat'']]) = Returned \<and> s_screen (snd (seq_pipe e [[''cat''], [''cat'']])) = ''ab'' \<and>
     s_shown (snd (seq_pipe e [[''cat''], [''cat'']])) = [(3, 4, 0), (4, 5, 3)] \<and>
     fst (seq_pipe (e\<lparr>typed := ''abcd''\<rparr>) [[''cat''], [''cat'']]) = Waits 0)"
proof -
  let ?e = "\<lparr>prog = (\<lambda>_. Some id), capacity = 3, typed = ''ab'', fork_works = (\<lambda>_. True)\<rparr>"
  have "[0..<2] = [0, 1 :: nat]" by (simp add: upt_rec)
  with seq_pipe_runs[of "[[''cat''], [''cat'']]" ?e] seq_pipe_runs[of "[[''cat''], [''cat'']]" "?e\<lparr>typed := ''abcd''\<rparr>"]
  show ?thesis by (simp add: runs_as_def Let_def)
qed

end
