(* ===== verification/Tcp_Echo.thy ===== *)
theory Tcp_Echo
  imports CString
begin

text \<open>
  src/task\_8/examples: tcp\_server.c echoes what a connection sends, tcp\_client.c sends words and shows the echo.  A connection
  is two streams of bytes; how many bytes a \<open>read\<close> returns is left to the run.
\<close>

section \<open>A connection\<close>

definition BUF_SIZE :: nat where "BUF_SIZE = 4096"

text \<open>Where the client is: about to call what the constructor names.  \<open>TC_Killed\<close>: by SIGPIPE.\<close>

datatype tcp_client = TC_Connect | TC_Scan | TC_Write | TC_Read | TC_Print | TC_Refused | TC_Overflow | TC_Killed | TC_Exit

text \<open>The thread that serves the connection: not accepted yet, reading, writing what it has read, ended.\<close>

datatype tcp_handler = TH_None | TH_Read | TH_Write bytes | TH_Closed

text \<open>
  \<open>words\<close> is what \<open>scanf\<close> will still find; \<open>asked\<close>, \<open>shown\<close> and \<open>received\<close> record what the client has
  sent, printed and read.
\<close>

record tcp_conn =
  tcp_client :: tcp_client
  tcp_buffer :: bytes
  tcp_words :: "string list"
  asked :: "string list"
  shown :: "string list"
  received :: bytes
  tcp_handler :: tcp_handler
  to_server :: bytes
  to_client :: bytes

definition tcp_start :: "string list \<Rightarrow> tcp_conn" where
  "tcp_start ws = \<lparr>tcp_client = TC_Connect, tcp_buffer = replicate BUF_SIZE NUL, tcp_words = ws, asked = [], shown = [],
     received = [], tcp_handler = TH_None, to_server = [], to_client = []\<rparr>"

definition into_buffer :: "bytes \<Rightarrow> bytes \<Rightarrow> bytes" where
  "into_buffer d b = d @ drop (length d) b"

section \<open>The client\<close>

text \<open>\<open>scanf\<close> leaves the buffer as it is at the end of the input; the result is not looked at.\<close>

definition tcp_scan :: "tcp_conn \<Rightarrow> tcp_conn" where
  "tcp_scan c = (case tcp_words c of
     [] \<Rightarrow> c\<lparr>tcp_client := (if cstr (tcp_buffer c) = ''exit'' then TC_Exit else TC_Write)\<rparr>
   | w # ws \<Rightarrow>
       if BUF_SIZE \<le> length w then c\<lparr>tcp_client := TC_Overflow\<rparr>
       else let b = into_buffer (w @ [NUL]) (tcp_buffer c) in c\<lparr>tcp_words := ws, tcp_buffer := b,
         tcp_client := (if cstr b = ''exit'' then TC_Exit else TC_Write)\<rparr>)"

definition tcp_write :: "tcp_conn \<Rightarrow> tcp_conn" where
  "tcp_write c = c\<lparr>to_server := to_server c @ cstr (tcp_buffer c) @ [NUL], asked := asked c @ [cstr (tcp_buffer c)],
     tcp_client := TC_Read\<rparr>"

definition tcp_read :: "nat \<Rightarrow> tcp_conn \<Rightarrow> tcp_conn" where
  "tcp_read n c = (let d = take n (to_client c) in c\<lparr>to_client := drop n (to_client c), received := received c @ d,
     tcp_buffer := into_buffer d (tcp_buffer c), tcp_client := TC_Print\<rparr>)"

definition tcp_print :: "tcp_conn \<Rightarrow> tcp_conn" where
  "tcp_print c = c\<lparr>shown := shown c @ [cstr (tcp_buffer c)], tcp_client := TC_Scan\<rparr>"

section \<open>Actions\<close>

text \<open>
  The last two are of the handler when the client has gone: \<open>read\<close> returns 0 or fails, \<open>write\<close> fails.
\<close>

datatype tcp_act = Connects | Refused | Accepts | Scans | Writes | Write_Kills | Reads nat | Read_Ends | Prints
  | H_Reads nat | H_Writes | H_Ends | H_Write_Fails

definition client_gone :: "tcp_conn \<Rightarrow> bool" where
  "client_gone c \<longleftrightarrow> tcp_client c \<in> {TC_Overflow, TC_Killed, TC_Exit}"

fun handler_act :: "tcp_act \<Rightarrow> tcp_conn \<Rightarrow> tcp_conn option" where
  "handler_act (H_Reads n) c =
     (if tcp_handler c = TH_Read \<and> 0 < n \<and> n \<le> BUF_SIZE - 1 \<and> n \<le> length (to_server c)
      then Some (c\<lparr>tcp_handler := TH_Write (take n (to_server c)), to_server := drop n (to_server c)\<rparr>) else None)"
| "handler_act H_Ends c =
     (if tcp_handler c = TH_Read \<and> client_gone c then Some (c\<lparr>tcp_handler := TH_Closed\<rparr>) else None)"
| "handler_act H_Writes c = (case tcp_handler c of
     TH_Write d \<Rightarrow> Some (c\<lparr>tcp_handler := TH_Read, to_client := to_client c @ d\<rparr>) | _ \<Rightarrow> None)"
| "handler_act H_Write_Fails c = (case tcp_handler c of
     TH_Write d \<Rightarrow> if client_gone c then Some (c\<lparr>tcp_handler := TH_Closed\<rparr>) else None | _ \<Rightarrow> None)"
| "handler_act a c = None"

fun client_act :: "tcp_act \<Rightarrow> tcp_conn \<Rightarrow> tcp_conn option" where
  "client_act Connects c = (if tcp_client c = TC_Connect then Some (c\<lparr>tcp_client := TC_Scan\<rparr>) else None)"
| "client_act Refused c = (if tcp_client c = TC_Connect then Some (c\<lparr>tcp_client := TC_Refused\<rparr>) else None)"
| "client_act Scans c = (if tcp_client c = TC_Scan then Some (tcp_scan c) else None)"
| "client_act Writes c = (if tcp_client c = TC_Write then Some (tcp_write c) else None)"
| "client_act Write_Kills c =
     (if tcp_client c = TC_Write \<and> tcp_handler c = TH_Closed then Some (c\<lparr>tcp_client := TC_Killed\<rparr>) else None)"
| "client_act (Reads n) c =
     (if tcp_client c = TC_Read \<and> 0 < n \<and> n \<le> BUF_SIZE \<and> n \<le> length (to_client c) then Some (tcp_read n c) else None)"
| "client_act Read_Ends c =
     (if tcp_client c = TC_Read \<and> tcp_handler c = TH_Closed then Some (c\<lparr>tcp_client := TC_Print\<rparr>) else None)"
| "client_act Prints c = (if tcp_client c = TC_Print then Some (tcp_print c) else None)"
| "client_act a c = None"

text \<open>\<open>main\<close> of the server accepts a connection and starts the thread.\<close>

definition accept_act :: "tcp_act \<Rightarrow> tcp_conn \<Rightarrow> tcp_conn option" where
  "accept_act a c = (if a = Accepts \<and> tcp_handler c = TH_None \<and> tcp_client c \<noteq> TC_Connect \<and> tcp_client c \<noteq> TC_Refused
     then Some (c\<lparr>tcp_handler := TH_Read\<rparr>) else None)"

inductive tcp_step :: "tcp_conn \<Rightarrow> tcp_conn \<Rightarrow> bool" where
  client: "client_act a c = Some c' \<Longrightarrow> tcp_step c c'"
| handler: "handler_act a c = Some c' \<Longrightarrow> tcp_step c c'"
| accept: "accept_act a c = Some c' \<Longrightarrow> tcp_step c c'"

text \<open>The runs in which each \<open>read\<close> of the client returns all that is under way.\<close>

fun read_whole :: "tcp_act \<Rightarrow> tcp_conn \<Rightarrow> bool" where
  "read_whole (Reads n) c = (n = length (to_client c) \<and> to_server c = [] \<and> tcp_handler c = TH_Read)"
| "read_whole a c = True"

inductive tcp_whole :: "tcp_conn \<Rightarrow> tcp_conn \<Rightarrow> bool" where
  client: "client_act a c = Some c' \<Longrightarrow> read_whole a c \<Longrightarrow> tcp_whole c c'"
| handler: "handler_act a c = Some c' \<Longrightarrow> tcp_whole c c'"
| accept: "accept_act a c = Some c' \<Longrightarrow> tcp_whole c c'"

section \<open>Nothing is lost or changed\<close>

definition message_of :: "string \<Rightarrow> bytes" where "message_of w = w @ [NUL]"

fun held :: "tcp_handler \<Rightarrow> bytes" where "held (TH_Write d) = d" | "held _ = []"

definition flow_ok :: "tcp_conn \<Rightarrow> bool" where
  "flow_ok c \<longleftrightarrow> received c @ to_client c @ held (tcp_handler c) @ to_server c = concat (map message_of (asked c))"

definition conn_ok :: "tcp_conn \<Rightarrow> bool" where
  "conn_ok c \<longleftrightarrow> (tcp_handler c \<noteq> TH_Closed \<longrightarrow> flow_ok c) \<and> (tcp_handler c = TH_Closed \<longrightarrow> client_gone c)"

lemma client_keeps:
  assumes "client_act a c = Some c'" "conn_ok c"
  shows "conn_ok c'"
proof (cases a)
  case (Reads n)
  with assms show ?thesis by (auto simp: conn_ok_def flow_ok_def client_gone_def tcp_read_def Let_def take_drop_append split: if_splits)
qed (use assms in \<open>auto simp: conn_ok_def flow_ok_def client_gone_def tcp_scan_def tcp_write_def tcp_print_def message_of_def Let_def
    split: if_splits list.splits\<close>)

lemma handler_keeps:
  assumes "handler_act a c = Some c'" "conn_ok c"
  shows "conn_ok c'"
proof (cases a)
  case (H_Reads n)
  with assms show ?thesis by (auto simp: conn_ok_def flow_ok_def client_gone_def split: if_splits)
qed (use assms in \<open>auto simp: conn_ok_def flow_ok_def client_gone_def split: if_splits tcp_handler.splits\<close>)

lemma accept_keeps: "accept_act a c = Some c' \<Longrightarrow> conn_ok c \<Longrightarrow> conn_ok c'"
  by (auto simp: accept_act_def conn_ok_def flow_ok_def client_gone_def split: if_splits)

lemma tcp_runs_ok:
  assumes "tcp_step\<^sup>*\<^sup>* (tcp_start ws) c"
  shows "conn_ok c"
  using assms
proof (induction rule: rtranclp_induct)
  case base
  show ?case by (simp add: conn_ok_def flow_ok_def tcp_start_def)
next
  case (step b c)
  from step(2,3) show ?case by (auto elim!: tcp_step.cases intro: client_keeps handler_keeps accept_keeps)
qed

section \<open>Runs with whole reads\<close>

text \<open>The word number \<open>k\<close> that the client sends: at the end of the input the last one again.\<close>

definition word_at :: "string list \<Rightarrow> nat \<Rightarrow> string" where
  "word_at ws k = (if k < length ws then ws ! k else last ([] # ws))"

definition words_to :: "string list \<Rightarrow> nat \<Rightarrow> string list" where
  "words_to ws m = map (word_at ws) [0..<m]"

fun session_at :: "string list \<Rightarrow> tcp_client \<Rightarrow> nat \<Rightarrow> tcp_conn \<Rightarrow> bool" where
  "session_at ws TC_Write m c = (tcp_words c = drop (Suc m) ws \<and> cstr (tcp_buffer c) = word_at ws m \<and>
     asked c = words_to ws m \<and> shown c = asked c \<and> received c = concat (map message_of (asked c)))"
| "session_at ws TC_Read m c = (tcp_words c = drop (Suc m) ws \<and> cstr (tcp_buffer c) = word_at ws m \<and>
     asked c = words_to ws (Suc m) \<and> shown c = words_to ws m \<and> received c = concat (map message_of (shown c)))"
| "session_at ws TC_Print m c = (tcp_words c = drop (Suc m) ws \<and> cstr (tcp_buffer c) = word_at ws m \<and>
     asked c = words_to ws (Suc m) \<and> shown c = words_to ws m \<and> received c = concat (map message_of (asked c)))"
| "session_at ws TC_Overflow m c = False"
| "session_at ws TC_Killed m c = False"
| "session_at ws TC_Exit m c = False"
| "session_at ws p m c = (tcp_words c = drop m ws \<and> cstr (tcp_buffer c) = (if m = 0 then [] else word_at ws (m - 1)) \<and>
     asked c = words_to ws m \<and> shown c = asked c \<and> received c = concat (map message_of (asked c)))"

definition session_ok :: "string list \<Rightarrow> tcp_conn \<Rightarrow> bool" where
  "session_ok ws c \<longleftrightarrow> conn_ok c \<and> (\<exists>m. session_at ws (tcp_client c) m c)"

definition plain_words :: "string list \<Rightarrow> bool" where
  "plain_words ws \<longleftrightarrow> (\<forall>w\<in>set ws. nonul w \<and> length w < BUF_SIZE \<and> w \<noteq> ''exit'')"

lemma word_at_plain: "plain_words ws \<Longrightarrow> nonul (word_at ws k) \<and> word_at ws k \<noteq> ''exit''"
  by (auto simp: plain_words_def word_at_def)

lemma words_to_Suc: "words_to ws (Suc m) = words_to ws m @ [word_at ws m]"
  by (simp add: words_to_def)

lemma word_at_end: "length ws \<le> m \<Longrightarrow> word_at ws m = (if m = 0 then [] else word_at ws (m - 1))"
  by (cases "m = length ws") (auto simp: word_at_def last_conv_nth)

lemma cstr_into_buffer: "nonul w \<Longrightarrow> cstr (into_buffer (w @ [NUL]) b) = w"
  by (simp add: into_buffer_def cstr_def nonul_def takeWhile_append takeWhile_stop)

lemma session_keeps:
  assumes p: "plain_words ws" and s: "session_ok ws c" and a: "client_act a c = Some c'"
    and whole: "read_whole a c"
  shows "session_ok ws c'"
proof -
  have ok: "conn_ok c'" using client_keeps[OF a] s by (simp add: session_ok_def)
  obtain m where m: "session_at ws (tcp_client c) m c" using s by (auto simp: session_ok_def)
  have open_: "tcp_handler c \<noteq> TH_Closed" using s m by (auto simp: session_ok_def conn_ok_def client_gone_def)
  have "\<exists>m. session_at ws (tcp_client c') m c'"
  proof (cases a)
    case Scans
    then have c: "tcp_client c = TC_Scan" "c' = tcp_scan c" using a by (auto split: if_splits)
    have rest: "asked c = words_to ws m" "shown c = asked c" "received c = concat (map message_of (asked c))"
      using m c by auto
    show ?thesis
    proof (cases "m < length ws")
      case True
      then have w: "tcp_words c = ws ! m # drop (Suc m) ws" "word_at ws m = ws ! m" "length (ws ! m) < BUF_SIZE"
        using m c p by (auto simp: Cons_nth_drop_Suc word_at_def plain_words_def)
      have "cstr (into_buffer (ws ! m @ [NUL]) (tcp_buffer c)) = ws ! m" "ws ! m \<noteq> ''exit''"
        using word_at_plain[OF p, of m] w(2) by (auto intro: cstr_into_buffer)
      with w rest c(2) show ?thesis by (intro exI[of _ m]) (simp add: tcp_scan_def Let_def)
    next
      case False
      then have "cstr (tcp_buffer c) = word_at ws m" "tcp_words c = []" "drop (Suc m) ws = []"
        using word_at_end[of ws m] m c by auto
      then show ?thesis using rest c(2) word_at_plain[OF p, of m] by (intro exI[of _ m]) (simp add: tcp_scan_def)
    qed
  next
    case (Reads n)
    with a whole have c: "tcp_client c = TC_Read" "to_server c = []" "tcp_handler c = TH_Read" "c' = tcp_read (length (to_client c)) c"
      by (auto split: if_splits)
    from s c have "received c @ to_client c = concat (map message_of (asked c))"
      by (simp add: session_ok_def conn_ok_def flow_ok_def)
    with m c have "to_client c = word_at ws m @ [NUL]" by (simp add: words_to_Suc message_of_def)
    with m c cstr_into_buffer[of "word_at ws m" "tcp_buffer c"] word_at_plain[OF p, of m] show ?thesis
      by (intro exI[of _ m]) (simp add: tcp_read_def Let_def words_to_Suc message_of_def)
  qed (use a m open_ in \<open>auto simp: tcp_write_def tcp_print_def words_to_Suc split: if_splits
        intro: exI[of _ m] exI[of _ "Suc m"]\<close>)
  with ok show ?thesis by (simp add: session_ok_def)
qed

lemma tcp_whole_ok:
  assumes "tcp_whole\<^sup>*\<^sup>* (tcp_start ws) c" "plain_words ws"
  shows "session_ok ws c"
  using assms(1)
proof (induction rule: rtranclp_induct)
  case base
  have "conn_ok (tcp_start ws)" by (simp add: conn_ok_def flow_ok_def tcp_start_def)
  moreover have "session_at ws TC_Connect 0 (tcp_start ws)"
    by (simp add: tcp_start_def cstr_def words_to_def BUF_SIZE_def takeWhile_replicate)
  moreover have "tcp_client (tcp_start ws) = TC_Connect" by (simp add: tcp_start_def)
  ultimately show ?case unfolding session_ok_def by metis
next
  case (step b c)
  have other: "session_ok ws c" if "conn_ok c" "\<And>m. session_at ws (tcp_client b) m b \<Longrightarrow> session_at ws (tcp_client c) m c"
    using that step(3) by (auto simp: session_ok_def)
  from step(2) show ?case
  proof (cases rule: tcp_whole.cases)
    case (client a)
    then show ?thesis by (rule session_keeps[OF assms(2) step(3)])
  next
    case (handler a)
    have "conn_ok c" using handler_keeps[OF handler] step(3) by (simp add: session_ok_def)
    moreover have "tcp_client c = tcp_client b \<and> tcp_words c = tcp_words b \<and> tcp_buffer c = tcp_buffer b \<and> asked c = asked b
        \<and> shown c = shown b \<and> received c = received b"
      using handler by (cases a) (auto split: if_splits tcp_handler.splits)
    ultimately show ?thesis by (intro other) (cases "tcp_client b"; simp)+
  next
    case (accept a)
    have "conn_ok c" using accept_keeps[OF accept] step(3) by (simp add: session_ok_def)
    moreover have "tcp_client c = tcp_client b \<and> tcp_words c = tcp_words b \<and> tcp_buffer c = tcp_buffer b \<and> asked c = asked b
        \<and> shown c = shown b \<and> received c = received b"
      using accept by (auto simp: accept_act_def split: if_splits)
    ultimately show ?thesis by (intro other) (cases "tcp_client b"; simp)+
  qed
qed

lemma session_result:
  assumes "session_ok ws c"
  shows "\<not> client_gone c \<and> asked c = words_to ws (length (asked c)) \<and> (shown c = asked c \<or> asked c \<noteq> [] \<and> shown c = butlast (asked c))"
proof -
  obtain m where "session_at ws (tcp_client c) m c" using assms by (auto simp: session_ok_def)
  moreover have "length (words_to ws k) = k" for k by (simp add: words_to_def)
  ultimately show ?thesis by (cases "tcp_client c") (simp_all add: client_gone_def words_to_Suc del: upt_Suc)
qed

text \<open>A client that has been connected always has something left to do, or the server has.\<close>

lemma session_moves:
  assumes "session_ok ws c" "plain_words ws" "tcp_client c \<noteq> TC_Refused"
  shows "\<exists>c'. tcp_whole c c'"
proof -
  obtain m where m: "session_at ws (tcp_client c) m c" using assms(1) by (auto simp: session_ok_def)
  have ok: "conn_ok c" using assms(1) by (simp add: session_ok_def)
  have step: "\<exists>c'. tcp_whole c c'" if "client_act a c \<noteq> None" "read_whole a c" for a
    using that by (auto intro: tcp_whole.client)
  show ?thesis
  proof (cases "tcp_client c")
    case TC_Connect
    then show ?thesis by (intro step[of Connects]) simp_all
  next
    case TC_Scan
    then show ?thesis by (intro step[of Scans]) simp_all
  next
    case TC_Write
    then show ?thesis by (intro step[of Writes]) simp_all
  next
    case TC_Print
    then show ?thesis by (intro step[of Prints]) simp_all
  next
    case TC_Read
    have w: "asked c = shown c @ [word_at ws m]" "received c = concat (map message_of (shown c))"
      using m TC_Read by (simp_all add: words_to_Suc)
    have len: "length (word_at ws m) < BUF_SIZE" using assms(2) by (auto simp: plain_words_def word_at_def BUF_SIZE_def)
    show ?thesis
    proof (cases "tcp_handler c")
      case TH_None
      then have "accept_act Accepts c \<noteq> None" using TC_Read by (simp add: accept_act_def)
      then show ?thesis by (auto intro: tcp_whole.accept)
    next
      case (TH_Write d)
      then have "handler_act H_Writes c \<noteq> None" by simp
      then show ?thesis by (metis option.exhaust tcp_whole.handler)
    next
      case TH_Closed
      then show ?thesis using ok TC_Read by (simp add: conn_ok_def client_gone_def)
    next
      case TH_Read
      show ?thesis
      proof (cases "to_server c = []")
        case True
        then have "to_client c = word_at ws m @ [NUL]"
          using ok w TH_Read by (simp add: conn_ok_def flow_ok_def message_of_def)
        then show ?thesis using TC_Read TH_Read True len by (intro step[of "Reads (length (to_client c))"]) simp_all
      next
        case False
        then have "handler_act (H_Reads 1) c \<noteq> None" using TH_Read by (cases "to_server c") (simp_all add: BUF_SIZE_def)
        then show ?thesis by (metis option.exhaust tcp_whole.handler)
      qed
    qed
  qed (use m assms(3) in simp_all)
qed

section \<open>A run with a short read\<close>

definition tcp_run :: "tcp_act list \<Rightarrow> tcp_conn \<Rightarrow> tcp_conn option" where
  "tcp_run as = ofold (\<lambda>a c. case client_act a c of Some c' \<Rightarrow> Some c'
     | None \<Rightarrow> (case handler_act a c of Some c' \<Rightarrow> Some c' | None \<Rightarrow> accept_act a c)) as"

lemma tcp_run_steps: "tcp_run as c = Some c' \<Longrightarrow> tcp_step\<^sup>*\<^sup>* c c'"
  unfolding tcp_run_def
  by (induction as arbitrary: c)
     (auto split: option.splits intro: tcp_step.intros converse_rtranclp_into_rtranclp)

lemma short_read:
  "\<exists>c. tcp_step\<^sup>*\<^sup>* (tcp_start [''ab'', ''cd'']) c \<and> asked c = [''ab'', ''cd''] \<and> shown c = [''ab'', ''b'']"
proof -
  let ?as = "[Connects, Accepts, Scans, Writes, H_Reads 3, H_Writes, Reads 1, Prints, Scans, Writes, Reads 2, Prints]"
  have "\<exists>c. tcp_run ?as (tcp_start [''ab'', ''cd'']) = Some c \<and> asked c = [''ab'', ''cd''] \<and> shown c = [''ab'', ''b'']"
    by (simp add: tcp_run_def tcp_start_def accept_act_def tcp_scan_def tcp_write_def tcp_read_def tcp_print_def into_buffer_def
      cstr_def BUF_SIZE_def Let_def)
  then show ?thesis using tcp_run_steps by blast
qed

text \<open>
  C29: Of an input of words that are shorter than the buffer and none of which is \<open>exit\<close>, in every run, as long as the handler has not
  closed the connection, the bytes the client has read and those
  under way are the words it has sent, each with its end.  When each \<open>read\<close> of the client returns all that is
  under way, it shows each word it sent, in order, except the last one before the answer; at the end
  of its input it sends the last word again and again, and unless its connection was refused there is always a further step.
  A \<open>read\<close> that returns less makes it show a word it has not sent.
\<close>

theorem tcp_echo_session:
  assumes "tcp_step\<^sup>*\<^sup>* (tcp_start ws) c" "plain_words ws"
  shows "(tcp_handler c \<noteq> TH_Closed \<longrightarrow>
      received c @ to_client c @ held (tcp_handler c) @ to_server c = concat (map (\<lambda>w. w @ [NUL]) (asked c))) \<and>
    (tcp_whole\<^sup>*\<^sup>* (tcp_start ws) c \<longrightarrow> \<not> client_gone c \<and>
      asked c = map (\<lambda>k. if k < length ws then ws ! k else last ([] # ws)) [0..<length (asked c)] \<and>
      (shown c = asked c \<or> asked c \<noteq> [] \<and> shown c = butlast (asked c)) \<and>
      (tcp_client c \<noteq> TC_Refused \<longrightarrow> (\<exists>c'. tcp_whole c c'))) \<and>
    (\<exists>c. tcp_step\<^sup>*\<^sup>* (tcp_start [''ab'', ''cd'']) c \<and> asked c = [''ab'', ''cd''] \<and> shown c = [''ab'', ''b''])"
proof (intro conjI impI)
  show "received c @ to_client c @ held (tcp_handler c) @ to_server c = concat (map (\<lambda>w. w @ [NUL]) (asked c))"
    if "tcp_handler c \<noteq> TH_Closed"
    using that tcp_runs_ok[OF assms(1)] by (simp add: conn_ok_def flow_ok_def message_of_def[abs_def])
  assume "tcp_whole\<^sup>*\<^sup>* (tcp_start ws) c"
  from session_result[OF tcp_whole_ok[OF this assms(2)]]
  show "\<not> client_gone c" "shown c = asked c \<or> asked c \<noteq> [] \<and> shown c = butlast (asked c)"
    "asked c = map (\<lambda>k. if k < length ws then ws ! k else last ([] # ws)) [0..<length (asked c)]"
    by (simp_all add: words_to_def word_at_def cong: map_cong)
  show "\<exists>c'. tcp_whole c c'" if "tcp_client c \<noteq> TC_Refused"
    by (rule session_moves[OF tcp_whole_ok[OF \<open>tcp_whole\<^sup>*\<^sup>* (tcp_start ws) c\<close> assms(2)] assms(2) that])
qed (rule short_read)

text \<open>One word, and then the end of the input: the client has sent and shown it twice.\<close>

definition whole_run :: "tcp_act list \<Rightarrow> tcp_conn \<Rightarrow> tcp_conn option" where
  "whole_run as = ofold (\<lambda>a c. if read_whole a c then tcp_run [a] c else None) as"

lemma whole_run_steps: "whole_run as c = Some c' \<Longrightarrow> tcp_whole\<^sup>*\<^sup>* c c' \<and> tcp_step\<^sup>*\<^sup>* c c'"
proof (induction as arbitrary: c)
  case (Cons a as)
  then obtain d where d: "read_whole a c" "tcp_run [a] c = Some d" "whole_run as d = Some c'"
    by (auto simp: whole_run_def split: if_splits option.splits)
  have "tcp_whole c d" using d(1,2) by (auto simp: tcp_run_def split: option.splits intro: tcp_whole.intros)
  with Cons.IH[OF d(3)] tcp_run_steps[OF d(2)] show ?case
    by (auto intro: converse_rtranclp_into_rtranclp rtranclp_trans)
qed (simp add: whole_run_def)

theorem tcp_echo_session_witness:
  "\<exists>c. tcp_whole\<^sup>*\<^sup>* (tcp_start [''hi'']) c \<and> length (asked c) = 2 \<and> shown c = [''hi'', ''hi''] \<and> \<not> client_gone c"
proof -
  let ?round = "[Scans, Writes, H_Reads 3, H_Writes, Reads 3, Prints]"
  have "\<exists>c. whole_run ([Connects, Accepts] @ ?round @ ?round) (tcp_start [''hi'']) = Some c \<and>
      length (asked c) = 2 \<and> length (shown c) = 2"
    by (simp add: whole_run_def tcp_run_def tcp_start_def accept_act_def tcp_scan_def tcp_write_def tcp_read_def tcp_print_def
      into_buffer_def cstr_def BUF_SIZE_def Let_def)
  then obtain c where c: "whole_run ([Connects, Accepts] @ ?round @ ?round) (tcp_start [''hi'']) = Some c"
    "length (asked c) = 2" "length (shown c) = 2" by blast
  note runs = whole_run_steps[OF c(1)]
  have "plain_words [''hi'']" by (simp add: plain_words_def BUF_SIZE_def)
  from tcp_echo_session[OF runs[THEN conjunct2] this] runs
  have "\<not> client_gone c" "asked c = map (\<lambda>k. if k < 1 then ''hi'' else ''hi'') [0..<2]" "shown c = asked c"
    using c(2,3) by auto
  moreover have "[0..<2] = [0, 1 :: nat]" by (simp add: upt_rec)
  ultimately show ?thesis using runs c(2) by auto
qed

end
