(* ===== verification/Udp_Echo.thy ===== *)
theory Udp_Echo
  imports CString
begin

text \<open>
  src/task\_8: udp\_serv.c waits for one datagram and answers it, udp\_cli.c sends one and waits for the answer for 50 seconds.
  Datagrams can be lost.
\<close>

section \<open>The two programs\<close>

definition MAXLINE :: nat where "MAXLINE = 4096"

definition hello_msg :: bytes where "hello_msg = ''Hello from client'' @ [NL]"
definition back_msg :: bytes where "back_msg = ''Send back'' @ [NL]"

text \<open>
  How a program ends: with an exit code, having printed \<open>text\<close> and sent \<open>sent\<close>; with a write outside of its
  buffer, at the index given; or never.
\<close>

datatype udp_end = Udp_Exit int string "bytes option" | Udp_Outside int | Udp_Waits

text \<open>
  \<open>recvfrom\<close> of the server returns a datagram with its sender, of which no more than the buffer is kept, or fails
  (\<open>Inl\<close>); it has no time-out and waits for ever when nothing comes (\<open>None\<close>).  Its result is the index of
  the final zero, whatever it is.
\<close>

definition udp_server :: "bool \<Rightarrow> bool \<Rightarrow> (unit + bytes \<times> string) option \<Rightarrow> bool \<Rightarrow> udp_end" where
  "udp_server socket_ok bind_ok r send_ok =
     (if \<not> socket_ok \<or> \<not> bind_ok then Udp_Exit 1 [] None
      else case r of None \<Rightarrow> Udp_Waits
      | Some (Inl u) \<Rightarrow> Udp_Outside (-1)
      | Some (Inr (d, ip)) \<Rightarrow> let buf = take MAXLINE d in
          if length buf = MAXLINE then Udp_Outside (int MAXLINE)
          else Udp_Exit 0 (''Data from client: '' @ cstr buf @ [NL] @ ''IP addr of client is: '' @ ip @ [NL] @
            ''Back message is sent'' @ [NL]) (if send_ok then Some back_msg else None))"

text \<open>The client goes on without a socket; then \<open>sendto\<close> fails.  \<open>None\<close> is a time-out or an error.\<close>

definition udp_client :: "bool \<Rightarrow> bool \<Rightarrow> bytes option \<Rightarrow> udp_end" where
  "udp_client socket_ok send_ok r =
     (if \<not> socket_ok \<or> \<not> send_ok then Udp_Exit 0 [] None
      else case r of None \<Rightarrow> Udp_Exit 0 [] (Some hello_msg)
      | Some d \<Rightarrow> let buf = take MAXLINE d in
          if length buf = MAXLINE then Udp_Outside (int MAXLINE)
          else Udp_Exit 0 (if buf = [] then [] else cstr buf @ [NL]) (Some hello_msg))"

section \<open>Both together\<close>

fun sent_by :: "udp_end \<Rightarrow> bytes option" where
  "sent_by (Udp_Exit c t s) = s" | "sent_by _ = None"

fun prints :: "udp_end \<Rightarrow> string" where
  "prints (Udp_Exit c t s) = t" | "prints _ = []"

text \<open>
  A network that delivers the request if \<open>there\<close> and the answer if \<open>back\<close>; the client has sent its request, whatever
  it gets.
\<close>

definition udp_exchange :: "bool \<Rightarrow> bool \<Rightarrow> string \<Rightarrow> udp_end \<times> udp_end" where
  "udp_exchange there back_ok ip =
     (let request = sent_by (udp_client True True None);
          serv = udp_server True True (if there then map_option (\<lambda>d. Inr (d, ip)) request else None) True;
          reply = (if back_ok then sent_by serv else None)
      in (udp_client True True reply, serv))"

lemma nonul_messages: "nonul hello_msg" "nonul back_msg"
  by (simp_all add: hello_msg_def back_msg_def)

text \<open>
  The client always ends with 0 and prints the answer exactly when both datagrams arrive; the server waits for ever when the
  request is lost, and otherwise prints the request and the address.
\<close>

lemma udp_exchange_result:
  "udp_exchange there back_ok ip =
     (Udp_Exit 0 (if there \<and> back_ok then back_msg @ [NL] else []) (Some hello_msg),
      if there then Udp_Exit 0 (''Data from client: '' @ hello_msg @ [NL] @ ''IP addr of client is: '' @ ip @ [NL] @
        ''Back message is sent'' @ [NL]) (Some back_msg) else Udp_Waits)"
proof -
  have l: "length hello_msg < MAXLINE" "length back_msg < MAXLINE" "back_msg \<noteq> []"
    by (simp_all add: hello_msg_def back_msg_def MAXLINE_def)
  then have t: "take MAXLINE hello_msg = hello_msg" "take MAXLINE back_msg = back_msg" by simp_all
  have c: "udp_client True True None = Udp_Exit 0 [] (Some hello_msg)" by (simp add: udp_client_def)
  have s: "udp_server True True (Some (Inr (hello_msg, ip))) True =
      Udp_Exit 0 (''Data from client: '' @ hello_msg @ [NL] @ ''IP addr of client is: '' @ ip @ [NL] @
        ''Back message is sent'' @ [NL]) (Some back_msg)"
    using l t nonul_messages by (simp add: udp_server_def Let_def)
  have b: "udp_client True True (Some back_msg) = Udp_Exit 0 (back_msg @ [NL]) (Some hello_msg)"
    using l t nonul_messages by (simp add: udp_client_def Let_def)
  have w: "udp_server True True None True = Udp_Waits" by (simp add: udp_server_def)
  show ?thesis by (cases there; cases back_ok) (simp_all add: udp_exchange_def c s b w Let_def)
qed

text \<open>Exactly which datagrams make the programs write outside of their buffers.\<close>

lemma udp_buffers:
  "udp_server True True (Some (Inr (d, ip))) ok = Udp_Outside i \<longleftrightarrow> MAXLINE \<le> length d \<and> i = int MAXLINE"
  "udp_client True True (Some d) = Udp_Outside i \<longleftrightarrow> MAXLINE \<le> length d \<and> i = int MAXLINE"
  "udp_server True True (Some (Inl u)) ok = Udp_Outside (-1)"
  by (auto simp: udp_server_def udp_client_def Let_def min_def split: if_splits)

end
