(* ===== verification/Ipc_Examples.thy ===== *)
theory Ipc_Examples
  imports CString
begin

text \<open>
  src/sem\_3/examples: sender.c puts one message into a System V queue, receiver.c waits for one.  src/sem\_4/examples:
  6\_posix\_cnt\_sem.c waits for a named semaphore, or posts to it when it has an argument.
\<close>

section \<open>Sender and receiver\<close>

text \<open>The queues of the system by key, each with the types and texts of its messages.\<close>

type_synonym sysv_queues = "int \<rightharpoonup> (int \<times> bytes) list"

text \<open>The exit code, or \<open>None\<close> if the program waits, the line it prints with the message, and the queues.\<close>

record ipc_run =
  ipc_exit :: "int option"
  ipc_text :: string
  ipc_queues :: sysv_queues

definition MSG_SIZE :: nat where "MSG_SIZE = 1024"
definition sender_key :: int where "sender_key = 1024"
definition receiver_key :: int where "receiver_key = 10"

text \<open>\<open>fits\<close>: \<open>msgsnd\<close> finds room in the queue; \<open>get_ok\<close>: \<open>msgget\<close> can make one.\<close>

definition sender :: "bool \<Rightarrow> bool \<Rightarrow> sysv_queues \<Rightarrow> ipc_run" where
  "sender get_ok fits qs =
     (if \<not> get_ok then \<lparr>ipc_exit = Some 1, ipc_text = [], ipc_queues = qs\<rparr>
      else let q = (case qs sender_key of None \<Rightarrow> [] | Some q \<Rightarrow> q) in
        if \<not> fits then \<lparr>ipc_exit = Some 1, ipc_text = [], ipc_queues = qs(sender_key \<mapsto> q)\<rparr>
        else \<lparr>ipc_exit = Some 0, ipc_text = ''Message: '' @ [CHR 0x22] @ ''HELLO'' @ [CHR 0x22] @ '' Sent'' @ [NL],
          ipc_queues = qs(sender_key \<mapsto> q @ [(1, ''HELLO'' @ [NUL])])\<rparr>)"

definition receiver :: "sysv_queues \<Rightarrow> ipc_run" where
  "receiver qs = (case qs receiver_key of
     None \<Rightarrow> \<lparr>ipc_exit = Some 1, ipc_text = [], ipc_queues = qs\<rparr>
   | Some q \<Rightarrow> (case List.extract (\<lambda>(t, _). t = 1) q of
       None \<Rightarrow> \<lparr>ipc_exit = None, ipc_text = [], ipc_queues = qs\<rparr>
     | Some (a, (_, d), b) \<Rightarrow> if MSG_SIZE < length d then \<lparr>ipc_exit = Some 1, ipc_text = [], ipc_queues = qs\<rparr>
         else \<lparr>ipc_exit = Some 0, ipc_text = cstr d @ [NL], ipc_queues = qs(receiver_key \<mapsto> a @ b)\<rparr>))"

definition senders :: "(bool \<times> bool) list \<Rightarrow> sysv_queues \<Rightarrow> sysv_queues" where
  "senders = fold (\<lambda>(g, f) qs. ipc_queues (sender g f qs))"

lemma sender_other: "k \<noteq> sender_key \<Longrightarrow> ipc_queues (sender g f qs) k = qs k"
  by (auto simp: sender_def Let_def)

lemma senders_other: "k \<noteq> sender_key \<Longrightarrow> senders xs qs k = qs k"
  by (induction xs arbitrary: qs) (auto simp: senders_def sender_other)

text \<open>
  The two programs never meet: they use different keys.  Whatever is sent, the receiver ends as if nothing had been, with 1 on
  a system without other queues; the messages stay in a queue nobody reads.
\<close>

lemma receiver_never_served:
  "ipc_exit (receiver (senders xs qs)) = ipc_exit (receiver qs) \<and> ipc_text (receiver (senders xs qs)) = ipc_text (receiver qs)"
  "ipc_exit (receiver (senders xs Map.empty)) = Some 1"
  "senders (replicate n (True, True)) Map.empty sender_key = (if n = 0 then None else Some (replicate n (1, ''HELLO'' @ [NUL])))"
proof -
  have k: "receiver_key \<noteq> sender_key" by (simp add: receiver_key_def sender_key_def)
  then show "ipc_exit (receiver (senders xs qs)) = ipc_exit (receiver qs) \<and> ipc_text (receiver (senders xs qs)) = ipc_text (receiver qs)"
    by (auto simp: receiver_def senders_other split: option.splits)
  show "ipc_exit (receiver (senders xs Map.empty)) = Some 1" by (simp add: receiver_def senders_other k)
  have rev: "senders (xs @ [x]) qs = ipc_queues (sender (fst x) (snd x) (senders xs qs))" for xs x qs
    by (simp add: senders_def split: prod.splits)
  show "senders (replicate n (True, True)) Map.empty sender_key = (if n = 0 then None else Some (replicate n (1, ''HELLO'' @ [NUL])))"
  proof (induction n)
    case (Suc n)
    have snoc: "replicate (Suc n) x = replicate n x @ [x]" for x :: 'x by (simp add: replicate_append_same)
    from Suc show ?case unfolding snoc rev by (simp add: sender_def Let_def)
  qed (simp add: senders_def)
qed

section \<open>A named semaphore\<close>

text \<open>
  Any number of processes run the program with and without an argument.  The semaphore (\<open>None\<close> before it is
  made) is never removed.
\<close>

record sem_world =
  sem_value :: "nat option"
  sem_waiting :: nat
  sem_passed :: nat
  sem_posts :: nat
  sem_failed :: nat

definition sem_start :: sem_world where
  "sem_start = \<lparr>sem_value = None, sem_waiting = 0, sem_passed = 0, sem_posts = 0, sem_failed = 0\<rparr>"

definition sem_poster :: "sem_world \<Rightarrow> sem_world" where
  "sem_poster w = (case sem_value w of
     None \<Rightarrow> w\<lparr>sem_failed := Suc (sem_failed w)\<rparr>
   | Some n \<Rightarrow> w\<lparr>sem_value := Some (Suc n), sem_posts := Suc (sem_posts w)\<rparr>)"

definition sem_opens :: "sem_world \<Rightarrow> sem_world" where
  "sem_opens w = w\<lparr>sem_value := Some (case sem_value w of None \<Rightarrow> 0 | Some n \<Rightarrow> n), sem_waiting := Suc (sem_waiting w)\<rparr>"

definition sem_passes :: "sem_world \<Rightarrow> sem_world option" where
  "sem_passes w = (case sem_value w of
     Some (Suc n) \<Rightarrow> if sem_waiting w = 0 then None
       else Some (w\<lparr>sem_value := Some n, sem_waiting := sem_waiting w - 1, sem_passed := Suc (sem_passed w)\<rparr>)
   | _ \<Rightarrow> None)"

inductive sem_step :: "sem_world \<Rightarrow> sem_world \<Rightarrow> bool" where
  post: "sem_step w (sem_poster w)"
| opens: "sem_step w (sem_opens w)"
| passes: "sem_passes w = Some w' \<Longrightarrow> sem_step w w'"

lemma sem_step_keeps:
  assumes "sem_step w w'" "sem_posts w = sem_passed w + (case sem_value w of None \<Rightarrow> 0 | Some n \<Rightarrow> n)"
  shows "sem_posts w' = sem_passed w' + (case sem_value w' of None \<Rightarrow> 0 | Some n \<Rightarrow> n)"
  using assms by (cases rule: sem_step.cases)
    (auto simp: sem_poster_def sem_opens_def sem_passes_def split: option.splits nat.splits if_splits)

text \<open>
  No process passes without a post of its own; a process that waits can pass exactly when there are more posts
  than passed before.
\<close>

lemma semaphore_counts:
  assumes "sem_step\<^sup>*\<^sup>* sem_start w"
  shows "sem_passed w \<le> sem_posts w"
    and "0 < sem_waiting w \<Longrightarrow> (\<exists>w'. sem_passes w = Some w') \<longleftrightarrow> sem_passed w < sem_posts w"
proof -
  have I: "sem_posts w = sem_passed w + (case sem_value w of None \<Rightarrow> 0 | Some n \<Rightarrow> n)"
    using assms
  proof (induction rule: rtranclp_induct)
    case base
    show ?case by (simp add: sem_start_def)
  qed (rule sem_step_keeps)
  then show "sem_passed w \<le> sem_posts w" by simp
  show "(\<exists>w'. sem_passes w = Some w') \<longleftrightarrow> sem_passed w < sem_posts w" if "0 < sem_waiting w"
    using I that by (auto simp: sem_passes_def split: option.splits nat.splits)
qed

end
