(* ===== verification/Signal_Counts.thy ===== *)
theory Signal_Counts
  imports Prelude
begin

text \<open>
  src/task\_5/examples/6\_sig\_stand\_vs\_realtime.c: a child sends ten SIGUSR1 and ten SIGRTMIN to its parent, which counts the
  signals it handles.  A standard signal is pending or not, realtime signals queue; a signal is blocked while its own
  handler runs, and any handler that returns ends the \<open>sleep\<close> of \<open>main\<close>.
\<close>

section \<open>The program\<close>

datatype sig_kind = Standard | Realtime

datatype sig_main = G_Sleep | G_Results | G_Ended

record sig_world =
  standard_processed :: nat
  realtime_processed :: nat
  standard_pending :: bool
  realtime_queue :: nat
  running_handlers :: "sig_kind list"
  calls_of_kill :: nat
  sig_main :: sig_main

definition SENDS :: nat where "SENDS = 10"

definition sig_start :: sig_world where
  "sig_start = \<lparr>standard_processed = 0, realtime_processed = 0, standard_pending = False, realtime_queue = 0,
     running_handlers = [], calls_of_kill = 0, sig_main = G_Sleep\<rparr>"

text \<open>The child: SIGUSR1 and SIGRTMIN by turns.\<close>

definition child_kills :: "sig_world \<Rightarrow> sig_world option" where
  "child_kills w = (if 2 * SENDS \<le> calls_of_kill w then None
     else Some ((if even (calls_of_kill w) then w\<lparr>standard_pending := True\<rparr> else w\<lparr>realtime_queue := Suc (realtime_queue w)\<rparr>)
       \<lparr>calls_of_kill := Suc (calls_of_kill w)\<rparr>))"

definition standard_handler :: "sig_world \<Rightarrow> sig_world option" where
  "standard_handler w = (if sig_main w = G_Ended \<or> \<not> standard_pending w \<or> Standard \<in> set (running_handlers w) then None
     else Some (w\<lparr>standard_pending := False, standard_processed := Suc (standard_processed w),
       running_handlers := Standard # running_handlers w\<rparr>))"

definition realtime_handler :: "sig_world \<Rightarrow> sig_world option" where
  "realtime_handler w = (if sig_main w = G_Ended \<or> realtime_queue w = 0 \<or> Realtime \<in> set (running_handlers w) then None
     else Some (w\<lparr>realtime_queue := realtime_queue w - 1, realtime_processed := Suc (realtime_processed w),
       running_handlers := Realtime # running_handlers w\<rparr>))"

text \<open>The innermost handler returns; the last one to return ends the \<open>sleep\<close>.\<close>

definition handler_returns :: "sig_world \<Rightarrow> sig_world option" where
  "handler_returns w = (case running_handlers w of [] \<Rightarrow> None
     | h # hs \<Rightarrow> Some (w\<lparr>running_handlers := hs, sig_main := (if sig_main w = G_Sleep \<and> hs = [] then G_Results else sig_main w)\<rparr>))"

definition three_seconds :: "sig_world \<Rightarrow> sig_world option" where
  "three_seconds w = (if sig_main w = G_Sleep \<and> running_handlers w = [] then Some (w\<lparr>sig_main := G_Results\<rparr>) else None)"

definition results :: "sig_world \<Rightarrow> sig_world option" where
  "results w = (if sig_main w = G_Results \<and> running_handlers w = [] then Some (w\<lparr>sig_main := G_Ended\<rparr>) else None)"

datatype sig_act = Kill | Std | Rt | Ret | Time | Print

fun sig_turn :: "sig_act \<Rightarrow> sig_world \<Rightarrow> sig_world option" where
  "sig_turn Kill = child_kills" | "sig_turn Std = standard_handler" | "sig_turn Rt = realtime_handler"
| "sig_turn Ret = handler_returns" | "sig_turn Time = three_seconds" | "sig_turn Print = results"

inductive sig_step :: "sig_world \<Rightarrow> sig_world \<Rightarrow> bool" where
  "sig_turn a w = Some w' \<Longrightarrow> sig_step w w'"

text \<open>The two numbers that the program can show.\<close>

inductive shows_results :: "nat \<Rightarrow> nat \<Rightarrow> bool" where
  "sig_step\<^sup>*\<^sup>* sig_start w \<Longrightarrow> sig_main w = G_Ended \<Longrightarrow> shows_results (standard_processed w) (realtime_processed w)"

section \<open>What is lost\<close>

text \<open>Realtime signals are all processed or still queued, standard signals can be fewer than were sent.\<close>

definition sig_inv :: "sig_world \<Rightarrow> bool" where
  "sig_inv w \<longleftrightarrow> realtime_processed w + realtime_queue w = calls_of_kill w div 2 \<and>
     standard_processed w + of_bool (standard_pending w) \<le> (calls_of_kill w + 1) div 2 \<and> calls_of_kill w \<le> 2 * SENDS \<and>
     (0 < calls_of_kill w \<longrightarrow> 0 < standard_processed w \<or> standard_pending w)"

lemma sig_step_inv: "sig_step w w' \<Longrightarrow> sig_inv w \<Longrightarrow> sig_inv w'"
proof (elim sig_step.cases)
  fix a v v' assume "w = v" "w' = v'" "sig_turn a v = Some v'" "sig_inv w"
  then show "sig_inv w'"
    by (cases a) (auto simp: sig_inv_def child_kills_def standard_handler_def realtime_handler_def handler_returns_def
      three_seconds_def results_def elim!: evenE oddE split: if_splits list.splits)
qed

lemma sig_runs_inv: "sig_step\<^sup>*\<^sup>* sig_start w \<Longrightarrow> sig_inv w"
  by (induction rule: rtranclp_induct) (auto simp: sig_inv_def sig_start_def dest: sig_step_inv)

lemma turns_run: "ofold sig_turn as w = Some w' \<Longrightarrow> sig_step\<^sup>*\<^sup>* w w'"
  by (induction as arbitrary: w)
     (auto split: option.splits intro: converse_rtranclp_into_rtranclp sig_step.intros)

lemma shows_run:
  assumes "ofold sig_turn as sig_start = Some w" "sig_main w = G_Ended"
  shows "shows_results (standard_processed w) (realtime_processed w)"
  using shows_results.intros[OF turns_run[OF assms(1)] assms(2)] .

text \<open>
  At most ten of each kind are counted.  The program can show that of ten standard signals one was processed and of the
  realtime signals all; it can also show that nothing more than the first signal was processed, since its
  handler ends the three seconds of \<open>sleep\<close>.
\<close>

lemma counted_signals:
  "shows_results s r \<Longrightarrow> s \<le> SENDS \<and> r \<le> SENDS" "shows_results 1 10" "shows_results 1 0"
proof -
  show "s \<le> SENDS \<and> r \<le> SENDS" if "shows_results s r"
    using that by (cases rule: shows_results.cases) (auto dest!: sig_runs_inv simp: sig_inv_def)
  have all: "ofold sig_turn (replicate 20 Kill @ Std # concat (replicate 10 [Rt, Ret]) @ [Ret, Print]) sig_start =
      Some (sig_start\<lparr>standard_processed := 1, realtime_processed := 10, calls_of_kill := 20, sig_main := G_Ended\<rparr>)"
    by code_simp
  show "shows_results 1 10" using shows_run[OF all] by simp
  have one: "ofold sig_turn [Kill, Std, Ret, Print] sig_start =
      Some (sig_start\<lparr>standard_processed := 1, calls_of_kill := 1, sig_main := G_Ended\<rparr>)"
    by code_simp
  show "shows_results 1 0" using shows_run[OF one] by (simp add: sig_start_def)
qed

end
