(* ===== verification/Integral_Bounds.thy ===== *)
theory Integral_Bounds
  imports Integral_Properties
begin

text \<open>
  What the distributed program can print at most and at least: how far its result can lie outside of the box that
  the points are drawn from, when only the wire format rounds.
\<close>

section \<open>Rounding keeps the order\<close>

lemma round_even_bounds: "\<lfloor>q\<rfloor> \<le> round_even q" "round_even q \<le> \<lfloor>q\<rfloor> + 1"
  by (simp_all add: round_even_def Let_def)

lemma round_even_mono: "p \<le> q \<Longrightarrow> round_even p \<le> round_even q"
proof -
  assume pq: "p \<le> q"
  show ?thesis
  proof (cases "\<lfloor>p\<rfloor> = \<lfloor>q\<rfloor>")
    case True
    with pq show ?thesis by (simp add: round_even_def Let_def)
  next
    case False
    with pq have "\<lfloor>p\<rfloor> + 1 \<le> \<lfloor>q\<rfloor>" using floor_mono[OF pq] by simp
    with round_even_bounds[of p] round_even_bounds[of q] show ?thesis by linarith
  qed
qed

lemma scaled15_mono: "\<bar>p\<bar> \<le> \<bar>q\<bar> \<Longrightarrow> scaled15 p \<le> scaled15 q"
  unfolding scaled15_def by (intro nat_mono round_even_mono mult_right_mono) simp_all

lemma fix15_mono: "p \<le> q \<Longrightarrow> fix15 p \<le> fix15 q"
proof -
  assume pq: "p \<le> q"
  consider "q < 0" | "p < 0" "0 \<le> q" | "0 \<le> p" using pq by linarith
  then show ?thesis
  proof cases
    case 1
    with pq scaled15_mono[of q p] show ?thesis by (simp add: fix15_def divide_right_mono)
  next
    case 2
    then show ?thesis by (simp add: fix15_def) (meson divide_nonneg_nonneg neg_le_0_iff_le of_nat_0_le_iff order_trans)
  next
    case 3
    with pq scaled15_mono[of p q] show ?thesis by (simp add: fix15_def divide_right_mono)
  qed
qed

lemma fix15_0: "fix15 0 = 0"
  by (simp add: fix15_def scaled15_def round_even_def)

section \<open>Strips and estimates in exact arithmetic\<close>

definition edge :: "rat \<Rightarrow> rat \<Rightarrow> nat \<Rightarrow> nat \<Rightarrow> rat" where
  "edge a b n i = a + of_nat i * ((b - a) / of_nat n)"

lemma edge_range:
  assumes "a \<le> b" "i \<le> n" "0 < n"
  shows "a \<le> edge a b n i" "edge a b n i \<le> b" "edge a b n n = b"
proof -
  have "of_nat i * ((b - a) / of_nat n) \<le> of_nat n * ((b - a) / of_nat n)"
    using assms by (intro mult_right_mono) simp_all
  then show "edge a b n i \<le> b" using assms(3) by (simp add: edge_def)
  show "a \<le> edge a b n i" "edge a b n n = b" using assms by (simp_all add: edge_def)
qed

lemma edge_Suc: "edge a b n (Suc i) = edge a b n i + (b - a) / of_nat n"
  by (simp add: edge_def distrib_right add_divide_distrib)

lemma edge_mono: "a \<le> b \<Longrightarrow> edge a b n i \<le> edge a b n (Suc i)"
  by (simp add: edge_Suc)

lemma strip_task_exact:
  assumes "l_rnd m = (\<lambda>x. x)" "cx_min cfg = Num a" "cx_max cfg = Num b" "i < n" "n = length (server_list cfg)"
  shows "x_min (strip_task m cfg i) = Num (edge a b n i)" "x_max (strip_task m cfg i) = Num (edge a b n (Suc i))"
    "y_min (strip_task m cfg i) = cy_min cfg" "y_max (strip_task m cfg i) = cy_max cfg"
    "points_per_rectangle cfg div n \<le> num_points (strip_task m cfg i)"
    "num_points (strip_task m cfg i) \<le> points_per_rectangle cfg + 1"
proof -
  have n: "of_nat n \<noteq> (0 :: rat)" "0 < n" using assms(4) by auto
  show "x_min (strip_task m cfg i) = Num (edge a b n i)"
    using n assms by (simp add: strip_task_def Let_def dadd_def dmul_def dsub_def ddiv_def dbl_op_def of_size_def edge_def)
  have "edge a b n n = b" using n by (simp add: edge_def)
  then show "x_max (strip_task m cfg i) = Num (edge a b n (Suc i))"
    using n assms by (cases "Suc i = n")
      (simp_all add: strip_task_def Let_def dadd_def dmul_def dsub_def ddiv_def dbl_op_def of_size_def edge_Suc, simp add: edge_def)
  show "num_points (strip_task m cfg i) \<le> points_per_rectangle cfg + 1"
    using div_le_dividend[of "points_per_rectangle cfg" n] by (simp add: strip_task_def Let_def assms(5) del: div_le_dividend)
qed (simp_all add: strip_task_def Let_def assms(5))

text \<open>An estimate lies between zero and the area of the box as the server reads it.\<close>

lemma server_result_exact:
  assumes "l_rnd m = (\<lambda>x. x)" "x_min t = Num a" "x_max t = Num b" "y_min t = Num c" "y_max t = Num d"
    and "a \<le> b" "c \<le> d" "0 < num_points t"
  shows "\<exists>v. integral_value (server_result m time t) = Num v \<and> 0 \<le> v \<and> v \<le> (fix15 b - fix15 a) * (fix15 d - fix15 c)"
proof -
  let ?A = "(fix15 b - fix15 a) * (fix15 d - fix15 c)" and ?n = "num_points t"
  let ?k = "count_points m (kept_task (l_rnd m) t) time ?n 0"
  have A: "0 \<le> ?A" using fix15_mono[OF assms(6)] fix15_mono[OF assms(7)] by simp
  have k: "?k \<le> ?n" using count_points_le[of m "kept_task (l_rnd m) t" time ?n 0] by simp
  have n: "of_nat ?n \<noteq> (0 :: rat)" "(0 :: rat) < of_nat ?n" using assms(8) by simp_all
  have "integral_value (server_result m time t) = Num (?A * of_nat ?k / of_nat ?n)"
    using assms(1-5) n by (simp add: server_result_def run_task_def kept_task_def kept15_def dmul_def dsub_def ddiv_def dbl_op_def
      of_size_def Let_def)
  moreover have "?A * of_nat ?k \<le> ?A * of_nat ?n" using A k by (intro mult_left_mono) simp_all
  ultimately show ?thesis using A n(2) by (auto simp: divide_le_eq)
qed

lemma foldl_exact: "foldl (\<lambda>acc i. dadd (\<lambda>x. x) acc (Num (f i))) (Num s) is = Num (s + sum_list (map f is))"
  by (induction "is" arbitrary: s) (simp_all add: dadd_def dbl_op_def add.assoc)

lemma sum_telescope: "sum_list (map (\<lambda>i. (g (Suc i) - g i) * h) [0..<n]) = (g n - g 0) * (h :: rat)"
  by (induction n) (simp_all add: algebra_simps)

lemma sum_between:
  fixes f g :: "nat \<Rightarrow> rat"
  assumes "\<forall>i<n. 0 \<le> f i \<and> f i \<le> g i + e"
  shows "0 \<le> sum_list (map f [0..<n])" "sum_list (map f [0..<n]) \<le> sum_list (map g [0..<n]) + of_nat n * e"
  using assms by (induction n) (auto simp: algebra_simps intro: add_nonneg_nonneg add_mono)

lemma small_magnitude: "\<bar>q\<bar> \<le> 10 ^ 20 \<Longrightarrow> magnitude 309 (Num q)"
proof -
  assume q: "\<bar>q\<bar> \<le> 10 ^ 20"
  have "(10 :: rat) ^ 20 < 10 ^ 309" by (rule power_strict_increasing) simp_all
  with q show ?thesis unfolding magnitude_def by (auto intro: le_less_trans)
qed

lemma box_side:
  assumes "\<bar>p\<bar> \<le> 10 ^ 9" "\<bar>q\<bar> \<le> 10 ^ 9"
  shows "fix15 q - fix15 p \<le> q - p + 1 / of_nat E15" "fix15 q - fix15 p \<le> 10 ^ 10"
proof -
  have e: "\<bar>fix15 q - q\<bar> \<le> 1 / (2 * of_nat E15)" "\<bar>fix15 p - p\<bar> \<le> 1 / (2 * of_nat E15)" by (rule fix15_error)+
  have h: "1 / of_nat E15 = 1 / (2 * of_nat E15) + 1 / (2 * of_nat E15 :: rat)" by (simp add: field_simps)
  from e show "fix15 q - fix15 p \<le> q - p + 1 / of_nat E15" unfolding h by linarith
  moreover have "1 / of_nat E15 \<le> (1 :: rat)" by (simp add: E15_def)
  ultimately show "fix15 q - fix15 p \<le> 10 ^ 10" using assms by simp
qed

text \<open>
  C19: Let the bounds of the box be ordered and at most 1e9 in size, and let the machine compute exactly.  When there are at least as many
  points as servers and all of these answer, the integral that the client prints is a number, not
  negative, and at most the area of the box, where each side can be too long by 1e-15 and each server adds an error of half of
  that, since the wire keeps 15 decimals.  With fewer points than servers a server can answer with NaN.
\<close>

theorem integral_within_box:
  assumes "l_rnd m = (\<lambda>x. x)" "cx_min cfg = Num a" "cx_max cfg = Num b" "cy_min cfg = Num c" "cy_max cfg = Num d"
    and "a \<le> b" "c \<le> d" "\<bar>a\<bar> \<le> 10 ^ 9" "\<bar>b\<bar> \<le> 10 ^ 9" "\<bar>c\<bar> \<le> 10 ^ 9" "\<bar>d\<bar> \<le> 10 ^ 9"
    and "server_list cfg \<noteq> []" "length (server_list cfg) \<le> points_per_rectangle cfg" "points_per_rectangle cfg < size_max"
    and "\<forall>i<length (server_list cfg). threads i"
  shows "\<exists>v. compute_integral_distributed m (honest m time) threads cfg = Num v \<and> 0 \<le> v \<and>
    v \<le> (b - a + 1 / of_nat E15) * (d - c + 1 / of_nat E15) + of_nat (length (server_list cfg)) * (1 / (2 * of_nat E15))"
proof -
  let ?n = "length (server_list cfg)"
  let ?X = "\<lambda>i. fix15 (edge a b ?n i)" and ?h = "fix15 d - fix15 c"
  let ?r = "\<lambda>i. integral_value (server_result m time (strip_task m cfg i))"
  have n: "0 < ?n" using assms(12) by simp
  have range: "a \<le> edge a b ?n i" "edge a b ?n i \<le> b" "\<bar>edge a b ?n i\<bar> \<le> 10 ^ 9" if "i \<le> ?n" for i
    using edge_range(1,2)[OF assms(6) that n] assms(8,9) by linarith+
  have h: "0 \<le> ?h" "?h \<le> 10 ^ 10" "?h \<le> d - c + 1 / of_nat E15"
    using fix15_mono[OF assms(7)] box_side[OF assms(10,11)] by simp_all
  have one: "\<exists>v. ?r i = Num v \<and> 0 \<le> v \<and> v \<le> (?X (Suc i) - ?X i) * ?h" "task_ok (strip_task m cfg i)" if i: "i < ?n" for i
  proof -
    note T = strip_task_exact[OF assms(1-3) i refl]
    have "0 < points_per_rectangle cfg div ?n" using assms(13) n by (simp add: div_greater_zero_iff)
    then have "0 < num_points (strip_task m cfg i)" using T(5) by linarith
    with server_result_exact[OF assms(1) T(1,2), of c d] T(3,4) assms(4,5,7) edge_mono[OF assms(6)]
    show "\<exists>v. ?r i = Num v \<and> 0 \<le> v \<and> v \<le> (?X (Suc i) - ?X i) * ?h" by auto
    have "\<bar>edge a b ?n i\<bar> \<le> 10 ^ 20" "\<bar>edge a b ?n (Suc i)\<bar> \<le> 10 ^ 20" "\<bar>c\<bar> \<le> 10 ^ 20" "\<bar>d\<bar> \<le> 10 ^ 20"
      using range(3)[of i] range(3)[of "Suc i"] i assms(10,11) by simp_all
    with T assms(4,5,14) show "task_ok (strip_task m cfg i)" by (simp add: task_ok_def small_magnitude)
  qed
  have "\<forall>i. \<exists>v. i < ?n \<longrightarrow> ?r i = Num v \<and> 0 \<le> v \<and> v \<le> (?X (Suc i) - ?X i) * ?h" using one(1) by blast
  then obtain f where f: "\<And>i. i < ?n \<Longrightarrow> ?r i = Num (f i) \<and> 0 \<le> f i \<and> f i \<le> (?X (Suc i) - ?X i) * ?h" by metis
  have big: "magnitude 309 (?r i)" if i: "i < ?n" for i
  proof -
    have "(?X (Suc i) - ?X i) * ?h \<le> 10 ^ 10 * 10 ^ 10"
      using box_side(2)[OF range(3)[of i] range(3)[of "Suc i"]] i h by (intro mult_mono) simp_all
    with f[OF i] show ?thesis by (simp add: small_magnitude)
  qed
  have "compute_integral_distributed m (honest m time) threads cfg =
      foldl (\<lambda>acc i. dadd (l_rnd m) acc (kept15 (l_rnd m) (?r i))) (Num 0) [0..<?n]"
    by (rule distributed_sum) (use assms(15) one(2) big in blast)
  also have "\<dots> = foldl (\<lambda>acc i. dadd (\<lambda>x. x) acc (Num (fix15 (f i)))) (Num 0) [0..<?n]"
    using f by (intro foldl_cong) (auto simp: assms(1) kept15_def)
  also have "\<dots> = Num (sum_list (map (\<lambda>i. fix15 (f i)) [0..<?n]))" by (simp add: foldl_exact)
  finally have eq: "compute_integral_distributed m (honest m time) threads cfg = Num (sum_list (map (\<lambda>i. fix15 (f i)) [0..<?n]))" .
  have "\<forall>i<?n. 0 \<le> fix15 (f i) \<and> fix15 (f i) \<le> (?X (Suc i) - ?X i) * ?h + 1 / (2 * of_nat E15)"
  proof (intro allI impI)
    fix i assume i: "i < ?n"
    have "\<bar>fix15 (f i) - f i\<bar> \<le> 1 / (2 * of_nat E15)" by (rule fix15_error)
    moreover have "f i \<le> (?X (Suc i) - ?X i) * ?h" "0 \<le> fix15 (f i)" using f[OF i] fix15_mono[of 0 "f i"] by (simp_all add: fix15_0)
    ultimately show "0 \<le> fix15 (f i) \<and> fix15 (f i) \<le> (?X (Suc i) - ?X i) * ?h + 1 / (2 * of_nat E15)"
      by linarith
  qed
  note S = sum_between[OF this]
  have "edge a b ?n ?n = b" "edge a b ?n 0 = a" using edge_range(3)[OF assms(6) le_refl n] by (simp_all add: edge_def)
  then have "sum_list (map (\<lambda>i. (?X (Suc i) - ?X i) * ?h) [0..<?n]) = (fix15 b - fix15 a) * ?h"
    using sum_telescope[of ?X ?h ?n] by simp
  moreover have "(fix15 b - fix15 a) * ?h \<le> (b - a + 1 / of_nat E15) * (d - c + 1 / of_nat E15)"
    using box_side(1)[OF assms(8,9)] h assms(6) by (intro mult_mono) simp_all
  ultimately show ?thesis using S eq by (intro exI conjI) auto
qed

theorem integral_within_box_witness:
  "\<exists>m v. compute_integral_distributed m (honest m 0) (\<lambda>_. True) two_servers = Num v \<and> 0 \<le> v \<and>
     v \<le> (1 + 1 / of_nat E15) * (1 + 1 / of_nat E15) + 2 * (1 / (2 * of_nat E15))"
proof -
  let ?m = "\<lparr>l_rnd = (\<lambda>x. x), l_exp = (\<lambda>x. x), l_rand = (\<lambda>s. (s, s))\<rparr> :: libm"
  have "\<exists>v. compute_integral_distributed ?m (honest ?m 0) (\<lambda>_. True) two_servers = Num v \<and> 0 \<le> v \<and>
     v \<le> (1 - 0 + 1 / of_nat E15) * (1 - 0 + 1 / of_nat E15) + of_nat (length (server_list two_servers)) * (1 / (2 * of_nat E15))"
    by (rule integral_within_box) (simp_all add: two_servers_def size_max_def)
  then show ?thesis by (intro exI[of _ ?m]) (simp add: two_servers_def)
qed

end
