(* ===== verification/Inotify_Readers.thy ===== *)
theory Inotify_Readers
  imports Monitor
begin

text \<open>
  Three programs of src/task\_6/examples that take the events of inotify out of the bytes that \<open>read\<close> returns:
  8\_inotify\_small\_ex.c, inotify.c and 7\_inotify\_third\_party\_ex.c.  The bytes are those of a little-endian machine.
\<close>

section \<open>Events as bytes\<close>

definition u32 :: "nat \<Rightarrow> bytes" where
  "u32 n = map (\<lambda>k. char_of (n div 256 ^ k mod 256)) [0, 1, 2, 3]"

definition rd32 :: "bytes \<Rightarrow> nat" where
  "rd32 b = (case b of c0 # c1 # c2 # c3 # _ \<Rightarrow>
     of_char c0 + 256 * of_char c1 + 65536 * of_char c2 + 16777216 * of_char c3 | _ \<Rightarrow> 0)"

definition EVENT_SIZE :: nat where "EVENT_SIZE = 16"

text \<open>
  An event as the kernel has it, without a name if it is of the watched directory itself; the name field is
  padded with zeros, at least one, to a multiple of the size of the header.
\<close>

record kevent =
  k_wd :: nat
  k_mask :: "32 word"
  k_cookie :: nat
  k_name :: string

definition name_field :: "string \<Rightarrow> bytes" where
  "name_field n = (if n = [] then [] else n @ replicate (EVENT_SIZE - length n mod EVENT_SIZE) NUL)"

definition event_bytes :: "kevent \<Rightarrow> bytes" where
  "event_bytes e = u32 (k_wd e) @ u32 (unat (k_mask e)) @ u32 (k_cookie e) @ u32 (length (name_field (k_name e))) @ name_field (k_name e)"

definition kernel_event :: "kevent \<Rightarrow> bool" where
  "kernel_event e \<longleftrightarrow> k_wd e < 2 ^ 32 \<and> k_cookie e < 2 ^ 32 \<and> nonul (k_name e) \<and> length (k_name e) \<le> 255"

text \<open>What a program finds at offset \<open>i\<close> of its buffer.\<close>

definition at_wd :: "bytes \<Rightarrow> nat \<Rightarrow> nat" where "at_wd b i = rd32 (drop i b)"
definition at_mask :: "bytes \<Rightarrow> nat \<Rightarrow> 32 word" where "at_mask b i = of_nat (rd32 (drop (i + 4) b))"
definition at_cookie :: "bytes \<Rightarrow> nat \<Rightarrow> nat" where "at_cookie b i = rd32 (drop (i + 8) b)"
definition at_len :: "bytes \<Rightarrow> nat \<Rightarrow> nat" where "at_len b i = rd32 (drop (i + 12) b)"
definition at_name :: "bytes \<Rightarrow> nat \<Rightarrow> string" where "at_name b i = cstr (drop (i + EVENT_SIZE) b)"

section \<open>The two short programs\<close>

definition small_line :: "32 word \<Rightarrow> string \<Rightarrow> string" where
  "small_line m name =
     (if m AND IN_CREATE \<noteq> 0 then ''File '' @ name @ '' created.'' @ [NL]
      else if m AND IN_DELETE \<noteq> 0 then ''File '' @ name @ '' deleted.'' @ [NL]
      else if m AND IN_MODIFY \<noteq> 0 then ''File '' @ name @ '' modified.'' @ [NL]
      else [])"

definition inotify_line :: "32 word \<Rightarrow> string \<Rightarrow> string" where
  "inotify_line m name =
     (if m AND IN_CREATE \<noteq> 0 then ''Create: file '' @ name @ [NL]
      else if m AND IN_DELETE \<noteq> 0 then ''Delete: file '' @ name @ [NL]
      else if m AND IN_MODIFY \<noteq> 0 then ''Modify: file '' @ name @ [NL]
      else [])"

text \<open>Their inner loop, over the first \<open>n\<close> bytes of the buffer.\<close>

function event_loop :: "(32 word \<Rightarrow> string \<Rightarrow> string) \<Rightarrow> bytes \<Rightarrow> nat \<Rightarrow> nat \<Rightarrow> string" where
  "event_loop line b n i =
     (if n \<le> i then []
      else (if at_len b i \<noteq> 0 then line (at_mask b i) (at_name b i) else []) @
        event_loop line b n (i + (EVENT_SIZE + at_len b i)))"
  by pat_completeness auto
termination
  by (relation "measure (\<lambda>(line, b, n, i). n - i)") (auto simp: EVENT_SIZE_def)

declare event_loop.simps [simp del]

text \<open>A \<open>read\<close>: the bytes, or a failure that is EINTR or not.\<close>

datatype ino_result = Got bytes | Failed bool

text \<open>
  \<open>main\<close> of 8\_inotify\_small\_ex.c over the results of \<open>read\<close>: the exit code, if it ends, and the text.  The
  buffer keeps what was in it.
\<close>

fun small_main_loop :: "bytes \<Rightarrow> ino_result list \<Rightarrow> int option \<times> string" where
  "small_main_loop buf [] = (None, [])"
| "small_main_loop buf (Failed eintr # rs) = (if eintr then small_main_loop buf rs else (Some 1, []))"
| "small_main_loop buf (Got d # rs) =
     (let buf1 = d @ drop (length d) buf in case small_main_loop buf1 rs of
        (r, t) \<Rightarrow> (r, event_loop small_line buf1 (length d) 0 @ t))"

definition small_main :: "nat \<Rightarrow> bool \<Rightarrow> bool \<Rightarrow> bytes \<Rightarrow> ino_result list \<Rightarrow> int option \<times> string" where
  "small_main argc init_ok add_ok garbage rs =
     (if argc \<noteq> 2 \<or> \<not> init_ok \<or> \<not> add_ok then (Some 1, []) else small_main_loop garbage rs)"

text \<open>
  inotify.c removes the watch and closes the descriptor inside its loop: after the first turn every \<open>read\<close> fails,
  and the loop goes on without end.  The text after \<open>k\<close> turns; \<open>None\<close> while the first \<open>read\<close> waits.
\<close>

fun inotify_turns :: "nat \<Rightarrow> bool \<Rightarrow> bytes \<Rightarrow> ino_result \<Rightarrow> string" where
  "inotify_turns 0 is_open buf r = []"
| "inotify_turns (Suc k) is_open buf r =
     (case (if is_open then r else Failed False) of
        Failed eintr \<Rightarrow> inotify_turns k False buf r
      | Got d \<Rightarrow> let buf1 = d @ drop (length d) buf in
          event_loop inotify_line buf1 (length d) 0 @ inotify_turns k False buf1 r)"

definition inotify_main :: "nat \<Rightarrow> bool \<Rightarrow> bytes \<Rightarrow> ino_result \<Rightarrow> int option \<times> string" where
  "inotify_main k add_ok garbage r = (if \<not> add_ok then (Some 1, []) else (None, inotify_turns k True garbage r))"

section \<open>The tester from elsewhere\<close>

text \<open>7\_inotify\_third\_party\_ex.c: the watched directories, in the order of the arguments.\<close>

record monitored =
  m_path :: path
  m_wd :: nat

definition IN_ACCESS :: "32 word" where "IN_ACCESS = 0x1"
definition IN_ATTRIB :: "32 word" where "IN_ATTRIB = 0x4"
definition IN_CLOSE_NOWRITE :: "32 word" where "IN_CLOSE_NOWRITE = 0x10"
definition IN_OPEN :: "32 word" where "IN_OPEN = 0x20"
definition IN_DELETE_SELF :: "32 word" where "IN_DELETE_SELF = 0x400"
definition IN_MOVE_SELF :: "32 word" where "IN_MOVE_SELF = 0x800"

definition flag_line :: "32 word \<Rightarrow> 32 word \<Rightarrow> string \<Rightarrow> string" where
  "flag_line m flag text = (if m AND flag \<noteq> 0 then CHR 0x09 # text @ [NL] else [])"

definition cookie_text :: "nat \<Rightarrow> string" where
  "cookie_text c = '' (cookie: '' @ dec_int (if c < 2 ^ 31 then int c else int c - 2 ^ 32) @ '')''"

definition event_flags :: "32 word \<Rightarrow> nat \<Rightarrow> string" where
  "event_flags m c = flag_line m IN_ACCESS ''IN_ACCESS'' @ flag_line m IN_ATTRIB ''IN_ATTRIB'' @ flag_line m IN_OPEN ''IN_OPEN'' @
     flag_line m IN_CLOSE_WRITE ''IN_CLOSE_WRITE'' @ flag_line m IN_CLOSE_NOWRITE ''IN_CLOSE_NOWRITE'' @
     flag_line m IN_CREATE ''IN_CREATE'' @ flag_line m IN_DELETE ''IN_DELETE'' @ flag_line m IN_DELETE_SELF ''IN_DELETE_SELF'' @
     flag_line m IN_MODIFY ''IN_MODIFY'' @ flag_line m IN_MOVE_SELF ''IN_MOVE_SELF'' @
     flag_line m IN_MOVED_FROM (''IN_MOVED_FROM'' @ cookie_text c) @ flag_line m IN_MOVED_TO (''IN_MOVED_TO'' @ cookie_text c)"

definition event_process :: "monitored list \<Rightarrow> bytes \<Rightarrow> nat \<Rightarrow> string" where
  "event_process mons b i = (case find (\<lambda>m. m_wd m = at_wd b i) mons of None \<Rightarrow> []
     | Some m \<Rightarrow> ''Received event in '' @ [CHR 0x27] @ m_path m @ (if 0 < at_len b i then ''/'' @ at_name b i else []) @
         [CHR 0x27] @ '': '' @ event_flags (at_mask b i) (at_cookie b i))"

text \<open>
  The loop of \<open>main\<close> with \<open>IN_EVENT_OK\<close> and \<open>IN_EVENT_NEXT\<close>: both take the length of the name for that of the event.
  \<open>n\<close> is the rest of the length, \<open>i\<close> the offset of the event.
\<close>

function tester_loop :: "monitored list \<Rightarrow> bytes \<Rightarrow> nat \<Rightarrow> nat \<Rightarrow> string" where
  "tester_loop mons b n i =
     (if EVENT_SIZE \<le> n \<and> EVENT_SIZE \<le> at_len b i \<and> at_len b i \<le> n
      then event_process mons b i @ tester_loop mons b (n - at_len b i) (i + at_len b i) else [])"
  by pat_completeness auto
termination
  by (relation "measure (\<lambda>(mons, b, n, i). n)") (auto simp: EVENT_SIZE_def)

declare tester_loop.simps [simp del]

text \<open>
  The watches, until one cannot be added (\<open>add p\<close> is the descriptor of \<open>p\<close>): what is printed, and the directories, or
  \<open>None\<close> where the program ends with a failure.
\<close>

fun initialize_inotify :: "(path \<Rightarrow> nat option) \<Rightarrow> path list \<Rightarrow> string \<times> monitored list option" where
  "initialize_inotify add [] = ([], Some [])"
| "initialize_inotify add (p # ps) = (case add p of None \<Rightarrow> ([], None)
     | Some w \<Rightarrow> (case initialize_inotify add ps of (t, ms) \<Rightarrow>
         (''Started monitoring directory '' @ [CHR 0x27] @ p @ [CHR 0x27] @ ''...'' @ [NL] @ t,
          map_option (\<lambda>ms. \<lparr>m_path = p, m_wd = w\<rparr> # ms) ms)))"

definition SIGINT :: int where "SIGINT = 2"
definition SIGTERM :: int where "SIGTERM = 15"

text \<open>
  One turn of \<open>main\<close>: whether \<open>poll\<close> works, what is read from the signal descriptor, if it is ready (\<open>Inl\<close>: the wrong
  size), and from inotify.  A failing read gives the length -1, which \<open>IN_EVENT_OK\<close> turns down.
\<close>

record tester_turn =
  poll_works :: bool
  turn_signal :: "(unit + int) option"
  turn_read :: "ino_result option"

definition turn_text :: "monitored list \<Rightarrow> bytes \<Rightarrow> ino_result option \<Rightarrow> string" where
  "turn_text mons garbage r = (case r of
     Some (Got d) \<Rightarrow> tester_loop mons (d @ drop (length d) garbage) (length d) 0 | _ \<Rightarrow> [])"

fun tester_turns :: "monitored list \<Rightarrow> bytes \<Rightarrow> tester_turn list \<Rightarrow> int option \<times> string" where
  "tester_turns mons garbage [] = (None, [])"
| "tester_turns mons garbage (t # ts) =
     (if \<not> poll_works t then (Some 1, [])
      else case turn_signal t of
        Some (Inl u) \<Rightarrow> (Some 1, [])
      | s \<Rightarrow> if s = Some (Inr SIGINT) \<or> s = Some (Inr SIGTERM) then (Some 0, ''Exiting inotify example...'' @ [NL])
          else (case tester_turns mons garbage ts of (r, text) \<Rightarrow> (r, turn_text mons garbage (turn_read t) @ text)))"

definition tester_main :: "bool \<Rightarrow> bool \<Rightarrow> bool \<Rightarrow> (path \<Rightarrow> nat option) \<Rightarrow> path list \<Rightarrow> bytes \<Rightarrow> tester_turn list \<Rightarrow> int option \<times> string" where
  "tester_main block_ok signalfd_ok init_ok add dirs garbage ts =
     (if dirs = [] \<or> \<not> block_ok \<or> \<not> signalfd_ok \<or> \<not> init_ok then (Some 1, [])
      else case initialize_inotify add dirs of
        (text, None) \<Rightarrow> (Some 1, text)
      | (text, Some mons) \<Rightarrow> (case tester_turns mons garbage ts of (r, t) \<Rightarrow> (r, text @ t)))"

section \<open>Reading back what the kernel wrote\<close>

lemma rd32_u32: "n < 2 ^ 32 \<Longrightarrow> rd32 (u32 n @ b) = n"
proof -
  assume n: "n < 2 ^ 32"
  have "n = n mod 256 + 256 * (n div 256 mod 256) + 65536 * (n div 65536 mod 256) + 16777216 * (n div 16777216)"
  proof -
    have d: "n div 65536 = n div 256 div 256" "n div 16777216 = n div 256 div 256 div 256" by (simp_all add: div_mult2_eq [symmetric])
    show ?thesis unfolding d
      using div_mult_mod_eq[of n 256] div_mult_mod_eq[of "n div 256" 256] div_mult_mod_eq[of "n div 256 div 256" 256] by linarith
  qed
  moreover have "n div 16777216 mod 256 = n div 16777216" using n by simp
  ultimately show ?thesis by (simp add: rd32_def u32_def)
qed

lemma length_u32 [simp]: "length (u32 n) = 4"
  by (simp add: u32_def)

lemma name_field_length: "length n \<le> 255 \<Longrightarrow> length (name_field n) \<le> 256"
  by (auto simp: name_field_def EVENT_SIZE_def) presburger

lemma cstr_name_field: "nonul n \<Longrightarrow> n \<noteq> [] \<Longrightarrow> cstr (name_field n @ b) = n"
proof -
  assume n: "nonul n" "n \<noteq> []"
  have "length n mod EVENT_SIZE < EVENT_SIZE" by (simp add: EVENT_SIZE_def)
  then obtain k where "EVENT_SIZE - length n mod EVENT_SIZE = Suc k" by (metis Suc_diff_Suc)
  moreover have "takeWhile (\<lambda>c. c \<noteq> NUL) (n @ NUL # replicate k NUL @ b) = n"
    using n(1) by (intro takeWhile_stop) (auto simp: nonul_def)
  ultimately show ?thesis using n by (simp add: name_field_def cstr_def)
qed

text \<open>The fields of an event that stands at offset \<open>i\<close>.\<close>

lemma event_fields:
  fixes a c :: bytes
  assumes "kernel_event e" "i = length a"
  defines "b \<equiv> a @ event_bytes e @ c"
  shows "at_wd b i = k_wd e" "at_mask b i = k_mask e" "at_cookie b i = k_cookie e"
    "at_len b i = length (name_field (k_name e))" "k_name e \<noteq> [] \<Longrightarrow> at_name b i = k_name e"
proof -
  have e: "k_wd e < 2 ^ 32" "k_cookie e < 2 ^ 32" "nonul (k_name e)" "length (name_field (k_name e)) < 2 ^ 32"
    using assms(1) name_field_length[of "k_name e"] by (auto simp: kernel_event_def)
  have m: "unat (k_mask e) < 2 ^ 32" using unsigned_less[of "k_mask e"] by simp
  note d = b_def assms(2) event_bytes_def at_wd_def at_mask_def at_cookie_def at_len_def at_name_def EVENT_SIZE_def
  show "at_wd b i = k_wd e" "at_cookie b i = k_cookie e" "at_len b i = length (name_field (k_name e))"
    using e by (simp_all add: d rd32_u32)
  show "at_mask b i = k_mask e" using m by (simp add: d rd32_u32)
  show "at_name b i = k_name e" if "k_name e \<noteq> []" using cstr_name_field[OF e(3) that] by (simp add: d)
qed

lemma length_event_bytes: "length (event_bytes e) = EVENT_SIZE + length (name_field (k_name e))"
  by (simp add: event_bytes_def EVENT_SIZE_def)

lemma name_field_Nil [simp]: "name_field n = [] \<longleftrightarrow> n = []"
  by (simp add: name_field_def)

lemma event_loop_events:
  assumes "\<forall>e\<in>set es. kernel_event e"
  shows "event_loop line (a @ concat (map event_bytes es) @ c) (length a + length (concat (map event_bytes es))) (length a) =
    concat (map (\<lambda>e. if k_name e = [] then [] else line (k_mask e) (k_name e)) es)"
  using assms
proof (induction es arbitrary: a)
  case Nil
  then show ?case by (simp add: event_loop.simps)
next
  case (Cons e es)
  let ?b = "a @ event_bytes e @ concat (map event_bytes es) @ c"
  note F = event_fields[of e "length a" a "concat (map event_bytes es) @ c", OF _ refl]
  have e: "kernel_event e" using Cons.prems by simp
  have "event_loop line ?b (length a + length (event_bytes e) + length (concat (map event_bytes es))) (length a + length (event_bytes e)) =
      concat (map (\<lambda>e. if k_name e = [] then [] else line (k_mask e) (k_name e)) es)"
    using Cons.IH[of "a @ event_bytes e"] Cons.prems by simp
  then show ?case
    using F(2,4,5)[OF e] by (subst event_loop.simps) (simp add: length_event_bytes EVENT_SIZE_def ac_simps)
qed

section \<open>What the tester shows\<close>

text \<open>The event itself, if its directory is watched.\<close>

definition report_of :: "monitored list \<Rightarrow> kevent \<Rightarrow> string" where
  "report_of mons e = (case find (\<lambda>m. m_wd m = k_wd e) mons of None \<Rightarrow> []
     | Some m \<Rightarrow> ''Received event in '' @ [CHR 0x27] @ m_path m @ ''/'' @ k_name e @ [CHR 0x27] @ '': '' @
         event_flags (k_mask e) (k_cookie e))"

lemma short_field:
  assumes "n \<noteq> []" "length n \<le> 12"
  shows "name_field n = n @ replicate (12 - length n) NUL @ replicate 4 NUL"
proof -
  have "EVENT_SIZE - length n mod EVENT_SIZE = (12 - length n) + 4" using assms(2) by (simp add: EVENT_SIZE_def)
  then show ?thesis using assms(1) by (simp add: name_field_def replicate_add)
qed

lemma rd32_zero: "rd32 (replicate 4 NUL @ b) = 0"
proof -
  have "replicate 4 NUL = [NUL, NUL, NUL, NUL]" by (simp add: eval_nat_numeral)
  then show ?thesis by (simp add: rd32_def)
qed

lemma tester_loop_first:
  assumes "kernel_event e" "length (k_name e) \<le> 12"
  shows "tester_loop mons (event_bytes e @ c) (length (event_bytes e) + k) 0 = (if k_name e = [] then [] else report_of mons e)"
proof -
  note F = event_fields[OF assms(1), of 0 "[]" c, simplified]
  show ?thesis
  proof (cases "k_name e = []")
    case True
    then show ?thesis using F(4) by (subst tester_loop.simps) (simp add: EVENT_SIZE_def name_field_def)
  next
    case False
    note f = short_field[OF False assms(2)]
    let ?b = "event_bytes e @ c"
    have len: "length (name_field (k_name e)) = 16" using f assms(2) by simp
    have "drop 28 ?b = replicate 4 NUL @ c" using f assms(2) by (simp add: event_bytes_def)
    then have "at_len ?b 16 = 0" by (simp add: at_len_def rd32_zero)
    then have "tester_loop mons ?b n 16 = []" for n by (subst tester_loop.simps) (simp add: EVENT_SIZE_def)
    moreover have "event_process mons ?b 0 = report_of mons e"
      using F False len by (simp add: event_process_def report_of_def split: option.split)
    ultimately show ?thesis using False F(4) len
      by (subst tester_loop.simps) (simp add: length_event_bytes EVENT_SIZE_def)
  qed
qed

lemma tester_loop_nothing: "tester_loop mons b 0 i = []"
  by (subst tester_loop.simps) (simp add: EVENT_SIZE_def)

text \<open>What one read leaves of its events.\<close>

definition first_report :: "monitored list \<Rightarrow> kevent list \<Rightarrow> string" where
  "first_report mons es = (case es of [] \<Rightarrow> [] | e # _ \<Rightarrow> if k_name e = [] then [] else report_of mons e)"

lemma turn_text_events:
  assumes "\<forall>e\<in>set es. kernel_event e \<and> length (k_name e) \<le> 12"
  shows "turn_text mons garbage (Some (Got (concat (map event_bytes es)))) = first_report mons es"
proof (cases es)
  case Nil
  then show ?thesis by (simp add: turn_text_def first_report_def tester_loop_nothing)
next
  case (Cons e r)
  with assms tester_loop_first[of e mons _ "length (concat (map event_bytes r))"] show ?thesis
    by (simp add: turn_text_def first_report_def)
qed

lemma small_loop_reads:
  "\<forall>es\<in>set ess. \<forall>e\<in>set es. kernel_event e \<Longrightarrow>
    small_main_loop b (map (\<lambda>es. Got (concat (map event_bytes es))) ess) =
      (None, concat (map (\<lambda>e. if k_name e = [] then [] else small_line (k_mask e) (k_name e)) (concat ess)))"
proof (induction ess arbitrary: b)
  case (Cons es ess)
  then show ?case using event_loop_events[of es small_line "[]"] by (simp add: Let_def)
qed simp

lemma tester_turns_reads:
  "\<forall>es\<in>set ess. \<forall>e\<in>set es. kernel_event e \<and> length (k_name e) \<le> 12 \<Longrightarrow>
    tester_turns mons g (map (\<lambda>es. \<lparr>poll_works = True, turn_signal = None, turn_read = Some (Got (concat (map event_bytes es)))\<rparr>) ess) =
      (None, concat (map (first_report mons) ess))"
  by (induction ess) (auto simp: turn_text_events)

lemma inotify_turns_closed: "inotify_turns k False b r = []"
  by (induction k) auto

text \<open>
  C32: Three ways to read the same bytes, those of any events the kernel writes.  The first program prints a line for every
  event with a name, in order, over all reads.  The second prints them for the first read only, as it closes its
  descriptor, and goes on for ever without printing.  The third mistakes the length of a name for that of an event: for
  names of up to 12 characters it shows just the first event of each read, and not even that one if it has no name.
\<close>

theorem inotify_readers:
  assumes "\<forall>es\<in>set ess. \<forall>e\<in>set es. kernel_event e"
  shows "small_main 2 True True garbage (map (\<lambda>es. Got (concat (map event_bytes es))) ess) =
      (None, concat (map (\<lambda>e. if k_name e = [] then [] else small_line (k_mask e) (k_name e)) (concat ess))) \<and>
    (ess \<noteq> [] \<longrightarrow> inotify_main (Suc k) True garbage (Got (concat (map event_bytes (hd ess)))) =
      (None, concat (map (\<lambda>e. if k_name e = [] then [] else inotify_line (k_mask e) (k_name e)) (hd ess)))) \<and>
    ((\<forall>es\<in>set ess. \<forall>e\<in>set es. length (k_name e) \<le> 12) \<longrightarrow>
      tester_turns mons garbage (map (\<lambda>es. \<lparr>poll_works = True, turn_signal = None, turn_read = Some (Got (concat (map event_bytes es)))\<rparr>) ess) =
      (None, concat (map (\<lambda>es. case es of [] \<Rightarrow> [] | e # _ \<Rightarrow> if k_name e = [] then [] else report_of mons e) ess)))"
proof (intro conjI impI)
  show "small_main 2 True True garbage (map (\<lambda>es. Got (concat (map event_bytes es))) ess) =
      (None, concat (map (\<lambda>e. if k_name e = [] then [] else small_line (k_mask e) (k_name e)) (concat ess)))"
    using small_loop_reads[OF assms] by (simp add: small_main_def)
  show "inotify_main (Suc k) True garbage (Got (concat (map event_bytes (hd ess)))) =
      (None, concat (map (\<lambda>e. if k_name e = [] then [] else inotify_line (k_mask e) (k_name e)) (hd ess)))" if "ess \<noteq> []"
  proof -
    have "\<forall>e\<in>set (hd ess). kernel_event e" using assms hd_in_set[OF that] by blast
    from event_loop_events[OF this, of inotify_line "[]"] show ?thesis by (simp add: inotify_main_def inotify_turns_closed Let_def)
  qed
  assume "\<forall>es\<in>set ess. \<forall>e\<in>set es. length (k_name e) \<le> 12"
  with assms tester_turns_reads[of ess mons garbage]
  show "tester_turns mons garbage (map (\<lambda>es. \<lparr>poll_works = True, turn_signal = None, turn_read = Some (Got (concat (map event_bytes es)))\<rparr>) ess) =
      (None, concat (map (\<lambda>es. case es of [] \<Rightarrow> [] | e # _ \<Rightarrow> if k_name e = [] then [] else report_of mons e) ess))"
    by (simp add: first_report_def[abs_def])
qed

text \<open>A file that is made and then written: the tester does not show the second event.\<close>

theorem inotify_readers_witness:
  "(let es = [\<lparr>k_wd = 1, k_mask = IN_CREATE, k_cookie = 0, k_name = ''f''\<rparr>, \<lparr>k_wd = 1, k_mask = IN_MODIFY, k_cookie = 0, k_name = ''f''\<rparr>] in
     small_main 2 True True [] [Got (concat (map event_bytes es))] = (None, ''File f created.'' @ [NL] @ ''File f modified.'' @ [NL]) \<and>
     snd (tester_turns [\<lparr>m_path = ''d'', m_wd = 1\<rparr>] []
       [\<lparr>poll_works = True, turn_signal = None, turn_read = Some (Got (concat (map event_bytes es)))\<rparr>]) =
     ''Received event in '' @ [CHR 0x27] @ ''d/f'' @ [CHR 0x27] @ '': '' @ [CHR 0x09] @ ''IN_CREATE'' @ [NL])"
proof -
  let ?es = "[\<lparr>k_wd = 1, k_mask = IN_CREATE, k_cookie = 0, k_name = ''f''\<rparr>, \<lparr>k_wd = 1, k_mask = IN_MODIFY, k_cookie = 0, k_name = ''f''\<rparr>]"
  have "\<forall>es\<in>set [?es]. \<forall>e\<in>set es. kernel_event e" by (simp add: kernel_event_def)
  note T = inotify_readers[OF this, of "[]" 0 "[\<lparr>m_path = ''d'', m_wd = 1\<rparr>]"]
  note flags = event_flags_def flag_line_def IN_ACCESS_def IN_ATTRIB_def IN_OPEN_def IN_CLOSE_WRITE_def IN_CLOSE_NOWRITE_def
    IN_CREATE_def IN_DELETE_def IN_DELETE_SELF_def IN_MODIFY_def IN_MOVE_SELF_def IN_MOVED_FROM_def IN_MOVED_TO_def
  have "report_of [\<lparr>m_path = ''d'', m_wd = 1\<rparr>] (hd ?es) =
      ''Received event in '' @ [CHR 0x27] @ ''d/f'' @ [CHR 0x27] @ '': '' @ [CHR 0x09] @ ''IN_CREATE'' @ [NL]"
    "small_line IN_CREATE ''f'' = ''File f created.'' @ [NL]" "small_line IN_MODIFY ''f'' = ''File f modified.'' @ [NL]"
    by (simp_all add: report_of_def small_line_def flags)
  with T show ?thesis by (simp add: Let_def)
qed

end
