(* ===== verification/Exec_Examples.thy ===== *)
theory Exec_Examples
  imports Getopt
begin

text \<open>
  src/sem\_1/examples/4\_2\_exec\_pedantic.c: seven ways to run \<open>ls -ltr\<close> in a child.  What appears and in which order
  depends on the buffer of the standard output, which \<open>fork\<close> copies and \<open>exec\<close> drops.
\<close>

section \<open>The system\<close>

text \<open>
  The arguments of an exec call: the file, whether it is looked up in PATH, the arguments, and the environment if
  the call passes one.
\<close>

record exec_call =
  ex_file :: string
  ex_search :: bool
  ex_argv :: "string list"
  ex_env :: "string list option"

text \<open>
  \<open>to_screen\<close>: the standard output is a terminal, so that each line is written at once; otherwise it is kept until
  the buffer of 4096 bytes is full or the process ends.  \<open>ls_letters\<close> and \<open>ls_text\<close> are ls: its option
  letters, and what it writes for options and environment.  \<open>fork_succeeds\<close> and \<open>exec_succeeds\<close> are for each of the seven children.
\<close>

record exec_world =
  to_screen :: bool
  my_env :: "string list"
  ls_letters :: optspec
  ls_text :: "(char \<times> string) list \<Rightarrow> string list \<Rightarrow> string"
  fork_succeeds :: "nat \<Rightarrow> bool"
  exec_succeeds :: "nat \<Rightarrow> exec_call \<Rightarrow> bool"

text \<open>What the standard output has received, and the buffer of the program.\<close>

type_synonym stdout = "string \<times> string"

definition put :: "exec_world \<Rightarrow> string \<Rightarrow> stdout \<Rightarrow> stdout" where
  "put e s o1 = (case o1 of (out, buf) \<Rightarrow> if to_screen e then (out @ buf @ s, []) else (out, buf @ s))"

definition put_end :: "stdout \<Rightarrow> string" where
  "put_end o1 = fst o1 @ snd o1"

definition ls_run :: "exec_world \<Rightarrow> exec_call \<Rightarrow> string" where
  "ls_run e c = ls_text e (getopt (ls_letters e) (tl (ex_argv c))) (case ex_env c of None \<Rightarrow> my_env e | Some v \<Rightarrow> v)"

text \<open>
  What all seven functions do: a heading, the child, which when its exec fails ends with \<open>exit\<close> and so writes its
  copy of the buffer, \<open>wait\<close>, an empty line.
\<close>

definition run_call :: "exec_world \<Rightarrow> nat \<Rightarrow> string \<Rightarrow> exec_call \<Rightarrow> stdout \<Rightarrow> stdout" where
  "run_call e i heading c o1 =
     (case put e (heading @ [NL]) o1 of (out, buf) \<Rightarrow>
        put e [NL] (out @ (if \<not> fork_succeeds e i then [] else if exec_succeeds e i c then ls_run e c else buf), buf))"

section \<open>The program\<close>

definition run_execl :: "exec_world \<Rightarrow> stdout \<Rightarrow> stdout" where
  "run_execl e = run_call e 0 ''1. Using execl():''
     \<lparr>ex_file = ''/bin/ls'', ex_search = False, ex_argv = [''ls'', ''-l'', ''-t'', ''-r''], ex_env = None\<rparr>"

definition run_execlp :: "exec_world \<Rightarrow> stdout \<Rightarrow> stdout" where
  "run_execlp e = run_call e 1 ''2. Using execlp():''
     \<lparr>ex_file = ''ls'', ex_search = True, ex_argv = [''ls'', ''-l'', ''-t'', ''-r''], ex_env = None\<rparr>"

definition run_execle :: "exec_world \<Rightarrow> stdout \<Rightarrow> stdout" where
  "run_execle e = run_call e 2 ''3. Using execle():''
     \<lparr>ex_file = ''/bin/ls'', ex_search = False, ex_argv = [''ls'', ''-l'', ''-t'', ''-r''], ex_env = Some []\<rparr>"

definition run_execv :: "exec_world \<Rightarrow> stdout \<Rightarrow> stdout" where
  "run_execv e = run_call e 3 ''4. Using execv():''
     \<lparr>ex_file = ''/bin/ls'', ex_search = False, ex_argv = [''ls'', ''-l'', ''-t'', ''-r''], ex_env = None\<rparr>"

definition run_execvp :: "exec_world \<Rightarrow> stdout \<Rightarrow> stdout" where
  "run_execvp e = run_call e 4 ''5. Using execvp():''
     \<lparr>ex_file = ''ls'', ex_search = True, ex_argv = [''ls'', ''-l'', ''-t'', ''-r''], ex_env = None\<rparr>"

definition run_execvpe :: "exec_world \<Rightarrow> stdout \<Rightarrow> stdout" where
  "run_execvpe e = run_call e 5 ''6. Using execvpe() (Linux-specific):''
     \<lparr>ex_file = ''ls'', ex_search = True, ex_argv = [''ls'', ''-l'', ''-t'', ''-r''], ex_env = Some []\<rparr>"

definition run_combined_flags :: "exec_world \<Rightarrow> stdout \<Rightarrow> stdout" where
  "run_combined_flags e = run_call e 6 ''7. Using combined flags (-ltr):''
     \<lparr>ex_file = ''ls'', ex_search = True, ex_argv = [''ls'', ''-ltr''], ex_env = None\<rparr>"

definition exec_main :: "exec_world \<Rightarrow> string" where
  "exec_main e = put_end (put e (''All exec* variants demonstrated!'' @ [NL])
     (run_combined_flags e (run_execvpe e (run_execvp e (run_execv e (run_execle e (run_execlp e (run_execl e
       (put e (''========================================='' @ [NL, NL])
         (put e (''Demonstrating exec* calls for '' @ [CHR 0x27] @ ''ls -ltr'' @ [CHR 0x27] @ '':'' @ [NL]) ([], [])))))))))))"

section \<open>What is seen\<close>

text \<open>The headings, with the environment that ls gets.\<close>

definition variants :: "exec_world \<Rightarrow> (string \<times> string list) list" where
  "variants e = [(''1. Using execl():'', my_env e), (''2. Using execlp():'', my_env e), (''3. Using execle():'', []),
     (''4. Using execv():'', my_env e), (''5. Using execvp():'', my_env e), (''6. Using execvpe() (Linux-specific):'', []),
     (''7. Using combined flags (-ltr):'', my_env e)]"

definition first_text :: string where
  "first_text = ''Demonstrating exec* calls for '' @ [CHR 0x27] @ ''ls -ltr'' @ [CHR 0x27] @ '':'' @ [NL] @
     ''========================================='' @ [NL, NL]"

definition last_text :: string where "last_text = ''All exec* variants demonstrated!'' @ [NL]"

text \<open>The program's own text up to and with the heading of variant \<open>i\<close>; all of it fits the buffer.\<close>

definition own_text :: "exec_world \<Rightarrow> nat \<Rightarrow> string" where
  "own_text e i = first_text @ concat (map (\<lambda>v. fst v @ [NL, NL]) (take i (variants e))) @ fst (variants e ! i) @ [NL]"

definition all_text :: "exec_world \<Rightarrow> string" where
  "all_text e = first_text @ concat (map (\<lambda>v. fst v @ [NL, NL]) (variants e)) @ last_text"

lemma text_fits: "length (all_text e) < 4096"
  by (simp add: all_text_def first_text_def last_text_def variants_def)

definition listing :: "exec_world \<Rightarrow> string list \<Rightarrow> string" where
  "listing e v = ls_text e [(CHR ''l'', []), (CHR ''t'', []), (CHR ''r'', [])] v"

text \<open>Separate and joined letters are the same options.\<close>

lemma option_letters:
  assumes "ls_letters e (CHR ''l'') = Some False" "ls_letters e (CHR ''t'') = Some False" "ls_letters e (CHR ''r'') = Some False"
  shows "getopt (ls_letters e) [''-l'', ''-t'', ''-r''] = [(CHR ''l'', []), (CHR ''t'', []), (CHR ''r'', [])]"
    "getopt (ls_letters e) [''-ltr''] = [(CHR ''l'', []), (CHR ''t'', []), (CHR ''r'', [])]"
  using assms by simp_all

text \<open>The effect of one call, on either kind of output.\<close>

definition child_text :: "exec_world \<Rightarrow> (nat \<Rightarrow> bool) \<Rightarrow> nat \<Rightarrow> string" where
  "child_text e works i = (if works i then listing e (snd (variants e ! i)) else [])"

lemma run_call_terminal:
  "to_screen e \<Longrightarrow> fork_succeeds e i \<Longrightarrow>
    run_call e i h c (out, []) = (out @ h @ [NL] @ (if exec_succeeds e i c then ls_run e c else []) @ [NL], [])"
  by (simp add: run_call_def put_def)

lemma run_call_file:
  "\<not> to_screen e \<Longrightarrow> fork_succeeds e i \<Longrightarrow> run_call e i h c (out, buf) =
    (out @ (if exec_succeeds e i c then ls_run e c else buf @ h @ [NL]), buf @ h @ [NL, NL])"
  by (simp add: run_call_def put_def)

text \<open>The seven calls in their order.\<close>

definition call_of :: "nat \<Rightarrow> exec_call" where
  "call_of i =
     \<lparr>ex_file = (if i \<in> {0, 2, 3} then ''/bin/ls'' else ''ls''), ex_search = (i \<notin> {0, 2, 3}),
      ex_argv = (if i = 6 then [''ls'', ''-ltr''] else [''ls'', ''-l'', ''-t'', ''-r'']),
      ex_env = (if i \<in> {2, 5} then Some [] else None)\<rparr>"

lemma seven: "[0..<7] = [0, 1, 2, 3, 4, 5, 6 :: nat]"
  by (simp add: upt_rec)

lemma less_seven: "i < 7 \<Longrightarrow> i = 0 \<or> i = 1 \<or> i = 2 \<or> i = 3 \<or> i = 4 \<or> i = 5 \<or> i = (6 :: nat)"
  by linarith

lemma exec_main_calls:
  "exec_main e = put_end (put e last_text (fold (\<lambda>i. run_call e i (fst (variants e ! i)) (call_of i)) [0..<7] (put e first_text ([], []))))"
proof -
  have "put e t (put e s o1) = put e (s @ t) o1" for s t o1
    by (simp add: put_def split: prod.split)
  then have "put e (''========================================='' @ [NL, NL])
      (put e (''Demonstrating exec* calls for '' @ [CHR 0x27] @ ''ls -ltr'' @ [CHR 0x27] @ '':'' @ [NL]) ([], [])) = put e first_text ([], [])"
    by (simp only: first_text_def append_assoc)
  then show ?thesis
    unfolding exec_main_def last_text_def seven
    by (simp add: run_execl_def run_execlp_def run_execle_def run_execv_def run_execvp_def run_execvpe_def run_combined_flags_def
        variants_def call_of_def del: append.simps)
qed

lemma fold_calls_terminal:
  assumes "to_screen e" "\<forall>i. fork_succeeds e i"
  shows "fold (\<lambda>i. run_call e i (h i) (c i)) [0..<n] (out, []) =
    (out @ concat (map (\<lambda>i. h i @ [NL] @ (if exec_succeeds e i (c i) then ls_run e (c i) else []) @ [NL]) [0..<n]), [])"
  using assms by (induction n) (simp_all add: run_call_terminal)

lemma fold_calls_file:
  assumes "\<not> to_screen e" "\<forall>i. fork_succeeds e i"
  shows "fold (\<lambda>i. run_call e i (h i) (c i)) [0..<n] (out, buf) =
    (out @ concat (map (\<lambda>i. if exec_succeeds e i (c i) then ls_run e (c i)
       else buf @ concat (map (\<lambda>j. h j @ [NL, NL]) [0..<i]) @ h i @ [NL]) [0..<n]),
     buf @ concat (map (\<lambda>i. h i @ [NL, NL]) [0..<n]))"
  using assms by (induction n) (simp_all add: run_call_file)

lemma ls_run_call:
  assumes "ls_letters e (CHR ''l'') = Some False" "ls_letters e (CHR ''t'') = Some False" "ls_letters e (CHR ''r'') = Some False"
    and "i < 7"
  shows "ls_run e (call_of i) = listing e (snd (variants e ! i))"
  using less_seven[OF assms(4)] option_letters[OF assms(1-3)]
  by (elim disjE) (simp_all add: ls_run_def call_of_def listing_def variants_def del: getopt.simps)

lemma take_variants: "i \<le> 7 \<Longrightarrow> map (\<lambda>v. fst v @ [NL, NL]) (take i (variants e)) = map (\<lambda>j. fst (variants e ! j) @ [NL, NL]) [0..<i]"
proof (rule nth_equalityI)
  assume i: "i \<le> 7"
  have "length (variants e) = 7" by (simp add: variants_def)
  with i show "length (map (\<lambda>v. fst v @ [NL, NL]) (take i (variants e))) = length (map (\<lambda>j. fst (variants e ! j) @ [NL, NL]) [0..<i])" by simp
  then show "map (\<lambda>v. fst v @ [NL, NL]) (take i (variants e)) ! k = map (\<lambda>j. fst (variants e ! j) @ [NL, NL]) [0..<i] ! k"
    if "k < length (map (\<lambda>v. fst v @ [NL, NL]) (take i (variants e)))" for k using that by simp
qed

text \<open>
  The seven ways are the same to ls apart from the environment, which two of them leave empty, as the joined
  letters are read as the separate ones.  On a terminal each listing follows its heading.  Into a file or pipe all
  listings come first, then all headings; and a child whose exec fails, at whichever calls, puts another copy of all the text so far
  in place of its listing.
\<close>

theorem exec_variants:
  assumes "ls_letters e (CHR ''l'') = Some False" "ls_letters e (CHR ''t'') = Some False" "ls_letters e (CHR ''r'') = Some False"
    and "\<forall>i. fork_succeeds e i" "\<forall>i c. exec_succeeds e i c = works i"
  shows "exec_main e = (if to_screen e
      then first_text @ concat (map (\<lambda>i. fst (variants e ! i) @ [NL] @ child_text e works i @ [NL]) [0..<7]) @ last_text
      else concat (map (\<lambda>i. if works i then child_text e works i else own_text e i) [0..<7]) @ all_text e)"
proof -
  have L: "length (variants e) = 7" by (simp add: variants_def)
  have run: "map (\<lambda>i. f i (ls_run e (call_of i))) [0..<7] = map (\<lambda>i. f i (listing e (snd (variants e ! i)))) [0..<7]"
    for f :: "nat \<Rightarrow> string \<Rightarrow> string"
    using ls_run_call[OF assms(1-3)] by (intro map_cong) simp_all
  show ?thesis
  proof (cases "to_screen e")
    case True
    have "exec_main e = first_text @ concat (map (\<lambda>i. fst (variants e ! i) @ [NL] @
        (if works i then ls_run e (call_of i) else []) @ [NL]) [0..<7]) @ last_text"
      using True assms(4,5) by (simp add: exec_main_calls put_def put_end_def fold_calls_terminal del: upt_Suc)
    then show ?thesis using True run[of "\<lambda>i l. fst (variants e ! i) @ [NL] @ (if works i then l else []) @ [NL]"]
      by (simp only: if_True child_text_def)
  next
    case False
    have own: "first_text @ concat (map (\<lambda>j. fst (variants e ! j) @ [NL, NL]) [0..<i]) @ fst (variants e ! i) @ [NL] = own_text e i"
      if "i < 7" for i using take_variants[of i e] that by (simp add: own_text_def)
    have all: "first_text @ concat (map (\<lambda>j. fst (variants e ! j) @ [NL, NL]) [0..<7]) @ last_text = all_text e"
      using take_variants[of 7 e] L by (simp add: all_text_def)
    have "exec_main e = concat (map (\<lambda>i. if works i then ls_run e (call_of i)
        else first_text @ concat (map (\<lambda>j. fst (variants e ! j) @ [NL, NL]) [0..<i]) @ fst (variants e ! i) @ [NL]) [0..<7]) @ all_text e"
      using False assms(4,5) by (simp add: exec_main_calls put_def put_end_def fold_calls_file flip: all del: upt_Suc)
    also have "map (\<lambda>i. if works i then ls_run e (call_of i)
        else first_text @ concat (map (\<lambda>j. fst (variants e ! j) @ [NL, NL]) [0..<i]) @ fst (variants e ! i) @ [NL]) [0..<7] =
      map (\<lambda>i. if works i then child_text e works i else own_text e i) [0..<7]"
      using ls_run_call[OF assms(1-3)] own by (intro map_cong) (simp_all add: child_text_def)
    finally show ?thesis using False by (simp only: if_False)
  qed
qed

text \<open>Into a file, where the second exec fails.\<close>

theorem exec_variants_witness:
  "(let e = \<lparr>to_screen = False, my_env = [], ls_letters = (\<lambda>c. Some False), ls_text = (\<lambda>os v. map fst os), fork_succeeds = (\<lambda>i. True),
        exec_succeeds = (\<lambda>i c. i \<noteq> 1)\<rparr> in
     exec_main e = ''ltr'' @ own_text e 1 @ ''ltrltrltrltrltr'' @ all_text e)"
proof -
  let ?e = "\<lparr>to_screen = False, my_env = [], ls_letters = (\<lambda>c. Some False), ls_text = (\<lambda>os v. map fst os), fork_succeeds = (\<lambda>i. True),
    exec_succeeds = (\<lambda>i c. i \<noteq> 1)\<rparr>"
  have "exec_main ?e = concat (map (\<lambda>i. if i \<noteq> 1 then child_text ?e (\<lambda>i. i \<noteq> 1) i else own_text ?e i) [0..<7]) @ all_text ?e"
    using exec_variants[of ?e "\<lambda>i. i \<noteq> 1"] by simp
  also have "map (\<lambda>i. if i \<noteq> 1 then child_text ?e (\<lambda>i. i \<noteq> 1) i else own_text ?e i) [0..<7] =
      [''ltr'', own_text ?e 1, ''ltr'', ''ltr'', ''ltr'', ''ltr'', ''ltr'']"
    by (simp add: seven child_text_def listing_def)
  finally show ?thesis by (simp add: Let_def)
qed

end
