(* ===== verification/Pipe_Examples.thy ===== *)
theory Pipe_Examples
  imports Copy_Protocol
begin

text \<open>
  Pipes in the examples: 8\_pipe.c of src/sem\_1 and the pair 1\_fifo\_writer.c and 1\_fifo\_reader.c of src/sem\_2,
  which pass text on, and pipe.c and 2\_pipe\_size\_exc.c of src/sem\_2, which fill a pipe to find its size.
\<close>

section \<open>Passing text on\<close>

text \<open>
  The programs have the same loops.  \<open>announces\<close>: the sender prints what it has read before it writes it.
  The two texts of each are those before and after the opening of the FIFO.
\<close>

record talk_kind =
  announces :: bool
  sender_hello :: "string \<times> string"
  reader_hello :: "string \<times> string"
  sent_line :: "bytes \<Rightarrow> string"
  got_line :: "bytes \<Rightarrow> string"

definition pipe_talk :: talk_kind where
  "pipe_talk = \<lparr>announces = False, sender_hello = ([], []), reader_hello = ([], []), sent_line = (\<lambda>d. ''Send: '' @ cstr d @ [NL]),
     got_line = (\<lambda>d. ''Received from parent: '' @ cstr d @ [NL])\<rparr>"

definition fifo_talk :: talk_kind where
  "fifo_talk = \<lparr>announces = True,
     sender_hello = (''Waiting for a reader'' @ [NL], ''A reader is connected'' @ [NL]),
     reader_hello = (''Waiting for a writer'' @ [NL], ''A writer is connected'' @ [NL]), sent_line = (\<lambda>d. ''Send: '' @ cstr d), got_line = (\<lambda>d. ''Received: '' @ cstr d)\<rparr>"

text \<open>
  The sender is about to open the FIFO, to read, to do the first or the second of printing and writing, or has ended;
  \<open>tk_said\<close> and \<open>tk_heard\<close> are the pieces that the two have printed.
\<close>

datatype talk_sender = TS_Open | TS_Read | TS_First bytes | TS_Second bytes | TS_Done
datatype talk_reader = TR_Open | TR_Read | TR_Done

record talk =
  tk_in :: bytes
  tk_pos :: nat
  tk_sender :: talk_sender
  tk_pipe :: bytes
  tk_reader :: talk_reader
  tk_said :: "bytes list"
  tk_heard :: "bytes list"

text \<open>The start: a result of \<open>main\<close> where \<open>pipe\<close> or \<open>fork\<close> fails.\<close>

definition pipe_talk_start :: "bool \<Rightarrow> bool \<Rightarrow> bytes \<Rightarrow> int + talk" where
  "pipe_talk_start pipe_ok fork_ok f = (if \<not> pipe_ok \<or> \<not> fork_ok then Inl (-1)
     else Inr \<lparr>tk_in = f, tk_pos = 0, tk_sender = TS_Read, tk_pipe = [], tk_reader = TR_Read, tk_said = [], tk_heard = []\<rparr>)"

definition fifo_talk_start :: "bytes \<Rightarrow> talk" where
  "fifo_talk_start f = \<lparr>tk_in = f, tk_pos = 0, tk_sender = TS_Open, tk_pipe = [], tk_reader = TR_Open, tk_said = [], tk_heard = []\<rparr>"

definition TALK_BUF :: nat where "TALK_BUF = 4095"

definition talk_read :: "nat option \<Rightarrow> talk \<Rightarrow> talk" where
  "talk_read choice w = (case file_read TALK_BUF (tk_in w) (tk_pos w) choice of
     None \<Rightarrow> w\<lparr>tk_sender := TS_Done\<rparr>
   | Some d \<Rightarrow> if d = [] then w\<lparr>tk_sender := TS_Done\<rparr>
       else w\<lparr>tk_sender := TS_First d, tk_pos := tk_pos w + length d\<rparr>)"

definition talk_print :: "bytes \<Rightarrow> talk \<Rightarrow> talk option" where
  "talk_print d w = Some (w\<lparr>tk_said := tk_said w @ [d]\<rparr>)"

text \<open>At most PIPE\_BUF bytes, written at once or not at all: \<open>None\<close> while the pipe has no room.\<close>

definition talk_write :: "nat \<Rightarrow> bytes \<Rightarrow> talk \<Rightarrow> talk option" where
  "talk_write cap d w = (if cap < length (tk_pipe w) + length d then None else Some (w\<lparr>tk_pipe := tk_pipe w @ d\<rparr>))"

definition talk_receive :: "nat \<Rightarrow> talk \<Rightarrow> talk" where
  "talk_receive n w = w\<lparr>tk_pipe := drop n (tk_pipe w), tk_heard := tk_heard w @ [take n (tk_pipe w)]\<rparr>"

text \<open>\<open>ok\<close>: no \<open>read\<close> of the sender fails.\<close>

inductive talk_step :: "bool \<Rightarrow> talk_kind \<Rightarrow> nat \<Rightarrow> talk \<Rightarrow> talk \<Rightarrow> bool" for ok k cap where
  connect: "tk_sender w = TS_Open \<Longrightarrow> tk_reader w = TR_Open \<Longrightarrow> talk_step ok k cap w (w\<lparr>tk_sender := TS_Read, tk_reader := TR_Read\<rparr>)"
| reads: "tk_sender w = TS_Read \<Longrightarrow> ok \<longrightarrow> choice \<noteq> None \<Longrightarrow> talk_step ok k cap w (talk_read choice w)"
| first: "tk_sender w = TS_First d \<Longrightarrow> (if announces k then talk_print d w else talk_write cap d w) = Some w' \<Longrightarrow>
    talk_step ok k cap w (w'\<lparr>tk_sender := TS_Second d\<rparr>)"
| second: "tk_sender w = TS_Second d \<Longrightarrow> (if announces k then talk_write cap d w else talk_print d w) = Some w' \<Longrightarrow>
    talk_step ok k cap w (w'\<lparr>tk_sender := TS_Read\<rparr>)"
| receives: "tk_reader w = TR_Read \<Longrightarrow> 0 < n \<Longrightarrow> n \<le> TALK_BUF \<Longrightarrow> n \<le> length (tk_pipe w) \<Longrightarrow> talk_step ok k cap w (talk_receive n w)"
| ends: "tk_reader w = TR_Read \<Longrightarrow> tk_pipe w = [] \<Longrightarrow> tk_sender w = TS_Done \<Longrightarrow> talk_step ok k cap w (w\<lparr>tk_reader := TR_Done\<rparr>)"

inductive_cases talk_step_cases: "talk_step ok k cap w w'"

text \<open>What the two show on their screens.\<close>

definition talk_texts :: "talk_kind \<Rightarrow> talk \<Rightarrow> string \<times> string" where
  "talk_texts k w =
     (fst (sender_hello k) @ (if tk_sender w = TS_Open then [] else snd (sender_hello k)) @ concat (map (sent_line k) (tk_said w)),
      fst (reader_hello k) @ (if tk_reader w = TR_Open then [] else snd (reader_hello k)) @ concat (map (got_line k) (tk_heard w)))"

subsection \<open>The contract of a channel\<close>

fun unsaid :: "talk_kind \<Rightarrow> talk_sender \<Rightarrow> bytes" where
  "unsaid k (TS_First d) = d"
| "unsaid k (TS_Second d) = (if announces k then [] else d)"
| "unsaid k p = []"

fun unwritten :: "talk_kind \<Rightarrow> talk_sender \<Rightarrow> bytes" where
  "unwritten k (TS_First d) = d"
| "unwritten k (TS_Second d) = (if announces k then d else [])"
| "unwritten k p = []"

fun piece :: "talk_sender \<Rightarrow> bytes" where
  "piece (TS_First d) = d" | "piece (TS_Second d) = d" | "piece p = []"

definition talk_inv :: "bool \<Rightarrow> talk_kind \<Rightarrow> talk \<Rightarrow> bool" where
  "talk_inv ok k w \<longleftrightarrow> tk_pos w \<le> length (tk_in w) \<and> length (piece (tk_sender w)) \<le> TALK_BUF \<and>
     concat (tk_heard w) @ tk_pipe w @ unwritten k (tk_sender w) = take (tk_pos w) (tk_in w) \<and>
     concat (tk_said w) @ unsaid k (tk_sender w) = take (tk_pos w) (tk_in w) \<and>
     (tk_sender w = TS_Open \<longleftrightarrow> tk_reader w = TR_Open) \<and> (tk_reader w = TR_Done \<longrightarrow> tk_sender w = TS_Done \<and> tk_pipe w = []) \<and>
     (ok \<longrightarrow> tk_sender w = TS_Done \<longrightarrow> tk_pos w = length (tk_in w))"

lemma talk_read_inv: "talk_inv ok k w \<Longrightarrow> tk_sender w = TS_Read \<Longrightarrow> ok \<longrightarrow> choice \<noteq> None \<Longrightarrow> talk_inv ok k (talk_read choice w)"
proof -
  assume w: "talk_inv ok k w" "tk_sender w = TS_Read" and ok: "ok \<longrightarrow> choice \<noteq> None"
  show ?thesis
  proof (cases "file_read TALK_BUF (tk_in w) (tk_pos w) choice")
    case None
    then have "choice = None" by (simp add: file_read_def split: option.splits)
    with w ok None show ?thesis by (auto simp: talk_inv_def talk_read_def)
  next
    case (Some d)
    note R = file_read_result[OF Some, unfolded TALK_BUF_def, simplified]
    show ?thesis
    proof (cases "d = []")
      case True
      then show ?thesis using w Some R(3) by (auto simp: talk_inv_def talk_read_def)
    next
      case False
      then show ?thesis using w Some R(2,4,5) by (auto simp: talk_inv_def talk_read_def TALK_BUF_def)
    qed
  qed
qed

lemma talk_step_inv: "talk_step ok k cap w w' \<Longrightarrow> talk_inv ok k w \<Longrightarrow> talk_inv ok k w' \<and> tk_in w' = tk_in w"
proof (induction rule: talk_step.induct)
  case (reads w choice)
  then show ?case using talk_read_inv by (auto simp: talk_read_def split: option.splits)
next
  case (receives w n)
  then show ?case by (auto simp: talk_inv_def talk_receive_def take_drop_append)
qed (auto simp: talk_inv_def talk_print_def talk_write_def split: if_splits)

interpretation talk_copy: copy_protocol "talk_step ok k cap" "talk_inv ok k" tk_in "\<lambda>w. take (tk_pos w) (tk_in w)"
    "\<lambda>w. tk_pipe w @ unwritten k (tk_sender w)" "\<lambda>w. concat (tk_heard w)" for ok k cap
  by unfold_locales (auto dest: talk_step_inv simp: talk_inv_def take_is_prefix)

subsection \<open>The end\<close>

fun sender_rank :: "talk_kind \<Rightarrow> talk_sender \<Rightarrow> nat" where
  "sender_rank k TS_Open = 2" | "sender_rank k TS_Read = 1" | "sender_rank k TS_Done = 0"
| "sender_rank k (TS_First d) = 3 + length d"
| "sender_rank k (TS_Second d) = 2 + (if announces k then length d else 0)"

fun reader_rank :: "talk_reader \<Rightarrow> nat" where
  "reader_rank TR_Open = 2" | "reader_rank TR_Read = 1" | "reader_rank TR_Done = 0"

definition talk_rank :: "talk_kind \<Rightarrow> talk \<Rightarrow> nat" where
  "talk_rank k w = 4 * (length (tk_in w) - tk_pos w) + sender_rank k (tk_sender w) + length (tk_pipe w) + reader_rank (tk_reader w)"

lemma talk_read_rank:
  assumes "tk_sender w = TS_Read" "tk_pos w \<le> length (tk_in w)"
  shows "talk_rank k (talk_read choice w) < talk_rank k w"
proof (cases "file_read TALK_BUF (tk_in w) (tk_pos w) choice")
  case (Some d)
  from file_read_result(5)[OF Some] assms(2) have "tk_pos w + length d \<le> length (tk_in w)" by (simp add: TALK_BUF_def)
  then have "2 + (4 * (length (tk_in w) - (tk_pos w + length d)) + length d) < 4 * (length (tk_in w) - tk_pos w)" if "d \<noteq> []"
    using that by (cases d) auto
  then show ?thesis using assms(1) Some by (cases "d = []") (simp_all add: talk_read_def talk_rank_def)
qed (use assms in \<open>simp add: talk_read_def talk_rank_def\<close>)

lemma talk_step_rank: "talk_step ok k cap w w' \<Longrightarrow> talk_inv ok k w \<Longrightarrow> talk_rank k w' < talk_rank k w"
proof (induction rule: talk_step.induct)
  case (reads w choice)
  then show ?case by (auto simp: talk_inv_def intro: talk_read_rank)
next
  case (receives w n)
  then show ?case by (simp add: talk_rank_def talk_receive_def)
qed (auto simp: talk_rank_def talk_print_def talk_write_def split: if_splits)

interpretation talk_ends: bounded_runs "talk_step ok k cap" "talk_inv ok k" "talk_rank k" for ok k cap
  by unfold_locales (auto dest: talk_step_inv talk_step_rank)

text \<open>A pipe that can hold one piece is enough.\<close>

lemma talk_moves:
  assumes "talk_inv ok k w" "TALK_BUF \<le> cap" "tk_reader w \<noteq> TR_Done"
  shows "\<exists>w'. talk_step ok k cap w w'"
proof (cases "tk_pipe w = [] \<or> tk_reader w = TR_Open")
  case False
  then have "tk_reader w = TR_Read" using assms(3) by (cases "tk_reader w") simp_all
  then show ?thesis using False talk_step.receives[of w 1] by (cases "tk_pipe w") (auto simp: TALK_BUF_def)
next
  case True
  then have p: "tk_sender w = TS_Open \<or> tk_pipe w = []" using assms(1) by (auto simp: talk_inv_def)
  show ?thesis
  proof (cases "tk_sender w")
    case TS_Open
    then show ?thesis using assms(1) by (auto simp: talk_inv_def intro: talk_step.connect)
  next
    case TS_Read
    then show ?thesis using talk_step.reads[of w ok "Some 0"] by blast
  next
    case (TS_First d)
    then have "length d \<le> cap" using assms(1,2) by (simp add: talk_inv_def)
    with p TS_First have "\<exists>w'. (if announces k then talk_print d w else talk_write cap d w) = Some w'"
      by (simp add: talk_print_def talk_write_def)
    with TS_First show ?thesis by (blast intro: talk_step.first)
  next
    case (TS_Second d)
    then have "length d \<le> cap" using assms(1,2) by (simp add: talk_inv_def)
    with p TS_Second have "\<exists>w'. (if announces k then talk_write cap d w else talk_print d w) = Some w'"
      by (simp add: talk_print_def talk_write_def)
    with TS_Second show ?thesis by (blast intro: talk_step.second)
  next
    case TS_Done
    then have "tk_reader w = TR_Read" using assms(1,3) by (cases "tk_reader w") (auto simp: talk_inv_def)
    then show ?thesis using p TS_Done by (auto intro: talk_step.ends)
  qed
qed

text \<open>
  The text passes unchanged, in every interleaving and however it is cut by the reads: what the receiver has printed is always a
  prefix of the input, each run ends within 4 n + 4 steps for an input of n bytes, and at its end both have printed all of it,
  each in its own pieces of at most 4095 bytes.
\<close>

theorem talk_passes_text:
  assumes "TALK_BUF \<le> cap" "w0 = fifo_talk_start f \<or> pipe_talk_start True True f = Inr w0" "(talk_step True k cap ^^ n) w0 w"
  shows "n \<le> 4 * length f + 4 \<and> prefix (concat (tk_heard w)) f \<and>
    ((\<nexists>w'. talk_step True k cap w w') \<longrightarrow>
      tk_sender w = TS_Done \<and> tk_reader w = TR_Done \<and> concat (tk_said w) = f \<and> concat (tk_heard w) = f)"
proof (intro conjI impI)
  have i: "talk_inv True k w0" "tk_in w0 = f" "talk_rank k w0 \<le> 4 * length f + 4"
    using assms(2) by (auto simp: fifo_talk_start_def pipe_talk_start_def talk_inv_def talk_rank_def)
  note run = relpowp_runs[OF assms(3)]
  from talk_copy.runs[OF run i(1)] i(2) have w: "talk_inv True k w" "tk_in w = f" by auto
  show "n \<le> 4 * length f + 4" using talk_ends.run_length[OF assms(3) i(1)] i(3) by simp
  show "prefix (concat (tk_heard w)) f" using talk_copy.out_is_prefix[OF run i(1)] i(2) by simp
  assume "\<nexists>w'. talk_step True k cap w w'"
  then have "tk_reader w = TR_Done" using talk_moves[OF w(1) assms(1)] by blast
  with w show "tk_sender w = TS_Done" "tk_reader w = TR_Done" "concat (tk_said w) = f" "concat (tk_heard w) = f"
    by (auto simp: talk_inv_def)
qed

theorem talk_passes_text_witness:
  "\<exists>w. talk_step True pipe_talk TALK_BUF (\<lparr>tk_in = ''ab'', tk_pos = 0, tk_sender = TS_Read, tk_pipe = [], tk_reader = TR_Read,
       tk_said = [], tk_heard = []\<rparr>) w \<and> tk_pos w = 1 \<and> prefix (concat (tk_heard w)) ''ab''"
proof -
  let ?w = "\<lparr>tk_in = ''ab'', tk_pos = 0, tk_sender = TS_Read, tk_pipe = [], tk_reader = TR_Read, tk_said = [], tk_heard = []\<rparr>"
  have s: "talk_step True pipe_talk TALK_BUF ?w (talk_read (Some 0) ?w)" by (rule talk_step.reads) simp_all
  then have "(talk_step True pipe_talk TALK_BUF ^^ 1) ?w (talk_read (Some 0) ?w)" by (simp add: eq_OO)
  moreover have "pipe_talk_start True True ''ab'' = Inr ?w" by (simp add: pipe_talk_start_def)
  ultimately have "prefix (concat (tk_heard (talk_read (Some 0) ?w))) ''ab''" using talk_passes_text[of TALK_BUF ?w "''ab''"] by blast
  with s show ?thesis by (intro exI[of _ "talk_read (Some 0) ?w"]) (simp add: talk_read_def file_read_def TALK_BUF_def)
qed

section \<open>Filling a pipe\<close>

text \<open>A write of at most PIPE\_BUF bytes to a pipe that holds \<open>used\<close>.\<close>

datatype pipe_result = PWrote nat | PFull | PBlocks

definition pipe_write :: "bool \<Rightarrow> nat \<Rightarrow> nat \<Rightarrow> nat \<Rightarrow> pipe_result" where
  "pipe_write nonblock cap used n = (if used + n \<le> cap then PWrote n else if nonblock then PFull else PBlocks)"

text \<open>
  Where the writer is: in its loop, after the \<open>break\<close>, killed by SIGPIPE, ended with an exit code.  The reader
  is missing if \<open>fork\<close> has failed.  \<open>gp_shown\<close> and \<open>gc_shown\<close> are the numbers that the two have printed; the loops end when the
  counter, an \<open>int\<close>, would overflow.
\<close>

datatype gauge_writer = GW_Loop | GW_Broke | GW_Killed | GW_Exit int
datatype gauge_reader = GR_None | GR_Sleep | GR_Loop | GR_Exit

record gauge =
  g_written :: nat
  g_used :: nat
  g_eaten :: nat
  g_writer :: gauge_writer
  g_reader :: gauge_reader
  gp_shown :: "nat list"
  gc_shown :: "nat list"

definition gauge_start :: "gauge_writer \<Rightarrow> gauge_reader \<Rightarrow> gauge" where
  "gauge_start p c = \<lparr>g_written = 0, g_used = 0, g_eaten = 0, g_writer = p, g_reader = c, gp_shown = [], gc_shown = []\<rparr>"

definition INT_MAX :: nat where "INT_MAX = 2 ^ 31 - 1"

definition gauge_eat :: "gauge \<Rightarrow> gauge" where
  "gauge_eat w = w\<lparr>g_used := g_used w - 1, g_eaten := Suc (g_eaten w)\<rparr>"

text \<open>Nothing is lost on the way; the contract of both programs.\<close>

locale pipe_gauge =
  fixes step :: "gauge \<Rightarrow> gauge \<Rightarrow> bool" and cap :: nat and local :: "gauge \<Rightarrow> bool"
  assumes conserved: "step w w' \<Longrightarrow> g_written w = g_eaten w + g_used w \<and> g_used w \<le> cap \<Longrightarrow>
      g_written w' = g_eaten w' + g_used w' \<and> g_used w' \<le> cap"
    and local_kept: "step w w' \<Longrightarrow> g_written w = g_eaten w + g_used w \<and> g_used w \<le> cap \<Longrightarrow> local w \<Longrightarrow> local w'"
begin

lemma reached: "step\<^sup>*\<^sup>* (gauge_start p c) w \<Longrightarrow> local (gauge_start p c) \<Longrightarrow>
    g_written w = g_eaten w + g_used w \<and> g_used w \<le> cap \<and> local w"
proof (induction rule: rtranclp_induct)
  case base
  then show ?case by (simp add: gauge_start_def)
next
  case (step v w)
  then show ?case using conserved local_kept by meson
qed

end

subsection \<open>pipe.c\<close>

text \<open>
  The copy of the write end is non-blocking, and the child keeps its own one: the end of the input never comes
  for it.  A failing \<open>fork\<close> is not noticed: the parent writes to a pipe without a reader.
\<close>

definition CHUNK :: nat where "CHUNK = 1024"

definition full_start :: "bool \<Rightarrow> bool \<Rightarrow> gauge" where
  "full_start pipe_ok fork_ok = gauge_start (if pipe_ok then GW_Loop else GW_Exit 1) (if pipe_ok \<and> fork_ok then GR_Loop else GR_None)"

definition full_write :: "nat \<Rightarrow> gauge \<Rightarrow> gauge option" where
  "full_write cap w =
     (if g_reader w = GR_None then Some (w\<lparr>g_writer := GW_Killed\<rparr>)
      else case pipe_write True cap (g_used w) CHUNK of
        PWrote n \<Rightarrow> if g_written w + n \<le> INT_MAX then Some (w\<lparr>g_used := g_used w + n, g_written := g_written w + n\<rparr>) else None
      | PFull \<Rightarrow> Some (w\<lparr>gp_shown := gp_shown w @ [g_written w], g_writer := GW_Exit 2\<rparr>)
      | PBlocks \<Rightarrow> None)"

inductive full_step :: "nat \<Rightarrow> gauge \<Rightarrow> gauge \<Rightarrow> bool" for cap where
  writes: "g_writer w = GW_Loop \<Longrightarrow> full_write cap w = Some w' \<Longrightarrow> full_step cap w w'"
| eats: "g_reader w = GR_Loop \<Longrightarrow> 0 < g_used w \<Longrightarrow> full_step cap w (gauge_eat w)"

definition full_local :: "nat \<Rightarrow> gauge \<Rightarrow> bool" where
  "full_local cap w \<longleftrightarrow> CHUNK dvd g_written w \<and> g_reader w = GR_Loop \<and>
     (g_writer w = GW_Loop \<and> gp_shown w = [] \<or> g_writer w = GW_Exit 2 \<and> gp_shown w = [g_written w] \<and> cap < g_written w + CHUNK)"

interpretation full: pipe_gauge "full_step cap" cap "full_local cap" for cap
proof
  fix w w'
  assume "full_step cap w w'" and w: "g_written w = g_eaten w + g_used w \<and> g_used w \<le> cap"
  then show "g_written w' = g_eaten w' + g_used w' \<and> g_used w' \<le> cap"
    by cases (auto simp: full_write_def pipe_write_def gauge_eat_def split: if_splits)
next
  fix w w'
  assume "full_step cap w w'" "g_written w = g_eaten w + g_used w \<and> g_used w \<le> cap" "full_local cap w"
  then show "full_local cap w'"
    by cases (auto simp: full_write_def pipe_write_def gauge_eat_def full_local_def split: if_splits)
qed

subsection \<open>2\_pipe\_size\_exc.c\<close>

text \<open>The write end blocks; the child closes its own one and sleeps before it reads.\<close>

definition exc_start :: "bool \<Rightarrow> bool \<Rightarrow> gauge" where
  "exc_start pipe_ok fork_ok = gauge_start (if pipe_ok \<and> fork_ok then GW_Loop else GW_Exit 1) (if pipe_ok \<and> fork_ok then GR_Sleep else GR_None)"

definition exc_write :: "nat \<Rightarrow> gauge \<Rightarrow> gauge option" where
  "exc_write cap w = (case pipe_write False cap (g_used w) 1 of
       PWrote n \<Rightarrow> if g_written w + n \<le> INT_MAX
         then Some (w\<lparr>g_used := g_used w + n, g_written := g_written w + n,
           gp_shown := gp_shown w @ (if (g_written w + n) mod 1024 = 0 then [g_written w + n] else [])\<rparr>) else None
     | PFull \<Rightarrow> Some (w\<lparr>gp_shown := gp_shown w @ [g_written w], g_writer := GW_Broke\<rparr>)
     | PBlocks \<Rightarrow> None)"

inductive exc_step :: "nat \<Rightarrow> gauge \<Rightarrow> gauge \<Rightarrow> bool" for cap where
  writes: "g_writer w = GW_Loop \<Longrightarrow> exc_write cap w = Some w' \<Longrightarrow> exc_step cap w w'"
| total: "g_writer w = GW_Broke \<Longrightarrow> exc_step cap w (w\<lparr>gp_shown := gp_shown w @ [g_written w], g_writer := GW_Exit 0\<rparr>)"
| wakes: "g_reader w = GR_Sleep \<Longrightarrow> exc_step cap w (w\<lparr>g_reader := GR_Loop\<rparr>)"
| eats: "g_reader w = GR_Loop \<Longrightarrow> 0 < g_used w \<Longrightarrow> exc_step cap w (gauge_eat w)"
| counts: "g_reader w = GR_Loop \<Longrightarrow> g_used w = 0 \<Longrightarrow> g_writer w \<in> {GW_Exit 0, GW_Killed} \<Longrightarrow>
    exc_step cap w (w\<lparr>gc_shown := gc_shown w @ [g_eaten w], g_reader := GR_Exit\<rparr>)"

definition each_kib :: "nat \<Rightarrow> nat list" where
  "each_kib n = map (\<lambda>k. 1024 * Suc k) [0..<n div 1024]"

definition exc_local :: "gauge \<Rightarrow> bool" where
  "exc_local w \<longleftrightarrow> g_writer w = GW_Loop \<and> g_reader w \<in> {GR_Sleep, GR_Loop} \<and> gc_shown w = [] \<and>
     gp_shown w = each_kib (g_written w)"

lemma each_kib_Suc: "each_kib (Suc n) = each_kib n @ (if Suc n mod 1024 = 0 then [Suc n] else [])"
proof (cases "Suc n mod 1024 = 0")
  case True
  then have "Suc n div 1024 = Suc (n div 1024)" by (simp add: div_Suc)
  moreover from this True have "1024 * Suc (n div 1024) = Suc n" using div_mult_mod_eq[of "Suc n" 1024] by simp
  ultimately show ?thesis using True by (simp add: each_kib_def)
next
  case False
  then have "Suc n div 1024 = n div 1024" by (simp add: div_Suc)
  then show ?thesis using False by (simp add: each_kib_def)
qed

interpretation exc: pipe_gauge "exc_step cap" cap exc_local for cap
proof
  fix w w'
  assume "exc_step cap w w'" and w: "g_written w = g_eaten w + g_used w \<and> g_used w \<le> cap"
  then show "g_written w' = g_eaten w' + g_used w' \<and> g_used w' \<le> cap"
    by cases (auto simp: exc_write_def pipe_write_def gauge_eat_def split: if_splits)
next
  fix w w'
  assume "exc_step cap w w'" "g_written w = g_eaten w + g_used w \<and> g_used w \<le> cap" "exc_local w"
  then show "exc_local w'"
    by cases (auto simp: exc_write_def pipe_write_def gauge_eat_def exc_local_def each_kib_Suc split: if_splits)
qed

subsection \<open>What they measure\<close>

text \<open>The child of the first reads the rest and waits.\<close>

lemma full_drained:
  "g_reader w = GR_Loop \<Longrightarrow> g_writer w = GW_Exit 2 \<Longrightarrow>
    \<exists>u. (full_step cap)\<^sup>*\<^sup>* w u \<and> g_used u = 0 \<and> g_reader u = GR_Loop \<and> (\<nexists>u'. full_step cap u u')"
proof (induction "g_used w" arbitrary: w)
  case 0
  then have "\<nexists>u'. full_step cap w u'" by (auto elim: full_step.cases)
  with 0 show ?case by (intro exI[of _ w]) simp
next
  case (Suc n)
  have s: "full_step cap w (gauge_eat w)" using Suc by (intro full_step.eats) simp_all
  have "n = g_used (gauge_eat w)" using Suc(2) by (simp add: gauge_eat_def)
  from Suc(1)[OF this] Suc(3,4) obtain u where "(full_step cap)\<^sup>*\<^sup>* (gauge_eat w) u" "g_used u = 0" "g_reader u = GR_Loop" "\<nexists>u'. full_step cap u u'"
    by (auto simp: gauge_eat_def)
  with s show ?case by (blast intro: converse_rtranclp_into_rtranclp)
qed

lemma exc_moves:
  assumes "exc_local w" "0 < cap" "g_written w < INT_MAX"
  shows "\<exists>w'. exc_step cap w w'"
proof (cases "g_used w = 0")
  case True
  then have "exc_write cap w \<noteq> None" using assms by (simp add: exc_write_def pipe_write_def)
  then show ?thesis using assms(1) by (auto simp: exc_local_def intro: exc_step.writes)
next
  case False
  then show ?thesis using assms(1) by (cases "g_reader w") (auto simp: exc_local_def intro: exc_step.wakes exc_step.eats)
qed

text \<open>
  C33: Two attempts at the size of a pipe, in every interleaving.  pipe.c never blocks in its writes; the one number that it shows is a multiple of
  1024, at most the capacity and what the child has read together, and if it is below the capacity then by less than 1024; the child then reads the rest and
  waits for ever, as it has a write end itself.  2\_pipe\_size\_exc.c never gets the error that it waits for: neither the size nor either
  total is ever shown, just each 1024th byte, and it can go on until its counter overflows.
\<close>

theorem pipe_size_measured:
  assumes "CHUNK \<le> cap" "(full_step cap)\<^sup>*\<^sup>* (full_start True True) w" "(exc_step cap)\<^sup>*\<^sup>* (exc_start True True) v"
  shows "(g_writer w = GW_Loop \<longrightarrow> gp_shown w = [] \<and> (g_written w + CHUNK \<le> INT_MAX \<longrightarrow> full_write cap w \<noteq> None)) \<and>
    (\<forall>n\<in>set (gp_shown w). CHUNK dvd n \<and> cap < n + CHUNK \<and> n \<le> cap + g_eaten w) \<and>
    (g_writer w \<noteq> GW_Loop \<longrightarrow> length (gp_shown w) = 1 \<and>
      (\<exists>u. (full_step cap)\<^sup>*\<^sup>* w u \<and> g_used u = 0 \<and> g_reader u = GR_Loop \<and> (\<nexists>u'. full_step cap u u'))) \<and>
    g_writer v = GW_Loop \<and> gc_shown v = [] \<and> gp_shown v = map (\<lambda>k. 1024 * Suc k) [0..<g_written v div 1024] \<and>
    (g_written v < INT_MAX \<longrightarrow> (\<exists>v'. exc_step cap v v'))"
proof -
  have w: "g_written w = g_eaten w + g_used w" "g_used w \<le> cap" "full_local cap w"
    using full.reached[OF assms(2)[unfolded full_start_def]] by (auto simp: full_local_def gauge_start_def)
  have v: "exc_local v"
    using exc.reached[OF assms(3)[unfolded exc_start_def]] by (auto simp: exc_local_def gauge_start_def each_kib_def)
  have cap: "0 < cap" using assms(1) by (simp add: CHUNK_def)
  have fw: "full_write cap w \<noteq> None" if "g_written w + CHUNK \<le> INT_MAX"
    using that by (auto simp: full_write_def pipe_write_def)
  from w fw full_drained[of w cap] v exc_moves[OF v cap] show ?thesis
    unfolding full_local_def exc_local_def each_kib_def by auto
qed

text \<open>A pipe for one block: the size of it is shown.\<close>

theorem pipe_size_measured_witness:
  "\<exists>w u. (full_step 1024)\<^sup>*\<^sup>* (full_start True True) w \<and> gp_shown w = [1024] \<and>
     (full_step 1024)\<^sup>*\<^sup>* w u \<and> g_reader u = GR_Loop \<and> (\<nexists>u'. full_step 1024 u u')"
proof -
  let ?s = "gauge_start GW_Loop GR_Loop"
  let ?a = "?s\<lparr>g_used := 1024, g_written := 1024\<rparr>"
  let ?b = "?a\<lparr>gp_shown := [1024], g_writer := GW_Exit 2\<rparr>"
  note d = full_write_def pipe_write_def CHUNK_def INT_MAX_def gauge_start_def
  have "full_step 1024 ?s ?a" "full_step 1024 ?a ?b"
    by (rule full_step.writes; simp add: d)+
  then have r: "(full_step 1024)\<^sup>*\<^sup>* (full_start True True) ?b" by (simp add: full_start_def)
  have "\<exists>u. (full_step 1024)\<^sup>*\<^sup>* ?b u \<and> g_used u = 0 \<and> g_reader u = GR_Loop \<and> (\<nexists>u'. full_step 1024 u u')"
    using pipe_size_measured[OF _ r rtranclp.rtrancl_refl] by (simp add: CHUNK_def)
  then obtain u where "(full_step 1024)\<^sup>*\<^sup>* ?b u" "g_reader u = GR_Loop" "\<nexists>u'. full_step 1024 u u'" by blast
  with r show ?thesis by (intro exI[of _ ?b] exI[of _ u]) simp
qed

end
