(* ===== verification/Poll_Examples.thy ===== *)
theory Poll_Examples
  imports Stdio_Format
begin

text \<open>
  3\_select.c, 4\_poll.c and 5\_epoll.c of src/task\_7/examples wait for input with a time-out and then read it, the first two with \<open>scanf\<close>,
  whose buffer the waiting calls do not see.
\<close>

section \<open>Input in time\<close>

text \<open>
  What arrives at the standard input: the second, and the bytes that one \<open>read\<close> returns, none for the end of the input.
  Nothing comes after the last one.
\<close>

type_synonym arrivals = "(nat \<times> bytes) list"

record stdin =
  arriving :: arrivals
  stdio_buf :: bytes
  clock :: nat

definition ready_within :: "nat \<Rightarrow> stdin \<Rightarrow> bool" where
  "ready_within timeout s = (case arriving s of [] \<Rightarrow> False | (t, d) # as \<Rightarrow> t \<le> clock s + timeout)"

text \<open>The clock when the waiting call returns.\<close>

definition waited :: "nat \<Rightarrow> stdin \<Rightarrow> nat" where
  "waited timeout s = (if ready_within timeout s then max (clock s) (fst (hd (arriving s))) else clock s + timeout)"

text \<open>
  \<open>scanf("%s")\<close>: the word, \<open>None\<close> at the end of the input; the whole is \<open>None\<close> if the call never returns.
\<close>

fun scan_input :: "string \<Rightarrow> bytes \<Rightarrow> arrivals \<Rightarrow> nat \<Rightarrow> (string option \<times> stdin) option" where
  "scan_input acc buf as now =
     (let b = (if acc = [] then dropWhile c_isspace buf else buf);
          w = acc @ takeWhile (\<lambda>c. \<not> c_isspace c) b; rest = dropWhile (\<lambda>c. \<not> c_isspace c) b
      in if rest \<noteq> [] then Some (Some w, \<lparr>arriving = as, stdio_buf = rest, clock = now\<rparr>)
         else case as of [] \<Rightarrow> None
         | (t, d) # as' \<Rightarrow>
             if d = [] then Some (if w = [] then None else Some w, \<lparr>arriving = as', stdio_buf = [], clock = max now t\<rparr>)
             else scan_input w d as' (max now t))"

text \<open>
  \<open>scanf\<close> into an array of 4096 bytes without a width; at the end of the input the array stays as it is, \<open>garbage\<close>.
\<close>

datatype scanned = Scanned string stdin | Never | Too_Long

definition scan_into :: "bytes \<Rightarrow> stdin \<Rightarrow> scanned" where
  "scan_into garbage s = (case scan_input [] (stdio_buf s) (arriving s) (clock s) of
     None \<Rightarrow> Never
   | Some (None, s1) \<Rightarrow> Scanned (cstr garbage) s1
   | Some (Some w, s1) \<Rightarrow> if 4096 \<le> length w then Too_Long else Scanned (cstr w) s1)"

section \<open>The programs\<close>

text \<open>What is shown until the program ends, waits for ever, or writes or reads beyond an array.\<close>

datatype poll_run = Ends string | Waits string | Overruns string

fun after_text :: "string \<Rightarrow> poll_run \<Rightarrow> poll_run" where
  "after_text t (Ends u) = Ends (t @ u)"
| "after_text t (Waits u) = Waits (t @ u)"
| "after_text t (Overruns u) = Overruns (t @ u)"

text \<open>A block that reads a word and goes on with \<open>k\<close>.\<close>

definition with_word :: "bytes \<Rightarrow> stdin \<Rightarrow> (string \<Rightarrow> stdin \<Rightarrow> poll_run) \<Rightarrow> poll_run" where
  "with_word garbage s k = (case scan_into garbage s of Scanned w s1 \<Rightarrow> k w s1 | Never \<Rightarrow> Waits [] | Too_Long \<Rightarrow> Overruns [])"

text \<open>
  3\_select.c; \<open>select\<close> works, and on Linux leaves in \<open>tv\<close> the time that is left.  The set of descriptors is not filled again
  before the second call.
\<close>

definition select_main :: "bytes \<Rightarrow> bytes \<Rightarrow> stdin \<Rightarrow> poll_run" where
  "select_main g1 g2 s =
     (if \<not> ready_within 5 s then Ends (''Timeout!'' @ [NL])
      else let t1 = waited 5 s; left = 5 - (t1 - clock s) in
        after_text (''Data can be achieved'' @ [NL] @ ''FD_ISSET: 1'' @ [NL])
          (with_word g1 (s\<lparr>clock := t1\<rparr>) (\<lambda>w s1. after_text w
            (if \<not> ready_within left s1 then Ends []
             else after_text (''Modified'' @ [NL]) (with_word g2 (s1\<lparr>clock := waited left s1\<rparr>) (\<lambda>w2 s2. Ends w2))))))"

text \<open>4\_poll.c on a terminal: a writable standard output makes \<open>poll\<close> return at once.\<close>

definition poll_main :: "bytes \<Rightarrow> bool \<Rightarrow> stdin \<Rightarrow> poll_run" where
  "poll_main garbage out_ready s =
     (let wait = (if out_ready then 0 else 5); pollout = (if out_ready then ''POLLOUT on stdout'' @ [NL] else []) in
      if \<not> ready_within wait s then Ends (if out_ready then pollout else ''TIMEOUT!'' @ [NL])
      else after_text (''POLLIN on stdin'' @ [NL])
        (with_word garbage (s\<lparr>clock := waited wait s\<rparr>) (\<lambda>w s1. Ends (w @ [NL] @ pollout))))"

text \<open>
  5\_epoll.c: the bytes are printed as a string without an end of their own.  \<open>add_ok\<close>: the descriptor can be
  watched, which a file cannot; the program goes on all the same.
\<close>

definition epoll_main :: "bytes \<Rightarrow> bool \<Rightarrow> stdin \<Rightarrow> poll_run" where
  "epoll_main garbage add_ok s =
     (if \<not> add_ok \<or> \<not> ready_within 5 s then Ends (''Events count 0'' @ [NL])
      else after_text (''Events count 1'' @ [NL] @ ''Handling FD 0'' @ [NL])
        (let d = take 4096 (snd (hd (arriving s))); buf = d @ drop (length d) garbage in
           if NUL \<in> set buf then Ends (cstr buf @ [NL]) else Overruns []))"

section \<open>What they miss\<close>

lemma scan_input_word:
  assumes "word_like w" "c_isspace c"
  shows "scan_input [] (w @ c # r) as now = Some (Some w, \<lparr>arriving = as, stdio_buf = c # r, clock = now\<rparr>)"
proof -
  have w: "w \<noteq> []" "\<forall>x\<in>set w. \<not> c_isspace x" using assms(1) by (auto simp: word_like_def)
  then have "dropWhile c_isspace (w @ c # r) = w @ c # r" by (cases w) simp_all
  moreover have "takeWhile (\<lambda>c. \<not> c_isspace c) (w @ c # r) = w" "dropWhile (\<lambda>c. \<not> c_isspace c) (w @ c # r) = c # r"
    using w(2) assms(2) by (simp_all add: takeWhile_stop dropWhile_stop)
  ultimately show ?thesis using w assms(2) by (subst scan_input.simps) auto
qed

lemma scan_input_blanks:
  assumes "c_isspace c" "word_like w" "c_isspace c'"
  shows "scan_input [] (c # w @ c' # r) as now = Some (Some w, \<lparr>arriving = as, stdio_buf = c' # r, clock = now\<rparr>)"
proof -
  have "scan_input [] (c # w @ c' # r) as now = scan_input [] (w @ c' # r) as now"
    using assms(1) by (subst (1 2) scan_input.simps) simp
  then show ?thesis using scan_input_word[OF assms(2,3)] by simp
qed

text \<open>
  Two words in one line.  The second \<open>select\<close> asks the kernel, which has no more of it: without another line within the
  five seconds the second word is not shown, and with one it is that word that is shown.  \<open>poll\<close> never waits while the output can
  be written, and so misses all input that comes later.  The text that epoll.c shows ends where the array has a zero
  byte, after the input or in what was in the array.
\<close>

definition one_line :: "nat \<Rightarrow> string \<Rightarrow> string \<Rightarrow> arrivals \<Rightarrow> stdin" where
  "one_line t w1 w2 as = \<lparr>arriving = (t, w1 @ CHR '' '' # w2 @ [NL]) # as, stdio_buf = [], clock = 0\<rparr>"

lemma waiting_calls:
  assumes "word_like w1" "word_like w2" "nonul w1" "nonul w2" "length w1 < 4096" "length w2 < 4096" "t \<le> 5"
    and "\<forall>a\<in>set as. t \<le> fst a"
  shows "select_main g1 g2 (one_line t w1 w2 as) = Ends (''Data can be achieved'' @ [NL] @ ''FD_ISSET: 1'' @ [NL] @ w1 @
      (if as \<noteq> [] \<and> fst (hd as) \<le> 5 then ''Modified'' @ [NL] @ w2 else []))"
    and "0 < t \<Longrightarrow> poll_main g1 True (one_line t w1 w2 as) = Ends (''POLLOUT on stdout'' @ [NL])"
    and "length w1 + length w2 + 2 \<le> 4096 \<Longrightarrow> epoll_main g1 True (one_line t w1 w2 as) =
      (let d = w1 @ CHR '' '' # w2 @ [NL]; rest = drop (length d) g1; shown = ''Events count 1'' @ [NL] @ ''Handling FD 0'' @ [NL] in
       if NUL \<in> set rest then Ends (shown @ d @ cstr rest @ [NL]) else Overruns shown)"
proof -
  let ?s = "one_line t w1 w2 as"
  have into: "scan_into g1 (?s\<lparr>clock := t\<rparr>) = Scanned w1 \<lparr>arriving = as, stdio_buf = CHR '' '' # w2 @ [NL], clock = t\<rparr>"
  proof -
    have "scan_input [] [] (arriving ?s) t = scan_input [] (w1 @ CHR '' '' # w2 @ [NL]) as t"
      by (subst scan_input.simps) (simp add: one_line_def)
    then show ?thesis using scan_input_word[OF assms(1), of "CHR '' ''" "w2 @ [NL]" as t] assms(3,5)
      by (simp add: scan_into_def one_line_def c_isspace_def)
  qed
  have first: "ready_within 5 ?s" "waited 5 ?s = t" "clock ?s = 0"
    using assms(7) by (auto simp: one_line_def ready_within_def waited_def)
  show "select_main g1 g2 ?s = Ends (''Data can be achieved'' @ [NL] @ ''FD_ISSET: 1'' @ [NL] @ w1 @
      (if as \<noteq> [] \<and> fst (hd as) \<le> 5 then ''Modified'' @ [NL] @ w2 else []))"
  proof -
    let ?s1 = "\<lparr>arriving = as, stdio_buf = CHR '' '' # w2 @ [NL], clock = t\<rparr>"
    have again: "ready_within (5 - t) ?s1 \<longleftrightarrow> as \<noteq> [] \<and> fst (hd as) \<le> 5"
      using assms(7) by (cases as) (auto simp: ready_within_def)
    have "scan_into g2 (?s1\<lparr>clock := m\<rparr>) = Scanned w2 \<lparr>arriving = as, stdio_buf = [NL], clock = m\<rparr>" for m
      using scan_input_blanks[OF _ assms(2), of "CHR '' ''" NL "[]" as m] assms(4,6) by (simp add: scan_into_def c_isspace_def)
    with into again first show ?thesis
      by (simp add: select_main_def with_word_def Let_def)
  qed
  show "poll_main g1 True ?s = Ends (''POLLOUT on stdout'' @ [NL])" if "0 < t"
    using that by (simp add: poll_main_def ready_within_def one_line_def Let_def)
  assume l: "length w1 + length w2 + 2 \<le> 4096"
  let ?d = "w1 @ CHR '' '' # w2 @ [NL]"
  have t: "take 4096 (snd (hd (arriving ?s))) = ?d" using l by (simp add: one_line_def)
  have "nonul ?d" using assms(3,4) by simp
  then have n: "NUL \<notin> set ?d" by (auto simp: nonul_def)
  then have "cstr (?d @ b) = ?d @ cstr b" for b unfolding cstr_def by (intro takeWhile_append2) auto
  with t n show "epoll_main g1 True ?s = (let d = ?d; rest = drop (length d) g1; shown = ''Events count 1'' @ [NL] @ ''Handling FD 0'' @ [NL] in
       if NUL \<in> set rest then Ends (shown @ d @ cstr rest @ [NL]) else Overruns shown)"
    using first(1) by (simp add: epoll_main_def Let_def)
qed

end
