(* ===== verification/File_Examples.thy ===== *)
theory File_Examples
  imports Stdio_Format "HOL-Library.Word"
begin

text \<open>
  Two programs of src/task\_6/examples that show what the system says of a file and of a process: 3\_stat.c and
  9\_procfs\_mem\_monitor.c.
\<close>

unbundle bit_operations_syntax

section \<open>3\_stat.c\<close>

definition S_IFMT :: "32 word" where "S_IFMT = 0xF000"
definition S_IFDIR :: "32 word" where "S_IFDIR = 0x4000"
definition S_IFLNK :: "32 word" where "S_IFLNK = 0xA000"

record stat_result =
  st_mode :: "32 word"
  st_size :: nat
  st_nlink :: nat
  st_ino :: nat
  st_atime :: int
  st_mtime :: int
  st_ctime :: int

definition perm_char :: "32 word \<Rightarrow> nat \<Rightarrow> char \<Rightarrow> char" where
  "perm_char m flag c = (if m AND of_nat flag \<noteq> 0 then c else CHR ''-'')"

text \<open>The bits from S\_IRUSR to S\_IXOTH, in octal 400 to 1.\<close>

definition perm_string :: "32 word \<Rightarrow> string" where
  "perm_string m = (if m AND S_IFMT = S_IFDIR then CHR ''d'' else CHR ''-'') #
     [perm_char m 256 (CHR ''r''), perm_char m 128 (CHR ''w''), perm_char m 64 (CHR ''x''),
      perm_char m 32 (CHR ''r''), perm_char m 16 (CHR ''w''), perm_char m 8 (CHR ''x''),
      perm_char m 4 (CHR ''r''), perm_char m 2 (CHR ''w''), perm_char m 1 (CHR ''x'')]"

text \<open>A number of 64 bits printed with \<open>%d\<close>: its low 32 bits with a sign.\<close>

definition as_d :: "nat \<Rightarrow> string" where
  "as_d n = dec_int (let k = n mod 2 ^ 32 in if k < 2 ^ 31 then int k else int k - 2 ^ 32)"

definition stat_text :: "(int \<Rightarrow> string) \<Rightarrow> string \<Rightarrow> stat_result \<Rightarrow> string" where
  "stat_text ctime name st =
     ''Information for '' @ name @ [NL] @ ''---------------------------'' @ [NL] @
     ''File Size: '' @ [CHR 0x09, CHR 0x09] @ as_d (st_size st) @ '' bytes'' @ [NL] @
     ''Number of Links: '' @ [CHR 0x09] @ as_d (st_nlink st) @ [NL] @
     ''File inode: '' @ [CHR 0x09, CHR 0x09] @ as_d (st_ino st) @ [NL] @
     ''File Permissions: '' @ [CHR 0x09] @ perm_string (st_mode st) @ [NL, NL] @
     ''The file '' @ (if st_mode st AND S_IFMT = S_IFLNK then ''is'' else ''is not'') @ '' a symbolic link'' @ [NL] @
     ''Last access: '' @ ctime (st_atime st) @ ''Last modification: '' @ ctime (st_mtime st) @
     ''Last status change: '' @ ctime (st_ctime st)"

text \<open>\<open>stat\<close> is the call, \<open>None\<close> when it fails.\<close>

definition stat_main :: "(int \<Rightarrow> string) \<Rightarrow> (string \<Rightarrow> stat_result option) \<Rightarrow> string list \<Rightarrow> int \<times> string" where
  "stat_main ctime stat args = (case args of
     [name] \<Rightarrow> (case stat name of None \<Rightarrow> (1, []) | Some st \<Rightarrow> (0, stat_text ctime name st))
   | _ \<Rightarrow> (1, []))"

subsection \<open>The permissions can be read back\<close>

definition shift_in :: "32 word \<Rightarrow> bool \<Rightarrow> 32 word" where
  "shift_in m b = push_bit 1 m OR (if b then 1 else 0)"

definition mode_of :: "string \<Rightarrow> 32 word" where
  "mode_of s = foldl (\<lambda>m c. shift_in m (c \<noteq> CHR ''-'')) 0 (tl s)"

lemma perm_bit: "k < 32 \<Longrightarrow> m AND of_nat (2 ^ k) \<noteq> 0 \<longleftrightarrow> bit (m :: 32 word) k"
proof -
  assume k: "k < 32"
  have "m AND push_bit k 1 \<noteq> 0 \<longleftrightarrow> bit m k"
  proof
    show "bit m k" if "m AND push_bit k 1 \<noteq> 0"
      using that by (rule contrapos_np) (auto intro!: bit_word_eqI simp: bit_simps)
    show "m AND push_bit k 1 \<noteq> 0" if "bit m k"
    proof
      assume "m AND push_bit k 1 = 0"
      then have "\<not> bit (m AND push_bit k 1) k" by simp
      with that k show False by (simp add: bit_simps)
    qed
  qed
  moreover have "of_nat (2 ^ k) = push_bit k (1 :: 32 word)" by (simp add: push_bit_eq_mult)
  ultimately show ?thesis by simp
qed

lemma shift_in_bit: "n < 32 \<Longrightarrow> bit (shift_in x b) n = (if n = 0 then b else bit x (n - 1))"
proof -
  have "bit (push_bit 1 x) n \<longleftrightarrow> n < 32 \<and> 1 \<le> n \<and> bit x (n - 1)" by (simp only: bit_push_bit_iff possible_bit_word) auto
  moreover have "bit (if b then 1 else 0 :: 32 word) n \<longleftrightarrow> b \<and> n = 0" by (simp add: bit_1_iff)
  moreover assume "n < 32"
  ultimately show ?thesis unfolding shift_in_def bit_or_iff by (cases n) simp_all
qed

lemma mode_of_perm_string: "mode_of (perm_string m) = m AND 0x1FF"
proof (rule bit_word_eqI)
  fix n :: nat
  assume "n < LENGTH(32)"
  then have n: "n < 32" by simp
  have low: "perm_char m (2 ^ k) c = CHR ''-'' \<longleftrightarrow> \<not> bit m k" if "k < 32" "c \<noteq> CHR ''-''" for k c
    using perm_bit[OF that(1), of m] that(2) by (simp add: perm_char_def)
  note bits = low[of 0, simplified] low[of 1, simplified] low[of 2, simplified] low[of 3, simplified] low[of 4, simplified]
    low[of 5, simplified] low[of 6, simplified] low[of 7, simplified] low[of 8, simplified]
  have mask: "bit (0x1FF :: 32 word) n \<longleftrightarrow> n < 9"
  proof -
    have "(0x1FF :: 32 word) = Bit_Operations.mask 9" by (simp add: mask_eq_decr_exp)
    with n show ?thesis by (simp only: bit_mask_iff) simp
  qed
  have "n = 0 \<or> n = 1 \<or> n = 2 \<or> n = 3 \<or> n = 4 \<or> n = 5 \<or> n = 6 \<or> n = 7 \<or> n = 8 \<or> 9 \<le> n" by linarith
  then show "bit (mode_of (perm_string m)) n = bit (m AND 0x1FF) n"
    unfolding bit_and_iff mask mode_of_def perm_string_def list.sel foldl_Cons foldl_Nil
    by (elim disjE) (use n in \<open>simp_all add: shift_in_bit bits\<close>)
qed

section \<open>9\_procfs\_mem\_monitor.c\<close>

text \<open>
  \<open>read\<close> fills an array of 1024 bytes, which keeps what the bytes of the last call do not replace; the array is then walked string by
  string up to an empty one.  \<open>None\<close>: the walk leaves the array.
\<close>

definition MEM_BUF :: nat where "MEM_BUF = 1024"

function walk :: "(bytes \<Rightarrow> string) \<Rightarrow> bytes \<Rightarrow> string option" where
  "walk show_line b =
     (if NUL \<notin> set b then None
      else if hd b = NUL then Some []
      else map_option (\<lambda>t. show_line b @ t) (walk show_line (drop (length (cstr b) + 1) b)))"
  by pat_completeness auto
termination
  by (relation "measure (\<lambda>(show_line, b). length b)") (auto dest: length_pos_if_in_set)

declare walk.simps [simp del]

text \<open>The line at the start of \<open>b\<close>.\<close>

definition info_line :: "bytes \<Rightarrow> string" where
  "info_line b =
     (if strncmp_eq b ''VmPeak:'' 7 then ''VmPeak: '' @ cstr (drop 8 b)
      else if strncmp_eq b ''VmSize:'' 7 then ''VmSize: '' @ cstr (drop 8 b)
      else if strncmp_eq b ''VmRSS:'' 6 then ''VmRSS: '' @ cstr (drop 7 b)
      else if strncmp_eq b ''VmHWM:'' 6 then ''VmHWM: '' @ cstr (drop 7 b)
      else [])"

text \<open>The loop over the results of \<open>read\<close>, up to the end of the file or an error.\<close>

fun read_walk :: "(bytes \<Rightarrow> string) \<Rightarrow> bytes \<Rightarrow> bytes list \<Rightarrow> string option" where
  "read_walk show_line buf [] = Some []"
| "read_walk show_line buf (d # ds) = (let b = d @ drop (length d) buf in
     case walk show_line b of None \<Rightarrow> None
     | Some t \<Rightarrow> map_option (\<lambda>u. t @ u) (read_walk show_line b ds))"

text \<open>\<open>None\<close> for the reads when the file cannot be opened.\<close>

definition printMemoryInfo :: "bytes \<Rightarrow> bytes list option \<Rightarrow> string option" where
  "printMemoryInfo garbage f = (case f of None \<Rightarrow> Some [] | Some ds \<Rightarrow> read_walk info_line garbage ds)"

definition printMemoryMap :: "bytes \<Rightarrow> bytes list option \<Rightarrow> string option" where
  "printMemoryMap garbage f = (case f of None \<Rightarrow> Some [] | Some ds \<Rightarrow> read_walk cstr garbage ds)"

definition mem_main :: "nat \<Rightarrow> bytes \<Rightarrow> bytes list option \<Rightarrow> bytes \<Rightarrow> bytes list option \<Rightarrow> string option" where
  "mem_main pid g1 status g2 maps = (case (printMemoryInfo g1 status, printMemoryMap g2 maps) of
     (Some s, Some m) \<Rightarrow> Some (''Process ID: '' @ dec_nat pid @ [NL] @ s @ [NL] @ m) | _ \<Rightarrow> None)"

subsection \<open>What it shows\<close>

lemma walk_one:
  assumes "nonul d" "d \<noteq> []" and b: "b = d @ NUL # NUL # r"
  shows "walk show_line b = Some (show_line b)"
proof -
  have c: "cstr b = d" using assms(1) unfolding b cstr_def by (intro takeWhile_stop) (auto simp: nonul_def)
  have "hd b \<noteq> NUL" using assms(1,2) unfolding b by (cases d) (auto simp: nonul_def)
  moreover have "drop (length d + 1) b = NUL # r" unfolding b by simp
  moreover have "walk show_line (NUL # r) = Some []" by (subst walk.simps) simp
  moreover have "NUL \<in> set b" unfolding b by simp
  ultimately show ?thesis by (subst walk.simps) (simp only: c if_False not_True_eq_False option.map append_Nil2)
qed

text \<open>
  A read that fills the array with text makes the program run out of it.  Of a shorter first read the lines of the
  status file are not found, as only its beginning is looked at.  A shorter read after a longer one shows the tail of the longer one again.
\<close>

lemma mem_report:
  shows "nonul d \<Longrightarrow> length d = MEM_BUF \<Longrightarrow> length buf = MEM_BUF \<Longrightarrow> read_walk f buf (d # ds) = None"
    and "nonul d \<Longrightarrow> d \<noteq> [] \<Longrightarrow> hd d \<noteq> CHR ''V'' \<Longrightarrow> length d + 2 \<le> MEM_BUF \<Longrightarrow>
      printMemoryInfo (replicate MEM_BUF NUL) (Some [d]) = Some []"
    and "nonul d \<Longrightarrow> nonul d' \<Longrightarrow> d' \<noteq> [] \<Longrightarrow> length d' < length d \<Longrightarrow> length d + 2 \<le> MEM_BUF \<Longrightarrow>
      printMemoryMap (replicate MEM_BUF NUL) (Some [d, d']) = Some (d @ d' @ drop (length d') d)"
proof -
  show "read_walk f buf (d # ds) = None" if "nonul d" "length d = MEM_BUF" "length buf = MEM_BUF" for d buf f ds
    using that by (simp add: Let_def walk.simps nonul_def)
  have zeros: "replicate n NUL = NUL # NUL # replicate (n - 2) NUL" if "2 \<le> n" for n
    using that by (cases n; cases "n - 1") (simp_all add: numeral_2_eq_2)
  have one: "walk g (d @ drop (length d) (replicate MEM_BUF NUL)) = Some (g (d @ drop (length d) (replicate MEM_BUF NUL)))"
    if "nonul d" "d \<noteq> []" "length d + 2 \<le> MEM_BUF" for d g
  proof -
    have "drop (length d) (replicate MEM_BUF NUL) = NUL # NUL # replicate (MEM_BUF - length d - 2) NUL"
      using that(3) zeros[of "MEM_BUF - length d"] by simp
    with walk_one[OF that(1,2) refl] show ?thesis by simp
  qed
  show "printMemoryInfo (replicate MEM_BUF NUL) (Some [d]) = Some []"
    if d: "nonul d" "d \<noteq> []" "hd d \<noteq> CHR ''V''" "length d + 2 \<le> MEM_BUF" for d
  proof -
    obtain c r where cr: "d = c # r" using d(2) by (cases d) auto
    with d(1,3) have "\<not> strncmp_eq (d @ b) (CHR ''V'' # p) (Suc n)" for b p n
      by (auto simp: strncmp_eq_def cstr_def nonul_def)
    then have "\<not> strncmp_eq (d @ b) (CHR ''V'' # p) 7" "\<not> strncmp_eq (d @ b) (CHR ''V'' # p) 6" for b p
      by (metis numeral_eq_Suc)+
    then have "info_line (d @ b) = []" for b by (simp add: info_line_def)
    with one[OF d(1,2,4)] show ?thesis by (simp add: printMemoryInfo_def Let_def)
  qed
  show "printMemoryMap (replicate MEM_BUF NUL) (Some [d, d']) = Some (d @ d' @ drop (length d') d)"
    if d: "nonul d" "nonul d'" "d' \<noteq> []" "length d' < length d" "length d + 2 \<le> MEM_BUF" for d d'
  proof -
    let ?z = "drop (length d) (replicate MEM_BUF NUL)"
    have z: "?z = NUL # NUL # replicate (MEM_BUF - length d - 2) NUL" using zeros[of "MEM_BUF - length d"] d(5) by simp
    have c: "cstr (e @ ?z) = e" if "nonul e" for e using that unfolding z cstr_def by (intro takeWhile_stop) (auto simp: nonul_def)
    let ?e = "d' @ drop (length d') d"
    have e: "nonul ?e" "?e \<noteq> []" "length ?e = length d" using d by auto
    have "walk cstr (?e @ ?z) = Some (cstr (?e @ ?z))"
      unfolding z by (rule walk_one[OF e(1,2) refl])
    moreover have "d' @ drop (length d') (d @ ?z) = ?e @ ?z" using d(4) by simp
    moreover have "d \<noteq> []" using d(4) by auto
    ultimately show ?thesis using one[OF d(1) _ d(5), of cstr] c[OF d(1)] c[OF e(1)] d(3,4)
      by (simp add: printMemoryMap_def Let_def)
  qed
qed

end
