(* ===== verification/Spec2Isabelle.thy ===== *)
theory Spec2Isabelle
  imports Fifo_Session Monitor_Properties Shell_Properties Copy_Refinement Copy_Startup
    Integral_Properties Integral_Typing Duplex_Properties Monte_Carlo_Properties Logger_Properties
    Producer_Consumer_Properties Counting Token_Server Seq_Pipe Tcp_Echo Udp_Echo
    Ipc_Examples Signal_Counts Integral_Bounds Inotify_Readers Exec_Examples Pipe_Examples Poll_Examples File_Examples
begin

text \<open>
  Models and theorems for the C programs of this repository, the homework of a course on system
  programming.  Each program is a directory of its own under src/, they share no code apart from copies of
  a logger (\<open>Logger\<close>), and each has its own theories here.  Pure C functions are HOL functions, functions with effects
  take and return a record of the state, processes and threads that run side by side are inductive step
  relations, and a call that can fail, block or not return has a result type that says so.

  \<^bold>\<open>Shared theories.\<close>  \<open>Prelude\<close> holds the types and generic lemmas on lists and loops, \<open>CString\<close> the C string
  functions on character lists, \<open>Stdio_Format\<close> the conversions of \<open>printf\<close> and \<open>scanf\<close>, \<open>Getopt\<close> GNU
  \<open>getopt\<close>.  \<open>Kernel\<close> is the system seen by one process: open descriptors, what \<open>read\<close> will return,
  what was written, epoll registrations, names; failing calls and partial writes are scripts in its
  record, so that the theorems hold for all of them.  Its locale \<open>fd_provider\<close> states what opening and closing
  promise.  \<open>Fd_Table\<close> is a table of descriptors with the lowest-free-number rule, for programs in which the
  numbers matter.  \<open>Copy_Protocol\<close> is the contract of a channel that neither loses nor reorders bytes,
  and \<open>Bounded_Runs\<close> that of a step relation whose runs end; both are locales with interpretations on
  the programs' step relations.

  \<^bold>\<open>File server with FIFOs\<close> (src/task\_7/homework).  \<open>Fifo_Paths\<close> is fifo.c.  \<open>Fifo_Server\<close> is
  server.c and main\_server.c: the table of 64 clients, registration, commands, the epoll loop, shutdown.
  \<open>Fifo_Client\<close> is the client and the thread that sends a file.  \<open>Fifo_Server_Inv\<close> proves the invariant of
  the table (ids, descriptors, registrations, at most 64 clients) for every operation and the loop;
  \<open>Fifo_Properties\<close> proves that the server closes what it opened, that requests in pieces are served in
  order, that a file arrives as it was, that the table implements a map from ids to clients.  \<open>Fifo_Session\<close>
  puts client and server together: what one writes is what the other reads, from the registration to
  the last byte of the file.

  \<^bold>\<open>Backup daemon\<close> (src/task\_6/homework).  \<open>Backup_Fs\<close> is the file system, \<open>File_Search\<close> file.c with libmagic
  as a parameter and a recursion over the descriptors that can still be opened, of which each level keeps one (lemma
  \<open>search_descriptors\<close> says what it returns when they run out), \<open>Backup\<close> backup.c with the shell that runs diff and patch as a
  parameter, \<open>Monitor\<close> and \<open>Monitor_Daemon\<close> daemon.c, config.c and main.c, \<open>Monitor_Cmd\<close> ipc.c.
  \<open>Monitor_Watch\<close>, \<open>Backup_Detect\<close> and \<open>Backup_Restore\<close> are lemma groups on watches and the
  queue, on change detection and on restoring; the results are in \<open>Backup_Properties\<close> and
  \<open>Monitor_Properties\<close>.  The hypotheses on diff and patch say that patch applied to a diff gives the
  new file, those on the kernel that watch descriptors of different directories differ.

  \<^bold>\<open>Shell\<close> (src/sem\_1/homework).  \<open>Shell\<close> is the parser of command\_parser.c, the reading loop and the
  pipeline runner; \<open>Shell_Properties\<close> proves the parser equal to a lexer on characters and that every
  command of a pipeline gets the right descriptors and no other pipe ends.

  \<^bold>\<open>Copies between two processes.\<close>  \<open>Duplex\<close> (src/sem\_2/homework, two pipes), \<open>Shm_Transfer\<close> and
  \<open>Queue_Transfer\<close> (src/sem\_3/homework: shared memory with semaphores, a message queue, a named pipe) and
  \<open>Signal_Copy\<close> (src/task\_5/homework, shared memory with realtime signals).  For each: the output
  is a prefix of the input in every interleaving, when it is complete, whether every run ends, and the
  exact circumstances in which the programs lose data or hang.  \<open>Copy_Refinement\<close> shows that the four
  step relations refine one specification of a channel.  \<open>Copy_Startup\<close> is what the programs of sem\_3 and
  task\_5 do before and after the copy: the calls as a list, each with its early return, and which objects
  of the system a failing start leaves behind.

  \<^bold>\<open>Integration.\<close>  \<open>Monte_Carlo\<close> is src/sem\_4/homework: threads under a mutex, with the addition to the
  counter split into a load and a store.  \<open>Wire_Format\<close>, \<open>Integral_Server\<close> and \<open>Integral_Client\<close> are
  src/task\_8/homework: the text messages, one server, discovery, options and the client; of the merge conflicts
  in config.c the task-8 side is modelled.  \<open>Wire_Codec\<close> proves the round trips of single fields as
  interpretations of the locale \<open>field_codec\<close>, \<open>Integral_Properties\<close> those of the messages
  and what client and servers compute together; \<open>Integral_Typing\<close> shows which values the fields of a
  configuration and of a job can have, whatever the command line and the network; \<open>Integral_Bounds\<close> that the integral that
  is printed fits the box.

  \<^bold>\<open>Logger.\<close>  \<open>Logger\<close> is log.c and log.h, of which the three larger programs have a copy each, with the
  differences between the copies as an argument; \<open>Logger_Properties\<close> proves the removal of colour codes in
  place equal to a definition on strings and says what the log of a program holds whose threads share it, in any order of the calls that
  a record consists of.

  \<^bold>\<open>Programs of the lectures.\<close>  \<open>Producer_Consumer\<close> is producer-cons.c of src/sem\_4/examples,
  a bounded buffer with a mutex, two condition variables and a signal handler; \<open>Producer_Consumer_Properties\<close>
  proves the bounds of the buffer and the conservation of items for every interleaving and gives two
  ways to hang.  \<open>Counting\<close> is three programs there whose threads add to a shared counter: exactly which
  numbers each can print.  \<open>Token_Server\<close> is mq\_server.c and mq\_client.c of src/sem\_3/examples: numbers
  are unique, and run out with the descriptors of the server.  \<open>Seq_Pipe\<close> is 10\_exec\_pipes.c of
  src/sem\_1/examples, a pipeline run one command at a time: its descriptor numbers, its result, and when it hangs.
  \<open>Tcp_Echo\<close> is tcp\_server.c and tcp\_client.c of src/task\_8/examples with any division of the streams into reads,
  \<open>Udp_Echo\<close> the two programs in the root of src/task\_8.  \<open>Ipc_Examples\<close> is sender.c and receiver.c of
  src/sem\_3/examples, which use different queues, and 6\_posix\_cnt\_sem.c of src/sem\_4/examples.  \<open>Signal_Counts\<close> is
  6\_sig\_stand\_vs\_realtime.c of src/task\_5/examples: which signals are lost.  \<open>Inotify_Readers\<close> is three
  programs of src/task\_6/examples that take inotify's events out of bytes, one right and two wrong.  \<open>Pipe_Examples\<close> is five programs of
  src/sem\_1/examples and src/sem\_2/examples: passing text through a pipe or a FIFO, an instance of \<open>Copy_Protocol\<close>, and filling a
  pipe.  \<open>Exec_Examples\<close> is 4\_2\_exec\_pedantic.c of src/sem\_1/examples: what is printed in which order.  \<open>Poll_Examples\<close>
  (src/task\_7/examples) waits for input that \<open>scanf\<close> then reads, and \<open>File_Examples\<close> (src/task\_6/examples) shows permissions and
  the memory of a process.

  \<^bold>\<open>Bounds and fuel.\<close>  Machine integers are words where wrap-around can matter (the inotify masks, the
  counters of the threads); sizes that are bounded by buffers are natural numbers with the bound in
  the definitions.  Loops over input from outside run over the list of what the calls return; loops
  with fuel have theorems that state how much is enough (\<open>duplex_copy\<close>: more than the length of the file;
  \<open>ansi_removed_in_place\<close>: one turn for each byte),
  step relations a bound on the length of their runs (\<open>shm_copy_terminates\<close>, \<open>fifo_copy_correct\<close>,
  \<open>integral_of_all_hits\<close>).  A double is a rational number with the rounding function as a parameter,
  or NaN.

  \<^bold>\<open>Not modelled.\<close>  The other programs in the directories called examples show single system calls in
  lectures and are used by no program, and some of them do not compile; scripts and graphs; what is printed for the user alone
  or logged (the logger is modelled by itself), and time measurement.  Some idealisations remain in what is modelled: the server's opening of a client's FIFO for writing
  does not block, the message queue of the copy is new and empty, threads that log take turns by whole calls (inside a call there is no race for
  the buffer), the watches on a new directory tree do not use up descriptors, NaN is printed as nan without a sign, and where servers are taken to answer as
  the model of the server does they share one time for their seeds.  Allocation is taken to succeed where the code does not check it.
  What the programs call but the repository does not hold (libmagic, diff, patch, \<open>exp\<close>, \<open>rand_r\<close>, the
  scheduler, the network) is a parameter or left open by a step relation.
\<close>

end
